(* ===== verification/Prelude.thy ===== *)
theory Prelude
  imports Main "HOL-Library.Word" "HOL-Library.Signed_Division"
begin

text \<open>
  What the components share: names for the machine integers of the guest (rv64, so
  \<open>size_t\<close> is 64 bits), C++'s signed division, \<open>std::to_string\<close>, the collections of
  rewrite rules the component proofs use, and generic facts on lists, folds and words.
\<close>

section \<open>Machine integers\<close>

type_synonym u8 = "8 word"
type_synonym u32 = "32 word"
type_synonym u64 = "64 word"

text \<open>
  Signed integers are the same bits, read with \<open>sint\<close> and compared with \<open>word_sless\<close>;
  a C++ cast between the signed and the unsigned type of one width is then the identity.
\<close>

type_synonym i32 = "32 word"
type_synonym i64 = "64 word"

text \<open>C++'s \<open>/\<close> and \<open>%\<close> on signed integers: truncation towards zero.\<close>

definition sdiv_w :: "'a::len word \<Rightarrow> 'a word \<Rightarrow> 'a word" where
  "sdiv_w a b = word_of_int (sint a sdiv sint b)"

definition smod_w :: "'a::len word \<Rightarrow> 'a word \<Rightarrow> 'a word" where
  "smod_w a b = word_of_int (sint a smod sint b)"

section \<open>Rule collections\<close>

named_theorems list_upd \<open>facts on lists updated by index\<close>
named_theorems no_wrap \<open>word arithmetic that does not wrap, as natural numbers\<close>

section \<open>Decimal strings (std::to_string)\<close>

definition digit_char :: "nat \<Rightarrow> char" where
  "digit_char d = char_of (48 + d)"

fun dec_digits :: "nat \<Rightarrow> string" where
  "dec_digits n = (if n < 10 then [digit_char n] else dec_digits (n div 10) @ [digit_char (n mod 10)])"

declare dec_digits.simps [simp del]

definition to_string :: "int \<Rightarrow> string" where
  "to_string i = (if i < 0 then ''-'' @ dec_digits (nat (- i)) else dec_digits (nat i))"

section \<open>Lists and folds\<close>

lemma nth_update_if [list_upd]:
  "i < length xs \<Longrightarrow> xs[j := y] ! i = (if i = j then y else xs ! i)"
  by (simp add: nth_list_update)

lemma fold_length_inv:
  "(\<And>x s. length (f x s) = length s) \<Longrightarrow> length (fold f xs s) = length s"
  by (induction xs arbitrary: s) auto

lemma fold_invariant_prefix:
  assumes "P [] s"
    and "\<And>ys x zs s. xs = ys @ x # zs \<Longrightarrow> P ys s \<Longrightarrow> P (ys @ [x]) (f x s)"
  shows "P xs (fold f xs s)"
proof -
  have "\<exists>zs. xs = ys @ zs \<Longrightarrow> P ys (fold f ys s)" for ys
  proof (induction ys rule: rev_induct)
    case Nil
    then show ?case using assms(1) by simp
  next
    case (snoc y ys)
    then obtain zs where "xs = ys @ y # zs" by auto
    then show ?case using snoc.IH assms(2) by simp
  qed
  then show ?thesis by simp
qed

lemma take_drop_append_nth:
  "a + n \<le> length xs \<Longrightarrow> take n (drop a xs) = map (\<lambda>i. xs ! i) [a..<a + n]"
  by (intro nth_equalityI) auto

section \<open>Machines driven by a list of inputs\<close>

text \<open>
  The guest's components are all driven from outside, one call at a time. A component that
  keeps an invariant over every call it accepts keeps it over every history of calls.
\<close>

locale machine =
  fixes step :: "'i \<Rightarrow> 's \<Rightarrow> 's"
    and inv :: "'s \<Rightarrow> bool"
  assumes step_inv: "inv s \<Longrightarrow> inv (step i s)"
begin

lemma run_inv: "inv s \<Longrightarrow> inv (fold step is s)"
  by (induction "is" arbitrary: s) (simp_all add: step_inv)

end

section \<open>Words without wrap-around\<close>

lemma unat_add_no_wrap [no_wrap]:
  "unat (a :: 'a::len word) + unat b < 2 ^ LENGTH('a) \<Longrightarrow> unat (a + b) = unat a + unat b"
  by (simp add: unat_word_ariths)

lemma unat_mult_no_wrap [no_wrap]:
  "unat (a :: 'a::len word) * unat b < 2 ^ LENGTH('a) \<Longrightarrow> unat (a * b) = unat a * unat b"
  by (simp add: unat_word_ariths)

lemma unat_lt64: "unat (w :: 64 word) < 2 ^ 64"
  using unsigned_less [of w] by simp

lemma unat_lt32: "unat (w :: 32 word) < 2 ^ 32"
  using unsigned_less [of w] by simp

lemma unat_of_nat64: "n < 2 ^ 64 \<Longrightarrow> unat (word_of_nat n :: 64 word) = n"
  by (simp add: unat_of_nat)

lemma unat_of_nat32: "n < 2 ^ 32 \<Longrightarrow> unat (word_of_nat n :: 32 word) = n"
  by (simp add: unat_of_nat)

lemma unat_sub_no_wrap [no_wrap]:
  "b \<le> (a :: 'a::len word) \<Longrightarrow> unat (a - b) = unat a - unat b"
  by (simp add: unat_sub)

end
