(* ===== verification/MeshWire.thy ===== *)
theory MeshWire
  imports Prelude
begin

text \<open>
  \<open>guest/common/mesh_wire.h\<close>: how meshes and boundary loops cross the host boundary as
  packed arrays. \<open>validate\<close> checks a vertex/triangle pair, \<open>encode_loops\<close> and
  \<open>decode_loops\<close> are the packed form of a list of index loops. An \<open>int32_t\<close> is a
  32-bit word read with \<open>sint\<close>; a \<open>std::string &err\<close> that is set before
  \<open>return false\<close> is the left side of a sum.
\<close>

section \<open>Validation\<close>

text \<open>The index loop of \<open>validate\<close>: the first index out of \<open>[0, n)\<close> is reported.\<close>

fun bad_index :: "int \<Rightarrow> nat \<Rightarrow> i32 list \<Rightarrow> string option" where
  "bad_index n i [] = None"
| "bad_index n i (x # xs) =
     (if sint x < 0 \<or> sint x \<ge> n
      then Some (''triangles['' @ to_string (int i) @ ''] = '' @ to_string (sint x) @
                 '' out of range [0, '' @ to_string n @ '')'')
      else bad_index n (Suc i) xs)"

definition validate :: "'f list \<Rightarrow> i32 list \<Rightarrow> string + unit" where
  "validate v f =
     (if length v mod 3 \<noteq> 0
      then Inl (''vertices: size '' @ to_string (int (length v)) @ '' is not a multiple of 3'')
      else if length f mod 3 \<noteq> 0
      then Inl (''triangles: size '' @ to_string (int (length f)) @ '' is not a multiple of 3'')
      else (case bad_index (int (length v div 3)) 0 f of
              Some e \<Rightarrow> Inl e
            | None \<Rightarrow> Inr ()))"

lemma bad_index_None:
  "bad_index n i f = None \<longleftrightarrow> (\<forall>x \<in> set f. 0 \<le> sint x \<and> sint x < n)"
  by (induction f arbitrary: i) auto

text \<open>
  A pair passes \<open>validate\<close> exactly when both sizes are multiples of three and every
  triangle corner names one of the vertices.
\<close>

theorem validate_accepts:
  "validate v f = Inr () \<longleftrightarrow>
     length v mod 3 = 0 \<and> length f mod 3 = 0 \<and>
     list_all (\<lambda>x. 0 \<le> sint x \<and> sint x < int (length v div 3)) f"
  using bad_index_None [of "int (length v div 3)" 0 f]
  by (cases "bad_index (int (length v div 3)) 0 f") (auto simp: validate_def list_all_iff)

section \<open>Boundary loops\<close>

definition encode_loops :: "i32 list list \<Rightarrow> i32 list" where
  "encode_loops loops =
     word_of_nat (length loops) # concat (map (\<lambda>l. word_of_nat (length l) # l) loops)"

text \<open>
  The loop of \<open>decode_loops\<close> with \<open>k\<close> iterations left, at offset \<open>at\<close>: a header out of
  the input, negative or longer than what is left is a failure, and the loops decoded so
  far stay in the output parameter.
\<close>

fun decode_from :: "nat \<Rightarrow> nat \<Rightarrow> i32 list \<Rightarrow> i32 list list \<Rightarrow> bool \<times> i32 list list" where
  "decode_from 0 at inp loops = (at = length inp, loops)"
| "decode_from (Suc k) at inp loops =
     (if length inp \<le> at \<or> sint (inp ! at) < 0 \<or> length inp < at + 1 + unat (inp ! at)
      then (False, loops)
      else decode_from k (at + 1 + unat (inp ! at)) inp
             (loops @ [take (unat (inp ! at)) (drop (at + 1) inp)]))"

definition decode_loops :: "i32 list \<Rightarrow> bool \<times> i32 list list" where
  "decode_loops inp =
     (if inp = [] then (False, []) else decode_from (nat (sint (inp ! 0))) 1 inp [])"

lemma decode_from_step:
  "0 < k \<Longrightarrow> decode_from k at inp loops =
     (if length inp \<le> at \<or> sint (inp ! at) < 0 \<or> length inp < at + 1 + unat (inp ! at)
      then (False, loops)
      else decode_from (k - 1) (at + 1 + unat (inp ! at)) inp
             (loops @ [take (unat (inp ! at)) (drop (at + 1) inp)]))"
  by (cases k) simp_all

definition wire_len :: "'a list \<Rightarrow> bool" where
  "wire_len xs \<longleftrightarrow> length xs < 2 ^ 31"

lemma sint_word_of_nat32 [simp]:
  "n < 2 ^ 31 \<Longrightarrow> sint (word_of_nat n :: i32) = int n"
  by (simp add: signed_of_nat signed_take_bit_int_eq_self)

lemma unat_word_of_nat32 [simp]:
  "n < 2 ^ 31 \<Longrightarrow> unat (word_of_nat n :: i32) = n"
  by (simp add: unat_of_nat)

lemma decode_from_encoded:
  assumes "list_all wire_len loops"
  shows "decode_from (length loops) (length pre)
           (pre @ concat (map (\<lambda>l. word_of_nat (length l) # l) loops)) acc = (True, acc @ loops)"
  using assms
proof (induction loops arbitrary: pre acc)
  case Nil
  then show ?case by simp
next
  case (Cons l ls)
  let ?h = "word_of_nat (length l) :: i32"
  have "decode_from (length ls) (length (pre @ ?h # l))
          ((pre @ ?h # l) @ concat (map (\<lambda>l. word_of_nat (length l) # l) ls)) (acc @ [l]) =
        (True, (acc @ [l]) @ ls)"
    using Cons by (intro Cons.IH) simp
  then show ?case using Cons.prems by (simp add: wire_len_def nth_append)
qed

text \<open>
  C26: loops whose count and lengths fit an \<open>int32_t\<close> survive the trip across the boundary.
\<close>

theorem loops_roundtrip:
  assumes "wire_len loops" and "list_all wire_len loops"
  shows "decode_loops (encode_loops loops) = (True, loops)"
  using decode_from_encoded [OF assms(2), of "[word_of_nat (length loops)]" "[]"] assms(1)
  by (simp add: decode_loops_def encode_loops_def wire_len_def)

theorem loops_roundtrip_witness:
  "decode_loops (encode_loops [[4, 5, 6], [], [7]]) = (True, [[4, 5, 6], [], [7]])"
  by (rule loops_roundtrip) (simp_all add: wire_len_def)

lemma unat_sint_nonneg: "0 \<le> sint (x :: i32) \<Longrightarrow> word_of_nat (unat x) = x"
  by simp

lemma decode_from_inverse:
  "decode_from k at inp acc = (True, res) \<Longrightarrow> at \<le> length inp \<Longrightarrow>
   \<exists>ls. res = acc @ ls \<and> length ls = k \<and>
        drop at inp = concat (map (\<lambda>l. word_of_nat (length l) # l) ls)"
proof (induction k at inp acc rule: decode_from.induct)
  case (1 at inp loops)
  then show ?case by simp
next
  case (2 k at inp loops)
  let ?n = "unat (inp ! at)"
  from "2.prems" have ok: "at < length inp" "0 \<le> sint (inp ! at)" "at + 1 + ?n \<le> length inp"
    by (auto split: if_splits)
  with "2.prems" have "decode_from k (at + 1 + ?n) inp
      (loops @ [take ?n (drop (at + 1) inp)]) = (True, res)" by (simp split: if_splits)
  with "2.IH" ok obtain ls where ls: "res = (loops @ [take ?n (drop (at + 1) inp)]) @ ls"
      "length ls = k" "drop (at + 1 + ?n) inp = concat (map (\<lambda>l. word_of_nat (length l) # l) ls)"
    by (auto simp: not_le not_less)
  have "drop at inp = inp ! at # take ?n (drop (at + 1) inp) @ drop (at + 1 + ?n) inp"
    using ok append_take_drop_id [of ?n "drop (at + 1) inp"]
    by (simp add: Cons_nth_drop_Suc [symmetric] add.commute)
  with ls ok show ?case
    by (intro exI [of _ "take ?n (drop (at + 1) inp) # ls"]) simp
qed

text \<open>
  C25: every packed array the decoder accepts (with a non-negative count) is the encoding
  of what it returns, so nothing is dropped or read twice.
\<close>

theorem decode_loops_sound:
  assumes "decode_loops inp = (True, loops)" and "0 \<le> sint (hd inp)"
  shows "encode_loops loops = inp"
proof -
  from assms(1) have ne: "inp \<noteq> []" and d: "decode_from (nat (sint (inp ! 0))) 1 inp [] = (True, loops)"
    by (auto simp: decode_loops_def split: if_splits)
  from decode_from_inverse [OF d] ne obtain ls where
    "loops = ls" "length ls = nat (sint (inp ! 0))"
    "drop 1 inp = concat (map (\<lambda>l. word_of_nat (length l) # l) ls)"
    by (cases inp) auto
  moreover have "word_of_nat (nat (sint (inp ! 0))) = inp ! 0"
    using assms(2) ne by (simp add: hd_conv_nth word_of_int_nat)
  ultimately show ?thesis using ne
    by (cases inp) (auto simp: encode_loops_def)
qed

theorem decode_loops_sound_witness:
  "encode_loops [[9], [8, 7]] = [2, 1, 9, 2, 8, 7]"
  by (rule decode_loops_sound) (simp_all add: decode_loops_def decode_from_step)

end
