(* ===== verification/Topology.thy ===== *)
theory Topology
  imports Prelude "HOL-Library.Multiset"
begin

text \<open>
  \<open>guest/avbd/avbd_topology.cpp\<close>: the vertex-to-constraint CSR each gather kernel walks
  and the greedy vertex colouring that turns a Jacobi sweep into Gauss-Seidel passes.
  Vertex, constraint and colour numbers are natural numbers: a mesh has fewer than
  \<open>2 ^ 32\<close> of each, and the code only counts them up. Both functions finish with the
  same three loops (count the keys, prefix-sum the counts, place through a cursor);
  \<open>bucket_counts\<close> and \<open>bucket_offsets\<close> are the first two, and the third is one
  definition per function, with a shared lemma.
\<close>

section \<open>Counting and offsets\<close>

definition bucket_counts :: "nat \<Rightarrow> nat list \<Rightarrow> nat list" where
  "bucket_counts n keys = fold (\<lambda>k cs. cs[k := cs ! k + 1]) keys (replicate n 0)"

definition bucket_offsets :: "nat \<Rightarrow> nat list \<Rightarrow> nat list" where
  "bucket_offsets n counts =
     fold (\<lambda>v os. os[v + 1 := os ! v + counts ! v]) [0..<n] (replicate (n + 1) 0)"

definition place_step :: "('a \<Rightarrow> nat) \<Rightarrow> nat list \<Rightarrow> 'a \<Rightarrow> 'a list \<times> nat list \<Rightarrow> 'a list \<times> nat list" where
  "place_step key offsets x = (\<lambda>(arr, cursor).
     (arr[offsets ! key x + cursor ! key x := x], cursor[key x := cursor ! key x + 1]))"

text \<open>What a placed array holds: the items of key 0 in order, then those of key 1, and so on.\<close>

definition buckets :: "('a \<Rightarrow> nat) \<Rightarrow> 'a list \<Rightarrow> nat \<Rightarrow> 'a list" where
  "buckets key items n = concat (map (\<lambda>k. filter (\<lambda>x. key x = k) items) [0..<n])"

lemma buckets_Suc: "buckets key items (Suc n) = buckets key items n @ filter (\<lambda>x. key x = n) items"
  by (simp add: buckets_def)

lemma length_bucket_counts [simp]: "length (bucket_counts n keys) = n"
  unfolding bucket_counts_def by (subst fold_length_inv) simp_all

lemma bucket_counts_nth:
  "k < n \<Longrightarrow> bucket_counts n keys ! k = count_list keys k"
proof -
  have "length cs = n \<Longrightarrow> k < n \<Longrightarrow>
      fold (\<lambda>k cs. cs[k := cs ! k + 1]) keys cs ! k = cs ! k + count_list keys k" for cs :: "nat list"
    by (induction keys arbitrary: cs) (auto simp: nth_list_update)
  then show "k < n \<Longrightarrow> bucket_counts n keys ! k = count_list keys k"
    by (simp add: bucket_counts_def)
qed

lemma count_list_filter: "count_list (map key items) k = length (filter (\<lambda>x. key x = k) items)"
  by (induction items) auto

lemma length_bucket_offsets [simp]: "length (bucket_offsets n counts) = n + 1"
  unfolding bucket_offsets_def by (subst fold_length_inv) simp_all

lemma bucket_offsets_nth:
  assumes "m \<le> n"
  shows "bucket_offsets n counts ! m = (\<Sum>u<m. counts ! u)"
proof -
  define f where "f = (\<lambda>v os. os[v + 1 := os ! v + counts ! v])"
  have "length (fold f [0..<j] (replicate (n + 1) 0)) = n + 1 \<and>
        (j \<le> n \<longrightarrow> (\<forall>m \<le> j. fold f [0..<j] (replicate (n + 1) 0) ! m = (\<Sum>u<m. counts ! u)))" for j
    by (induction j) (auto simp: f_def nth_list_update le_Suc_eq)
  then show ?thesis using assms by (simp add: bucket_offsets_def f_def)
qed

lemma bucket_offsets_length:
  assumes "m \<le> n"
  shows "bucket_offsets n (bucket_counts n (map key items)) ! m = length (buckets key items m)"
  using assms
proof (induction m)
  case 0
  then show ?case by (simp add: bucket_offsets_nth buckets_def)
next
  case (Suc m)
  then show ?case
    by (simp add: bucket_offsets_nth bucket_counts_nth buckets_Suc count_list_filter)
qed

section \<open>Placing\<close>

lemma buckets_mono: "m \<le> n \<Longrightarrow> length (buckets key items m) \<le> length (buckets key items n)"
  by (induction rule: dec_induct) (auto simp: buckets_Suc)

text \<open>A prefix of the items has been placed: where each is, and how far each cursor got.\<close>

definition placed :: "('a \<Rightarrow> nat) \<Rightarrow> nat \<Rightarrow> 'a list \<Rightarrow> 'a list \<Rightarrow> 'a list \<times> nat list \<Rightarrow> bool" where
  "placed key n items ys = (\<lambda>(arr, cursor).
     length arr = length (buckets key items n) \<and> length cursor = n \<and>
     (\<forall>k<n. cursor ! k = length (filter (\<lambda>x. key x = k) ys) \<and>
        (\<forall>j < cursor ! k. arr ! (length (buckets key items k) + j) = filter (\<lambda>x. key x = k) ys ! j)))"

lemma placed_step:
  assumes items: "items = ys @ x # zs" and key: "\<forall>x \<in> set items. key x < n"
    and offs: "\<And>k. k \<le> n \<Longrightarrow> offs ! k = length (buckets key items k)"
    and inv: "placed key n items ys s"
  shows "placed key n items (ys @ [x]) (place_step key offs x s)"
proof -
  obtain arr cursor where s: "s = (arr, cursor)" by (cases s)
  let ?B = "\<lambda>k. length (buckets key items k)" and ?F = "\<lambda>k ys. filter (\<lambda>x. key x = k) ys"
  let ?k = "key x"
  have kn: "?k < n" using items key by simp
  have cur: "cursor ! k = length (?F k ys)" if "k < n" for k
    using inv that by (simp add: placed_def s)
  have room: "?B k + length (?F k items) \<le> ?B k'" if "k < k'" for k k'
    using buckets_mono [of "Suc k" k' key items] that by (simp add: buckets_Suc)
  have lt: "length (?F ?k ys) < length (?F ?k items)" using items by simp
  have le: "length (?F k ys) \<le> length (?F k items)" for k using items by simp
  have inb: "?B ?k + length (?F ?k ys) < ?B n"
    using room [OF kn] lt by linarith
  have apart: "?B k + j \<noteq> ?B ?k + length (?F ?k ys)" if "k \<noteq> ?k" "j < length (?F k ys)" for k j
    using that room [of k ?k] room [of ?k k] lt le [of k] by (cases k ?k rule: linorder_cases) auto
  from inv kn inb show ?thesis
    by (auto simp: placed_def s place_step_def offs nth_list_update cur nth_append less_Suc_eq apart apart [symmetric])
qed

lemma placed_all:
  assumes key: "\<forall>x \<in> set items. key x < n"
    and offs: "\<And>k. k \<le> n \<Longrightarrow> offs ! k = length (buckets key items k)"
    and len: "length arr = length (buckets key items n)"
  shows "placed key n items items (fold (place_step key offs) items (arr, replicate n 0))"
proof (rule fold_invariant_prefix [where P = "placed key n items"])
  show "placed key n items [] (arr, replicate n 0)" by (simp add: placed_def len)
  show "placed key n items (ys @ [x]) (place_step key offs x s)"
    if "items = ys @ x # zs" "placed key n items ys s" for ys x zs s
    using that key offs by (intro placed_step) auto
qed

lemma take_drop_concat:
  assumes "\<And>k. k < n \<Longrightarrow> take (length (xs k)) (drop (length (concat (map xs [0..<k]))) arr) = xs k"
  shows "take (length (concat (map xs [0..<n]))) arr = concat (map xs [0..<n])"
  using assms by (induction n) (simp_all add: take_add)

lemma place_buckets:
  assumes key: "\<forall>x \<in> set items. key x < n"
    and offs: "\<And>k. k \<le> n \<Longrightarrow> offs ! k = length (buckets key items k)"
    and len: "length arr = length (buckets key items n)"
  shows "fst (fold (place_step key offs) items (arr, replicate n 0)) = buckets key items n"
proof -
  obtain a c where ac: "fold (place_step key offs) items (arr, replicate n 0) = (a, c)" by fastforce
  with placed_all [OF assms] have inv: "placed key n items items (a, c)" by simp
  let ?F = "\<lambda>k. filter (\<lambda>x. key x = k) items"
  have slice: "take (length (?F k)) (drop (length (buckets key items k)) a) = ?F k" if "k < n" for k
  proof -
    have "length (buckets key items k) + length (?F k) \<le> length a"
      using buckets_mono [of "Suc k" n key items] inv that by (simp add: placed_def buckets_Suc)
    with inv that show ?thesis by (intro nth_equalityI) (simp_all add: placed_def)
  qed
  have "take (length (buckets key items n)) a = buckets key items n"
    using take_drop_concat [of n ?F a] slice by (simp add: buckets_def)
  with inv ac show ?thesis by (simp add: placed_def)
qed

lemma mset_buckets: "mset (buckets key items n) = mset (filter (\<lambda>x. key x < n) items)"
proof (induction n)
  case 0
  then show ?case by (simp add: buckets_def)
next
  case (Suc n)
  have "mset (filter (\<lambda>x. key x < Suc n) items) =
        mset (filter (\<lambda>x. key x < n) items) + mset (filter (\<lambda>x. key x = n) items)"
    by (induction items) (auto simp: less_Suc_eq)
  with Suc show ?case by (simp add: buckets_Suc)
qed

lemma buckets_split:
  assumes "v < n"
  shows "buckets key items n = buckets key items v @ filter (\<lambda>x. key x = v) items @
     concat (map (\<lambda>k. filter (\<lambda>x. key x = k) items) [Suc v..<n])"
proof -
  have "[0..<n] = [0..<v] @ v # [Suc v..<n]"
    using assms upt_add_eq_append [of 0 v "n - v"] upt_conv_Cons [of v n] by simp
  then show ?thesis by (simp add: buckets_def)
qed

lemma buckets_mset: "\<forall>x \<in> set items. key x < n \<Longrightarrow> mset (buckets key items n) = mset items"
  by (simp only: mset_buckets filter_True)

section \<open>The constraint CSR\<close>

text \<open>The two nested loops of \<open>build_csr\<close>: constraint by constraint, role by role.\<close>

definition con_slots :: "nat \<Rightarrow> nat \<Rightarrow> (nat \<times> nat) list" where
  "con_slots nCon K = concat (map (\<lambda>c. map (\<lambda>r. (c, r)) [0..<K]) [0..<nCon])"

definition con_vert :: "nat \<Rightarrow> nat list \<Rightarrow> nat \<times> nat \<Rightarrow> nat" where
  "con_vert K conIdx = (\<lambda>(c, r). conIdx ! (K * c + r))"

definition csr_place :: "nat \<Rightarrow> nat list \<Rightarrow> nat list \<Rightarrow> nat \<times> nat \<Rightarrow>
    nat list \<times> nat list \<times> nat list \<Rightarrow> nat list \<times> nat list \<times> nat list" where
  "csr_place K conIdx offsets cr = (\<lambda>(idxArr, roleArr, cursor).
     let v = con_vert K conIdx cr; p = offsets ! v + cursor ! v
     in (idxArr[p := fst cr], roleArr[p := snd cr], cursor[v := cursor ! v + 1]))"

definition build_csr :: "nat \<Rightarrow> nat \<Rightarrow> nat \<Rightarrow> nat list \<Rightarrow> nat list \<times> nat list \<times> nat list" where
  "build_csr nV nCon K conIdx =
     (let slots = con_slots nCon K;
          counts = bucket_counts nV (map (con_vert K conIdx) slots);
          offsets = bucket_offsets nV counts;
          total = offsets ! nV;
          (idxArr, roleArr, cursor) =
            fold (csr_place K conIdx offsets) slots (replicate total 0, replicate total 0, replicate nV 0)
      in (offsets, idxArr, roleArr))"

lemma fold_csr_place:
  "fold (csr_place K conIdx offsets) slots (map fst arr, map snd arr, cursor) =
     (let (a, c) = fold (place_step (con_vert K conIdx) offsets) slots (arr, cursor)
      in (map fst a, map snd a, c))"
proof (induction slots arbitrary: arr cursor)
  case Nil
  then show ?case by simp
next
  case (Cons cr slots)
  let ?v = "con_vert K conIdx cr"
  show ?case
    using Cons [of "arr[offsets ! ?v + cursor ! ?v := cr]" "cursor[?v := cursor ! ?v + 1]"]
    by (simp add: csr_place_def place_step_def Let_def map_update)
qed

lemma build_csr_buckets:
  assumes "\<forall>cr \<in> set (con_slots nCon K). con_vert K conIdx cr < nV"
  shows "build_csr nV nCon K conIdx =
     (let b = buckets (con_vert K conIdx) (con_slots nCon K) nV
      in (map (\<lambda>v. length (buckets (con_vert K conIdx) (con_slots nCon K) v)) [0..<nV + 1],
          map fst b, map snd b))"
proof -
  let ?key = "con_vert K conIdx" and ?slots = "con_slots nCon K"
  define offs where "offs = bucket_offsets nV (bucket_counts nV (map ?key ?slots))"
  have offs: "offs ! k = length (buckets ?key ?slots k)" if "k \<le> nV" for k
    using that by (simp add: offs_def bucket_offsets_length)
  define arr0 :: "(nat \<times> nat) list" where "arr0 = replicate (offs ! nV) (0, 0)"
  obtain a c where ac: "fold (place_step ?key offs) ?slots (arr0, replicate nV 0) = (a, c)" by fastforce
  have a: "a = buckets ?key ?slots nV"
    using place_buckets [OF assms offs, of arr0] ac by (simp add: arr0_def offs)
  have "offs = map (\<lambda>v. length (buckets ?key ?slots v)) [0..<nV + 1]"
    by (intro nth_equalityI) (auto simp: offs_def offs [unfolded offs_def] simp del: upt_Suc)
  moreover have "fold (csr_place K conIdx offs) ?slots (replicate (offs ! nV) 0, replicate (offs ! nV) 0, replicate nV 0)
      = (map fst a, map snd a, c)"
    using fold_csr_place [of K conIdx offs ?slots arr0 "replicate nV 0"] ac by (simp add: arr0_def)
  ultimately show ?thesis using a
    by (simp add: build_csr_def offs_def [symmetric] Let_def)
qed

lemma con_slots_distinct: "distinct (con_slots nCon K)"
  by (induction nCon) (auto simp: con_slots_def distinct_map inj_on_def)

lemma set_con_slots: "set (con_slots nCon K) = {(c, r). c < nCon \<and> r < K}"
  by (auto simp: con_slots_def)

text \<open>
  C32: the CSR row of a vertex lists exactly the (constraint, role) slots that name it, each
  once, constraints in ascending order; \<open>offsets\<close> delimits the rows.
\<close>

theorem build_csr_rows:
  assumes "length conIdx = K * nCon" and "\<forall>v \<in> set conIdx. v < nV" and "v < nV"
  shows "case build_csr nV nCon K conIdx of (offsets, idxArr, roleArr) \<Rightarrow>
     take (offsets ! (v + 1) - offsets ! v) (drop (offsets ! v) (zip idxArr roleArr)) =
       filter (\<lambda>(c, r). conIdx ! (K * c + r) = v) (con_slots nCon K) \<and>
     length idxArr = K * nCon \<and> length roleArr = K * nCon \<and> offsets ! nV = K * nCon"
proof -
  let ?key = "con_vert K conIdx" and ?slots = "con_slots nCon K"
  have inb: "K * c + r < length conIdx" if "c < nCon" "r < K" for c r
  proof -
    have "K * c + r < K * Suc c" using that by simp
    also have "\<dots> \<le> K * nCon" using that by (intro mult_le_mono2) simp
    finally show ?thesis using assms(1) by simp
  qed
  then have key: "\<forall>cr \<in> set ?slots. ?key cr < nV"
    using assms(2) by (auto simp: set_con_slots con_vert_def)
  have "length ?slots = nCon * K"
    by (induction nCon) (simp_all add: con_slots_def)
  moreover have "length (buckets ?key ?slots nV) = length ?slots"
    using arg_cong [OF buckets_mset [OF key], of size] by simp
  ultimately have len: "length (buckets ?key ?slots nV) = K * nCon" by (simp add: mult.commute)
  have split: "buckets ?key ?slots nV = buckets ?key ?slots v @ filter (\<lambda>x. ?key x = v) ?slots @
      concat (map (\<lambda>k. filter (\<lambda>x. ?key x = k) ?slots) [Suc v..<nV])"
    using assms(3) by (rule buckets_split)
  have idx: "[0..<nV + 1] ! v = v" "[0..<nV + 1] ! Suc v = Suc v" "[0..<nV + 1] ! nV = nV"
    using assms(3) by (simp_all del: upt_Suc)
  show ?thesis
    using assms(3) len split
    by (simp add: build_csr_buckets [OF key] Let_def zip_map_fst_snd buckets_Suc con_vert_def
        case_prod_unfold idx del: upt_Suc)
qed

theorem build_csr_rows_witness:
  "case build_csr 3 2 2 [2, 0, 0, 2] of (offsets, idxArr, roleArr) \<Rightarrow>
     take (offsets ! (2 + 1) - offsets ! 2) (drop (offsets ! 2) (zip idxArr roleArr)) =
       filter (\<lambda>(c, r). [2, 0, 0, 2] ! (2 * c + r) = (2::nat)) (con_slots 2 2) \<and>
     length idxArr = 2 * 2 \<and> length roleArr = 2 * 2 \<and> offsets ! 3 = 2 * (2::nat)"
  by (rule build_csr_rows) simp_all

section \<open>Greedy colouring\<close>

subsection \<open>The adjacency lists\<close>

definition add_edge :: "nat \<times> nat \<Rightarrow> nat list list \<Rightarrow> nat list list" where
  "add_edge = (\<lambda>(a, b) adj.
     if a = b then adj
     else let adj1 = adj[a := adj ! a @ [b]] in adj1[b := adj1 ! b @ [a]])"

definition stencil_edges :: "nat \<Rightarrow> nat list \<Rightarrow> nat list \<Rightarrow> nat \<Rightarrow> nat list \<Rightarrow> nat \<Rightarrow> nat list \<Rightarrow> (nat \<times> nat) list" where
  "stencil_edges nSprings p1 p2 nTri triIdx nBend bendIdx =
     map (\<lambda>c. (p1 ! c, p2 ! c)) [0..<nSprings] @
     concat (map (\<lambda>c. let i0 = triIdx ! (3 * c); i1 = triIdx ! (3 * c + 1); i2 = triIdx ! (3 * c + 2)
                      in [(i0, i1), (i0, i2), (i1, i2)]) [0..<nTri]) @
     concat (map (\<lambda>c. let i0 = bendIdx ! (4 * c); i1 = bendIdx ! (4 * c + 1);
                          i2 = bendIdx ! (4 * c + 2); i3 = bendIdx ! (4 * c + 3)
                      in [(i0, i1), (i0, i2), (i0, i3), (i1, i2), (i1, i3), (i2, i3)]) [0..<nBend])"

definition adjacency :: "nat \<Rightarrow> (nat \<times> nat) list \<Rightarrow> nat list list" where
  "adjacency nV edges = fold add_edge edges (replicate nV [])"

lemma length_add_edge [simp]: "length (add_edge e adj) = length adj"
  by (cases e) (simp add: add_edge_def Let_def)

lemma length_fold_add_edge [simp]: "length (fold add_edge edges adj) = length adj"
  by (rule fold_length_inv) simp

lemma add_edge_nth:
  "v < length adj \<Longrightarrow> set (add_edge (a, b) adj ! v) =
     set (adj ! v) \<union> {u. u \<noteq> v \<and> ((v, u) = (a, b) \<or> (u, v) = (a, b))}"
  by (auto simp: add_edge_def Let_def nth_update_if)

lemma fold_add_edge_nth:
  "v < length adj \<Longrightarrow> set (fold add_edge edges adj ! v) =
     set (adj ! v) \<union> {u. u \<noteq> v \<and> ((v, u) \<in> set edges \<or> (u, v) \<in> set edges)}"
proof (induction edges arbitrary: adj)
  case (Cons e edges)
  then show ?case by (cases e) (auto simp: add_edge_nth)
qed simp

lemma adjacency_nth:
  "v < nV \<Longrightarrow> set (adjacency nV edges ! v) =
     {u. u \<noteq> v \<and> ((v, u) \<in> set edges \<or> (u, v) \<in> set edges)}"
  by (simp add: adjacency_def fold_add_edge_nth)

subsection \<open>First-fit colours\<close>

definition mark_step :: "int list \<Rightarrow> nat \<Rightarrow> bool list \<Rightarrow> bool list" where
  "mark_step color n used =
     (let cn = color ! n in if 0 \<le> cn \<and> nat cn < length used then used[nat cn := True] else used)"

definition mark_used :: "int list \<Rightarrow> nat list \<Rightarrow> bool list" where
  "mark_used color ns = fold (mark_step color) ns (replicate (length ns + 1) False)"

function first_free :: "nat \<Rightarrow> bool list \<Rightarrow> nat" where
  "first_free c used = (if c < length used \<and> used ! c then first_free (Suc c) used else c)"
  by pat_completeness auto
termination
  by (relation "measure (\<lambda>(c, used). length used - c)") auto

declare first_free.simps [simp del]

definition color_step :: "nat list list \<Rightarrow> nat \<Rightarrow> int list \<Rightarrow> int list" where
  "color_step adj v color = color[v := int (first_free 0 (mark_used color (adj ! v)))]"

definition color_all :: "nat \<Rightarrow> nat list list \<Rightarrow> int list" where
  "color_all nV adj = fold (color_step adj) [0..<nV] (replicate nV (- 1))"

lemma length_mark_step [simp]: "length (mark_step color n used) = length used"
  by (simp add: mark_step_def Let_def)

lemma length_fold_mark [simp]: "length (fold (mark_step color) ns used) = length used"
  by (rule fold_length_inv) simp

lemma mark_step_nth:
  "c < length used \<Longrightarrow> mark_step color n used ! c \<longleftrightarrow> used ! c \<or> color ! n = int c"
  by (auto simp: mark_step_def Let_def nth_list_update)

lemma mark_used_nth:
  assumes "c \<le> length ns"
  shows "mark_used color ns ! c \<longleftrightarrow> (\<exists>n \<in> set ns. color ! n = int c)"
proof -
  have "c < length used \<Longrightarrow>
      fold (mark_step color) ns used ! c \<longleftrightarrow> used ! c \<or> (\<exists>n \<in> set ns. color ! n = int c)" for used
    by (induction ns arbitrary: used) (auto simp: mark_step_nth)
  then show ?thesis using assms by (simp add: mark_used_def nth_append del: replicate_Suc)
qed

lemma first_free_spec:
  "c \<le> length used \<Longrightarrow> first_free c used \<le> length used \<and> c \<le> first_free c used \<and>
     (\<forall>i. c \<le> i \<and> i < first_free c used \<longrightarrow> used ! i) \<and>
     (first_free c used < length used \<longrightarrow> \<not> used ! first_free c used)"
proof (induction c used rule: first_free.induct)
  case (1 c used)
  show ?case
  proof (cases "c < length used \<and> used ! c")
    case True
    with 1 have IH: "first_free (Suc c) used \<le> length used \<and> Suc c \<le> first_free (Suc c) used \<and>
        (\<forall>i. Suc c \<le> i \<and> i < first_free (Suc c) used \<longrightarrow> used ! i) \<and>
        (first_free (Suc c) used < length used \<longrightarrow> \<not> used ! first_free (Suc c) used)" by simp
    have "used ! i" if "c \<le> i" "i < first_free (Suc c) used" for i
      using that IH True by (cases "i = c") auto
    with IH True show ?thesis by (simp add: first_free.simps [of c used])
  next
    case False
    with 1 show ?thesis by (auto simp: first_free.simps [of c used])
  qed
qed

text \<open>Of \<open>deg + 1\<close> flags at most \<open>deg\<close> are set, so the scan stops on a free one.\<close>

lemma first_free_mark:
  defines "c ns color \<equiv> first_free 0 (mark_used color ns)"
  shows "c ns color \<le> length ns" and "\<forall>n \<in> set ns. color ! n \<noteq> int (c ns color)"
proof -
  let ?used = "mark_used color ns"
  have len: "length ?used = length ns + 1" by (simp add: mark_used_def del: replicate_Suc)
  note spec = first_free_spec [of 0 ?used, simplified]
  show le: "c ns color \<le> length ns"
  proof (rule ccontr)
    assume "\<not> ?thesis"
    then have all: "\<exists>n \<in> set ns. color ! n = int i" if "i \<le> length ns" for i
      using that spec mark_used_nth [of i ns color] by (simp add: c_def)
    then have "int ` {..length ns} \<subseteq> (\<lambda>n. color ! n) ` set ns" by force
    then have "card (int ` {..length ns}) \<le> card ((\<lambda>n. color ! n) ` set ns)"
      by (intro card_mono) simp_all
    also have "\<dots> \<le> card (set ns)" by (rule card_image_le) simp
    also have "\<dots> \<le> length ns" by (rule card_length)
    finally show False by (simp add: card_image)
  qed
  with spec len have "\<not> ?used ! c ns color" by (simp add: c_def)
  with le show "\<forall>n \<in> set ns. color ! n \<noteq> int (c ns color)"
    by (simp add: mark_used_nth)
qed

lemma length_color_step [simp]: "length (color_step adj v color) = length color"
  by (simp add: color_step_def)

lemma color_all_prefix:
  assumes sym: "\<And>a b. a < nV \<Longrightarrow> b < nV \<Longrightarrow> b \<in> set (adj ! a) \<longleftrightarrow> a \<in> set (adj ! b)"
    and irr: "\<And>a. a < nV \<Longrightarrow> a \<notin> set (adj ! a)"
    and k: "k \<le> nV"
  shows "let col = fold (color_step adj) [0..<k] (replicate nV (- 1)) in
     length col = nV \<and> (\<forall>v<k. 0 \<le> col ! v) \<and>
     (\<forall>a<k. \<forall>b<k. b \<in> set (adj ! a) \<longrightarrow> col ! a \<noteq> col ! b)"
  using k
proof (induction k)
  case 0
  then show ?case by simp
next
  case (Suc k)
  define col where "col = fold (color_step adj) [0..<k] (replicate nV (- 1))"
  define c where "c = first_free 0 (mark_used col (adj ! k))"
  have new: "\<forall>n \<in> set (adj ! k). col ! n \<noteq> int c" unfolding c_def by (rule first_free_mark)
  have IH: "length col = nV" "\<forall>v<k. 0 \<le> col ! v"
      "\<forall>a<k. \<forall>b<k. b \<in> set (adj ! a) \<longrightarrow> col ! a \<noteq> col ! b"
    using Suc by (simp_all add: Let_def col_def)
  have apart: "col[k := int c] ! a \<noteq> col[k := int c] ! b"
    if "a < Suc k" "b < Suc k" "b \<in> set (adj ! a)" for a b
  proof -
    have "a \<noteq> b" using irr that Suc.prems by auto
    moreover have "a \<in> set (adj ! b)" using sym [of a b] that Suc.prems by simp
    ultimately consider "a < k" "b < k" | "a = k" "b < k" | "a < k" "b = k" using \<open>a < Suc k\<close> \<open>b < Suc k\<close> by linarith
    then show ?thesis
      using IH new that Suc.prems \<open>a \<in> set (adj ! b)\<close> by cases (simp_all, metis+)
  qed
  have "0 \<le> col[k := int c] ! v" if "v < Suc k" for v
    using that IH(1,2) Suc.prems by (cases "v = k") simp_all
  moreover have "fold (color_step adj) [0..<Suc k] (replicate nV (- 1)) = col[k := int c]"
    by (simp add: col_def c_def color_step_def)
  ultimately show ?case using IH(1) apart by (simp add: Let_def)
qed

subsection \<open>The passes\<close>

definition num_colors :: "int list \<Rightarrow> nat" where
  "num_colors color =
     (let nc = fold (\<lambda>c nc. if nat (c + 1) > nc then nat (c + 1) else nc) color 0
      in if nc = 0 then 1 else nc)"

definition greedy_coloring :: "nat \<Rightarrow> nat \<Rightarrow> nat list \<Rightarrow> nat list \<Rightarrow> nat \<Rightarrow> nat list \<Rightarrow> nat \<Rightarrow> nat list \<Rightarrow>
    nat list \<times> nat list" where
  "greedy_coloring nV nSprings p1 p2 nTri triIdx nBend bendIdx =
     (let adj = adjacency nV (stencil_edges nSprings p1 p2 nTri triIdx nBend bendIdx);
          color = color_all nV adj;
          nc = num_colors color;
          counts = bucket_counts nc (map nat color);
          offsets = bucket_offsets nc counts;
          (vertPerm, cursor) =
            fold (place_step (\<lambda>v. nat (color ! v)) offsets) [0..<nV] (replicate nV 0, replicate nc 0)
      in (vertPerm, offsets))"

text \<open>The vertices of one colour pass, as the solver walks them.\<close>

definition color_pass :: "nat list \<times> nat list \<Rightarrow> nat \<Rightarrow> nat list" where
  "color_pass = (\<lambda>(vertPerm, offsets) c.
     take (offsets ! (c + 1) - offsets ! c) (drop (offsets ! c) vertPerm))"

lemma num_colors_gt: "c \<in> set color \<Longrightarrow> nat c < num_colors color"
proof -
  have "fold (\<lambda>c nc. if nat (c + 1) > nc then nat (c + 1) else nc) color m \<ge> m \<and>
      (c \<in> set color \<longrightarrow> nat (c + 1) \<le> fold (\<lambda>c nc. if nat (c + 1) > nc then nat (c + 1) else nc) color m)"
    for m
  proof (induction color arbitrary: m)
    case (Cons d color)
    show ?case using Cons [of "if nat (d + 1) > m then nat (d + 1) else m"] by (auto split: if_splits)
  qed simp
  from this [of 0] show "c \<in> set color \<Longrightarrow> nat c < num_colors color"
    by (auto simp: num_colors_def Let_def)
qed

lemma num_colors_pos: "0 < num_colors color"
  by (simp add: num_colors_def Let_def)

lemma greedy_coloring_buckets:
  fixes nV edges
  defines "color \<equiv> color_all nV (adjacency nV edges)"
  assumes "edges = stencil_edges nSprings p1 p2 nTri triIdx nBend bendIdx"
  shows "greedy_coloring nV nSprings p1 p2 nTri triIdx nBend bendIdx =
     (buckets (\<lambda>v. nat (color ! v)) [0..<nV] (num_colors color),
      map (\<lambda>c. length (buckets (\<lambda>v. nat (color ! v)) [0..<nV] c)) [0..<num_colors color + 1])"
    and "\<forall>v<nV. nat (color ! v) < num_colors color"
    and "\<forall>a<nV. \<forall>b<nV. (a, b) \<in> set edges \<and> a \<noteq> b \<longrightarrow> nat (color ! a) \<noteq> nat (color ! b)"
proof -
  let ?key = "\<lambda>v. nat (color ! v)" and ?nc = "num_colors color"
  have col: "length color = nV" "\<forall>v<nV. 0 \<le> color ! v"
      "\<forall>a<nV. \<forall>b<nV. b \<in> set (adjacency nV edges ! a) \<longrightarrow> color ! a \<noteq> color ! b"
    using color_all_prefix [of nV "adjacency nV edges" nV]
    by (auto simp: color_def color_all_def Let_def adjacency_nth)
  show keys: "\<forall>v<nV. ?key v < ?nc" using col(1) by (auto intro: num_colors_gt)
  show "\<forall>a<nV. \<forall>b<nV. (a, b) \<in> set edges \<and> a \<noteq> b \<longrightarrow> ?key a \<noteq> ?key b"
    using col(2,3) by (auto simp: adjacency_nth eq_nat_nat_iff)
  have nats: "map nat color = map ?key [0..<nV]"
    using col(1) by (intro nth_equalityI) simp_all
  define offs where "offs = bucket_offsets ?nc (bucket_counts ?nc (map nat color))"
  have offs: "offs ! k = length (buckets ?key [0..<nV] k)" if "k \<le> ?nc" for k
    using that unfolding offs_def nats by (rule bucket_offsets_length)
  have "length (buckets ?key [0..<nV] ?nc) = nV"
    using arg_cong [OF buckets_mset [of "[0..<nV]" ?key ?nc], of size] keys by simp
  then have "fst (fold (place_step ?key offs) [0..<nV] (replicate nV 0, replicate ?nc 0)) =
      buckets ?key [0..<nV] ?nc"
    using keys offs by (intro place_buckets) auto
  moreover have "offs = map (\<lambda>c. length (buckets ?key [0..<nV] c)) [0..<?nc + 1]"
    by (intro nth_equalityI) (auto simp: offs_def offs [unfolded offs_def] simp del: upt_Suc)
  ultimately show "greedy_coloring nV nSprings p1 p2 nTri triIdx nBend bendIdx =
     (buckets ?key [0..<nV] ?nc, map (\<lambda>c. length (buckets ?key [0..<nV] c)) [0..<?nc + 1])"
    by (simp add: greedy_coloring_def assms(2) [symmetric] color_def [symmetric] offs_def [symmetric]
        Let_def case_prod_unfold)
qed

text \<open>The vertices of each spring, triangle and bending stencil.\<close>

definition stencils :: "nat \<Rightarrow> nat list \<Rightarrow> nat list \<Rightarrow> nat \<Rightarrow> nat list \<Rightarrow> nat \<Rightarrow> nat list \<Rightarrow> nat list list" where
  "stencils nSprings p1 p2 nTri triIdx nBend bendIdx =
     map (\<lambda>c. [p1 ! c, p2 ! c]) [0..<nSprings] @
     map (\<lambda>c. map (\<lambda>r. triIdx ! (3 * c + r)) [0..<3]) [0..<nTri] @
     map (\<lambda>c. map (\<lambda>r. bendIdx ! (4 * c + r)) [0..<4]) [0..<nBend]"

text \<open>Any two of them are joined by an edge.\<close>

lemma stencils_joined:
  assumes "st \<in> set (stencils nSprings p1 p2 nTri triIdx nBend bendIdx)" "a \<in> set st" "b \<in> set st" "a \<noteq> b"
  shows "(a, b) \<in> set (stencil_edges nSprings p1 p2 nTri triIdx nBend bendIdx) \<or>
    (b, a) \<in> set (stencil_edges nSprings p1 p2 nTri triIdx nBend bendIdx)"
proof -
  let ?E = "set (stencil_edges nSprings p1 p2 nTri triIdx nBend bendIdx)"
  consider c where "c < nSprings" "st = [p1 ! c, p2 ! c]"
    | c where "c < nTri" "st = map (\<lambda>r. triIdx ! (3 * c + r)) [0..<3]"
    | c where "c < nBend" "st = map (\<lambda>r. bendIdx ! (4 * c + r)) [0..<4]"
    using assms(1) by (auto simp: stencils_def)
  then show ?thesis
  proof cases
    case (1 c)
    then have "(p1 ! c, p2 ! c) \<in> ?E" by (simp add: stencil_edges_def)
    then show ?thesis using assms(2-4) 1(2) by auto
  next
    case (2 c)
    let ?i = "\<lambda>r. triIdx ! (3 * c + r)"
    have "{(?i 0, ?i 1), (?i 0, ?i 2), (?i 1, ?i 2)} \<subseteq> ?E"
      using 2(1) by (auto simp: stencil_edges_def Let_def intro!: bexI [of _ c])
    moreover have "set st = {?i 0, ?i 1, ?i 2}" by (auto simp: 2(2) upt_rec)
    ultimately show ?thesis using assms(2-4) by auto
  next
    case (3 c)
    let ?i = "\<lambda>r. bendIdx ! (4 * c + r)"
    have "{(?i 0, ?i 1), (?i 0, ?i 2), (?i 0, ?i 3), (?i 1, ?i 2), (?i 1, ?i 3), (?i 2, ?i 3)} \<subseteq> ?E"
      using 3(1) by (auto simp: stencil_edges_def Let_def intro!: bexI [of _ c])
    moreover have "set st = {?i 0, ?i 1, ?i 2, ?i 3}" unfolding 3(2) set_map by (simp add: atLeast0_lessThan_Suc eval_nat_numeral insert_commute)
    ultimately show ?thesis using assms(2-4) by auto
  qed
qed

text \<open>
  C20: the passes cover every vertex once, and no spring, triangle or bending stencil has two
  of its vertices in one pass, so the vertices of a pass can be moved independently. (Stencil
  indices are below \<open>nV\<close> in the code; an index past it is undefined behaviour there, and
  reads as a vertex of no pass here.)
\<close>

theorem greedy_coloring_proper:
  "case greedy_coloring nV nSprings p1 p2 nTri triIdx nBend bendIdx of (vertPerm, colorOffsets) \<Rightarrow>
     mset vertPerm = mset [0..<nV] \<and>
     concat (map (color_pass (vertPerm, colorOffsets)) [0..<length colorOffsets - 1]) = vertPerm \<and>
     list_all (\<lambda>c. list_all (\<lambda>st. card (set st \<inter> set (color_pass (vertPerm, colorOffsets) c)) \<le> 1)
       (stencils nSprings p1 p2 nTri triIdx nBend bendIdx)) [0..<length colorOffsets - 1]"
proof -
  let ?E = "stencil_edges nSprings p1 p2 nTri triIdx nBend bendIdx"
  define color where "color = color_all nV (adjacency nV ?E)"
  let ?key = "\<lambda>v. nat (color ! v)" and ?nc = "num_colors color"
  note G = greedy_coloring_buckets [OF refl, of nV nSprings p1 p2 nTri triIdx nBend bendIdx,
      folded color_def]
  let ?perm = "buckets ?key [0..<nV] ?nc"
  let ?offs = "map (\<lambda>c. length (buckets ?key [0..<nV] c)) [0..<?nc + 1]"
  have "mset ?perm = mset [0..<nV]" using G(2) by (intro buckets_mset) simp
  moreover have pass: "color_pass (?perm, ?offs) c = filter (\<lambda>v. ?key v = c) [0..<nV]" if "c < ?nc" for c
    using that buckets_split [OF that, of ?key "[0..<nV]"]
    by (simp add: color_pass_def buckets_Suc del: upt_Suc)
  moreover have "concat (map (color_pass (?perm, ?offs)) [0..<length ?offs - 1]) = ?perm"
  proof -
    have "map (color_pass (?perm, ?offs)) [0..<length ?offs - 1] =
        map (\<lambda>c. filter (\<lambda>v. ?key v = c) [0..<nV]) [0..<?nc]"
      by (intro map_cong refl pass) simp_all
    then show ?thesis by (simp only: buckets_def)
  qed
  moreover have "list_all (\<lambda>c. list_all (\<lambda>st. card (set st \<inter> set (color_pass (?perm, ?offs) c)) \<le> 1)
      (stencils nSprings p1 p2 nTri triIdx nBend bendIdx)) [0..<length ?offs - 1]"
    unfolding list_all_iff
  proof (intro ballI)
    fix c st
    assume c: "c \<in> set [0..<length ?offs - 1]" and st: "st \<in> set (stencils nSprings p1 p2 nTri triIdx nBend bendIdx)"
    from c have "c < ?nc" by simp
    note p = pass [OF this]
    have "a = b" if "a \<in> set st \<inter> set (color_pass (?perm, ?offs) c)" "b \<in> set st \<inter> set (color_pass (?perm, ?offs) c)" for a b
    proof (rule ccontr)
      assume "a \<noteq> b"
      with stencils_joined [OF st, of a b] that have "(a, b) \<in> set ?E \<or> (b, a) \<in> set ?E" by blast
      then show False using that \<open>a \<noteq> b\<close> G(3) [rule_format, of a b] G(3) [rule_format, of b a] unfolding p by auto
    qed
    then have "is_singleton (set st \<inter> set (color_pass (?perm, ?offs) c)) \<or> set st \<inter> set (color_pass (?perm, ?offs) c) = {}"
      unfolding is_singleton_def by blast
    then show "card (set st \<inter> set (color_pass (?perm, ?offs) c)) \<le> 1" by (auto simp: is_singleton_altdef)
  qed
  ultimately show ?thesis
    unfolding G(1) prod.case by simp
qed

end
