(* ===== verification/Jobs.thy ===== *)
theory Jobs
  imports Prelude
begin

text \<open>
  \<open>guest/jobs.{h,cpp}\<close>: the stage queue the host advances one frame at a time, and the
  job on top of it. A stage's closure (\<open>std::function\<close> over the job's members) is a
  label \<open>'a\<close>; what calling it does is the parameter \<open>run\<close>: a new state \<open>'e\<close> of
  whatever the closures capture, and the \<open>push\<close> and \<open>next\<close> calls it made, in order.
  The counters are natural numbers (\<open>size_t\<close>, counting stages queued in memory).
\<close>

section \<open>StageQueue\<close>

record 'a stage =
  st_fn :: 'a
  st_yield :: bool

record 'a stage_queue =
  sq_q :: "'a stage list"
  sq_inserts :: "'a stage list"
  sq_running :: bool
  sq_done :: nat
  sq_total :: nat

definition new_queue :: "'a stage_queue" where
  "new_queue = \<lparr>sq_q = [], sq_inserts = [], sq_running = False, sq_done = 0, sq_total = 0\<rparr>"

datatype 'a qcall = Push 'a bool | Next 'a bool

definition push :: "'a \<Rightarrow> bool \<Rightarrow> 'a stage_queue \<Rightarrow> 'a stage_queue" where
  "push f y s = s\<lparr>sq_q := sq_q s @ [\<lparr>st_fn = f, st_yield = y\<rparr>], sq_total := sq_total s + 1\<rparr>"

definition next_stage :: "'a \<Rightarrow> bool \<Rightarrow> 'a stage_queue \<Rightarrow> 'a stage_queue" where
  "next_stage f y s =
     (if \<not> sq_running s then s\<lparr>sq_q := \<lparr>st_fn = f, st_yield = y\<rparr> # sq_q s, sq_total := sq_total s + 1\<rparr>
      else s\<lparr>sq_inserts := sq_inserts s @ [\<lparr>st_fn = f, st_yield = y\<rparr>], sq_total := sq_total s + 1\<rparr>)"

fun do_qcall :: "'a qcall \<Rightarrow> 'a stage_queue \<Rightarrow> 'a stage_queue" where
  "do_qcall (Push f y) = push f y"
| "do_qcall (Next f y) = next_stage f y"

text \<open>One turn of the loop of \<open>tick\<close>: pop the front, call it, splice what it inserted.\<close>

definition splice :: "'a stage_queue \<Rightarrow> 'a stage_queue" where
  "splice s = (if sq_inserts s \<noteq> [] then s\<lparr>sq_q := sq_inserts s @ sq_q s, sq_inserts := []\<rparr> else s)"

definition run_front :: "('a \<Rightarrow> 'e \<Rightarrow> 'e \<times> 'a qcall list) \<Rightarrow> 'e \<times> 'a stage_queue \<Rightarrow> 'e \<times> 'a stage_queue" where
  "run_front run = (\<lambda>(e, s).
     let st = hd (sq_q s);
         s1 = s\<lparr>sq_q := tl (sq_q s), sq_running := True\<rparr>;
         (e', calls) = run (st_fn st) e;
         s2 = splice ((fold do_qcall calls s1)\<lparr>sq_running := False\<rparr>)
     in (e', s2\<lparr>sq_done := sq_done s2 + 1\<rparr>))"

fun tick_loop :: "('a \<Rightarrow> 'e \<Rightarrow> 'e \<times> 'a qcall list) \<Rightarrow> ('e \<Rightarrow> bool) \<Rightarrow> nat \<Rightarrow>
    'e \<times> 'a stage_queue \<Rightarrow> nat \<times> 'e \<times> 'a stage_queue" where
  "tick_loop run stop 0 es = (0, es)"
| "tick_loop run stop (Suc k) es =
     (if sq_q (snd es) = [] then (0, es)
      else let es' = run_front run es
           in if st_yield (hd (sq_q (snd es))) \<or> stop (fst es') then (1, es')
              else let (ran, es'') = tick_loop run stop k es' in (Suc ran, es''))"

definition queue_tick :: "('a \<Rightarrow> 'e \<Rightarrow> 'e \<times> 'a qcall list) \<Rightarrow> ('e \<Rightarrow> bool) \<Rightarrow> int \<Rightarrow>
    'e \<times> 'a stage_queue \<Rightarrow> nat \<times> 'e \<times> 'a stage_queue" where
  "queue_tick run stop max_stages es = tick_loop run stop (nat max_stages) es"

section \<open>Job\<close>

text \<open>
  The members of \<open>Job\<close> that its stages can reach (through \<open>finish\<close> and the subclass's jb_own
  state \<open>'s\<close>), and the job itself. \<open>pending\<close> and \<open>drain\<close> are the subclass's virtuals.
\<close>

record 's job_env =
  jb_now_us :: int
  jb_finished :: bool
  jb_result :: string
  jb_own :: 's

record ('a, 's) job =
  jb_env :: "'s job_env"
  jb_queue :: "'a stage_queue"
  max_stages_per_tick :: int

definition finish :: "bool \<Rightarrow> string \<Rightarrow> string \<Rightarrow> 's job_env \<Rightarrow> 's job_env" where
  "finish pass head detail e =
     (let r = (if pass then ''PASS '' else ''FAIL '') @ head;
          r = (if detail \<noteq> []
               then (let r1 = r @ [CHR 0x0A] @ detail in if last r1 = CHR 0x0A then butlast r1 else r1)
               else r)
      in e\<lparr>jb_finished := True, jb_result := r\<rparr>)"

definition running_text :: "'a stage_queue \<Rightarrow> string" where
  "running_text s = ''RUNNING '' @ to_string (int (sq_done s)) @ ''/'' @ to_string (int (sq_total s))"

definition job_finished :: "('s \<Rightarrow> bool) \<Rightarrow> ('a, 's) job \<Rightarrow> bool" where
  "job_finished pending j \<longleftrightarrow> jb_finished (jb_env j) \<and> \<not> pending (jb_own (jb_env j))"

definition job_tick :: "('a \<Rightarrow> 's job_env \<Rightarrow> 's job_env \<times> 'a qcall list) \<Rightarrow> ('s \<Rightarrow> bool) \<Rightarrow> ('s \<Rightarrow> 's) \<Rightarrow>
    int \<Rightarrow> ('a, 's) job \<Rightarrow> string \<times> ('a, 's) job" where
  "job_tick run pending drain host_us j =
     (let e = (jb_env j)\<lparr>jb_now_us := host_us\<rparr>;
          (e', s') =
            (if jb_finished e
             then (if pending (jb_own e) then e\<lparr>jb_own := drain (jb_own e)\<rparr> else e, jb_queue j)
             else let (ran, e1, s1) = queue_tick run (\<lambda>e. pending (jb_own e) \<or> jb_finished e)
                        (max_stages_per_tick j) (e, jb_queue j)
                  in (if \<not> jb_finished e1 \<and> sq_q s1 = [] \<and> \<not> pending (jb_own e1)
                      then finish False ''job drained its queue without a verdict'' [] e1 else e1, s1));
          j' = j\<lparr>jb_env := e', jb_queue := s'\<rparr>
      in (if jb_finished e' \<and> \<not> pending (jb_own e') then jb_result e' else running_text s', j'))"

section \<open>The queue as a list of stages\<close>

fun pushed :: "'a qcall list \<Rightarrow> 'a stage list" where
  "pushed [] = []"
| "pushed (Push f y # cs) = \<lparr>st_fn = f, st_yield = y\<rparr> # pushed cs"
| "pushed (Next f y # cs) = pushed cs"

fun nexted :: "'a qcall list \<Rightarrow> 'a stage list" where
  "nexted [] = []"
| "nexted (Push f y # cs) = nexted cs"
| "nexted (Next f y # cs) = \<lparr>st_fn = f, st_yield = y\<rparr> # nexted cs"

lemma fold_do_qcall_running:
  "sq_running s \<Longrightarrow> fold do_qcall calls s =
     s\<lparr>sq_q := sq_q s @ pushed calls, sq_inserts := sq_inserts s @ nexted calls,
       sq_total := sq_total s + length calls\<rparr>"
proof (induction calls arbitrary: s)
  case (Cons c calls)
  then show ?case by (cases c) (simp_all add: push_def next_stage_def)
qed simp

definition queue_inv :: "'a stage_queue \<Rightarrow> bool" where
  "queue_inv s \<longleftrightarrow> \<not> sq_running s \<and> sq_inserts s = [] \<and> sq_total s = sq_done s + length (sq_q s)"

text \<open>The abstract contract: what one stage does to the list of stages still to run.\<close>

lemma run_front_queue:
  assumes "queue_inv s" and "sq_q s = st # rest" and "run (st_fn st) e = (e', calls)"
  shows "run_front run (e, s) =
     (e', s\<lparr>sq_q := nexted calls @ rest @ pushed calls, sq_done := sq_done s + 1,
            sq_total := sq_total s + length calls\<rparr>)"
  using assms
  by (cases s; cases "nexted calls")
    (simp_all add: run_front_def fold_do_qcall_running splice_def queue_inv_def Let_def)

lemma length_stages_of: "length (pushed calls) + length (nexted calls) = length calls"
proof (induction calls)
  case (Cons c calls)
  then show ?case by (cases c) simp_all
qed simp

lemma run_front_inv:
  assumes "queue_inv s" and "sq_q s \<noteq> []"
  shows "queue_inv (snd (run_front run (e, s)))"
proof -
  obtain st rest where q: "sq_q s = st # rest" using assms(2) by (cases "sq_q s") auto
  obtain e' calls where r: "run (st_fn st) e = (e', calls)" by fastforce
  show ?thesis
    using assms(1) q length_stages_of [of calls]
    by (simp add: run_front_queue [OF assms(1) q, of run e, OF r] queue_inv_def)
qed

text \<open>Calls from outside a stage keep the invariant too.\<close>

interpretation outside: machine do_qcall queue_inv
proof
  show "queue_inv (do_qcall i s)" if "queue_inv s" for i :: "'a qcall" and s
    using that by (cases i) (simp_all add: queue_inv_def push_def next_stage_def)
qed

section \<open>A tick\<close>

lemma tick_loop_steps:
  assumes "queue_inv (snd es)" and "tick_loop run stop k es = (n, es')"
  shows "es' = (run_front run ^^ n) es \<and> queue_inv (snd es') \<and> n \<le> k \<and>
     (\<forall>i<n. sq_q (snd ((run_front run ^^ i) es)) \<noteq> []) \<and>
     (\<forall>i. 0 < i \<and> i < n \<longrightarrow> \<not> stop (fst ((run_front run ^^ i) es))) \<and>
     (\<forall>i. i + 1 < n \<longrightarrow> \<not> st_yield (hd (sq_q (snd ((run_front run ^^ i) es))))) \<and>
     (n < k \<longrightarrow> sq_q (snd es') = [] \<or> stop (fst es') \<or>
       (0 < n \<and> st_yield (hd (sq_q (snd ((run_front run ^^ (n - 1)) es))))))"
  using assms
proof (induction k arbitrary: es n)
  case 0
  then show ?case by simp
next
  case (Suc k)
  show ?case
  proof (cases "sq_q (snd es) = []")
    case True
    with Suc.prems show ?thesis by simp
  next
    case nonempty: False
    let ?es1 = "run_front run es"
    have inv1: "queue_inv (snd ?es1)"
      using run_front_inv [of "snd es" run "fst es"] Suc.prems(1) nonempty by simp
    show ?thesis
    proof (cases "st_yield (hd (sq_q (snd es))) \<or> stop (fst ?es1)")
      case True
      with Suc.prems nonempty inv1 show ?thesis by (auto simp: Let_def)
    next
      case False
      obtain m es2 where m: "tick_loop run stop k ?es1 = (m, es2)" by (metis surj_pair)
      with Suc.prems nonempty False have n: "n = Suc m" "es' = es2" by (auto simp: Let_def)
      note IH = Suc.IH [OF inv1, of m] m
      have shift: "(run_front run ^^ i) ?es1 = (run_front run ^^ Suc i) es" for i
        by (simp add: funpow_swap1)
      from IH(1) m n(2) have *: "es' = (run_front run ^^ Suc m) es" "queue_inv (snd es')" "m \<le> k"
        "\<forall>i<m. sq_q (snd ((run_front run ^^ Suc i) es)) \<noteq> []"
        "\<forall>i. 0 < i \<and> i < m \<longrightarrow> \<not> stop (fst ((run_front run ^^ Suc i) es))"
        "\<forall>i. i + 1 < m \<longrightarrow> \<not> st_yield (hd (sq_q (snd ((run_front run ^^ Suc i) es))))"
        "m < k \<longrightarrow> sq_q (snd es') = [] \<or> stop (fst es') \<or>
           (0 < m \<and> st_yield (hd (sq_q (snd ((run_front run ^^ Suc (m - 1)) es)))))"
        unfolding shift by blast+
      have a: "sq_q (snd ((run_front run ^^ i) es)) \<noteq> []" if "i < Suc m" for i
        using that nonempty *(4) by (cases i) simp_all
      have b: "\<not> stop (fst ((run_front run ^^ i) es))" if "0 < i" "i < Suc m" for i
        using that False *(5) by (cases i; cases "i = 1") auto
      have c: "\<not> st_yield (hd (sq_q (snd ((run_front run ^^ i) es))))" if "i + 1 < Suc m" for i
        using that False *(6) by (cases i) auto
      show ?thesis using * a b c n(1) by (cases m) (auto simp del: funpow.simps)
    qed
  qed
qed

text \<open>
  A stage that calls \<open>next\<close> and \<open>push\<close> in any order leaves the queue with the
  inserted stages first, in call order, then what was queued before, then the pushed ones;
  one more stage is done and the total grows by the calls.
\<close>

theorem run_front_order:
  assumes "queue_inv s" and "sq_q s = st # rest" and "run (st_fn st) e = (e', calls)"
  shows "fst (run_front run (e, s)) = e' \<and>
     sq_q (snd (run_front run (e, s))) = nexted calls @ rest @ pushed calls \<and>
     sq_total (snd (run_front run (e, s))) = sq_total s + length calls \<and>
     sq_done (snd (run_front run (e, s))) = sq_done s + 1 \<and>
     queue_inv (snd (run_front run (e, s)))"
  using run_front_inv [OF assms(1), of run e] assms(2)
  by (simp add: run_front_queue [OF assms(1,2), of run e, OF assms(3)])

definition demo_run :: "nat \<Rightarrow> nat list \<Rightarrow> nat list \<times> nat qcall list" where
  "demo_run a e = (e @ [a], if a = 1 then [Push 4 False, Next 2 False, Next 3 False] else [])"

theorem run_front_order_witness:
  "sq_q (snd (run_front demo_run ([], do_qcall (Push 9 False) (do_qcall (Push 1 False) new_queue)))) =
     [\<lparr>st_fn = 2, st_yield = False\<rparr>, \<lparr>st_fn = 3, st_yield = False\<rparr>,
      \<lparr>st_fn = 9, st_yield = False\<rparr>, \<lparr>st_fn = 4, st_yield = False\<rparr>]"
  using run_front_order [of "do_qcall (Push 9 False) (do_qcall (Push 1 False) new_queue)"
      "\<lparr>st_fn = 1, st_yield = False\<rparr>" "[\<lparr>st_fn = 9, st_yield = False\<rparr>]" demo_run "[]" "[1]"
      "[Push 4 False, Next 2 False, Next 3 False]"]
  by (simp add: queue_inv_def push_def new_queue_def demo_run_def)

text \<open>
  C24: a tick runs the front stage some number of times \<open>n\<close>, at most \<open>max_stages\<close>, each
  time on a non-empty queue; it goes on only after a stage that neither yields nor leaves
  \<open>stop\<close> true, and it ends early only on an empty queue, a true \<open>stop\<close> or a yielding
  stage. So where the ticks fall never changes which stage runs next.
\<close>

theorem queue_tick_spec:
  assumes "queue_inv (snd es)" and "queue_tick run stop max_stages es = (n, es')"
  shows "es' = (run_front run ^^ n) es \<and> queue_inv (snd es') \<and> n \<le> nat max_stages \<and>
     (\<forall>i<n. sq_q (snd ((run_front run ^^ i) es)) \<noteq> []) \<and>
     (\<forall>i. 0 < i \<and> i < n \<longrightarrow> \<not> stop (fst ((run_front run ^^ i) es))) \<and>
     (\<forall>i. i + 1 < n \<longrightarrow> \<not> st_yield (hd (sq_q (snd ((run_front run ^^ i) es))))) \<and>
     (n < nat max_stages \<longrightarrow> sq_q (snd es') = [] \<or> stop (fst es') \<or>
       (0 < n \<and> st_yield (hd (sq_q (snd ((run_front run ^^ (n - 1)) es))))))"
  using tick_loop_steps assms unfolding queue_tick_def by blast

theorem queue_tick_spec_witness:
  "queue_tick demo_run (\<lambda>e. length e = 2) 256 ([], do_qcall (Push 1 False) new_queue) =
     (2, (run_front demo_run ^^ 2) ([], do_qcall (Push 1 False) new_queue))"
proof -
  let ?s = "do_qcall (Push 1 False) new_queue :: nat stage_queue"
  have inv: "queue_inv (snd ([] :: nat list, ?s))" by (simp add: queue_inv_def push_def new_queue_def)
  obtain n es' where t: "queue_tick demo_run (\<lambda>e. length e = 2) 256 ([], ?s) = (n, es')" by (metis surj_pair)
  have "n = 2"
    using t by (simp add: queue_tick_def eval_nat_numeral run_front_def push_def next_stage_def new_queue_def
        demo_run_def splice_def Let_def)
  with queue_tick_spec [OF inv t] t show ?thesis by simp
qed

section \<open>Ticks of a job\<close>

lemma tick_loop_inv: "queue_inv (snd es) \<Longrightarrow> queue_inv (snd (snd (tick_loop run stop k es)))"
  using tick_loop_steps [of es run stop k] by (metis surjective_pairing)

definition job_inv :: "('a, 's) job \<Rightarrow> bool" where
  "job_inv j \<longleftrightarrow> queue_inv (jb_queue j)"

lemma job_tick_inv: "job_inv j \<Longrightarrow> job_inv (snd (job_tick run pending drain t j))"
  using tick_loop_inv [of "((jb_env j)\<lparr>jb_now_us := t\<rparr>, jb_queue j)" run
      "\<lambda>e. pending (jb_own e) \<or> jb_finished e" "nat (max_stages_per_tick j)"]
  by (auto simp: job_tick_def job_inv_def queue_tick_def Let_def split: prod.splits)

interpretation job_frames: machine "\<lambda>t j. snd (job_tick run pending drain t j)" job_inv
  for run pending drain
  by unfold_locales (rule job_tick_inv)

text \<open>
  Once the verdict is in, no frame runs a stage or changes the verdict, whatever the
  in-flight submit does; and once it is also drained every frame returns it.
\<close>

theorem verdict_stable:
  assumes "jb_finished (jb_env j)"
  shows "let j' = fold (\<lambda>t j. snd (job_tick run pending drain t j)) ts j
     in jb_finished (jb_env j') \<and> jb_result (jb_env j') = jb_result (jb_env j) \<and> jb_queue j' = jb_queue j \<and>
        (\<not> pending (jb_own (jb_env j)) \<longrightarrow>
           jb_own (jb_env j') = jb_own (jb_env j) \<and> fst (job_tick run pending drain t j') = jb_result (jb_env j))"
  using assms
proof (induction ts arbitrary: j)
  case Nil
  then show ?case by (simp add: job_tick_def Let_def)
next
  case (Cons t0 ts)
  let ?j1 = "snd (job_tick run pending drain t0 j)"
  have "jb_finished (jb_env ?j1)" "jb_result (jb_env ?j1) = jb_result (jb_env j)" "jb_queue ?j1 = jb_queue j"
    and "\<not> pending (jb_own (jb_env j)) \<Longrightarrow> jb_own (jb_env ?j1) = jb_own (jb_env j)"
    using Cons.prems by (simp_all add: job_tick_def Let_def)
  with Cons.IH [of ?j1] show ?case by (simp add: Let_def)
qed

text \<open>A job for the witnesses: count down, submit in every stage, finish with the last one.\<close>

definition count_run :: "nat \<Rightarrow> bool job_env \<Rightarrow> bool job_env \<times> nat qcall list" where
  "count_run a e =
     (if a = 0 then (finish True ''counted'' [] (e\<lparr>jb_own := True\<rparr>), [])
      else (e\<lparr>jb_own := True\<rparr>, [Next (a - 1) False]))"

definition count_job :: "bool \<Rightarrow> (nat, bool) job" where
  "count_job fin = \<lparr>jb_env = \<lparr>jb_now_us = 0, jb_finished = fin, jb_result = ''PASS x'', jb_own = False\<rparr>,
     jb_queue = push 2 False new_queue, max_stages_per_tick = 256\<rparr>"

theorem verdict_stable_witness:
  "fst (job_tick count_run (\<lambda>s. s) (\<lambda>s. False) 7
     (fold (\<lambda>t j. snd (job_tick count_run (\<lambda>s. s) (\<lambda>s. False) t j)) [1, 2] (count_job True))) = ''PASS x''"
  using verdict_stable [of "count_job True" count_run "\<lambda>s. s" "\<lambda>s. False" "[1, 2]" 7]
  by (simp add: count_job_def Let_def)

text \<open>Every stage brings the job closer to its end; the last one settles its own submit.\<close>

definition progressing :: "('a \<Rightarrow> 's job_env \<Rightarrow> 's job_env \<times> 'a qcall list) \<Rightarrow>
    ('s \<Rightarrow> 'a stage list \<Rightarrow> nat) \<Rightarrow> bool" where
  "progressing run mu \<longleftrightarrow> (\<forall>st rest e e' calls. run (st_fn st) e = (e', calls) \<longrightarrow>
     mu (jb_own e') (nexted calls @ rest @ pushed calls) < mu (jb_own e) (st # rest))"

definition settling :: "('a \<Rightarrow> 's job_env \<Rightarrow> 's job_env \<times> 'a qcall list) \<Rightarrow> ('s \<Rightarrow> bool) \<Rightarrow> bool" where
  "settling run pending \<longleftrightarrow> (\<forall>a e e'. run a e = (e', []) \<and> pending (jb_own e') \<longrightarrow> jb_finished e')"

lemma tick_loop_progress:
  assumes less: "progressing run mu" and ends: "settling run pending"
    and "queue_inv s" and "sq_q s \<noteq> []" and "0 < k"
    and "tick_loop run stop k (e, s) = (n, e', s')"
  shows "mu (jb_own e') (sq_q s') < mu (jb_own e) (sq_q s) \<and>
     (sq_q s' = [] \<and> pending (jb_own e') \<longrightarrow> jb_finished e')"
  using assms(3-)
proof (induction k arbitrary: e s n)
  case (Suc k)
  obtain st rest where q: "sq_q s = st # rest" using Suc.prems(2) by (cases "sq_q s") auto
  obtain e1 calls where r: "run (st_fn st) e = (e1, calls)" by fastforce
  obtain s1 where s1: "run_front run (e, s) = (e1, s1)" "sq_q s1 = nexted calls @ rest @ pushed calls"
    using run_front_queue [OF Suc.prems(1) q, of run e, OF r] by simp
  have inv1: "queue_inv s1" using run_front_inv [OF Suc.prems(1,2), of run e] s1 by simp
  have m1: "mu (jb_own e1) (sq_q s1) < mu (jb_own e) (sq_q s)" using less r s1 q by (simp add: progressing_def)
  have e1: "sq_q s1 = [] \<Longrightarrow> pending (jb_own e1) \<Longrightarrow> jb_finished e1"
    using ends r s1 length_stages_of [of calls] by (auto simp: settling_def)
  show ?case
  proof (cases "(st_yield st \<or> stop e1) \<or> k = 0 \<or> sq_q s1 = []")
    case True
    then have "e' = e1 \<and> s' = s1"
      using Suc.prems(4) q s1(1) by (cases k) (auto simp: Let_def split: prod.splits if_splits)
    then show ?thesis using m1 e1 by simp
  next
    case False
    then obtain m where "tick_loop run stop k (e1, s1) = (m, e', s')"
      using Suc.prems(4) q s1(1) by (auto simp: Let_def split: prod.splits)
    from Suc.IH [OF inv1 _ _ this] False m1 show ?thesis by simp
  qed
qed simp

definition verdict_dist :: "('s \<Rightarrow> bool) \<Rightarrow> ('s \<Rightarrow> 'a stage list \<Rightarrow> nat) \<Rightarrow> ('a, 's) job \<Rightarrow> nat" where
  "verdict_dist pending mu j =
     (if jb_finished (jb_env j) then (if pending (jb_own (jb_env j)) then 1 else 0)
      else mu (jb_own (jb_env j)) (sq_q (jb_queue j)) + 2)"

text \<open>No submit of an unfinished job outlives its queue: what keeps it from waiting for ever.\<close>

definition no_dangling :: "('s \<Rightarrow> bool) \<Rightarrow> ('a, 's) job \<Rightarrow> bool" where
  "no_dangling pending j \<longleftrightarrow>
     sq_q (jb_queue j) = [] \<and> pending (jb_own (jb_env j)) \<longrightarrow> jb_finished (jb_env j)"

lemma finish_finished [simp]: "jb_finished (finish p h d e)" "jb_own (finish p h d e) = jb_own e"
  by (simp_all add: finish_def Let_def)

lemma job_tick_closer:
  fixes t :: int
  assumes less: "progressing run mu" and ends: "settling run pending"
    and drains: "\<And>s. \<not> pending (drain s)"
    and inv: "job_inv j" "no_dangling pending j" "0 < max_stages_per_tick j"
  defines "j' \<equiv> snd (job_tick run pending drain t j)"
  shows "no_dangling pending j' \<and> 0 < max_stages_per_tick j' \<and>
     verdict_dist pending mu j' \<le> verdict_dist pending mu j - 1"
proof (cases "jb_finished (jb_env j)")
  case True
  then show ?thesis
    using inv drains by (auto simp: j'_def job_tick_def Let_def no_dangling_def verdict_dist_def)
next
  case False
  let ?e = "(jb_env j)\<lparr>jb_now_us := t\<rparr>" and ?s = "jb_queue j"
  let ?stop = "\<lambda>e. pending (jb_own e) \<or> jb_finished e"
  obtain n e1 s1 where l: "tick_loop run ?stop (nat (max_stages_per_tick j)) (?e, ?s) = (n, e1, s1)"
    by (metis surj_pair)
  show ?thesis
  proof (cases "sq_q ?s = []")
    case True
    then have "e1 = ?e" "s1 = ?s" using l inv(3)
      by (cases "nat (max_stages_per_tick j)"; simp)+
    then show ?thesis
      using False inv(2,3) True l
      by (auto simp: j'_def job_tick_def Let_def queue_tick_def no_dangling_def verdict_dist_def)
  next
    case nonempty: False
    have "mu (jb_own e1) (sq_q s1) < mu (jb_own ?e) (sq_q ?s) \<and>
        (sq_q s1 = [] \<and> pending (jb_own e1) \<longrightarrow> jb_finished e1)"
      using tick_loop_progress [OF less ends _ _ _ l] inv nonempty by (simp add: job_inv_def)
    then show ?thesis
      using False inv(3) l
      by (auto simp: j'_def job_tick_def Let_def queue_tick_def no_dangling_def verdict_dist_def)
  qed
qed



end
