(* ===== verification/Pump.thy ===== *)
theory Pump
  imports Prelude
begin

text \<open>
  \<open>guest/pump/pump.{h,cpp}\<close> and the control flow of \<open>guest/fiber/fiber.{h,cpp}\<close>: a guest
  job on a fiber, resumed once per host call, that yields requests. The job's own code is a
  parameter: \<open>client c\<close> is the next pump call it makes from control point \<open>c\<close> (a value of
  \<open>'c\<close>, with a continuation for what the call returns), or its end. The stack a fiber keeps
  while it is switched out is the frame of the pump call it is in.
  \<open>int64_t\<close> and \<open>uint64_t\<close> are 64-bit words; an RID is a value of \<open>'r\<close>.
\<close>

section \<open>Requests\<close>

datatype kind = NONE | WAIT_GPU | READ | UPLOAD | COOP | DONE | ERROR

fun kind_num :: "kind \<Rightarrow> i64" where
  "kind_num NONE = 0"
| "kind_num WAIT_GPU = 1"
| "kind_num READ = 2"
| "kind_num UPLOAD = 3"
| "kind_num COOP = 4"
| "kind_num DONE = 5"
| "kind_num ERROR = 6"

definition kind_name :: "i64 \<Rightarrow> string" where
  "kind_name k =
     (if k = 0 then ''NONE'' else if k = 1 then ''WAIT_GPU'' else if k = 2 then ''READ''
      else if k = 3 then ''UPLOAD'' else if k = 4 then ''COOP'' else if k = 5 then ''DONE''
      else if k = 6 then ''ERROR'' else ''?'')"

datatype ('c, 'r) action =
    WaitGpu 'c
  | Coop 'c
  | Read string u64 u64 "u8 list \<Rightarrow> 'c"
  | Upload string u64 u64 'r u64 "bool \<Rightarrow> 'c"
  | Fail string
  | Return
  | Throw

section \<open>Fiber\<close>

datatype 'c frame =
    Entry 'c
  | InWait 'c
  | InRead string u64 u64 "u8 list" u64 "u8 list \<Rightarrow> 'c"
  | InUpload "bool \<Rightarrow> 'c"
  | InFail
  | Running

record 'c fiber =
  fb_frame :: "'c frame"
  fb_started :: bool
  fb_done :: bool
  fb_escaped :: bool

definition new_fiber :: "bool \<Rightarrow> 'c \<Rightarrow> 'c fiber" where
  "new_fiber mem_ok c =
     \<lparr>fb_frame = Entry c, fb_started = False, fb_done = \<not> mem_ok, fb_escaped = False\<rparr>"

section \<open>The pump's state\<close>

record ('c, 'r) pump =
  pm_fiber :: "'c fiber option"
  pm_kind :: kind
  pm_a :: "i64 \<times> i64 \<times> i64"
  pm_text :: string
  pm_rid :: "'r option"
  pm_in :: "u8 list"
  pm_failed :: bool
  pm_inside :: bool
  pm_yields :: "kind \<Rightarrow> nat"

definition pump_init :: "('c, 'r) pump" where
  "pump_init = \<lparr>pm_fiber = None, pm_kind = NONE, pm_a = (0, 0, 0), pm_text = [], pm_rid = None,
     pm_in = [], pm_failed = False, pm_inside = False, pm_yields = (\<lambda>k. 0)\<rparr>"

definition set_frame :: "'c frame \<Rightarrow> ('c, 'r) pump \<Rightarrow> ('c, 'r) pump" where
  "set_frame f s = s\<lparr>pm_fiber := map_option (\<lambda>fb. fb\<lparr>fb_frame := f\<rparr>) (pm_fiber s)\<rparr>"

text \<open>\<open>request\<close> up to the switch; \<open>frame\<close> is where the fiber goes on at the next resume.\<close>

definition request :: "kind \<Rightarrow> 'c frame \<Rightarrow> ('c, 'r) pump \<Rightarrow> ('c, 'r) pump" where
  "request k frame s =
     set_frame frame (s\<lparr>pm_yields := (pm_yields s)(k := pm_yields s k + 1), pm_kind := k, pm_inside := False\<rparr>)"

definition pump_result :: "('c, 'r) pump \<Rightarrow> i64 list \<times> string \<times> 'r option" where
  "pump_result s =
     (case pm_a s of (a0, a1, a2) \<Rightarrow> ([kind_num (pm_kind s), a0, a1, a2], pm_text s, pm_rid s))"

definition kReadChunk :: u64 where
  "kReadChunk = push_bit 20 16"

text \<open>What the loop of \<open>read\<close> asks for with \<open>out\<close> already read.\<close>

definition read_want :: "u64 \<Rightarrow> u8 list \<Rightarrow> u64" where
  "read_want bytes out =
     (if bytes = 0 then kReadChunk else min (bytes - word_of_nat (length out)) kReadChunk)"

definition ask_read :: "string \<Rightarrow> u64 \<Rightarrow> u64 \<Rightarrow> u8 list \<Rightarrow> (u8 list \<Rightarrow> 'c) \<Rightarrow> ('c, 'r) pump \<Rightarrow> ('c, 'r) pump" where
  "ask_read path off bytes out k s =
     (let want = read_want bytes out
      in request READ (InRead path off bytes out want k)
           (s\<lparr>pm_text := path, pm_a := (off + word_of_nat (length out), want, snd (snd (pm_a s)))\<rparr>))"

text \<open>
  The job from control point \<open>c\<close> to its next switch: one pump call, or its end in
  \<open>fiber_main_c\<close>. (The first turn of the loop of \<open>read\<close> always asks, see
  \<open>read_want_first\<close>.)
\<close>

definition act :: "('c \<Rightarrow> ('c, 'r) action) \<Rightarrow> 'c \<Rightarrow> ('c, 'r) pump \<Rightarrow> ('c, 'r) pump" where
  "act client c s =
     (case client c of
        WaitGpu c' \<Rightarrow> request WAIT_GPU (InWait c') s
      | Coop c' \<Rightarrow> request COOP (InWait c') s
      | Read path off bytes k \<Rightarrow> ask_read path off bytes [] k s
      | Upload path foff bytes rid doff k \<Rightarrow>
          request UPLOAD (InUpload k)
            (s\<lparr>pm_text := path, pm_a := (foff, bytes, doff), pm_rid := Some rid\<rparr>)
      | Fail text \<Rightarrow> request ERROR InFail (s\<lparr>pm_failed := True, pm_text := text\<rparr>)
      | Return \<Rightarrow> s\<lparr>pm_fiber := map_option (\<lambda>fb. fb\<lparr>fb_done := True\<rparr>) (pm_fiber s)\<rparr>
      | Throw \<Rightarrow> s\<lparr>pm_fiber := map_option (\<lambda>fb. fb\<lparr>fb_escaped := True, fb_done := True\<rparr>) (pm_fiber s)\<rparr>)"

text \<open>The rest of one turn of the loop of \<open>read\<close>, and the turns up to the next switch.\<close>

definition read_on :: "('c \<Rightarrow> ('c, 'r) action) \<Rightarrow> string \<Rightarrow> u64 \<Rightarrow> u64 \<Rightarrow> u8 list \<Rightarrow> u64 \<Rightarrow>
    (u8 list \<Rightarrow> 'c) \<Rightarrow> ('c, 'r) pump \<Rightarrow> ('c, 'r) pump" where
  "read_on client path off bytes out want k s =
     (let got = word_of_nat (length (pm_in s)) :: u64;
          out' = out @ pm_in s;
          s' = s\<lparr>pm_in := []\<rparr>
      in if got < want then act client (k out') s'
         else if read_want bytes out' = 0 then act client (k out') s'
         else ask_read path off bytes out' k s')"

text \<open>
  \<open>Fiber::resume\<close>: into the frame, until it switches back; true while there is more. (A
  fiber is \<open>Running\<close> only in between: \<open>resume\<close> is not reentrant.)
\<close>

definition fiber_resume :: "('c \<Rightarrow> ('c, 'r) action) \<Rightarrow> ('c, 'r) pump \<Rightarrow> bool \<times> ('c, 'r) pump" where
  "fiber_resume client s =
     (case pm_fiber s of
        None \<Rightarrow> (False, s)
      | Some fb \<Rightarrow>
          if fb_done fb then (False, s)
          else let s1 = s\<lparr>pm_fiber := Some (fb\<lparr>fb_frame := Running, fb_started := True\<rparr>), pm_inside := True\<rparr>;
                   s2 = (case fb_frame fb of
                           Entry c \<Rightarrow> act client c s1
                         | InWait c \<Rightarrow> act client c s1
                         | InRead path off bytes out want k \<Rightarrow> read_on client path off bytes out want k s1
                         | InUpload k \<Rightarrow> act client (k True) s1
                         | InFail \<Rightarrow> request ERROR InFail s1
                         | Running \<Rightarrow> s1)
               in (case pm_fiber s2 of None \<Rightarrow> False | Some fb' \<Rightarrow> \<not> fb_done fb', s2))"

section \<open>The calls of the host\<close>

definition pump_running :: "('c, 'r) pump \<Rightarrow> bool" where
  "pump_running s \<longleftrightarrow>
     (case pm_fiber s of None \<Rightarrow> False | Some fb \<Rightarrow> \<not> fb_done fb \<and> \<not> pm_failed s)"

definition pump_start :: "bool \<Rightarrow> 'c \<Rightarrow> ('c, 'r) pump \<Rightarrow> bool \<times> ('c, 'r) pump" where
  "pump_start mem_ok c s =
     (if pump_running s then (False, s)
      else let s1 = pump_init\<lparr>pm_yields := pm_yields s, pm_fiber := Some (new_fiber mem_ok c)\<rparr>
           in if \<not> mem_ok
              then (False, s1\<lparr>pm_kind := ERROR, pm_text := ''no memory for the fiber stack'', pm_failed := True\<rparr>)
              else (True, s1))"

definition pump_yields :: "i64 \<Rightarrow> ('c, 'r) pump \<Rightarrow> nat" where
  "pump_yields k s =
     (case List.find (\<lambda>j. kind_num j = k) [NONE, WAIT_GPU, READ, UPLOAD, COOP, DONE, ERROR] of
        Some j \<Rightarrow> pm_yields s j | None \<Rightarrow> 0)"

definition pump_step :: "('c \<Rightarrow> ('c, 'r) action) \<Rightarrow> u8 list \<Rightarrow> ('c, 'r) pump \<Rightarrow> ('c, 'r) pump" where
  "pump_step client inp s =
     (case pm_fiber s of
        None \<Rightarrow> s\<lparr>pm_kind := ERROR, pm_text := ''no job started''\<rparr>
      | Some fb \<Rightarrow>
          if pm_failed s \<or> fb_done fb then s
          else let s1 = s\<lparr>pm_in := inp, pm_kind := NONE, pm_a := (0, 0, 0), pm_text := [],
                          pm_rid := None, pm_inside := True\<rparr>;
                   (more, s2) = fiber_resume client s1;
                   s3 = s2\<lparr>pm_inside := False\<rparr>
               in if \<not> more \<and> \<not> pm_failed s3
                  then (if (case pm_fiber s3 of None \<Rightarrow> False | Some fb' \<Rightarrow> fb_escaped fb')
                        then s3\<lparr>pm_kind := ERROR, pm_text := ''an exception escaped the job''\<rparr>
                        else s3\<lparr>pm_kind := DONE\<rparr>)
                  else s3)"

text \<open>The calls of the job made outside it, by host-side code: no request is made.\<close>

definition fail_outside :: "string \<Rightarrow> ('c, 'r) pump \<Rightarrow> ('c, 'r) pump" where
  "fail_outside text s = s\<lparr>pm_kind := ERROR, pm_text := text\<rparr>"

section \<open>Well-formed states\<close>

fun frame_ok :: "'c frame \<Rightarrow> bool" where
  "frame_ok (InRead path off bytes out want k) \<longleftrightarrow>
     want = read_want bytes out \<and> want \<noteq> 0"
| "frame_ok f \<longleftrightarrow> f \<noteq> Running"

definition pump_inv :: "('c, 'r) pump \<Rightarrow> bool" where
  "pump_inv s \<longleftrightarrow> \<not> pm_inside s \<and>
     (case pm_fiber s of
        None \<Rightarrow> \<not> pm_failed s
      | Some fb \<Rightarrow> fb_done fb \<or>
          frame_ok (fb_frame fb) \<and> \<not> fb_escaped fb \<and> (pm_failed s \<longleftrightarrow> fb_frame fb = InFail))"

lemma unat_kReadChunk [simp]: "unat kReadChunk = 16777216"
  by (simp add: kReadChunk_def push_bit_eq_mult)

lemma kReadChunk_pos [simp]: "0 < kReadChunk"
  by (simp add: word_less_nat_alt)

lemma read_want_le [simp]: "read_want bytes out \<le> kReadChunk"
  by (simp add: read_want_def)

lemma kReadChunk_nonzero [simp]: "kReadChunk \<noteq> 0"
  using kReadChunk_pos by (metis less_irrefl)

lemma read_want_first: "read_want bytes [] \<noteq> 0"
  by (simp add: read_want_def min_def)

lemmas pump_steps = request_def set_frame_def ask_read_def Let_def

text \<open>What a switch back to the host leaves: the frame, the kind reported and the counter.\<close>

definition yielded :: "('c, 'r) pump \<Rightarrow> 'c fiber \<Rightarrow> ('c, 'r) pump \<Rightarrow> bool" where
  "yielded s fb' s' \<longleftrightarrow> \<not> fb_escaped fb' \<and> pm_kind s' \<noteq> NONE \<and> pm_kind s' \<noteq> DONE \<and>
     pm_yields s' = (pm_yields s)(pm_kind s' := pm_yields s (pm_kind s') + 1) \<and>
     (pm_kind s' = ERROR \<longleftrightarrow> pm_failed s') \<and> (pm_failed s' \<longleftrightarrow> fb_frame fb' = InFail) \<and>
     (pm_kind s' = READ \<longrightarrow> (\<exists>path off bytes out k.
        fb_frame fb' = InRead path off bytes out (read_want bytes out) k \<and> pm_text s' = path \<and>
        fst (pm_a s') = off + word_of_nat (length out) \<and> fst (snd (pm_a s')) = read_want bytes out))"

definition switched :: "('c, 'r) pump \<Rightarrow> ('c, 'r) pump \<Rightarrow> bool" where
  "switched s s' \<longleftrightarrow>
     (\<exists>fb'. pm_fiber s' = Some fb' \<and>
        (if fb_done fb' then pm_yields s' = pm_yields s \<and> \<not> pm_failed s'
         else frame_ok (fb_frame fb') \<and> yielded s fb' s'))"

lemma act_switched:
  assumes "pm_fiber s = Some fb" "\<not> fb_done fb" "\<not> fb_escaped fb" "\<not> pm_failed s"
  shows "switched s (act client c s)"
  using assms read_want_first
  by (cases "client c") (simp_all add: act_def pump_steps switched_def yielded_def)

lemma ask_read_switched:
  assumes "pm_fiber s = Some fb" "\<not> fb_done fb" "\<not> fb_escaped fb" "\<not> pm_failed s"
    and "read_want bytes out \<noteq> 0"
  shows "switched s (ask_read path off bytes out k s)"
  using assms by (simp add: pump_steps switched_def yielded_def)

lemma switched_cong: "pm_yields s1 = pm_yields s2 \<Longrightarrow> switched s1 s' = switched s2 s'"
  by (simp add: switched_def yielded_def)

lemma resume_switched:
  assumes "pm_fiber s = Some fb" "\<not> fb_done fb" "\<not> fb_escaped fb" "\<not> pm_failed s"
    and "fb_frame fb \<noteq> InFail" "fb_frame fb \<noteq> Running"
  shows "switched s (snd (fiber_resume client s)) \<and>
     fst (fiber_resume client s) = (case pm_fiber (snd (fiber_resume client s)) of
        None \<Rightarrow> False | Some fb' \<Rightarrow> \<not> fb_done fb')"
proof -
  define s1 where "s1 = s\<lparr>pm_fiber := Some (fb\<lparr>fb_frame := Running, fb_started := True\<rparr>), pm_inside := True\<rparr>"
  have fib: "pm_fiber (s1\<lparr>pm_in := xs\<rparr>) = Some (fb\<lparr>fb_frame := Running, fb_started := True\<rparr>)" "\<not> pm_failed (s1\<lparr>pm_in := xs\<rparr>)"
    and same: "switched (s1\<lparr>pm_in := xs\<rparr>) x = switched s x" for xs x
    using assms switched_cong [of "s1\<lparr>pm_in := xs\<rparr>" s] by (simp_all add: s1_def)
  have act: "switched s (act client c (s1\<lparr>pm_in := xs\<rparr>))" for c xs
    using act_switched [OF fib(1) _ _ fib(2)] assms by (simp add: same)
  have ask: "switched s (ask_read path off bytes out k (s1\<lparr>pm_in := xs\<rparr>))"
    if "read_want bytes out \<noteq> 0" for path off bytes out k xs
    using ask_read_switched [OF fib(1) _ _ fib(2)] assms that by (simp add: same)
  have "snd (fiber_resume client s) = (case fb_frame fb of
      Entry c \<Rightarrow> act client c s1 | InWait c \<Rightarrow> act client c s1
    | InRead path off bytes out want k \<Rightarrow> read_on client path off bytes out want k s1
    | InUpload k \<Rightarrow> act client (k True) s1
    | InFail \<Rightarrow> request ERROR InFail s1 | Running \<Rightarrow> s1)"
    using assms unfolding s1_def by (simp add: fiber_resume_def Let_def)
  also have "switched s \<dots>"
    using assms(5,6) act [of _ "pm_in s1"] act [of _ "[]"] ask [of _ _ _ _ _ "[]"]
    by (cases "fb_frame fb") (simp_all add: read_on_def Let_def)
  finally show ?thesis
    using assms by (simp add: fiber_resume_def Let_def)
qed

text \<open>The outcome of a step of a running job.\<close>

definition stepped :: "('c, 'r) pump \<Rightarrow> ('c, 'r) pump \<Rightarrow> bool" where
  "stepped s s' \<longleftrightarrow> switched s s' \<and> \<not> pm_inside s' \<and>
     (\<forall>fb'. pm_fiber s' = Some fb' \<and> fb_done fb' \<longrightarrow>
        pm_kind s' = (if fb_escaped fb' then ERROR else DONE))"

lemma pump_step_stepped:
  assumes "pump_inv s" and "pump_running s"
  shows "stepped s (pump_step client inp s)"
proof -
  obtain fb where fb: "pm_fiber s = Some fb" "\<not> fb_done fb" "\<not> fb_escaped fb" "\<not> pm_failed s"
    using assms by (auto simp: pump_running_def pump_inv_def split: option.splits)
  show ?thesis
  proof (cases "fb_frame fb = InFail \<or> fb_frame fb = Running")
    case True
    with fb assms(1) show ?thesis by (auto simp: pump_inv_def)
  next
    case False
    let ?s1 = "s\<lparr>pm_in := inp, pm_kind := NONE, pm_a := (0, 0, 0), pm_text := [], pm_rid := None, pm_inside := True\<rparr>"
    obtain more s2 where r: "fiber_resume client ?s1 = (more, s2)" by fastforce
    have sw: "switched s s2" and more: "more = (case pm_fiber s2 of None \<Rightarrow> False | Some fb' \<Rightarrow> \<not> fb_done fb')"
      using resume_switched [of ?s1 fb client] fb False r switched_cong [of ?s1 s] by simp_all
    from sw obtain fb' where fb': "pm_fiber s2 = Some fb'" by (auto simp: switched_def)
    have "pump_step client inp s =
        (if fb_done fb' \<and> \<not> pm_failed s2
         then (if fb_escaped fb' then s2\<lparr>pm_inside := False, pm_kind := ERROR, pm_text := ''an exception escaped the job''\<rparr>
               else s2\<lparr>pm_inside := False, pm_kind := DONE\<rparr>)
         else s2\<lparr>pm_inside := False\<rparr>)"
      using fb r more fb' by (simp add: pump_step_def Let_def)
    with sw fb' show ?thesis
      by (simp add: stepped_def switched_def yielded_def split: if_splits)
  qed
qed

lemma pump_step_stopped:
  "pump_inv s \<Longrightarrow> pm_fiber s = Some fb \<Longrightarrow> pm_failed s \<or> fb_done fb \<Longrightarrow> pump_step client inp s = s"
  by (simp add: pump_step_def)

text \<open>Every call the host or host-side guest code can make.\<close>

datatype 'c host_call = Step "u8 list" | Start bool 'c | FailOutside string

fun do_host_call :: "('c \<Rightarrow> ('c, 'r) action) \<Rightarrow> 'c host_call \<Rightarrow> ('c, 'r) pump \<Rightarrow> ('c, 'r) pump" where
  "do_host_call client (Step inp) s = pump_step client inp s"
| "do_host_call client (Start mem_ok c) s = snd (pump_start mem_ok c s)"
| "do_host_call client (FailOutside text) s = fail_outside text s"

lemma stepped_inv: "stepped s s' \<Longrightarrow> pump_inv s'"
  by (auto simp: stepped_def switched_def yielded_def pump_inv_def)

lemma pump_step_inv: "pump_inv s \<Longrightarrow> pump_inv (pump_step client inp s)"
proof (cases "pump_running s")
  case True
  then show "pump_inv s \<Longrightarrow> pump_inv (pump_step client inp s)"
    by (auto intro: stepped_inv pump_step_stepped)
next
  case False
  then show "pump_inv s \<Longrightarrow> pump_inv (pump_step client inp s)"
    by (auto simp: pump_running_def pump_step_def pump_inv_def split: option.splits)
qed

lemma pump_init_inv: "pump_inv pump_init"
  by (simp add: pump_inv_def pump_init_def)

interpretation pump_calls: machine "do_host_call client" pump_inv for client
proof
  show "pump_inv (do_host_call client i s)" if "pump_inv s" for i s
  proof (cases i)
    case (Start mem_ok c)
    have "pump_inv (snd (pump_start mem_ok c s))"
      using that unfolding pump_start_def
      by (cases "pump_running s"; cases mem_ok) (simp_all add: pump_inv_def pump_init_def new_fiber_def)
    with Start show ?thesis by simp
  next
    case (FailOutside msg)
    with that show ?thesis by (simp add: fail_outside_def pump_inv_def split: option.splits)
  qed (simp add: pump_step_inv that)
qed

text \<open>
  C27: whatever calls came before, a step of a running job reports something; it reports
  \<open>DONE\<close> or \<open>ERROR\<close> exactly when the job is over, and then every later step returns the
  same result and resumes nothing, until a new job is started, which is refused while the
  old one runs.
\<close>

theorem step_ends_job:
  assumes "s = fold (do_host_call client) calls pump_init" and "pump_running s"
    and "s' = pump_step client inp s"
  shows "pm_kind s' \<noteq> NONE \<and> (pump_running s' \<longleftrightarrow> pm_kind s' \<noteq> DONE \<and> pm_kind s' \<noteq> ERROR) \<and>
     (\<not> pump_running s' \<longrightarrow> fold (pump_step client) inps s' = s') \<and>
     (fst (pump_start True c s') \<longleftrightarrow> \<not> pump_running s')"
proof -
  have inv: "pump_inv s" unfolding assms(1) by (rule pump_calls.run_inv [OF pump_init_inv])
  have st: "stepped s s'" unfolding assms(3) using inv assms(2) by (rule pump_step_stepped)
  then obtain fb' where fb': "pm_fiber s' = Some fb'" by (auto simp: stepped_def switched_def)
  have "fold (pump_step client) inps s' = s'" if "\<not> pump_running s'"
  proof -
    have "pump_step client i s' = s'" for i
      using that fb' by (auto simp: pump_step_def pump_running_def)
    then show ?thesis by (induction inps) simp_all
  qed
  with st fb' show ?thesis
    by (auto simp: stepped_def switched_def yielded_def pump_running_def pump_start_def split: if_splits)
qed

definition demo_client :: "nat \<Rightarrow> (nat, unit) action" where
  "demo_client c = (if c = 0 then Read ''w'' 2 5 length else if c = 5 then WaitGpu 1 else Return)"

theorem step_ends_job_witness:
  "fold (pump_step demo_client) [[], [1]]
     (fold (do_host_call demo_client) [Start True 7, Step []] pump_init) =
   fold (do_host_call demo_client) [Start True 7, Step []] pump_init"
  using step_ends_job [of "fold (do_host_call demo_client) [Start True 7] pump_init" demo_client "[Start True 7]"
      "fold (do_host_call demo_client) [Start True 7, Step []] pump_init" "[]" "[[], [1]]"]
  by (simp add: pump_start_def pump_init_def pump_running_def new_fiber_def pump_step_def fiber_resume_def
      act_def demo_client_def Let_def)

text \<open>
  Of the requests of a step exactly one is counted, under the kind the host is told, and
  a job that returns or throws counts none.
\<close>

theorem step_counts_request:
  assumes "s = fold (do_host_call client) calls pump_init" and "pump_running s"
  shows "let s' = pump_step client inp s in
     pm_yields s' = pm_yields s \<and> pm_kind s' \<in> {DONE, ERROR} \<or>
     pm_yields s' = (pm_yields s)(pm_kind s' := pm_yields s (pm_kind s') + 1) \<and>
       pm_kind s' \<in> {WAIT_GPU, READ, UPLOAD, COOP, ERROR}"
proof -
  have "pump_inv s" unfolding assms(1) by (rule pump_calls.run_inv [OF pump_init_inv])
  then have st: "stepped s (pump_step client inp s)" using assms(2) by (rule pump_step_stepped)
  show ?thesis
    using st by (cases "pm_kind (pump_step client inp s)")
      (auto simp: stepped_def switched_def yielded_def Let_def split: if_splits)
qed

theorem step_counts_request_witness:
  "let s = fold (do_host_call demo_client) [Start True 5] pump_init in
     pm_yields (pump_step demo_client [] s) WAIT_GPU = 1"
proof -
  let ?s = "fold (do_host_call demo_client) [Start True 5] pump_init"
  have "pump_running ?s" and "pm_kind (pump_step demo_client [] ?s) = WAIT_GPU" and "pm_yields ?s = (\<lambda>k. 0)"
    by (simp_all add: pump_start_def pump_init_def pump_running_def new_fiber_def pump_step_def
        fiber_resume_def act_def demo_client_def request_def set_frame_def Let_def)
  with step_counts_request [OF refl, of demo_client "[Start True 5]" "[]"] show ?thesis by (simp add: Let_def)
qed

section \<open>Reading a host file\<close>

text \<open>The host (\<open>project/infer_host.gd\<close>) answers a READ with the bytes the file has there.\<close>

definition serve :: "(string \<Rightarrow> u8 list) \<Rightarrow> ('c, 'r) pump \<Rightarrow> u8 list" where
  "serve files s =
     (if pm_kind s = READ
      then take (unat (fst (snd (pm_a s)))) (drop (unat (fst (pm_a s))) (files (pm_text s))) else [])"

definition host_step :: "('c \<Rightarrow> ('c, 'r) action) \<Rightarrow> (string \<Rightarrow> u8 list) \<Rightarrow> ('c, 'r) pump \<Rightarrow> ('c, 'r) pump" where
  "host_step client files s = pump_step client (serve files s) s"

text \<open>The bytes \<open>read\<close> stands for: all from \<open>off\<close> on, or \<open>bytes\<close> of them.\<close>

definition file_slice :: "u8 list \<Rightarrow> u64 \<Rightarrow> u64 \<Rightarrow> u8 list" where
  "file_slice f off bytes =
     (if bytes = 0 then drop (unat off) f else take (unat bytes) (drop (unat off) f))"

definition reading :: "(string \<Rightarrow> u8 list) \<Rightarrow> string \<Rightarrow> u64 \<Rightarrow> u64 \<Rightarrow> (u8 list \<Rightarrow> 'c) \<Rightarrow> u8 list \<Rightarrow>
    ('c, 'r) pump \<Rightarrow> bool" where
  "reading files path off bytes k out s \<longleftrightarrow>
     (\<exists>fb. pm_fiber s = Some fb \<and> \<not> fb_done fb \<and> fb_started fb \<and>
        fb_frame fb = InRead path off bytes out (read_want bytes out) k) \<and>
     \<not> pm_failed s \<and> pm_kind s = READ \<and> pm_text s = path \<and>
     fst (pm_a s) = off + word_of_nat (length out) \<and> fst (snd (pm_a s)) = read_want bytes out \<and>
     out = take (length out) (file_slice (files path) off bytes) \<and> read_want bytes out \<noteq> 0"

text \<open>\<open>m\<close> more READs were counted, and the job is about to go on at \<open>c\<close>.\<close>

definition resume_at :: "'c \<Rightarrow> nat \<Rightarrow> ('c, 'r) pump \<Rightarrow> ('c, 'r) pump" where
  "resume_at c m s =
     set_frame (InWait c) (s\<lparr>pm_yields := (pm_yields s)(READ := pm_yields s READ + m)\<rparr>)"

lemma take_append_take_drop: "take a xs @ take b (drop a xs) = take (a + b) xs"
  by (simp add: take_add)

text \<open>A step depends on the fiber and the counters only.\<close>

lemma pump_step_cong:
  assumes "pm_fiber s = pm_fiber s'" "pm_yields s = pm_yields s'" "pm_failed s = pm_failed s'"
    and "pump_running s"
  shows "pump_step client inp s = pump_step client inp s'"
  using assms by (cases s; cases s') (auto simp: pump_step_def pump_running_def split: option.splits)

lemma step_read_done:
  assumes "pm_fiber s = Some fb" "\<not> fb_done fb" "fb_started fb" "\<not> pm_failed s"
    and "fb_frame fb = InRead path off bytes out (read_want bytes out) k"
    and "(word_of_nat (length inp) :: u64) < read_want bytes out \<or> read_want bytes (out @ inp) = 0"
  shows "pump_step client inp s = pump_step client [] (resume_at (k (out @ inp)) 0 s)"
proof -
  have "fiber_resume client (s\<lparr>pm_in := inp, pm_kind := NONE, pm_a := (0, 0, 0), pm_text := [],
      pm_rid := None, pm_inside := True\<rparr>) =
    fiber_resume client ((resume_at (k (out @ inp)) 0 s)\<lparr>pm_in := [], pm_kind := NONE, pm_a := (0, 0, 0),
      pm_text := [], pm_rid := None, pm_inside := True\<rparr>)"
    using assms
    by (cases s) (auto simp: fiber_resume_def read_on_def resume_at_def set_frame_def Let_def)
  with assms show ?thesis
    by (simp add: pump_step_def resume_at_def set_frame_def)
qed

lemma step_read_more:
  fixes client :: "'c \<Rightarrow> ('c, 'r) action"
  assumes "pm_fiber s = Some fb" "\<not> fb_done fb" "\<not> fb_escaped fb" "\<not> pm_failed s"
    and "fb_frame fb = InRead path off bytes out (read_want bytes out) k"
    and "\<not> (word_of_nat (length inp) :: u64) < read_want bytes out" "read_want bytes (out @ inp) \<noteq> 0"
  defines "s' \<equiv> pump_step client inp s"
  shows "pm_fiber s' = Some (fb\<lparr>fb_frame := InRead path off bytes (out @ inp) (read_want bytes (out @ inp)) k,
      fb_started := True\<rparr>)"
    and "pm_yields s' = (pm_yields s)(READ := pm_yields s READ + 1)" and "\<not> pm_failed s'"
    and "pm_kind s' = READ" "pm_text s' = path" "fst (pm_a s') = off + word_of_nat (length (out @ inp))"
    "fst (snd (pm_a s')) = read_want bytes (out @ inp)"
  using assms by (simp_all add: pump_step_def fiber_resume_def read_on_def pump_steps)

text \<open>The bytes of the next answer, as a part of the slice.\<close>

lemma unat_read_want:
  "length out \<le> unat bytes \<Longrightarrow>
     unat (read_want bytes out) = (if bytes = 0 then 16777216 else min (unat bytes - length out) 16777216)"
proof -
  assume le: "length out \<le> unat bytes"
  have l: "unat (word_of_nat (length out) :: u64) = length out"
    using le unat_lt64 [of bytes] by (intro unat_of_nat64) linarith
  then have "unat (bytes - word_of_nat (length out)) = unat bytes - length out"
    using le by (simp add: unat_sub word_le_nat_alt)
  then show ?thesis
    by (simp add: read_want_def min_def word_le_nat_alt)
qed

lemma length_file_slice:
  "length (file_slice f off bytes) \<le> length f - unat off"
  "bytes \<noteq> 0 \<Longrightarrow> length (file_slice f off bytes) \<le> unat bytes"
  by (simp_all add: file_slice_def)

lemma drop_offset:
  assumes "length f < 2 ^ 64" "length out \<le> length f - unat off"
  shows "drop (unat (off + word_of_nat (length out) :: u64)) f = drop (length out) (drop (unat off) f)"
proof (cases "out = []")
  case False
  then have "0 < length out" by simp
  with assms have "unat off + length out < 2 ^ 64" by linarith
  moreover from this have l: "unat (word_of_nat (length out) :: u64) = length out" by (simp add: unat_of_nat)
  ultimately have "unat (off + word_of_nat (length out)) = unat off + length out"
    by (simp add: no_wrap)
  then show ?thesis by (simp add: add.commute)
qed simp

lemma read_want_0: "read_want bytes out = 0 \<longleftrightarrow> bytes \<noteq> 0 \<and> bytes = word_of_nat (length out)"
  by (auto simp: read_want_def min_def split: if_splits)

lemma next_chunk:
  assumes f: "length f < 2 ^ 64" and out: "out = take (length out) (file_slice f off bytes)"
  defines "T \<equiv> file_slice f off bytes" and "want \<equiv> read_want bytes out"
  defines "inp \<equiv> take (unat want) (drop (unat (off + word_of_nat (length out))) f)"
  assumes "want \<noteq> 0"
  shows "inp = take (unat want) (drop (length out) T)" and "length inp < 2 ^ 64"
    and "out @ inp = take (length out + unat want) T"
    and "length inp < unat want \<or> read_want bytes (out @ inp) = 0 \<Longrightarrow> out @ inp = T"
    and "length inp = unat want \<Longrightarrow> read_want bytes (out @ inp) \<noteq> 0 \<Longrightarrow> unat want = 16777216"
proof -
  have lo: "length out \<le> length T" using out unfolding T_def by (metis length_take min.cobounded1)
  then have le: "length out \<le> length f - unat off"
    using length_file_slice(1) [of f off bytes] unfolding T_def by linarith
  have w: "unat want = (if bytes = 0 then 16777216 else min (unat bytes - length out) 16777216)"
  proof (cases "bytes = 0")
    case False
    then show ?thesis using unat_read_want lo length_file_slice(2) [of bytes f off]
      unfolding want_def T_def by simp
  qed (simp add: want_def read_want_def)
  have "drop (unat (off + word_of_nat (length out))) f = drop (length out) (drop (unat off) f)"
    using f le by (rule drop_offset)
  then show inp: "inp = take (unat want) (drop (length out) T)"
    by (simp add: inp_def T_def file_slice_def w drop_take min_def)
  show "length inp < 2 ^ 64" using f by (simp add: inp_def)
  show app: "out @ inp = take (length out + unat want) T"
    unfolding inp using out by (simp add: take_add T_def)
  show "unat want = 16777216" if full: "length inp = unat want" and "read_want bytes (out @ inp) \<noteq> 0"
  proof (rule ccontr)
    assume ne: "unat want \<noteq> 16777216"
    with w have "bytes \<noteq> 0" "length (out @ inp) = unat bytes"
      using full lo length_file_slice(2) [of bytes f off] by (auto simp: T_def min_def split: if_splits)
    then have "read_want bytes (out @ inp) = 0" unfolding read_want_0 by simp
    with that show False by simp
  qed
  show "out @ inp = T" if stop: "length inp < unat want \<or> read_want bytes (out @ inp) = 0"
  proof (cases "length inp < unat want")
    case True
    then have "length T \<le> length out + unat want" using inp by simp
    then show ?thesis using app by simp
  next
    case False
    with stop have "read_want bytes (out @ inp) = 0" by blast
    then have "bytes \<noteq> 0" "bytes = word_of_nat (length (out @ inp))"
      unfolding read_want_0 by blast+
    moreover have "length (out @ inp) < 2 ^ 64" using app length_file_slice(1) [of f off bytes] f
      by (simp add: T_def)
    ultimately have "unat bytes = length (out @ inp)" by (simp only: unat_of_nat64)
    moreover have "length T \<le> unat bytes" using length_file_slice(2) \<open>bytes \<noteq> 0\<close> by (simp add: T_def)
    ultimately show ?thesis using app by simp
  qed
qed

lemma read_whole:
  fixes s :: "('c, 'r) pump"
  assumes "length (files path) < 2 ^ 64"
    and "reading files path off bytes k out s" and "\<forall>fb. pm_fiber s = Some fb \<longrightarrow> \<not> fb_escaped fb"
  shows "\<exists>m. m * 16777216 + length out \<le> length (file_slice (files path) off bytes) \<and>
     (host_step client files ^^ (m + 1)) s =
       pump_step client [] (resume_at (k (file_slice (files path) off bytes)) m s)"
  using assms(2,3)
proof (induction "length (file_slice (files path) off bytes) - length out" arbitrary: out s rule: less_induct)
  case less
  let ?T = "file_slice (files path) off bytes" and ?want = "read_want bytes out"
  let ?inp = "take (unat ?want) (drop (unat (off + word_of_nat (length out))) (files path))"
  from less.prems obtain fb where fb: "pm_fiber s = Some fb" "\<not> fb_done fb" "fb_started fb" "\<not> fb_escaped fb"
      "fb_frame fb = InRead path off bytes out ?want k"
    and s: "\<not> pm_failed s" "serve files s = ?inp" and out: "out = take (length out) ?T" and want: "?want \<noteq> 0"
    by (auto simp: reading_def serve_def)
  note chunk = next_chunk [OF assms(1) out want]
  have l: "unat (word_of_nat (length ?inp) :: u64) = length ?inp" using chunk(2) by (simp add: unat_of_nat)
  have lo: "length out \<le> length ?T" using out by (metis length_take min.cobounded1)
  show ?case
  proof (cases "length ?inp < unat ?want \<or> read_want bytes (out @ ?inp) = 0")
    case True
    then have "pump_step client ?inp s = pump_step client [] (resume_at (k (out @ ?inp)) 0 s)"
      using fb s l by (intro step_read_done) (auto simp: word_less_nat_alt)
    with s chunk(4) [OF True] lo show ?thesis
      by (intro exI [of _ 0]) (simp add: host_step_def)
  next
    case False
    let ?s' = "pump_step client ?inp s"
    have more: "\<not> (word_of_nat (length ?inp) :: u64) < ?want" "read_want bytes (out @ ?inp) \<noteq> 0"
      using False l by (auto simp: word_less_nat_alt)
    note s' = step_read_more [OF fb(1,2,4) s(1) fb(5) more, of client]
    have len: "length (out @ ?inp) = length out + unat ?want" "length (out @ ?inp) \<le> length ?T"
    proof -
      have "length ?inp \<le> unat ?want" by simp
      with False have "length ?inp = unat ?want" by linarith
      then show "length (out @ ?inp) = length out + unat ?want" by simp
      show "length (out @ ?inp) \<le> length ?T" unfolding chunk(3) by simp
    qed
    have "reading files path off bytes k (out @ ?inp) ?s'"
      using s' fb more(2) chunk(3) len by (auto simp: reading_def)
    moreover have "length ?T - length (out @ ?inp) < length ?T - length out"
    proof -
      have "0 < unat ?want" using want by (simp add: unat_gt_0)
      with len show ?thesis by linarith
    qed
    moreover have "\<forall>fb. pm_fiber ?s' = Some fb \<longrightarrow> \<not> fb_escaped fb" using s'(1) fb by simp
    ultimately obtain m where m: "m * 16777216 + length (out @ ?inp) \<le> length ?T"
        "(host_step client files ^^ (m + 1)) ?s' = pump_step client [] (resume_at (k ?T) m ?s')"
      using less.hyps by blast
    have "unat ?want = 16777216" using False len by (intro chunk(5)) simp_all
    have "pump_step client [] (resume_at (k ?T) m ?s') = pump_step client [] (resume_at (k ?T) (Suc m) s)"
      using s' fb s by (intro pump_step_cong) (simp_all add: resume_at_def set_frame_def pump_running_def)
    moreover have "(host_step client files ^^ (Suc m + 1)) s = (host_step client files ^^ (m + 1)) ?s'"
      using s(2) by (simp add: host_step_def funpow_swap1)
    ultimately show ?thesis using m \<open>unat ?want = 16777216\<close> len
      by (intro exI [of _ "Suc m"]) simp
  qed
qed

text \<open>
  C18: a job that calls \<open>read\<close> gets exactly the bytes of the host file from \<open>off\<close> on (all of
  them for \<open>bytes = 0\<close>), put together from READ requests, of which all but the last brought
  16 MiB: after them the job goes on as if the call had returned the whole slice at once.
\<close>

theorem read_reassembles:
  assumes "pump_inv s" "pump_running s" and "pm_fiber s = Some fb" "fb_frame fb \<in> {Entry c, InWait c}"
    and "client c = Read path off bytes k" and "length (files path) < 2 ^ 64"
  shows "\<exists>m. m * 16777216 \<le> length (file_slice (files path) off bytes) \<and>
     (host_step client files ^^ (m + 1)) (pump_step client inp s) =
       pump_step client [] (resume_at (k (file_slice (files path) off bytes)) m (pump_step client inp s))"
proof -
  let ?s1 = "pump_step client inp s"
  have fb: "\<not> fb_done fb" "\<not> fb_escaped fb" "\<not> pm_failed s"
    using assms(1-4) by (auto simp: pump_inv_def pump_running_def)
  then have s1: "pm_fiber ?s1 = Some (fb\<lparr>fb_frame := InRead path off bytes [] (read_want bytes []) k, fb_started := True\<rparr>)"
    "\<not> pm_failed ?s1" "pm_kind ?s1 = READ" "pm_text ?s1 = path" "fst (pm_a ?s1) = off"
    "fst (snd (pm_a ?s1)) = read_want bytes []"
    using assms(3-5) by (auto simp: pump_step_def fiber_resume_def act_def pump_steps)
  then have "reading files path off bytes k [] ?s1" "\<forall>fb. pm_fiber ?s1 = Some fb \<longrightarrow> \<not> fb_escaped fb"
    using fb read_want_first by (auto simp: reading_def)
  from read_whole [OF assms(6) this] show ?thesis by simp
qed

theorem read_reassembles_witness:
  "\<exists>m. pm_kind ((host_step demo_client (\<lambda>p. [9, 8, 7, 6, 5, 4, 3, 2]) ^^ (m + 1))
     (pump_step demo_client [] (snd (pump_start True 0 pump_init)))) = WAIT_GPU"
proof -
  let ?s = "snd (pump_start True 0 pump_init) :: (nat, unit) pump" and ?files = "\<lambda>p. [9, 8, 7, 6, 5, 4, 3, 2] :: u8 list"
  have s: "pump_inv ?s" "pump_running ?s" "pm_fiber ?s = Some (new_fiber True 0)" "fb_frame (new_fiber True 0) \<in> {Entry (0 :: nat), InWait 0}"
    by (simp_all add: pump_start_def pump_init_def pump_inv_def pump_running_def new_fiber_def)
  have s1: "pm_fiber (pump_step demo_client [] ?s) = Some \<lparr>fb_frame = InRead ''w'' 2 5 [] 5 length, fb_started = True,
      fb_done = False, fb_escaped = False\<rparr>" "\<not> pm_failed (pump_step demo_client [] ?s)"
    using s(3) by (simp_all add: pump_start_def pump_init_def pump_step_def fiber_resume_def act_def pump_steps
        demo_client_def new_fiber_def pump_running_def read_want_def kReadChunk_def push_bit_eq_mult)
  have slice: "length (file_slice (?files ''w'') 2 5) = 5" by (simp add: file_slice_def)
  have "pm_kind (pump_step demo_client [] (resume_at 5 m (pump_step demo_client [] ?s))) = WAIT_GPU" for m
    using s1 by (simp add: resume_at_def pump_step_def fiber_resume_def act_def pump_steps demo_client_def)
  with read_reassembles [OF s, of demo_client "''w''" 2 5 length ?files "[]"] slice show ?thesis
    by (auto simp: demo_client_def) metis
qed

end
