(* ===== verification/GgmlTensor.thy ===== *)
theory GgmlTensor
  imports Prelude
begin

text \<open>
  The part of ggml's tensors the ggml-rd backend reads: \<open>struct ggml_tensor\<close> and the enums
  of \<open>vendor/ggml/include/ggml.h\<close>, and the shape predicates of \<open>vendor/ggml/src/ggml.c\<close>
  that the packers call. A fixed-size array is a function of its index; \<open>int64_t\<close> and
  \<open>size_t\<close> are 64-bit words, the former read with \<open>sint\<close>. A signed overflow, undefined
  in the code, wraps here; \<open>exact\<close> says that the element count does not.
\<close>

section \<open>Types and operations\<close>

datatype (plugins only: code size) ggml_type =
    GGML_TYPE_F32 | GGML_TYPE_F16 | GGML_TYPE_Q4_0 | GGML_TYPE_Q4_1 | GGML_TYPE_Q5_0
  | GGML_TYPE_Q5_1 | GGML_TYPE_Q8_0 | GGML_TYPE_Q8_1 | GGML_TYPE_Q2_K | GGML_TYPE_Q3_K
  | GGML_TYPE_Q4_K | GGML_TYPE_Q5_K | GGML_TYPE_Q6_K | GGML_TYPE_Q8_K | GGML_TYPE_IQ2_XXS
  | GGML_TYPE_IQ2_XS | GGML_TYPE_IQ3_XXS | GGML_TYPE_IQ1_S | GGML_TYPE_IQ4_NL
  | GGML_TYPE_IQ3_S | GGML_TYPE_IQ2_S | GGML_TYPE_IQ4_XS | GGML_TYPE_I8 | GGML_TYPE_I16
  | GGML_TYPE_I32 | GGML_TYPE_I64 | GGML_TYPE_F64 | GGML_TYPE_IQ1_M | GGML_TYPE_BF16
  | GGML_TYPE_TQ1_0 | GGML_TYPE_TQ2_0 | GGML_TYPE_MXFP4 | GGML_TYPE_NVFP4 | GGML_TYPE_Q1_0
  | GGML_TYPE_Q2_0 | GGML_TYPE_F8_E4M3 | GGML_TYPE_F8_E5M2

text \<open>
  The operations the backend names, and \<open>GGML_OP_OTHER\<close> with its number for the 54 it has
  no code for.
\<close>

datatype (plugins only: code size) ggml_op =
    GGML_OP_NONE | GGML_OP_DUP | GGML_OP_ADD | GGML_OP_SUB | GGML_OP_MUL | GGML_OP_DIV
  | GGML_OP_SQR | GGML_OP_SQRT | GGML_OP_LOG | GGML_OP_SIN | GGML_OP_COS | GGML_OP_SUM
  | GGML_OP_SUM_ROWS | GGML_OP_MEAN | GGML_OP_REPEAT | GGML_OP_CONCAT | GGML_OP_NORM
  | GGML_OP_RMS_NORM | GGML_OP_GROUP_NORM | GGML_OP_MUL_MAT | GGML_OP_SCALE | GGML_OP_SET
  | GGML_OP_CPY | GGML_OP_CONT | GGML_OP_RESHAPE | GGML_OP_VIEW | GGML_OP_PERMUTE
  | GGML_OP_TRANSPOSE | GGML_OP_GET_ROWS | GGML_OP_DIAG_MASK_INF | GGML_OP_SOFT_MAX
  | GGML_OP_ROPE | GGML_OP_CLAMP | GGML_OP_IM2COL | GGML_OP_CONV_2D | GGML_OP_CONV_3D
  | GGML_OP_CONV_2D_DW | GGML_OP_CONV_TRANSPOSE_2D | GGML_OP_POOL_1D | GGML_OP_UPSCALE
  | GGML_OP_PAD | GGML_OP_ARANGE | GGML_OP_TIMESTEP_EMBEDDING | GGML_OP_ARGSORT
  | GGML_OP_LEAKY_RELU | GGML_OP_FLASH_ATTN_EXT | GGML_OP_UNARY | GGML_OP_GLU
  | GGML_OP_OTHER nat

text \<open>The two sub-operation enums are read out of \<open>op_params\<close>, so they stay numbers.\<close>

abbreviation (input) GGML_UNARY_OP_SILU :: int where "GGML_UNARY_OP_SILU \<equiv> 10"
abbreviation (input) GGML_UNARY_OP_GELU :: int where "GGML_UNARY_OP_GELU \<equiv> 8"
abbreviation (input) GGML_UNARY_OP_GELU_ERF :: int where "GGML_UNARY_OP_GELU_ERF \<equiv> 16"
abbreviation (input) GGML_UNARY_OP_SIGMOID :: int where "GGML_UNARY_OP_SIGMOID \<equiv> 7"
abbreviation (input) GGML_UNARY_OP_NEG :: int where "GGML_UNARY_OP_NEG \<equiv> 2"
abbreviation (input) GGML_UNARY_OP_RELU :: int where "GGML_UNARY_OP_RELU \<equiv> 6"
abbreviation (input) GGML_UNARY_OP_ABS :: int where "GGML_UNARY_OP_ABS \<equiv> 0"
abbreviation (input) GGML_UNARY_OP_SGN :: int where "GGML_UNARY_OP_SGN \<equiv> 1"
abbreviation (input) GGML_UNARY_OP_STEP :: int where "GGML_UNARY_OP_STEP \<equiv> 3"
abbreviation (input) GGML_UNARY_OP_TANH :: int where "GGML_UNARY_OP_TANH \<equiv> 4"
abbreviation (input) GGML_UNARY_OP_EXP :: int where "GGML_UNARY_OP_EXP \<equiv> 13"
abbreviation (input) GGML_UNARY_OP_FLOOR :: int where "GGML_UNARY_OP_FLOOR \<equiv> 18"
abbreviation (input) GGML_UNARY_OP_GELU_QUICK :: int where "GGML_UNARY_OP_GELU_QUICK \<equiv> 9"
abbreviation (input) GGML_GLU_OP_GEGLU_ERF :: int where "GGML_GLU_OP_GEGLU_ERF \<equiv> 4"

section \<open>Block and element sizes\<close>

definition ggml_blck_size :: "ggml_type \<Rightarrow> u64" where
  "ggml_blck_size t =
     (case t of
        GGML_TYPE_F32 \<Rightarrow> 1
      | GGML_TYPE_F16 \<Rightarrow> 1
      | GGML_TYPE_I8 \<Rightarrow> 1
      | GGML_TYPE_I16 \<Rightarrow> 1
      | GGML_TYPE_I32 \<Rightarrow> 1
      | GGML_TYPE_I64 \<Rightarrow> 1
      | GGML_TYPE_F64 \<Rightarrow> 1
      | GGML_TYPE_BF16 \<Rightarrow> 1
      | GGML_TYPE_F8_E4M3 \<Rightarrow> 1
      | GGML_TYPE_F8_E5M2 \<Rightarrow> 1
      | GGML_TYPE_Q4_0 \<Rightarrow> 32
      | GGML_TYPE_Q4_1 \<Rightarrow> 32
      | GGML_TYPE_Q5_0 \<Rightarrow> 32
      | GGML_TYPE_Q5_1 \<Rightarrow> 32
      | GGML_TYPE_Q8_0 \<Rightarrow> 32
      | GGML_TYPE_Q8_1 \<Rightarrow> 32
      | GGML_TYPE_IQ4_NL \<Rightarrow> 32
      | GGML_TYPE_MXFP4 \<Rightarrow> 32
      | GGML_TYPE_NVFP4 \<Rightarrow> 64
      | GGML_TYPE_Q2_0 \<Rightarrow> 64
      | GGML_TYPE_Q1_0 \<Rightarrow> 128
      | _ \<Rightarrow> 256)"

definition ggml_type_size :: "ggml_type \<Rightarrow> u64" where
  "ggml_type_size t =
     (case t of
        GGML_TYPE_I8 \<Rightarrow> 1
      | GGML_TYPE_F8_E4M3 \<Rightarrow> 1
      | GGML_TYPE_F8_E5M2 \<Rightarrow> 1
      | GGML_TYPE_F16 \<Rightarrow> 2
      | GGML_TYPE_I16 \<Rightarrow> 2
      | GGML_TYPE_BF16 \<Rightarrow> 2
      | GGML_TYPE_F32 \<Rightarrow> 4
      | GGML_TYPE_I32 \<Rightarrow> 4
      | GGML_TYPE_I64 \<Rightarrow> 8
      | GGML_TYPE_F64 \<Rightarrow> 8
      | GGML_TYPE_MXFP4 \<Rightarrow> 17
      | GGML_TYPE_Q4_0 \<Rightarrow> 18
      | GGML_TYPE_IQ4_NL \<Rightarrow> 18
      | GGML_TYPE_Q1_0 \<Rightarrow> 18
      | GGML_TYPE_Q2_0 \<Rightarrow> 18
      | GGML_TYPE_Q4_1 \<Rightarrow> 20
      | GGML_TYPE_Q5_0 \<Rightarrow> 22
      | GGML_TYPE_Q5_1 \<Rightarrow> 24
      | GGML_TYPE_Q8_0 \<Rightarrow> 34
      | GGML_TYPE_Q8_1 \<Rightarrow> 36
      | GGML_TYPE_NVFP4 \<Rightarrow> 36
      | GGML_TYPE_IQ1_S \<Rightarrow> 50
      | GGML_TYPE_TQ1_0 \<Rightarrow> 54
      | GGML_TYPE_IQ1_M \<Rightarrow> 56
      | GGML_TYPE_IQ2_XXS \<Rightarrow> 66
      | GGML_TYPE_TQ2_0 \<Rightarrow> 66
      | GGML_TYPE_IQ2_XS \<Rightarrow> 74
      | GGML_TYPE_IQ2_S \<Rightarrow> 82
      | GGML_TYPE_Q2_K \<Rightarrow> 84
      | GGML_TYPE_IQ3_XXS \<Rightarrow> 98
      | GGML_TYPE_Q3_K \<Rightarrow> 110
      | GGML_TYPE_IQ3_S \<Rightarrow> 110
      | GGML_TYPE_IQ4_XS \<Rightarrow> 136
      | GGML_TYPE_Q4_K \<Rightarrow> 144
      | GGML_TYPE_Q5_K \<Rightarrow> 176
      | GGML_TYPE_Q6_K \<Rightarrow> 210
      | GGML_TYPE_Q8_K \<Rightarrow> 292)"

section \<open>Tensors\<close>

text \<open>
  \<open>t_buffer\<close> names the backend buffer (its number), \<open>t_data\<close> is the address, \<open>t_src\<close> and
  \<open>t_view_src\<close> follow the pointers. \<open>op_params\<close> are the raw 32-bit words.
\<close>

datatype tensor = Tensor
  (t_type: ggml_type)
  (t_buffer: "nat option")
  (t_ne: "nat \<Rightarrow> i64")
  (t_nb: "nat \<Rightarrow> u64")
  (t_op: ggml_op)
  (t_params: "nat \<Rightarrow> i32")
  (t_flags: i32)
  (t_src: "nat \<Rightarrow> tensor option")
  (t_view_src: "tensor option")
  (t_data: u64)
  (t_name: string)

abbreviation all4 :: "(nat \<Rightarrow> bool) \<Rightarrow> bool" where
  "all4 P \<equiv> P 0 \<and> P 1 \<and> P 2 \<and> P 3"

lemma all4_iff: "all4 P \<longleftrightarrow> (\<forall>k<4. P k)"
  by (auto simp: eval_nat_numeral less_Suc_eq)

definition ggml_nelements :: "tensor \<Rightarrow> i64" where
  "ggml_nelements t = t_ne t 0 * t_ne t 1 * t_ne t 2 * t_ne t 3"

definition ggml_nrows :: "tensor \<Rightarrow> i64" where
  "ggml_nrows t = t_ne t 1 * t_ne t 2 * t_ne t 3"

definition ggml_nbytes :: "tensor \<Rightarrow> u64" where
  "ggml_nbytes t =
     (if \<not> all4 (\<lambda>i. \<not> sint (t_ne t i) \<le> 0) then 0
      else let blck_size = ggml_blck_size (t_type t)
           in if blck_size = 1
              then ggml_type_size (t_type t) + (t_ne t 0 - 1) * t_nb t 0 + (t_ne t 1 - 1) * t_nb t 1
                   + (t_ne t 2 - 1) * t_nb t 2 + (t_ne t 3 - 1) * t_nb t 3
              else t_ne t 0 * t_nb t 0 div blck_size + (t_ne t 1 - 1) * t_nb t 1
                   + (t_ne t 2 - 1) * t_nb t 2 + (t_ne t 3 - 1) * t_nb t 3)"

text \<open>The loop of \<open>ggml_is_contiguous_m_n\<close> from dimension \<open>i\<close> on, \<open>j\<close> dimensions left.\<close>

fun contiguous_from :: "tensor \<Rightarrow> nat \<Rightarrow> nat \<Rightarrow> nat \<Rightarrow> u64 \<Rightarrow> bool" where
  "contiguous_from t m 0 i next_nb = True"
| "contiguous_from t m (Suc j) i next_nb =
     (if i > m
      then (if t_ne t i \<noteq> 1 \<and> t_nb t i \<noteq> next_nb then False
            else contiguous_from t m j (Suc i) (next_nb * t_ne t i))
      else contiguous_from t m j (Suc i) (t_ne t i * t_nb t i))"

definition ggml_is_contiguous_m_n :: "tensor \<Rightarrow> nat \<Rightarrow> nat \<Rightarrow> bool" where
  "ggml_is_contiguous_m_n t m n =
     (let next_nb = ggml_type_size (t_type t)
      in if t_ne t 0 \<noteq> ggml_blck_size (t_type t) \<and> t_nb t 0 \<noteq> next_nb then False
         else contiguous_from t m (n - 1) 1 (next_nb * sdiv_w (t_ne t 0) (ggml_blck_size (t_type t))))"

definition ggml_is_contiguous :: "tensor \<Rightarrow> bool" where
  "ggml_is_contiguous t = ggml_is_contiguous_m_n t 0 4"

definition ggml_is_empty :: "tensor \<Rightarrow> bool" where
  "ggml_is_empty t = (t_ne t 0 = 0 \<or> t_ne t 1 = 0 \<or> t_ne t 2 = 0 \<or> t_ne t 3 = 0)"

definition ggml_are_same_shape :: "tensor \<Rightarrow> tensor \<Rightarrow> bool" where
  "ggml_are_same_shape t0 t1 = all4 (\<lambda>k. t_ne t0 k = t_ne t1 k)"

definition ggml_can_repeat :: "tensor \<Rightarrow> tensor \<Rightarrow> bool" where
  "ggml_can_repeat t0 t1 =
     (if ggml_is_empty t0 then ggml_is_empty t1 else all4 (\<lambda>k. smod_w (t_ne t1 k) (t_ne t0 k) = 0))"

definition ggml_get_unary_op :: "tensor \<Rightarrow> int" where
  "ggml_get_unary_op t = sint (t_params t 0)"

definition ggml_get_glu_op :: "tensor \<Rightarrow> int" where
  "ggml_get_glu_op t = sint (t_params t 0)"

section \<open>Tensors whose sizes do not overflow\<close>

text \<open>
  What ggml's own signed arithmetic needs (a signed overflow is undefined): no negative
  extent, and an element count that an \<open>int64_t\<close> holds.
\<close>

definition exact :: "tensor \<Rightarrow> bool" where
  "exact t \<longleftrightarrow> all4 (\<lambda>k. 1 \<le> sint (t_ne t k)) \<and>
     unat (t_ne t 0) * unat (t_ne t 1) * unat (t_ne t 2) * unat (t_ne t 3) < 2 ^ 63"

lemma unat_mult_bounded:
  "unat a * unat b \<le> B \<Longrightarrow> B < 2 ^ 64 \<Longrightarrow> unat (a * b :: u64) = unat a * unat b"
  by (intro unat_mult_no_wrap) simp

lemma sint_pos_unat: "1 \<le> sint (w :: i64) \<Longrightarrow> 0 < unat w"
  by (cases "w = 0") (simp_all add: unat_gt_0)

lemma unat_mult4:
  assumes "unat a * unat b * unat c * unat d < 2 ^ 64" "0 < unat c" "0 < unat d"
  shows "unat (a * b * c * d :: u64) = unat a * unat b * unat c * unat d"
proof -
  have "unat a * unat b \<le> unat a * unat b * unat c"
    "unat a * unat b * unat c \<le> unat a * unat b * unat c * unat d"
    using assms(2,3) by simp_all
  then have lt: "unat a * unat b < 2 ^ 64" "unat a * unat b * unat c < 2 ^ 64" using assms(1) by linarith+
  then have "unat (a * b) = unat a * unat b" "unat (a * b * c) = unat a * unat b * unat c"
    by (simp_all add: unat_mult_no_wrap)
  with assms(1) show ?thesis by (simp add: unat_mult_no_wrap)
qed

lemma nelements_exact:
  assumes "exact t"
  shows "unat (ggml_nelements t) = unat (t_ne t 0) * unat (t_ne t 1) * unat (t_ne t 2) * unat (t_ne t 3)"
    and "0 < unat (ggml_nelements t)"
proof -
  have ge: "0 < unat (t_ne t 0)" "0 < unat (t_ne t 1)" "0 < unat (t_ne t 2)" "0 < unat (t_ne t 3)"
    and lt: "unat (t_ne t 0) * unat (t_ne t 1) * unat (t_ne t 2) * unat (t_ne t 3) < 2 ^ 64"
    using assms sint_pos_unat unfolding exact_def by auto
  from unat_mult4 [OF lt ge(3,4)]
  show eq: "unat (ggml_nelements t) = unat (t_ne t 0) * unat (t_ne t 1) * unat (t_ne t 2) * unat (t_ne t 3)"
    by (simp only: ggml_nelements_def)
  show "0 < unat (ggml_nelements t)" unfolding eq using ge by simp
qed

end
