(* ===== verification/KernelTable.thy ===== *)
theory KernelTable
  imports Prelude
begin

text \<open>
  The kernels of the ggml-rd backend, \<open>kernels/ggml/GgmlKernelTable.inc\<close>, with the search
  of \<open>guest/ggml-rd/rd_pack.cpp\<close>: a kernel's number is its place in the table.
\<close>

section \<open>The kernel table\<close>

definition kKernels :: "(string \<times> u32 \<times> u32 \<times> u32) list" where
  "kKernels =
    [(''add_f32'', (256, 1, 1)),
     (''mul_f32'', (256, 1, 1)),
     (''silu_f32'', (256, 1, 1)),
     (''gelu_f32'', (256, 1, 1)),
     (''gelu_erf_f32'', (256, 1, 1)),
     (''sigmoid_f32'', (256, 1, 1)),
     (''neg_f32'', (256, 1, 1)),
     (''scale_f32'', (256, 1, 1)),
     (''diag_mask_inf_f32'', (256, 1, 1)),
     (''rope_neox_f32'', (256, 1, 1)),
     (''cpy_b32'', (256, 1, 1)),
     (''cpy_b16'', (256, 1, 1)),
     (''cpy_f32_f16'', (256, 1, 1)),
     (''cpy_f32_bf16'', (256, 1, 1)),
     (''cpy_f16_f32'', (256, 1, 1)),
     (''cpy_bf16_f32'', (256, 1, 1)),
     (''cpy_f16_bf16'', (256, 1, 1)),
     (''cpy_bf16_f16'', (256, 1, 1)),
     (''get_rows_b32'', (256, 1, 1)),
     (''get_rows_f16'', (256, 1, 1)),
     (''get_rows_bf16'', (256, 1, 1)),
     (''concat_b32'', (256, 1, 1)),
     (''concat_b16'', (256, 1, 1)),
     (''repeat_b32'', (256, 1, 1)),
     (''repeat_b16'', (256, 1, 1)),
     (''norm_f32'', (256, 1, 1)),
     (''norm_f32_serial'', (1, 1, 1)),
     (''rms_norm_f32'', (256, 1, 1)),
     (''rms_norm_f32_serial'', (1, 1, 1)),
     (''mean_f32'', (256, 1, 1)),
     (''mean_f32_serial'', (1, 1, 1)),
     (''soft_max_f32'', (256, 1, 1)),
     (''soft_max_f32_serial'', (1, 1, 1)),
     (''norm_f32_t64'', (64, 1, 1)),
     (''norm_f32_t64_serial'', (1, 1, 1)),
     (''rms_norm_f32_t64'', (64, 1, 1)),
     (''rms_norm_f32_t64_serial'', (1, 1, 1)),
     (''soft_max_f32_t64'', (64, 1, 1)),
     (''soft_max_f32_t64_serial'', (1, 1, 1)),
     (''mul_mat_tiled_f32_f32'', (16, 16, 1)),
     (''mul_mat_tiled_f16_f32'', (16, 16, 1)),
     (''mul_mat_tiled_bf16_f32'', (16, 16, 1)),
     (''mul_mat_tiled_f16_f16'', (16, 16, 1)),
     (''mul_mat_vec_f32_f32'', (32, 8, 1)),
     (''mul_mat_vec_f16_f32'', (32, 8, 1)),
     (''mul_mat_vec_bf16_f32'', (32, 8, 1)),
     (''mul_mat_vec_f16_f16'', (32, 8, 1)),
     (''mul_mat_serial_tiled_f32_f32'', (16, 16, 1)),
     (''mul_mat_serial_tiled_f16_f32'', (16, 16, 1)),
     (''mul_mat_serial_tiled_bf16_f32'', (16, 16, 1)),
     (''mul_mat_serial_tiled_f16_f16'', (16, 16, 1)),
     (''mul_mat_serial_vec_f32_f32'', (32, 8, 1)),
     (''mul_mat_serial_vec_f16_f32'', (32, 8, 1)),
     (''mul_mat_serial_vec_bf16_f32'', (32, 8, 1)),
     (''mul_mat_serial_vec_f16_f16'', (32, 8, 1)),
     (''im2col_f32'', (256, 1, 1)),
     (''im2col_f16'', (256, 1, 1)),
     (''conv3d_f32'', (256, 1, 1)),
     (''conv3d_f16'', (256, 1, 1)),
     (''flash_attn_ext_f32_d64'', (128, 1, 1)),
     (''flash_attn_ext_f32_d64_serial'', (64, 1, 1)),
     (''flash_attn_ext_f32_d128'', (128, 1, 1)),
     (''flash_attn_ext_f32_d128_serial'', (64, 1, 1)),
     (''flash_attn_ext_f16_d64'', (128, 1, 1)),
     (''flash_attn_ext_f16_d64_serial'', (64, 1, 1)),
     (''flash_attn_ext_f16_d128'', (128, 1, 1)),
     (''flash_attn_ext_f16_d128_serial'', (64, 1, 1)),
     (''sub_f32'', (256, 1, 1)),
     (''relu_f32'', (256, 1, 1)),
     (''leaky_relu_f32'', (256, 1, 1)),
     (''clamp_f32'', (256, 1, 1)),
     (''upscale_nearest_f32'', (256, 1, 1)),
     (''abs_f32'', (256, 1, 1)),
     (''sgn_f32'', (256, 1, 1)),
     (''step_f32'', (256, 1, 1)),
     (''exp_f32'', (256, 1, 1)),
     (''tanh_f32'', (256, 1, 1)),
     (''floor_f32'', (256, 1, 1)),
     (''sqr_f32'', (256, 1, 1)),
     (''log_f32'', (256, 1, 1)),
     (''sin_f32'', (256, 1, 1)),
     (''cos_f32'', (256, 1, 1)),
     (''sum_f32'', (256, 1, 1)),
     (''sum_f32_serial'', (1, 1, 1)),
     (''sum_rows_f32'', (256, 1, 1)),
     (''sum_rows_f32_serial'', (1, 1, 1)),
     (''pool_1d_max_f32'', (256, 1, 1)),
     (''pool_1d_avg_f32'', (256, 1, 1)),
     (''argsort_f32'', (256, 1, 1)),
     (''set_f32'', (256, 1, 1)),
     (''upscale_bilinear_f32'', (256, 1, 1)),
     (''conv_2d_dw_f32'', (256, 1, 1)),
     (''div_f32'', (256, 1, 1)),
     (''sqrt_f32'', (256, 1, 1)),
     (''gelu_quick_f32'', (256, 1, 1)),
     (''geglu_erf_f32'', (256, 1, 1)),
     (''group_norm_f32'', (256, 1, 1)),
     (''group_norm_f32_serial'', (1, 1, 1)),
     (''pad_f32'', (256, 1, 1)),
     (''arange_f32'', (256, 1, 1)),
     (''timestep_embedding_f32'', (256, 1, 1)),
     (''conv2d_f32'', (256, 1, 1)),
     (''conv2d_f16'', (256, 1, 1)),
     (''conv_transpose_2d_f32'', (256, 1, 1)),
     (''conv_transpose_2d_f16'', (256, 1, 1))]"

fun index_of :: "int \<Rightarrow> string \<Rightarrow> (string \<times> 'a) list \<Rightarrow> int" where
  "index_of i name [] = - 1"
| "index_of i name ((n, x) # ks) = (if n = name then i else index_of (i + 1) name ks)"

definition kernel_index :: "string \<Rightarrow> int" where
  "kernel_index name = index_of 0 name kKernels"

abbreviation (input) kKernelCount :: nat where "kKernelCount \<equiv> length kKernels"

text \<open>No two kernels share a name, so the search finds each one's own place.\<close>

lemma kernel_names_distinct: "distinct (map fst kKernels)"
  by code_simp

lemma index_of_nth:
  "distinct (map fst ks) \<Longrightarrow> j < length ks \<Longrightarrow> index_of i (fst (ks ! j)) ks = i + int j"
proof (induction ks arbitrary: i j)
  case (Cons k ks)
  obtain n x where k: "k = (n, x)" by (cases k)
  show ?case
  proof (cases j)
    case (Suc m)
    then have "fst (ks ! m) \<in> fst ` set ks" using Cons.prems by simp
    with Cons Suc k show ?thesis by auto
  qed (simp add: k)
qed simp

lemma kernel_index_nth: "j < kKernelCount \<Longrightarrow> kernel_index (fst (kKernels ! j)) = int j"
  using index_of_nth [OF kernel_names_distinct, of j 0] by (simp add: kernel_index_def)

lemma kernel_count [simp]: "kKernelCount = 105"
  by (simp add: kKernels_def)

lemma index_of_range:
  "i \<le> index_of i name ks \<and> index_of i name ks < i + int (length ks) \<or> index_of i name ks = - 1"
proof (induction ks arbitrary: i)
  case (Cons k ks)
  obtain n x where "k = (n, x)" by (cases k)
  with Cons.IH [of "i + 1"] show ?case by auto
qed simp

lemma kernel_index_range: "kernel_index name = - 1 \<or> 0 \<le> kernel_index name \<and> kernel_index name < int kKernelCount"
  using index_of_range [of 0 name kKernels] by (auto simp: kernel_index_def simp del: kernel_count)

lemma kernel_indices:
  "map kernel_index (map fst kKernels) = map int [0..<kKernelCount]"
  by (rule nth_equalityI) (simp_all add: kernel_index_nth [simplified])

lemmas kernel_index_simps = kernel_indices [unfolded kKernels_def, simplified]

lemma threadgroups_small: "list_all (\<lambda>e. 0 < fst (snd e) \<and> fst (snd e) \<le> 256) kKernels"
  by (simp add: kKernels_def)

end
