(* ===== verification/RdPack.thy ===== *)
theory RdPack
  imports GgmlTensor KernelTable
begin

text \<open>
  \<open>guest/ggml-rd/rd_pack.{h,cpp}\<close> with the constants of \<open>ggml_rd_params.h\<close> and the kernel
  table of \<open>kernels/ggml/GgmlKernelTable.inc\<close>: from a ggml node to the 64 words of its
  params slot and its grid. The slot is a function of the word's number. A \<open>Pack &\<close> that a
  function fills is passed and returned; a slot half-filled by a function that returns false
  is not used by its callers, so those that only fill a slot return an option.
\<close>

section \<open>The words of a slot\<close>

abbreviation (input) W_KERNEL :: nat where "W_KERNEL \<equiv> 0"
abbreviation (input) W_DST :: nat where "W_DST \<equiv> 1"
abbreviation (input) W_SRC0 :: nat where "W_SRC0 \<equiv> 10"
abbreviation (input) W_SRC1 :: nat where "W_SRC1 \<equiv> 19"
abbreviation (input) W_SRC2 :: nat where "W_SRC2 \<equiv> 28"
abbreviation (input) T_NE :: nat where "T_NE \<equiv> 0"
abbreviation (input) T_NB :: nat where "T_NB \<equiv> 4"
abbreviation (input) T_OFF :: nat where "T_OFF \<equiv> 8"
abbreviation (input) W_OP_PARAMS :: nat where "W_OP_PARAMS \<equiv> 37"
abbreviation (input) N_OP_PARAMS :: nat where "N_OP_PARAMS \<equiv> 16"
abbreviation (input) W_DERIVED :: nat where "W_DERIVED \<equiv> 53"
abbreviation (input) W_THREADS :: nat where "W_THREADS \<equiv> 53"
abbreviation (input) W_GROUPS_X :: nat where "W_GROUPS_X \<equiv> 54"
abbreviation (input) kWordsPerSlot :: nat where "kWordsPerSlot \<equiv> 64"
abbreviation (input) kMaxGroupsPerDim :: u64 where "kMaxGroupsPerDim \<equiv> 65535"
abbreviation (input) UINT32_MAX :: u64 where "UINT32_MAX \<equiv> 4294967295"

type_synonym words = "nat \<Rightarrow> u32"

record pack =
  pk_node :: tensor
  pk_w :: words
  pk_kernel :: int
  pk_groups :: "nat \<Rightarrow> u32"

definition set_w :: "nat \<Rightarrow> u32 \<Rightarrow> pack \<Rightarrow> pack" where
  "set_w i v p = p\<lparr>pk_w := (pk_w p)(i := v)\<rparr>"

section \<open>Threadgroups\<close>

text \<open>\<open>kernel_desc(k).threadgroup[0]\<close>, for a kernel of the table.\<close>

definition threadgroup0 :: "int \<Rightarrow> u64" where
  "threadgroup0 k = ucast (fst (snd (kKernels ! nat k)))"

section \<open>The environment of a packer\<close>

text \<open>
  \<open>getenv\<close>, the \<open>g_serial\<close> flag, and the float functions of the platform, on the bits of a
  binary32 number (these stay parameters; the tests on bits below are exact).
\<close>

type_synonym f32 = "32 word"

record penv =
  pe_getenv :: "string \<Rightarrow> string option"
  pe_serial :: bool
  pe_sub :: "f32 \<Rightarrow> f32 \<Rightarrow> f32"
  pe_div :: "f32 \<Rightarrow> f32 \<Rightarrow> f32"
  pe_mul :: "f32 \<Rightarrow> f32 \<Rightarrow> f32"
  pe_add :: "f32 \<Rightarrow> f32 \<Rightarrow> f32"
  pe_pow :: "f32 \<Rightarrow> f32 \<Rightarrow> f32"
  pe_log :: "f32 \<Rightarrow> f32"
  pe_of_int :: "int \<Rightarrow> f32"
  pe_floor :: "f32 \<Rightarrow> f32"
  pe_ceil :: "f32 \<Rightarrow> f32"
  pe_less :: "f32 \<Rightarrow> f32 \<Rightarrow> bool"

definition is_space :: "char \<Rightarrow> bool" where
  "is_space c \<longleftrightarrow> c \<in> set [CHR '' '', CHR 0x09, CHR 0x0A, CHR 0x0B, CHR 0x0C, CHR 0x0D]"

definition digit_val :: "char \<Rightarrow> int option" where
  "digit_val c = (let n = of_char c :: int in if 48 \<le> n \<and> n \<le> 57 then Some (n - 48) else None)"

fun atoi_digits :: "int \<Rightarrow> string \<Rightarrow> int" where
  "atoi_digits acc [] = acc"
| "atoi_digits acc (c # cs) =
     (case digit_val c of Some d \<Rightarrow> atoi_digits (10 * acc + d) cs | None \<Rightarrow> acc)"

definition atoi :: "string \<Rightarrow> int" where
  "atoi s =
     (case dropWhile is_space s of
        [] \<Rightarrow> 0
      | c # cs \<Rightarrow> if c = CHR ''-'' then - atoi_digits 0 cs
                 else if c = CHR ''+'' then atoi_digits 0 cs else atoi_digits 0 (c # cs))"

definition serial_kernels :: "penv \<Rightarrow> bool" where
  "serial_kernels E =
     (if pe_serial E then True
      else (case pe_getenv E ''GGML_RD_SERIAL'' of None \<Rightarrow> False | Some e \<Rightarrow> atoi e \<noteq> 0))"

section \<open>Grids and blocks\<close>

definition grid_1d :: "u64 \<Rightarrow> pack \<Rightarrow> bool \<times> pack" where
  "grid_1d threads p =
     (if pk_kernel p < 0 \<or> int kKernelCount \<le> pk_kernel p \<or> threads = 0 \<or> threads > UINT32_MAX
      then (False, p)
      else let tg = threadgroup0 (pk_kernel p);
               groups = (threads + tg - 1) div tg;
               gx = (if groups < kMaxGroupsPerDim then groups else kMaxGroupsPerDim);
               gy = (groups + gx - 1) div gx
           in if gy > kMaxGroupsPerDim then (False, p)
              else (True, (set_w W_GROUPS_X (ucast gx) (set_w W_THREADS (ucast threads) p))
                 \<lparr>pk_groups := (\<lambda>i. if i = 0 then ucast gx else if i = 1 then ucast gy else 1)\<rparr>))"

definition tensor_fits :: "tensor option \<Rightarrow> bool" where
  "tensor_fits to =
     (case to of
        None \<Rightarrow> True
      | Some t \<Rightarrow>
          if ggml_blck_size (t_type t) \<noteq> 1 then False
          else let ts = ggml_type_size (t_type t) in
            if \<not> all4 (\<lambda>k. \<not> (sint (t_ne t k) < 1 \<or> t_ne t k > UINT32_MAX \<or> t_nb t k mod ts \<noteq> 0) \<and>
                             \<not> t_nb t k div ts > UINT32_MAX)
            then False
            else let last = (t_ne t 0 - 1) * (t_nb t 0 div ts) + (t_ne t 1 - 1) * (t_nb t 1 div ts)
                          + (t_ne t 2 - 1) * (t_nb t 2 div ts) + (t_ne t 3 - 1) * (t_nb t 3 div ts)
                 in last \<le> UINT32_MAX \<and> ggml_nelements t \<le> UINT32_MAX)"

text \<open>One turn of the loop of \<open>fill_block\<close>, and the block.\<close>

definition fill_dim :: "nat \<Rightarrow> tensor \<Rightarrow> nat \<Rightarrow> words \<Rightarrow> words option" where
  "fill_dim at t k w =
     (let ts = ggml_type_size (t_type t); elems = (ggml_blck_size (t_type t) = 1) in
      if sint (t_ne t k) < 0 \<or> t_ne t k > UINT32_MAX then None
      else if elems \<and> t_nb t k mod ts \<noteq> 0 then None
      else let nb = (if elems then t_nb t k div ts else t_nb t k) in
        if nb > UINT32_MAX then None
        else Some (w(at + T_NE + k := ucast (t_ne t k), at + T_NB + k := ucast nb)))"

definition fill_block :: "nat \<Rightarrow> tensor \<Rightarrow> u64 \<Rightarrow> words \<Rightarrow> words option" where
  "fill_block at t off w =
     (let ts = ggml_type_size (t_type t); elems = (ggml_blck_size (t_type t) = 1) in
      case Option.bind (fill_dim at t 0 w) (\<lambda>w. Option.bind (fill_dim at t 1 w)
             (\<lambda>w. Option.bind (fill_dim at t 2 w) (fill_dim at t 3))) of
        None \<Rightarrow> None
      | Some w \<Rightarrow>
          if elems \<and> off mod ts \<noteq> 0 then None
          else let off' = (if elems then off div ts else off) in
            if off' > UINT32_MAX then None else Some (w(at + T_OFF := ucast off')))"

definition src_word :: "nat \<Rightarrow> nat" where
  "src_word s = (if s = 0 then W_SRC0 else if s = 1 then W_SRC1 else W_SRC2)"

definition fill_src :: "(tensor \<Rightarrow> u64 option) \<Rightarrow> tensor \<Rightarrow> nat \<Rightarrow> words \<Rightarrow> string + words" where
  "fill_src offset node s w =
     (case t_src node s of
        None \<Rightarrow> Inr w
      | Some src \<Rightarrow>
          (case Option.bind (offset src) (\<lambda>off. fill_block (src_word s) src off w) of
             None \<Rightarrow> Inl (''source '' @ to_string (int s) @
                 '' is not in a bound buffer, or does not fit the params words'')
           | Some w' \<Rightarrow> Inr w'))"

definition bind_sum :: "'e + 'a \<Rightarrow> ('a \<Rightarrow> 'e + 'b) \<Rightarrow> 'e + 'b" where
  "bind_sum r f = (case r of Inl e \<Rightarrow> Inl e | Inr x \<Rightarrow> f x)"

definition fill_standard :: "(tensor \<Rightarrow> u64 option) \<Rightarrow> tensor \<Rightarrow> string + words" where
  "fill_standard offset node =
     (case Option.bind (offset node) (\<lambda>off. fill_block W_DST node off (\<lambda>i. 0)) of
        None \<Rightarrow> Inl ''the destination is not in a bound buffer, or does not fit the params words''
      | Some w \<Rightarrow>
          bind_sum (fill_src offset node 0 w) (\<lambda>w. bind_sum (fill_src offset node 1 w)
            (\<lambda>w. bind_sum (fill_src offset node 2 w)
              (\<lambda>w. Inr (\<lambda>i. if W_OP_PARAMS \<le> i \<and> i < W_OP_PARAMS + N_OP_PARAMS
                           then t_params node (i - W_OP_PARAMS) else w i)))))"

section \<open>The op table\<close>

record op_entry =
  oe_name :: string
  oe_op :: ggml_op
  oe_sub :: int
  oe_supports :: "penv \<Rightarrow> tensor \<Rightarrow> bool"
  oe_pack :: "penv \<Rightarrow> pack \<Rightarrow> bool \<times> pack"

definition sub_op :: "tensor \<Rightarrow> int" where
  "sub_op op =
     (if t_op op = GGML_OP_UNARY then ggml_get_unary_op op
      else if t_op op = GGML_OP_GLU then ggml_get_glu_op op else - 1)"

definition find_op :: "op_entry list \<Rightarrow> penv \<Rightarrow> tensor \<Rightarrow> op_entry option" where
  "find_op table E op =
     List.find (\<lambda>e. oe_op e = t_op op \<and> (oe_sub e = - 1 \<or> oe_sub e = sub_op op) \<and> oe_supports e E op) table"

definition is_layout_only :: "ggml_op \<Rightarrow> bool" where
  "is_layout_only op \<longleftrightarrow>
     op = GGML_OP_NONE \<or> op = GGML_OP_RESHAPE \<or> op = GGML_OP_VIEW \<or> op = GGML_OP_PERMUTE \<or> op = GGML_OP_TRANSPOSE"

section \<open>What a grid covers\<close>

text \<open>\<open>(a + b - 1) / b\<close> on natural numbers.\<close>

definition cdiv_nat :: "nat \<Rightarrow> nat \<Rightarrow> nat" where
  "cdiv_nat a b = (a + b - 1) div b"

lemma cdiv_nat_bounds:
  assumes "0 < b"
  shows "a \<le> cdiv_nat a b * b" and "cdiv_nat a b * b < a + b" and "0 < a \<Longrightarrow> 0 < cdiv_nat a b"
    and "cdiv_nat a b \<le> c \<longleftrightarrow> a \<le> c * b"
proof -
  have mod: "cdiv_nat a b * b + (a + b - 1) mod b = a + b - 1"
    unfolding cdiv_nat_def by (rule div_mult_mod_eq)
  have "(a + b - 1) mod b < b" using assms by (rule mod_less_divisor)
  with mod show 1: "a \<le> cdiv_nat a b * b" and 2: "cdiv_nat a b * b < a + b"
    using assms by linarith+
  show "0 < a \<Longrightarrow> 0 < cdiv_nat a b" using 1 by (cases "cdiv_nat a b") simp_all
  show "cdiv_nat a b \<le> c \<longleftrightarrow> a \<le> c * b"
  proof
    assume "cdiv_nat a b \<le> c"
    then show "a \<le> c * b" using 1 by (meson le_trans mult_le_mono1)
  next
    assume "a \<le> c * b"
    with 2 have "cdiv_nat a b * b < Suc c * b" by simp
    then show "cdiv_nat a b \<le> c" by (simp only: mult_less_cancel2 less_Suc_eq_le)
  qed
qed

lemma unat_cdiv:
  assumes "0 < unat b" "unat a + unat b \<le> 2 ^ 63"
  shows "unat ((a + b - 1) div b :: u64) = cdiv_nat (unat a) (unat b)"
proof -
  have s: "unat (a + b) = unat a + unat b" using assms by (intro unat_add_no_wrap) simp
  then have "unat (a + b - 1) = unat a + unat b - 1"
    using assms(1) by (subst unat_sub_no_wrap) (auto simp: word_le_nat_alt)
  then show ?thesis by (simp add: unat_div cdiv_nat_def)
qed

lemma unat_ucast64_32: "unat (a :: u64) < 2 ^ 32 \<Longrightarrow> unat (ucast a :: u32) = unat a"
  by (simp add: unsigned_ucast_eq take_bit_nat_eq_self)

lemma unat_ucast32_64: "unat (ucast (a :: u32) :: u64) = unat a"
  using unat_lt32 [of a] by (simp add: unsigned_ucast_eq take_bit_nat_eq_self)

lemma threadgroup0_bounds:
  assumes "0 \<le> k" "k < int kKernelCount"
  shows "0 < unat (threadgroup0 k)" "unat (threadgroup0 k) \<le> 256"
proof -
  have "nat k < kKernelCount" using assms by linarith
  then have "kKernels ! nat k \<in> set kKernels" by (rule nth_mem)
  with threadgroups_small [unfolded list_all_iff] have "0 < fst (snd (kKernels ! nat k))" "fst (snd (kKernels ! nat k)) \<le> 256" by auto
  then show "0 < unat (threadgroup0 k)" "unat (threadgroup0 k) \<le> 256"
    by (simp_all add: threadgroup0_def unat_ucast32_64 word_less_nat_alt word_le_nat_alt)
qed

text \<open>The numbers of work groups \<open>grid_1d\<close> computes, on natural numbers.\<close>

definition grid_x :: "nat \<Rightarrow> nat \<Rightarrow> nat" where
  "grid_x tg n = min (cdiv_nat n tg) 65535"

definition grid_y :: "nat \<Rightarrow> nat \<Rightarrow> nat" where
  "grid_y tg n = cdiv_nat (cdiv_nat n tg) (grid_x tg n)"

lemma grid_1d_cases:
  fixes p :: pack and threads :: u64
  defines "n \<equiv> unat threads" and "tg \<equiv> unat (threadgroup0 (pk_kernel p))"
  assumes k: "0 \<le> pk_kernel p" "pk_kernel p < int kKernelCount" and n: "0 < n" "n \<le> 4294967295"
  shows "fst (grid_1d threads p) \<longleftrightarrow> grid_y tg n \<le> 65535"
    and "fst (grid_1d threads p) \<Longrightarrow> snd (grid_1d threads p) =
       p\<lparr>pk_w := (pk_w p)(W_THREADS := word_of_nat n, W_GROUPS_X := word_of_nat (grid_x tg n)),
         pk_groups := (\<lambda>i. if i = 0 then word_of_nat (grid_x tg n)
                           else if i = 1 then word_of_nat (grid_y tg n) else 1)\<rparr>"
proof -
  let ?tg = "threadgroup0 (pk_kernel p)"
  have tg: "0 < tg" "tg \<le> 256" using threadgroup0_bounds [OF k] by (simp_all add: tg_def)
  define groups where "groups = (threads + ?tg - 1) div ?tg"
  have g: "unat groups = cdiv_nat n tg"
    unfolding groups_def n_def tg_def using tg n by (intro unat_cdiv) (simp_all add: n_def tg_def)
  have gpos: "0 < cdiv_nat n tg" using cdiv_nat_bounds(3) tg n by simp
  have gle: "cdiv_nat n tg \<le> n"
    using tg by (simp add: cdiv_nat_bounds(4))
  define gx where "gx = (if groups < kMaxGroupsPerDim then groups else kMaxGroupsPerDim)"
  have gx: "unat gx = grid_x tg n" using g by (simp add: gx_def grid_x_def word_less_nat_alt min_def)
  have gxpos: "0 < grid_x tg n" "grid_x tg n \<le> 65535" using gpos by (simp_all add: grid_x_def)
  define gy where "gy = (groups + gx - 1) div gx"
  have gy: "unat gy = grid_y tg n"
    unfolding gy_def grid_y_def g [symmetric] gx [symmetric]
    using gxpos gle n by (intro unat_cdiv) (simp_all add: gx g)
  have res: "grid_1d threads p = (if gy > kMaxGroupsPerDim then (False, p)
      else (True, (set_w W_GROUPS_X (ucast gx) (set_w W_THREADS (ucast threads) p))
             \<lparr>pk_groups := (\<lambda>i. if i = 0 then ucast gx else if i = 1 then ucast gy else 1)\<rparr>))"
  proof -
    have "\<not> (pk_kernel p < 0 \<or> int kKernelCount \<le> pk_kernel p \<or> threads = 0 \<or> threads > UINT32_MAX)"
      using k n by (auto simp: n_def word_less_nat_alt)
    then show ?thesis by (simp only: grid_1d_def if_False Let_def groups_def gx_def gy_def)
  qed
  then show 1: "fst (grid_1d threads p) \<longleftrightarrow> grid_y tg n \<le> 65535"
    using gy by (auto simp: word_less_nat_alt)
  have "ucast gx = (word_of_nat (unat gx) :: u32)" "ucast threads = (word_of_nat (unat threads) :: u32)"
    "ucast gy = (word_of_nat (unat gy) :: u32)" by simp_all
  then have c: "ucast gx = (word_of_nat (grid_x tg n) :: u32)" "ucast threads = (word_of_nat n :: u32)"
    "ucast gy = (word_of_nat (grid_y tg n) :: u32)"
    unfolding gx gy n_def [symmetric] .
  show "snd (grid_1d threads p) =
       p\<lparr>pk_w := (pk_w p)(W_THREADS := word_of_nat n, W_GROUPS_X := word_of_nat (grid_x tg n)),
         pk_groups := (\<lambda>i. if i = 0 then word_of_nat (grid_x tg n)
                           else if i = 1 then word_of_nat (grid_y tg n) else 1)\<rparr>"
    if "fst (grid_1d threads p)"
    using that unfolding res c by (simp add: set_w_def split: if_splits)
qed

lemma grid_y_le:
  assumes "0 < n"
  shows "grid_y tg n \<le> 65535 \<longleftrightarrow> cdiv_nat n tg \<le> 65535 * 65535"
proof (cases "cdiv_nat n tg \<le> 65535")
  case True
  then have "grid_x tg n = cdiv_nat n tg" by (simp add: grid_x_def)
  then show ?thesis
    using True by (cases "cdiv_nat n tg = 0") (simp_all add: grid_y_def cdiv_nat_bounds(4), simp add: cdiv_nat_def)
next
  case False
  then show ?thesis by (simp add: grid_y_def grid_x_def cdiv_nat_bounds(4))
qed

lemma grid_1d_ok:
  assumes "0 \<le> pk_kernel p" "pk_kernel p < int kKernelCount" "0 < unat threads" "unat threads \<le> 4294967295"
    and "2 \<le> unat (threadgroup0 (pk_kernel p)) \<or> unat threads \<le> 65535 * 65535"
  shows "fst (grid_1d threads p)"
proof -
  let ?tg = "unat (threadgroup0 (pk_kernel p))"
  have tg: "0 < ?tg" using threadgroup0_bounds assms by blast
  have "unat threads \<le> 65535 * 65535 * ?tg"
    using assms(5)
  proof
    assume "2 \<le> ?tg"
    then have "65535 * 65535 * 2 \<le> 65535 * 65535 * ?tg" by simp
    with assms(4) show ?thesis by linarith
  next
    assume "unat threads \<le> 65535 * 65535"
    moreover have "65535 * 65535 * 1 \<le> 65535 * 65535 * ?tg" using tg by simp
    ultimately show ?thesis by linarith
  qed
  then show ?thesis
    using assms tg by (simp add: grid_1d_cases(1) grid_y_le cdiv_nat_bounds(4))
qed



section \<open>Tensors that fit the words\<close>

lemma sum_pred_le_prod2: "0 < a \<Longrightarrow> 0 < b \<Longrightarrow> (a - 1) + (b - 1) + 1 \<le> a * (b :: nat)"
  by (cases a; cases b) simp_all

lemma sum_pred_le_prod4:
  assumes "0 < a" "0 < b" "0 < c" "0 < (d :: nat)"
  shows "(a - 1) + (b - 1) + (c - 1) + (d - 1) + 1 \<le> a * b * c * d"
  using sum_pred_le_prod2 [of a b] sum_pred_le_prod2 [of "a * b" c] sum_pred_le_prod2 [of "a * b * c" d] assms
  by simp

definition elem_nb :: "tensor \<Rightarrow> nat \<Rightarrow> nat" where
  "elem_nb t k = unat (t_nb t k div ggml_type_size (t_type t))"

lemma tensor_fits_dims:
  assumes "tensor_fits (Some t)" and "k < 4"
  shows "1 \<le> sint (t_ne t k)" "unat (t_ne t k) \<le> 4294967295" "elem_nb t k \<le> 4294967295"
    "t_nb t k mod ggml_type_size (t_type t) = 0" "ggml_blck_size (t_type t) = 1"
    "ggml_nelements t \<le> UINT32_MAX"
proof -
  have "\<forall>k<4. 1 \<le> sint (t_ne t k) \<and> unat (t_ne t k) \<le> 4294967295 \<and> elem_nb t k \<le> 4294967295 \<and>
      t_nb t k mod ggml_type_size (t_type t) = 0" "ggml_blck_size (t_type t) = 1" "ggml_nelements t \<le> UINT32_MAX"
    using assms(1) unfolding all4_iff [symmetric]
    by (simp_all add: tensor_fits_def elem_nb_def word_le_nat_alt Let_def not_less split: if_splits)
  with assms(2) show "1 \<le> sint (t_ne t k)" "unat (t_ne t k) \<le> 4294967295" "elem_nb t k \<le> 4294967295"
    "t_nb t k mod ggml_type_size (t_type t) = 0" "ggml_blck_size (t_type t) = 1"
    "ggml_nelements t \<le> UINT32_MAX"
    by blast+
qed

lemma unat_last_term:
  assumes "1 \<le> sint (n :: i64)"
  shows "unat (n - 1) = unat n - 1"
  using sint_pos_unat [OF assms] by (subst unat_sub_no_wrap) (simp_all add: word_le_nat_alt)

lemma unat_sum4:
  assumes "unat a + unat b + unat c + unat d < 2 ^ 64"
  shows "unat (a + b + c + d :: u64) = unat a + unat b + unat c + unat d"
  using assms by (simp add: unat_add_no_wrap)

lemma tensor_fits_last:
  assumes fits: "tensor_fits (Some t)" and ex: "exact t"
  shows "(unat (t_ne t 0) - 1) * elem_nb t 0 + (unat (t_ne t 1) - 1) * elem_nb t 1 +
     (unat (t_ne t 2) - 1) * elem_nb t 2 + (unat (t_ne t 3) - 1) * elem_nb t 3 \<le> 4294967295"
proof -
  let ?n = "\<lambda>k. unat (t_ne t k)" and ?b = "elem_nb t"
  let ?nb = "\<lambda>k. t_nb t k div ggml_type_size (t_type t)"
  note d = tensor_fits_dims [OF fits]
  have pos: "0 < ?n 0" "0 < ?n 1" "0 < ?n 2" "0 < ?n 3" using d(1) sint_pos_unat by simp_all
  have "?n 0 * ?n 1 * ?n 2 * ?n 3 \<le> 4294967295"
    using nelements_exact(1) [OF ex] d(6) [of 0] by (simp add: word_le_nat_alt)
  with sum_pred_le_prod4 [OF pos]
  have small: "(?n 0 - 1) + (?n 1 - 1) + (?n 2 - 1) + (?n 3 - 1) \<le> 4294967294" by linarith
  have bound: "(?n k - 1) * ?b k \<le> (?n k - 1) * 4294967295" if "k < 4" for k
    using d(3) [OF that] by (rule mult_le_mono2)
  have sum: "(?n 0 - 1) * ?b 0 + (?n 1 - 1) * ?b 1 + (?n 2 - 1) * ?b 2 + (?n 3 - 1) * ?b 3
      \<le> 4294967294 * 4294967295"
    using bound [of 0] bound [of 1] bound [of 2] bound [of 3] mult_le_mono1 [OF small, of 4294967295]
    unfolding distrib_right by linarith
  have prod: "unat ((t_ne t k - 1) * ?nb k) = (?n k - 1) * ?b k" if "k < 4" for k
  proof -
    have "(?n k - 1) * ?b k \<le> 4294967295 * 4294967295"
      using d(2,3) [OF that] by (intro mult_le_mono) simp_all
    then show ?thesis
      using unat_last_term [OF d(1) [OF that]]
      by (subst unat_mult_no_wrap) (simp_all add: elem_nb_def)
  qed
  let ?last = "(t_ne t 0 - 1) * ?nb 0 + (t_ne t 1 - 1) * ?nb 1 + (t_ne t 2 - 1) * ?nb 2 + (t_ne t 3 - 1) * ?nb 3"
  have "unat ?last = (?n 0 - 1) * ?b 0 + (?n 1 - 1) * ?b 1 + (?n 2 - 1) * ?b 2 + (?n 3 - 1) * ?b 3"
    using sum by (subst unat_sum4) (simp_all add: prod)
  moreover have "?last \<le> UINT32_MAX" using fits by (simp add: tensor_fits_def Let_def split: if_splits)
  ultimately show ?thesis by (simp only: word_le_nat_alt) simp
qed

text \<open>
  Every element of a tensor \<open>tensor_fits\<close> accepts (whose element count does not
  overflow) lies at an element offset that one 32-bit word holds, and the strides in elements
  are exact; so the kernels' 32-bit address arithmetic reaches it without wrapping.
\<close>

theorem tensor_fits_addresses:
  assumes "tensor_fits (Some t)" "exact t" and "\<forall>k<4. i k < unat (t_ne t k)"
  shows "let off = i 0 * elem_nb t 0 + i 1 * elem_nb t 1 + i 2 * elem_nb t 2 + i 3 * elem_nb t 3 in
     off \<le> 4294967295 \<and>
     off * unat (ggml_type_size (t_type t)) =
       i 0 * unat (t_nb t 0) + i 1 * unat (t_nb t 1) + i 2 * unat (t_nb t 2) + i 3 * unat (t_nb t 3)"
proof -
  have le: "i k * elem_nb t k \<le> (unat (t_ne t k) - 1) * elem_nb t k" if "k < 4" for k
    using assms(3) that by (intro mult_le_mono1) fastforce
  have nb: "elem_nb t k * unat (ggml_type_size (t_type t)) = unat (t_nb t k)" if "k < 4" for k
  proof -
    have "unat (t_nb t k) mod unat (ggml_type_size (t_type t)) = 0"
      using tensor_fits_dims(4) [OF assms(1) that] by (metis unat_eq_zero unat_mod)
    then show ?thesis by (auto simp: elem_nb_def unat_div)
  qed
  show ?thesis
  proof (unfold Let_def, intro conjI)
    show "i 0 * elem_nb t 0 + i 1 * elem_nb t 1 + i 2 * elem_nb t 2 + i 3 * elem_nb t 3 \<le> 4294967295"
      using tensor_fits_last [OF assms(1,2)] le [of 0] le [of 1] le [of 2] le [of 3] by linarith
  qed (simp add: distrib_right mult.assoc nb)
qed

definition demo_tensor :: "ggml_type \<Rightarrow> ggml_op \<Rightarrow> (nat \<Rightarrow> tensor option) \<Rightarrow> tensor" where
  "demo_tensor ty op src = Tensor ty (Some 1) (\<lambda>k. if k = 0 then 6 else if k = 1 then 5 else 1)
     (\<lambda>k. ggml_type_size ty * (if k = 0 then 1 else if k = 1 then 6 else 30)) op (\<lambda>i. 0) 0 src None 4096 ''t''"

theorem tensor_fits_addresses_witness:
  "5 * elem_nb (demo_tensor GGML_TYPE_F32 GGML_OP_NONE (\<lambda>s. None)) 0 \<le> 4294967295"
  using tensor_fits_addresses [of "demo_tensor GGML_TYPE_F32 GGML_OP_NONE (\<lambda>s. None)" "\<lambda>k. if k = 0 then 5 else 0"]
  by (simp add: demo_tensor_def tensor_fits_def exact_def ggml_blck_size_def ggml_type_size_def
      ggml_nelements_def Let_def all4_iff [symmetric])

section \<open>The standard words\<close>

text \<open>The unit a block counts in: the element size, or a byte for a block-quantized type.\<close>

definition unit_of :: "tensor \<Rightarrow> nat" where
  "unit_of t = (if ggml_blck_size (t_type t) = 1 then unat (ggml_type_size (t_type t)) else 1)"

definition block_holds :: "words \<Rightarrow> nat \<Rightarrow> tensor \<Rightarrow> u64 \<Rightarrow> bool" where
  "block_holds w at t off \<longleftrightarrow>
     (\<forall>k<4. unat (w (at + T_NE + k)) = unat (t_ne t k) \<and> unat (w (at + T_NB + k)) * unit_of t = unat (t_nb t k)) \<and>
     unat (w (at + T_OFF)) * unit_of t = unat off"

lemma unat_div_exact: "(a :: u64) mod b = 0 \<Longrightarrow> unat (a div b) * unat b = unat a"
  by (metis add.right_neutral div_mult_mod_eq unat_0 unat_div unat_mod)

lemma fill_dim_words:
  assumes "fill_dim at t k w = Some w'"
  shows "w' = w(at + T_NE + k := w' (at + T_NE + k), at + T_NB + k := w' (at + T_NB + k))"
    and "unat (w' (at + T_NE + k)) = unat (t_ne t k)"
    and "unat (w' (at + T_NB + k)) * unit_of t = unat (t_nb t k)"
proof -
  let ?ts = "ggml_type_size (t_type t)" and ?e = "ggml_blck_size (t_type t) = 1"
  let ?nb = "if ?e then t_nb t k div ?ts else t_nb t k"
  have ok: "t_ne t k \<le> UINT32_MAX" "?e \<Longrightarrow> t_nb t k mod ?ts = 0" "?nb \<le> UINT32_MAX"
    and w': "w' = w(at + T_NE + k := ucast (t_ne t k), at + T_NB + k := ucast ?nb)"
    using assms by (auto simp: fill_dim_def Let_def not_less split: if_splits)
  show "w' = w(at + T_NE + k := w' (at + T_NE + k), at + T_NB + k := w' (at + T_NB + k))"
    unfolding w' by auto
  have u: "unat (ucast (t_ne t k) :: u32) = unat (t_ne t k)" "unat (ucast ?nb :: u32) = unat ?nb"
    using ok(1,3) by (intro unat_ucast64_32, simp add: word_le_nat_alt)+
  show "unat (w' (at + T_NE + k)) = unat (t_ne t k)" using u by (simp add: w')
  have "unat ?nb * unit_of t = unat (t_nb t k)"
    using ok(2) by (simp add: unit_of_def unat_div_exact)
  then show "unat (w' (at + T_NB + k)) * unit_of t = unat (t_nb t k)" using u by (simp add: w')
qed

lemma fill_block_words:
  assumes "fill_block at t off w = Some w'"
  shows "block_holds w' at t off" and "\<And>i. i < at \<or> at + 9 \<le> i \<Longrightarrow> w' i = w i"
proof -
  let ?ts = "ggml_type_size (t_type t)" and ?e = "ggml_blck_size (t_type t) = 1"
  let ?off = "if ?e then off div ?ts else off"
  obtain w0 w1 w2 w3 where f: "fill_dim at t 0 w = Some w0" "fill_dim at t 1 w0 = Some w1"
      "fill_dim at t 2 w1 = Some w2" "fill_dim at t 3 w2 = Some w3"
    and off: "?e \<Longrightarrow> off mod ?ts = 0" "?off \<le> UINT32_MAX" "w' = w3(at + T_OFF := ucast ?off)"
    using assms by (auto simp: fill_block_def Let_def not_less split: option.splits bind_splits if_splits)
  note d0 = fill_dim_words [OF f(1)] and d1 = fill_dim_words [OF f(2)]
    and d2 = fill_dim_words [OF f(3)] and d3 = fill_dim_words [OF f(4)]
  have keep: "w0 (at + i) = w1 (at + i)" if "i \<noteq> 1" "i \<noteq> 5" for i
    using that by (subst d1(1)) simp
  have keep2: "w1 (at + i) = w2 (at + i)" if "i \<noteq> 2" "i \<noteq> 6" for i
    using that by (subst d2(1)) simp
  have keep3: "w2 (at + i) = w3 (at + i)" if "i \<noteq> 3" "i \<noteq> 7" for i
    using that by (subst d3(1)) simp
  have u: "unat (ucast ?off :: u32) = unat ?off"
    using off(2) by (intro unat_ucast64_32) (simp add: word_le_nat_alt)
  have "unat ?off * unit_of t = unat off" using off(1) by (simp add: unit_of_def unat_div_exact)
  with u have o: "unat (w' (at + T_OFF)) * unit_of t = unat off" by (simp add: off(3))
  have "\<forall>k<4. unat (w' (at + T_NE + k)) = unat (t_ne t k) \<and> unat (w' (at + T_NB + k)) * unit_of t = unat (t_nb t k)"
    unfolding all4_iff [symmetric]
    using d0(2,3) d1(2,3) d2(2,3) d3(2,3) keep [of 0] keep [of 4] keep2 [of 0] keep2 [of 1] keep2 [of 4]
      keep2 [of 5] keep3 [of 0] keep3 [of 1] keep3 [of 2] keep3 [of 4] keep3 [of 5] keep3 [of 6]
    by (simp add: off(3) add.commute)
  with o show "block_holds w' at t off" by (simp add: block_holds_def)
  show "w' i = w i" if "i < at \<or> at + 9 \<le> i" for i
  proof -
    have "w' i = w3 i" using that by (auto simp: off(3))
    also have "\<dots> = w2 i" using that by (subst d3(1)) auto
    also have "\<dots> = w1 i" using that by (subst d2(1)) auto
    also have "\<dots> = w0 i" using that by (subst d1(1)) auto
    also have "\<dots> = w i" using that by (subst d0(1)) auto
    finally show ?thesis .
  qed
qed

lemma block_holds_cong:
  "(\<And>i. at \<le> i \<Longrightarrow> i < at + 9 \<Longrightarrow> w i = w' i) \<Longrightarrow> block_holds w at t off = block_holds w' at t off"
  by (simp add: block_holds_def)

lemma bind_sum_Inr: "bind_sum r f = Inr y \<longleftrightarrow> (\<exists>x. r = Inr x \<and> f x = Inr y)"
  by (cases r) (simp_all add: bind_sum_def)

lemma fill_src_words:
  assumes "fill_src offset node s w = Inr w'"
  shows "\<And>src. t_src node s = Some src \<Longrightarrow> \<exists>off. offset src = Some off \<and> block_holds w' (src_word s) src off"
    and "\<And>i. i < src_word s \<or> src_word s + 9 \<le> i \<Longrightarrow> w' i = w i"
  using assms fill_block_words
  by (auto simp: fill_src_def split: option.splits bind_splits)

text \<open>The words of the destination, of the sources that are there, and of the raw parameters.\<close>

definition slot_used :: "tensor \<Rightarrow> nat \<Rightarrow> bool" where
  "slot_used node i \<longleftrightarrow> W_DST \<le> i \<and> i < W_DST + 9 \<or>
     (\<exists>s<3. t_src node s \<noteq> None \<and> src_word s \<le> i \<and> i < src_word s + 9) \<or>
     W_OP_PARAMS \<le> i \<and> i < W_OP_PARAMS + N_OP_PARAMS"

lemma fill_standard_shape:
  assumes "fill_standard offset node = Inr w"
  shows "(\<exists>off. offset node = Some off \<and> block_holds w W_DST node off) \<and>
     (\<forall>s<3. \<forall>src. t_src node s = Some src \<longrightarrow>
        (\<exists>off. offset src = Some off \<and> block_holds w (src_word s) src off)) \<and>
     (\<forall>i<16. w (W_OP_PARAMS + i) = t_params node i) \<and> (\<forall>i. \<not> slot_used node i \<longrightarrow> w i = 0)"
proof -
  obtain off w0 w1 w2 w3 where off: "offset node = Some off" "fill_block W_DST node off (\<lambda>i. 0) = Some w0"
    and f: "fill_src offset node 0 w0 = Inr w1" "fill_src offset node 1 w1 = Inr w2"
      "fill_src offset node 2 w2 = Inr w3"
    and w: "w = (\<lambda>i. if W_OP_PARAMS \<le> i \<and> i < W_OP_PARAMS + N_OP_PARAMS
                   then t_params node (i - W_OP_PARAMS) else w3 i)"
    using assms by (auto simp: fill_standard_def bind_sum_Inr split: option.splits bind_splits)
  note b0 = fill_block_words [OF off(2)]
    and b1 = fill_src_words [OF f(1)] and b2 = fill_src_words [OF f(2)] and b3 = fill_src_words [OF f(3)]
  have at: "src_word 0 = 10" "src_word 1 = 19" "src_word 2 = 28" by (simp_all add: src_word_def)
  note out = b0(2) b1(2) [unfolded at] b2(2) [unfolded at] b3(2) [unfolded at]
  have dst: "block_holds w W_DST node off"
    using b0(1) by (subst block_holds_cong [where w' = w0]) (simp_all add: w out)
  have src: "\<exists>off. offset src = Some off \<and> block_holds w (src_word s) src off"
    if s: "s < 3" and src: "t_src node s = Some src" for s src
  proof -
    consider "s = 0" | "s = 1" | "s = 2" using s by linarith
    then show ?thesis
    proof cases
      case 1
      then obtain off where "offset src = Some off" "block_holds w1 10 src off" using b1(1) src at by auto
      then show ?thesis using 1 at by (subst block_holds_cong [where w' = w1]) (auto simp: w out)
    next
      case 2
      then obtain off where "offset src = Some off" "block_holds w2 19 src off" using b2(1) src at by auto
      then show ?thesis using 2 at by (subst block_holds_cong [where w' = w2]) (auto simp: w out)
    next
      case 3
      then obtain off where "offset src = Some off" "block_holds w3 28 src off" using b3(1) src at by auto
      then show ?thesis using 3 at by (subst block_holds_cong [where w' = w3]) (auto simp: w out)
    qed
  qed
  have same: "w' i = v i" if "fill_src offset node s v = Inr w'" "s < 3" "\<not> slot_used node i" for v w' s i
  proof (cases "t_src node s")
    case None
    with that(1) show ?thesis by (simp add: fill_src_def)
  next
    case (Some src)
    then have "i < src_word s \<or> src_word s + 9 \<le> i" using that(2,3) unfolding slot_used_def by (metis not_less option.distinct(1))
    then show ?thesis by (rule fill_src_words(2) [OF that(1)])
  qed
  have zero: "w i = 0" if i: "\<not> slot_used node i" for i
  proof -
    have "i < W_DST \<or> W_DST + 9 \<le> i" "\<not> (W_OP_PARAMS \<le> i \<and> i < W_OP_PARAMS + N_OP_PARAMS)"
      using i unfolding slot_used_def by auto
    then show ?thesis using same [OF f(1) _ i] same [OF f(2) _ i] same [OF f(3) _ i] b0(2) [of i] by (auto simp: w)
  qed
  show ?thesis using off(1) dst src zero by (simp add: w)
qed

text \<open>
  C36: the slot \<open>fill_standard\<close> returns describes the destination and every source (extents,
  strides and offset, in elements or bytes) and carries the raw parameters; every other word,
  the block of an absent source included, is zero.
\<close>

theorem fill_standard_words:
  assumes "fill_standard offset node = Inr w"
  shows "(\<exists>off. offset node = Some off \<and> block_holds w W_DST node off) \<and>
     (\<forall>s<3. \<forall>src. t_src node s = Some src \<longrightarrow>
        (\<exists>off. offset src = Some off \<and> block_holds w (src_word s) src off)) \<and>
     (\<forall>i<16. w (W_OP_PARAMS + i) = t_params node i) \<and> (\<forall>i. \<not> slot_used node i \<longrightarrow> w i = 0)"
  by (rule fill_standard_shape [OF assms])

theorem fill_standard_words_witness:
  "case fill_standard (\<lambda>t. Some 8) (demo_tensor GGML_TYPE_F32 GGML_OP_ADD (\<lambda>s. None)) of
     Inl e \<Rightarrow> False | Inr w \<Rightarrow> w W_KERNEL = 0 \<and> w W_SRC0 = 0"
proof -
  let ?t = "demo_tensor GGML_TYPE_F32 GGML_OP_ADD (\<lambda>s. None)"
  have "\<exists>w. fill_standard (\<lambda>t. Some 8) ?t = Inr w"
    by (simp add: demo_tensor_def fill_standard_def fill_block_def fill_dim_def fill_src_def bind_sum_def
        ggml_blck_size_def ggml_type_size_def Let_def)
  then obtain w where w: "fill_standard (\<lambda>t. Some 8) ?t = Inr w" by blast
  have "\<not> slot_used ?t W_KERNEL" "\<not> slot_used ?t W_SRC0" by (simp_all add: slot_used_def demo_tensor_def src_word_def)
  then show ?thesis using w fill_standard_words [OF w] by simp
qed

section \<open>The contract of an op's packer\<close>

text \<open>
  What the core relies on: the packer leaves the node, the kernel's word and the raw
  parameters alone, names a kernel of the table, and asks for a grid Vulkan can launch.
\<close>

definition packed :: "pack \<Rightarrow> pack \<Rightarrow> bool" where
  "packed p p' \<longleftrightarrow> pk_node p' = pk_node p \<and> 0 \<le> pk_kernel p' \<and> pk_kernel p' < int kKernelCount \<and>
     (\<forall>i<3. 1 \<le> unat (pk_groups p' i) \<and> unat (pk_groups p' i) \<le> 65535) \<and>
     pk_w p' W_KERNEL = pk_w p W_KERNEL \<and> (\<forall>i<16. pk_w p' (W_OP_PARAMS + i) = pk_w p (W_OP_PARAMS + i))"

text \<open>\<open>fill_standard\<close> has described the destination in the slot.\<close>

definition filled :: "pack \<Rightarrow> bool" where
  "filled p \<longleftrightarrow> (\<exists>off. block_holds (pk_w p) W_DST (pk_node p) off)"

text \<open>No element count ggml computes for the node or a source overflows.\<close>

definition exact_all :: "tensor \<Rightarrow> bool" where
  "exact_all t \<longleftrightarrow> exact t \<and> (\<forall>s src. t_src t s = Some src \<longrightarrow> exact src)"

text \<open>
  A packer keeps its promise: what \<open>supports\<close> accepts (within \<open>limit\<close>, for the families
  whose \<open>supports\<close> does not look at the grid) is packed.
\<close>

locale packer =
  fixes supports :: "penv \<Rightarrow> tensor \<Rightarrow> bool"
    and pack :: "penv \<Rightarrow> pack \<Rightarrow> bool \<times> pack"
    and limit :: "penv \<Rightarrow> tensor \<Rightarrow> bool"
  assumes packs: "supports E (pk_node p) \<Longrightarrow> limit E (pk_node p) \<Longrightarrow> exact_all (pk_node p) \<Longrightarrow> filled p \<Longrightarrow>
    fst (pack E p) \<and> packed p (snd (pack E p))"
begin

lemma kernel_known:
  "supports E (pk_node p) \<Longrightarrow> limit E (pk_node p) \<Longrightarrow> exact_all (pk_node p) \<Longrightarrow> filled p \<Longrightarrow>
   0 \<le> pk_kernel (snd (pack E p)) \<and> pk_kernel (snd (pack E p)) < int kKernelCount"
  using packs by (simp add: packed_def)

end

text \<open>Most packers: a kernel by name, one thread per destination element.\<close>

definition pack_named :: "string \<Rightarrow> penv \<Rightarrow> pack \<Rightarrow> bool \<times> pack" where
  "pack_named name E p =
     (let p1 = p\<lparr>pk_kernel := kernel_index name\<rparr>
      in if 0 \<le> pk_kernel p1 then grid_1d (ggml_nelements (pk_node p)) p1 else (False, p1))"

definition wide_kernel :: "string \<Rightarrow> bool" where
  "wide_kernel name \<longleftrightarrow> 0 \<le> kernel_index name \<and> kernel_index name < int kKernelCount \<and>
     2 \<le> unat (threadgroup0 (kernel_index name))"

lemma grid_1d_packed:
  assumes k: "0 \<le> pk_kernel p" "pk_kernel p < int kKernelCount" "2 \<le> unat (threadgroup0 (pk_kernel p))"
    and n: "0 < unat threads" "unat threads \<le> 4294967295"
  shows "fst (grid_1d threads p) \<and> packed p (snd (grid_1d threads p))"
proof -
  have ok: "fst (grid_1d threads p)" using assms by (intro grid_1d_ok) auto
  let ?tg = "unat (threadgroup0 (pk_kernel p))" and ?n = "unat threads"
  have y: "grid_y ?tg ?n \<le> 65535" using grid_1d_cases(1) [OF k(1,2) n] ok by simp
  have g: "0 < cdiv_nat ?n ?tg" using k(3) n by (simp add: cdiv_nat_bounds(3))
  then have x: "0 < grid_x ?tg ?n" "grid_x ?tg ?n \<le> 65535" by (simp_all add: grid_x_def)
  have "0 < grid_y ?tg ?n" unfolding grid_y_def using x(1) g by (rule cdiv_nat_bounds(3))
  then have u: "unat (word_of_nat (grid_x ?tg ?n) :: u32) = grid_x ?tg ?n"
      "unat (word_of_nat (grid_y ?tg ?n) :: u32) = grid_y ?tg ?n" "0 < grid_y ?tg ?n"
    using x y by (auto intro!: unat_of_nat32)
  show ?thesis
    using ok grid_1d_cases(2) [OF k(1,2) n ok] k x y u by (auto simp: packed_def)
qed

lemma packed_trans: "packed p p1 \<Longrightarrow> packed (p\<lparr>pk_kernel := k\<rparr>) p1"
  by (simp add: packed_def)

lemma packed_from: "packed (p\<lparr>pk_kernel := k\<rparr>) p1 \<Longrightarrow> packed p p1"
  by (simp add: packed_def)

lemma pack_named_packs:
  assumes "wide_kernel name" and "tensor_fits (Some (pk_node p))" and "exact_all (pk_node p)"
  shows "fst (pack_named name E p) \<and> packed p (snd (pack_named name E p))"
proof -
  let ?n = "ggml_nelements (pk_node p)"
  have n: "0 < unat ?n" "unat ?n \<le> 4294967295"
    using nelements_exact(2) [of "pk_node p"] tensor_fits_dims(6) [OF assms(2), of 0] assms(3)
    by (simp_all add: exact_all_def word_le_nat_alt)
  have k: "0 \<le> kernel_index name" "kernel_index name < int kKernelCount"
      "2 \<le> unat (threadgroup0 (kernel_index name))"
    using assms(1) unfolding wide_kernel_def by blast+
  have "fst (grid_1d ?n (p\<lparr>pk_kernel := kernel_index name\<rparr>)) \<and>
      packed (p\<lparr>pk_kernel := kernel_index name\<rparr>) (snd (grid_1d ?n (p\<lparr>pk_kernel := kernel_index name\<rparr>)))"
    by (rule grid_1d_packed) (use k n in simp_all)
  with packed_from k(1) show ?thesis by (auto simp: pack_named_def Let_def)
qed

lemma wide_kernels: "list_all (\<lambda>e. fst (snd e) = 1 \<or> wide_kernel (fst e)) kKernels"
  unfolding list_all_length
proof (intro allI impI)
  fix j assume j: "j < kKernelCount"
  let ?x = "fst (snd (kKernels ! j))"
  have "kKernels ! j \<in> set kKernels" using j by (rule nth_mem)
  with threadgroups_small have "0 < ?x" by (simp add: list_all_iff)
  then have "0 < unat ?x" by (simp add: word_less_nat_alt)
  then have "?x = 1 \<or> 2 \<le> unat ?x"
    by (cases "unat ?x = 1") (simp add: word_unat_eq_iff, linarith)
  then show "?x = 1 \<or> wide_kernel (fst (kKernels ! j))"
    using kernel_index_nth [OF j] j
    by (auto simp: wide_kernel_def threadgroup0_def unat_ucast32_64 simp del: kernel_count)
qed

lemmas wide_kernel_simps = wide_kernels [unfolded kKernels_def, simplified]

end
