(* ===== verification/RdMove.thy ===== *)
theory RdMove
  imports RdPack "HOL-Library.Multiset"
begin

text \<open>
  \<open>guest/ggml-rd/ops/move.h\<close>: the iteration order of the data-movement ops. An \<open>Order\<close> is
  a record of functions of the iteration dimension; the insertion sort of four runs on a
  list.
\<close>

abbreviation (input) W_MERGE :: nat where "W_MERGE \<equiv> 55"
abbreviation (input) W_LINW :: nat where "W_LINW \<equiv> 56"

record order =
  or_perm :: "nat \<Rightarrow> nat"
  or_ne :: "nat \<Rightarrow> u64"
  or_nb :: "nat \<Rightarrow> u64"
  or_nontrivial :: nat

definition key_less :: "(nat \<Rightarrow> i64) \<Rightarrow> (nat \<Rightarrow> u64) \<Rightarrow> nat \<Rightarrow> nat \<Rightarrow> bool" where
  "key_less ne nb a b =
     (let ta = (ne a = 1); tb = (ne b = 1)
      in if ta \<noteq> tb then \<not> ta else if ta then False else nb a < nb b)"

text \<open>
  The inner loop moves \<open>x\<close> left past every element it is less than: with the sorted part of
  the array reversed, that is an insertion from its head.
\<close>

fun insert_back :: "('a \<Rightarrow> 'a \<Rightarrow> bool) \<Rightarrow> 'a \<Rightarrow> 'a list \<Rightarrow> 'a list" where
  "insert_back lt x [] = [x]"
| "insert_back lt x (y # ys) = (if lt x y then y # insert_back lt x ys else x # y # ys)"

definition insertion_sort :: "('a \<Rightarrow> 'a \<Rightarrow> bool) \<Rightarrow> 'a list \<Rightarrow> 'a list" where
  "insertion_sort lt xs = rev (fold (insert_back lt) xs [])"

definition order_of_dims :: "(nat \<Rightarrow> i64) \<Rightarrow> (nat \<Rightarrow> u64) \<Rightarrow> order" where
  "order_of_dims ne nb_elems =
     (let p = insertion_sort (key_less ne nb_elems) [0, 1, 2, 3]
      in \<lparr>or_perm = (\<lambda>k. p ! k), or_ne = (\<lambda>k. ne (p ! k)), or_nb = (\<lambda>k. nb_elems (p ! k)),
          or_nontrivial = length (filter (\<lambda>k. 1 < sint (ne (p ! k))) [0, 1, 2, 3])\<rparr>)"

definition order_of :: "tensor \<Rightarrow> order" where
  "order_of t = order_of_dims (t_ne t) (\<lambda>k. t_nb t k div ggml_type_size (t_type t))"

definition nested :: "order \<Rightarrow> bool" where
  "nested ord =
     list_all (\<lambda>k. \<not> or_nb ord k = 0 \<and> \<not> (0 < k \<and> or_nb ord k < or_ne ord (k - 1) * or_nb ord (k - 1)))
       [0..<or_nontrivial ord]"

fun merge_loop :: "order \<Rightarrow> nat \<Rightarrow> nat \<Rightarrow> u32 \<Rightarrow> u32" where
  "merge_loop ord 0 k m = m"
| "merge_loop ord (Suc j) k m =
     (let link = (if k = 0 then or_nb ord 0 = 1 else or_nb ord k = or_ne ord (k - 1) * or_nb ord (k - 1))
      in if \<not> link then m else merge_loop ord j (Suc k) (or m (push_bit k 1)))"

definition merge_chain :: "order \<Rightarrow> u32" where
  "merge_chain ord = merge_loop ord (or_nontrivial ord) 0 0"

definition is16 :: "ggml_type \<Rightarrow> bool" where
  "is16 t \<longleftrightarrow> ggml_type_size t = 2"

definition permute_block :: "nat \<Rightarrow> order \<Rightarrow> words \<Rightarrow> words" where
  "permute_block at ord w =
     (\<lambda>i. if at + T_NE \<le> i \<and> i < at + T_NE + 4 then w (at + T_NE + or_perm ord (i - (at + T_NE)))
          else if at + T_NB \<le> i \<and> i < at + T_NB + 4 then w (at + T_NB + or_perm ord (i - (at + T_NB)))
          else w i)"

definition apply_order :: "nat list \<Rightarrow> pack \<Rightarrow> bool \<times> order \<times> pack" where
  "apply_order src_blocks p =
     (let ord = order_of_dims (\<lambda>k. ucast (pk_w p (W_DST + T_NE + k))) (\<lambda>k. ucast (pk_w p (W_DST + T_NB + k)))
      in if is16 (t_type (pk_node p)) \<and> \<not> nested ord then (False, ord, p)
         else let w1 = fold (\<lambda>b. permute_block b ord) src_blocks (permute_block W_DST ord (pk_w p))
              in (True, ord, p\<lparr>pk_w := w1(W_MERGE := merge_chain ord)\<rparr>))"

definition dst_ok :: "tensor \<Rightarrow> bool" where
  "dst_ok t \<longleftrightarrow> \<not> is16 (t_type t) \<or> nested (order_of t)"

section \<open>The order is a sorted permutation\<close>

lemma mset_insert_back: "mset (insert_back lt x ys) = add_mset x (mset ys)"
  by (induction ys) auto

lemma mset_fold_insert: "mset (fold (insert_back lt) xs acc) = mset xs + mset acc"
  by (induction xs arbitrary: acc) (simp_all add: mset_insert_back)

lemma mset_insertion_sort: "mset (insertion_sort lt xs) = mset xs"
  by (simp add: insertion_sort_def mset_fold_insert)

text \<open>What \<open>key_less\<close> is: a strict weak order, so "not less" is total and transitive.\<close>

definition weak_order :: "('a \<Rightarrow> 'a \<Rightarrow> bool) \<Rightarrow> bool" where
  "weak_order lt \<longleftrightarrow> (\<forall>a b. lt a b \<longrightarrow> \<not> lt b a) \<and> (\<forall>a b c. \<not> lt a b \<and> \<not> lt b c \<longrightarrow> \<not> lt a c)"

lemma weak_orderD:
  assumes "weak_order lt"
  shows "lt a b \<Longrightarrow> \<not> lt b a" and "\<not> lt a b \<Longrightarrow> \<not> lt b c \<Longrightarrow> \<not> lt a c"
  using assms unfolding weak_order_def by iprover+

lemma key_less_weak: "weak_order (key_less ne nb)"
  unfolding weak_order_def key_less_def Let_def by (intro conjI allI impI) (auto split: if_splits)

lemma insert_back_sorted:
  assumes "weak_order lt" and "sorted_wrt (\<lambda>a b. \<not> lt a b) ys"
  shows "sorted_wrt (\<lambda>a b. \<not> lt a b) (insert_back lt x ys)"
  using assms(2)
proof (induction ys)
  case (Cons y ys)
  have set: "set (insert_back lt x ys) = insert x (set ys)"
    using arg_cong [OF mset_insert_back [of lt x ys], of set_mset] by simp
  show ?case
  proof (cases "lt x y")
    case True
    note weak_orderD(1) [OF assms(1) this]
    with Cons True set show ?thesis by simp
  next
    case False
    have "\<not> lt x z" if "z \<in> set ys" for z
    proof -
      have "\<not> lt y z" using Cons.prems that by simp
      with False show ?thesis by (rule weak_orderD(2) [OF assms(1)])
    qed
    with Cons.prems False show ?thesis by simp
  qed
qed simp

lemma insertion_sort_sorted:
  assumes "weak_order lt"
  shows "sorted_wrt (\<lambda>a b. \<not> lt b a) (insertion_sort lt xs)"
proof -
  have "sorted_wrt (\<lambda>a b. \<not> lt a b) acc \<Longrightarrow> sorted_wrt (\<lambda>a b. \<not> lt a b) (fold (insert_back lt) xs acc)" for acc
    by (induction xs arbitrary: acc) (simp_all add: insert_back_sorted [OF assms])
  then show ?thesis by (simp add: insertion_sort_def sorted_wrt_rev)
qed

definition dim_order :: "(nat \<Rightarrow> i64) \<Rightarrow> (nat \<Rightarrow> u64) \<Rightarrow> nat list" where
  "dim_order ne nb = insertion_sort (key_less ne nb) [0, 1, 2, 3]"

lemma dim_order_facts:
  "mset (dim_order ne nb) = mset [0, 1, 2, 3]" "length (dim_order ne nb) = 4" "distinct (dim_order ne nb)"
  "set (dim_order ne nb) = {0, 1, 2, 3}" "sorted_wrt (\<lambda>a b. \<not> key_less ne nb b a) (dim_order ne nb)"
proof -
  show m: "mset (dim_order ne nb) = mset [0, 1, 2, 3]" unfolding dim_order_def by (rule mset_insertion_sort)
  show "length (dim_order ne nb) = 4" using arg_cong [OF m, of size] by simp
  show "distinct (dim_order ne nb)"
    using mset_eq_imp_distinct_iff [OF m] by simp
  show "set (dim_order ne nb) = {0, 1, 2, 3}" using arg_cong [OF m, of set_mset] by simp
  show "sorted_wrt (\<lambda>a b. \<not> key_less ne nb b a) (dim_order ne nb)"
    unfolding dim_order_def by (rule insertion_sort_sorted [OF key_less_weak])
qed

lemma sum_perm4:
  fixes f :: "nat \<Rightarrow> nat"
  shows "(\<Sum>k<4. f (dim_order ne nb ! k)) = (\<Sum>k<4. f k)"
proof -
  have "(\<Sum>k<4. f (dim_order ne nb ! k)) = sum_list (map f (dim_order ne nb))"
    by (simp add: sum_list_sum_nth dim_order_facts(2) lessThan_atLeast0)
  also have "\<dots> = sum_mset (image_mset f (mset (dim_order ne nb)))" by (simp flip: mset_map add: sum_mset_sum_list)
  also have "\<dots> = (\<Sum>k<4. f k)"
    unfolding dim_order_facts(1) by (simp add: eval_nat_numeral lessThan_Suc)
  finally show ?thesis .
qed

section \<open>Nested layouts\<close>

definition nest :: "(nat \<Rightarrow> nat) \<Rightarrow> (nat \<Rightarrow> nat) \<Rightarrow> nat \<Rightarrow> bool" where
  "nest n b m \<longleftrightarrow> (\<forall>k<m. 0 < b k \<and> (0 < k \<longrightarrow> n (k - 1) * b (k - 1) \<le> b k))"

lemma nest_sum_less:
  "nest n b (Suc m) \<Longrightarrow> \<forall>k<m. i k < n k \<Longrightarrow> (\<Sum>k<m. i k * b k) < b m"
proof (induction m)
  case 0
  then show ?case by (simp add: nest_def)
next
  case (Suc m)
  have "nest n b (Suc m)" using Suc.prems(1) by (simp add: nest_def)
  with Suc have "(\<Sum>k<m. i k * b k) < b m" by simp
  then have "(\<Sum>k<Suc m. i k * b k) < (i m + 1) * b m" by simp
  also have "\<dots> \<le> n m * b m" using Suc.prems(2) by (intro mult_le_mono1) (simp add: Suc_le_eq)
  also have "\<dots> \<le> b (Suc m)"
    using Suc.prems(1) unfolding nest_def by (auto dest: spec [of _ "Suc m"])
  finally show ?case .
qed

lemma nest_inj:
  "nest n b m \<Longrightarrow> \<forall>k<m. i k < n k \<Longrightarrow> \<forall>k<m. j k < n k \<Longrightarrow>
   (\<Sum>k<m. i k * b k) = (\<Sum>k<m. j k * b k) \<Longrightarrow> \<forall>k<m. i k = (j k :: nat)"
proof (induction m)
  case (Suc m)
  let ?S = "\<lambda>i. \<Sum>k<m. i k * b k"
  have lt: "?S i < b m" "?S j < b m" using nest_sum_less Suc.prems by auto
  have eq: "?S i + i m * b m = ?S j + j m * b m" using Suc.prems(4) by simp
  have "i m = (?S i + i m * b m) div b m" "j m = (?S j + j m * b m) div b m" using lt by simp_all
  then have "i m = j m" by (simp add: eq)
  moreover from this have "?S i = ?S j" using eq by simp
  ultimately show ?case using Suc by (auto simp: nest_def less_Suc_eq)
qed simp

section \<open>Orders of a shape\<close>

lemma order_of_dims_simps:
  "k < 4 \<Longrightarrow> or_perm (order_of_dims ne nb) k = dim_order ne nb ! k"
  "or_ne (order_of_dims ne nb) k = ne (dim_order ne nb ! k)"
  "or_nb (order_of_dims ne nb) k = nb (dim_order ne nb ! k)"
  by (simp_all add: order_of_dims_def dim_order_def Let_def)

lemma dim_order_lt: "k < 4 \<Longrightarrow> dim_order ne nb ! k < 4"
  using nth_mem [of k "dim_order ne nb"] dim_order_facts(2,4) [of ne nb] by auto

lemma dim_order_onto: "d < 4 \<Longrightarrow> \<exists>k<4. dim_order ne nb ! k = d"
proof -
  assume "d < 4"
  then have "d \<in> set (dim_order ne nb)" unfolding dim_order_facts(4) by auto
  then show ?thesis using dim_order_facts(2) by (metis in_set_conv_nth)
qed

lemma nontrivial_prefix:
  assumes "\<And>k. k < 4 \<Longrightarrow> 1 \<le> sint (ne k :: i64)" and "k < 4"
  shows "k < or_nontrivial (order_of_dims ne nb) \<longleftrightarrow> ne (dim_order ne nb ! k) \<noteq> 1"
proof -
  define P where "P k \<longleftrightarrow> 1 < sint (ne (dim_order ne nb ! k))" for k
  have P: "P k \<longleftrightarrow> ne (dim_order ne nb ! k) \<noteq> 1" if "k < 4" for k
  proof -
    have "1 \<le> sint (ne (dim_order ne nb ! k))" using assms(1) dim_order_lt [OF that] by blast
    moreover have "sint (ne (dim_order ne nb ! k)) = 1 \<longleftrightarrow> ne (dim_order ne nb ! k) = 1"
      by (auto intro: signed_word_eqI)
    ultimately show ?thesis by (auto simp: P_def)
  qed
  have anti: "P k" if "P l" "k < l" "l < 4" for k l
  proof (rule ccontr)
    assume "\<not> P k"
    then have "key_less ne nb (dim_order ne nb ! l) (dim_order ne nb ! k)"
      using P [of k] P [of l] that by (simp add: key_less_def)
    then show False
      using sorted_wrt_nth_less [OF dim_order_facts(5) that(2)] dim_order_facts(2) that(3) by simp
  qed
  have "or_nontrivial (order_of_dims ne nb) = length (filter P [0, 1, 2, 3])"
    by (simp add: order_of_dims_def dim_order_def Let_def P_def)
  moreover consider "k = 0" | "k = 1" | "k = 2" | "k = 3" using assms(2) by linarith
  then have "k < length (filter P [0, 1, 2, 3]) \<longleftrightarrow> P k"
    using anti [of 1 0] anti [of 2 1] anti [of 3 2] by cases (auto split: if_splits)
  ultimately show ?thesis using P [OF assms(2)] by simp
qed

definition address :: "(nat \<Rightarrow> u64) \<Rightarrow> (nat \<Rightarrow> nat) \<Rightarrow> nat" where
  "address nb i = (\<Sum>k<4. i k * unat (nb k))"

text \<open>
  C37: the iteration order is a permutation of the four dimensions, the dimensions longer than
  one first and by growing stride; walking it visits the addresses the shape has, since an
  element's address does not depend on the order its strides are added in.
\<close>

theorem order_is_sorted_permutation:
  assumes "\<forall>k<4. 1 \<le> sint (ne k)"
  shows "let ord = order_of_dims ne nb in
     bij_betw (or_perm ord) {..<4} {..<4} \<and>
     (\<forall>k<4. k < or_nontrivial ord \<longleftrightarrow> ne (or_perm ord k) \<noteq> 1) \<and>
     (\<forall>k l. k < l \<and> l < or_nontrivial ord \<longrightarrow> or_nb ord k \<le> or_nb ord l) \<and>
     address (or_nb ord) (i \<circ> or_perm ord) = address nb i"
proof -
  let ?ord = "order_of_dims ne nb" and ?p = "dim_order ne nb"
  have pre: "k < or_nontrivial ?ord \<longleftrightarrow> ne (?p ! k) \<noteq> 1" if "k < 4" for k
    using assms that by (intro nontrivial_prefix) auto
  have nt4: "or_nontrivial ?ord \<le> 4"
    unfolding order_of_dims_def by (simp add: Let_def) 
  have bij: "bij_betw (or_perm ?ord) {..<4} {..<4}"
  proof -
    have "bij_betw (\<lambda>k. ?p ! k) {..<4} {..<4}"
      using dim_order_facts(2-4) [of ne nb] by (intro bij_betw_nth) auto
    then show ?thesis by (rule bij_betw_cong [THEN iffD1, rotated]) (simp add: order_of_dims_simps)
  qed
  have sorted: "nb (?p ! k) \<le> nb (?p ! l)" if "k < l" "l < or_nontrivial ?ord" for k l
  proof -
    have "l < 4" using that nt4 by simp
    then have "\<not> key_less ne nb (?p ! l) (?p ! k)"
      using sorted_wrt_nth_less [OF dim_order_facts(5) that(1)] dim_order_facts(2) by simp
    then show ?thesis using pre [of k] pre [of l] that \<open>l < 4\<close> by (simp add: key_less_def)
  qed
  have "address (or_nb ?ord) (i \<circ> or_perm ?ord) = (\<Sum>k<4. i (?p ! k) * unat (nb (?p ! k)))"
    unfolding address_def by (intro sum.cong) (simp_all add: order_of_dims_simps)
  also have "\<dots> = address nb i"
    unfolding address_def using sum_perm4 [of "\<lambda>k. i k * unat (nb k)"] .
  finally show ?thesis
    using bij sorted pre by (simp add: Let_def order_of_dims_simps)
qed

theorem order_is_sorted_permutation_witness:
  "bij_betw (or_perm (order_of_dims (\<lambda>k. 3) (\<lambda>k. 7))) {..<4} {..<4}"
  using order_is_sorted_permutation [of "\<lambda>k. 3" "\<lambda>k. 7"] by (simp add: Let_def)

text \<open>
  In a nested layout no two elements share an address: a 16-bit destination that
  \<open>dst_ok\<close> accepts gives every element a place of its own.
\<close>

theorem nested_addresses_distinct:
  assumes ne: "\<forall>k<4. 1 \<le> sint (ne k) \<and> unat (ne k) * unat (nb k) < 2 ^ 64"
    and nested: "nested (order_of_dims ne nb)"
    and i: "\<forall>k<4. i k < unat (ne k)" and j: "\<forall>k<4. j k < unat (ne k)"
    and eq: "address nb i = address nb j"
  shows "\<forall>k<4. i k = j k"
proof -
  let ?ord = "order_of_dims ne nb" and ?p = "dim_order ne nb"
  let ?m = "or_nontrivial ?ord" and ?n = "\<lambda>k. unat (ne (?p ! k))" and ?b = "\<lambda>k. unat (nb (?p ! k))"
  have pre: "k < ?m \<longleftrightarrow> ne (?p ! k) \<noteq> 1" if "k < 4" for k
    using ne that by (intro nontrivial_prefix) auto
  have m4: "?m \<le> 4" unfolding order_of_dims_def by (simp add: Let_def)
  have nest: "nest ?n ?b ?m"
    unfolding nest_def
  proof (intro allI impI)
    fix k assume k: "k < ?m"
    have "or_nb ?ord k \<noteq> 0 \<and> (0 < k \<longrightarrow> \<not> or_nb ?ord k < or_ne ?ord (k - 1) * or_nb ?ord (k - 1))"
      using bspec [OF nested [unfolded nested_def list_all_iff], of k] k by auto
    moreover have "unat (ne (?p ! (k - 1)) * nb (?p ! (k - 1))) = ?n (k - 1) * ?b (k - 1)"
      using ne dim_order_lt [of "k - 1"] k m4 by (intro unat_mult_no_wrap) simp
    ultimately show "0 < ?b k \<and> (0 < k \<longrightarrow> ?n (k - 1) * ?b (k - 1) \<le> ?b k)"
      by (simp add: order_of_dims_simps word_less_nat_alt unat_gt_0 not_less)
  qed
  have zero: "f (?p ! k) = 0" if f: "\<forall>k<4. f k < unat (ne k)" and k: "?m \<le> k" "k < 4" for f :: "nat \<Rightarrow> nat" and k
    using f [rule_format, OF dim_order_lt [OF k(2)], of ne nb] pre [OF k(2)] k(1) by simp
  have cut: "address nb f = (\<Sum>k<?m. f (?p ! k) * ?b k)" if "\<forall>k<4. f k < unat (ne k)" for f
  proof -
    have "address nb f = (\<Sum>k<4. f (?p ! k) * ?b k)"
      unfolding address_def using sum_perm4 [of "\<lambda>k. f k * unat (nb k)"] by simp
    also have "\<dots> = (\<Sum>k<?m. f (?p ! k) * ?b k)"
      using m4 zero [OF that] by (intro sum.mono_neutral_right) auto
    finally show ?thesis .
  qed
  have inb: "\<forall>k<?m. f (?p ! k) < ?n k" if "\<forall>k<4. f k < unat (ne k)" for f
    using that dim_order_lt m4 by (meson le_trans less_le_trans)
  have "\<forall>k<?m. i (?p ! k) = j (?p ! k)"
    using nest_inj [OF nest inb [OF i] inb [OF j]] cut [OF i] cut [OF j] eq by simp
  then have "i (?p ! k) = j (?p ! k)" if "k < 4" for k
    using zero [OF i] zero [OF j] that by (cases "k < ?m") simp_all
  then show ?thesis using dim_order_onto by metis
qed

theorem nested_addresses_distinct_witness:
  "address (\<lambda>k. if k = 0 then 12 else if k = 1 then 4 else if k = 2 then 1 else 50) (\<lambda>k. if k = 2 then 3 else 1) \<noteq>
   address (\<lambda>k. if k = 0 then 12 else if k = 1 then 4 else if k = 2 then 1 else 50) (\<lambda>k. if k = 2 then 2 else 1)"
proof
  let ?ne = "\<lambda>k. if k = 0 then 2 else if k = 1 then 3 else if k = 2 then 4 else 2 :: i64"
  let ?nb = "\<lambda>k. if k = 0 then 12 else if k = 1 then 4 else if k = 2 then 1 else 50 :: u64"
  have nested: "nested (order_of_dims ?ne ?nb)"
    by (simp add: nested_def order_of_dims_def insertion_sort_def key_less_def Let_def upt_rec)
  assume "address ?nb (\<lambda>k. if k = 2 then 3 else 1) = address ?nb (\<lambda>k. if k = 2 then 2 else 1)"
  from nested_addresses_distinct [OF _ nested _ _ this] have "\<forall>k<4. (if k = (2 :: nat) then 3 else 1) = (if k = 2 then 2 else 1 :: nat)"
    by (simp add: all4_iff [symmetric])
  from this [rule_format, of 2] show False by simp
qed

end
