(* ===== verification/RdOpsSimple.thy ===== *)
theory RdOpsSimple
  imports RdPack
begin

text \<open>
  The op families of \<open>guest/ggml-rd/ops\<close> that launch one thread per destination element:
  \<open>unary\<close>, \<open>unary_math\<close>, \<open>unary_seethrough\<close>, \<open>binary\<close>, \<open>arange\<close>, \<open>argsort\<close>, \<open>pad\<close>,
  \<open>pool\<close>, \<open>upscale\<close>, \<open>timestep_embedding\<close>, \<open>get_rows\<close> and the convolutions. For each,
  \<open>supports_*\<close> and \<open>pack_*\<close> as the file has them, and an interpretation of the packer
  contract: what it supports, it packs.
\<close>

abbreviation (input) null :: "'a option \<Rightarrow> bool" where "null s \<equiv> s = None"

section \<open>Numbers in \<open>op_params\<close>\<close>

definition f32_is_zero :: "f32 \<Rightarrow> bool" where
  "f32_is_zero f \<longleftrightarrow> take_bit 31 f = 0"

definition f32_isfinite :: "f32 \<Rightarrow> bool" where
  "f32_isfinite f \<longleftrightarrow> take_bit 8 (drop_bit 23 f) \<noteq> 255"

text \<open>The smallest integer not below a finite binary32 number.\<close>

definition f32_ceil :: "f32 \<Rightarrow> int" where
  "f32_ceil f =
     (let e = unat (take_bit 8 (drop_bit 23 f)); m = uint (take_bit 23 f);
          mant = (if e = 0 then m else m + 2 ^ 23); e' = (if e = 0 then 1 else e);
          num = (if bit f 31 then - mant else mant)
      in if 150 \<le> e' then num * 2 ^ (e' - 150) else - ((- num) div 2 ^ (150 - e')))"

section \<open>Unary ops\<close>

definition supports_elementwise_f32 :: "penv \<Rightarrow> tensor \<Rightarrow> bool" where
  "supports_elementwise_f32 E op =
     (case t_src op 0 of
        None \<Rightarrow> False
      | Some a \<Rightarrow>
          if \<not> null (t_src op 1) \<or> \<not> null (t_src op 2) then False
          else if t_type op \<noteq> GGML_TYPE_F32 \<or> t_type a \<noteq> GGML_TYPE_F32 then False
          else if \<not> ggml_are_same_shape a op then False
          else tensor_fits (Some op) \<and> tensor_fits (Some a))"

definition supports_diag_mask_inf_f32 :: "penv \<Rightarrow> tensor \<Rightarrow> bool" where
  "supports_diag_mask_inf_f32 E op \<longleftrightarrow> supports_elementwise_f32 E op \<and> 0 \<le> sint (t_params op 0)"

definition pack_silu :: "penv \<Rightarrow> pack \<Rightarrow> bool \<times> pack" where "pack_silu = pack_named ''silu_f32''"
definition pack_gelu :: "penv \<Rightarrow> pack \<Rightarrow> bool \<times> pack" where "pack_gelu = pack_named ''gelu_f32''"
definition pack_gelu_erf :: "penv \<Rightarrow> pack \<Rightarrow> bool \<times> pack" where "pack_gelu_erf = pack_named ''gelu_erf_f32''"
definition pack_sigmoid :: "penv \<Rightarrow> pack \<Rightarrow> bool \<times> pack" where "pack_sigmoid = pack_named ''sigmoid_f32''"
definition pack_neg :: "penv \<Rightarrow> pack \<Rightarrow> bool \<times> pack" where "pack_neg = pack_named ''neg_f32''"
definition pack_scale :: "penv \<Rightarrow> pack \<Rightarrow> bool \<times> pack" where "pack_scale = pack_named ''scale_f32''"
definition pack_diag_mask_inf :: "penv \<Rightarrow> pack \<Rightarrow> bool \<times> pack" where
  "pack_diag_mask_inf = pack_named ''diag_mask_inf_f32''"
definition pack_relu :: "penv \<Rightarrow> pack \<Rightarrow> bool \<times> pack" where "pack_relu = pack_named ''relu_f32''"
definition pack_leaky_relu :: "penv \<Rightarrow> pack \<Rightarrow> bool \<times> pack" where "pack_leaky_relu = pack_named ''leaky_relu_f32''"
definition pack_clamp :: "penv \<Rightarrow> pack \<Rightarrow> bool \<times> pack" where "pack_clamp = pack_named ''clamp_f32''"

definition supports_math_f32 :: "penv \<Rightarrow> tensor \<Rightarrow> bool" where
  "supports_math_f32 E op =
     (case t_src op 0 of
        None \<Rightarrow> False
      | Some a \<Rightarrow>
          if \<not> null (t_src op 1) \<or> \<not> null (t_src op 2) then False
          else if t_type op \<noteq> GGML_TYPE_F32 \<or> t_type a \<noteq> GGML_TYPE_F32 \<or> \<not> ggml_are_same_shape a op then False
          else tensor_fits (Some op) \<and> tensor_fits (Some a))"

definition pack_abs :: "penv \<Rightarrow> pack \<Rightarrow> bool \<times> pack" where "pack_abs = pack_named ''abs_f32''"
definition pack_sgn :: "penv \<Rightarrow> pack \<Rightarrow> bool \<times> pack" where "pack_sgn = pack_named ''sgn_f32''"
definition pack_step :: "penv \<Rightarrow> pack \<Rightarrow> bool \<times> pack" where "pack_step = pack_named ''step_f32''"
definition pack_tanh :: "penv \<Rightarrow> pack \<Rightarrow> bool \<times> pack" where "pack_tanh = pack_named ''tanh_f32''"
definition pack_exp :: "penv \<Rightarrow> pack \<Rightarrow> bool \<times> pack" where "pack_exp = pack_named ''exp_f32''"
definition pack_floor :: "penv \<Rightarrow> pack \<Rightarrow> bool \<times> pack" where "pack_floor = pack_named ''floor_f32''"
definition pack_sqr :: "penv \<Rightarrow> pack \<Rightarrow> bool \<times> pack" where "pack_sqr = pack_named ''sqr_f32''"
definition pack_log :: "penv \<Rightarrow> pack \<Rightarrow> bool \<times> pack" where "pack_log = pack_named ''log_f32''"
definition pack_sin :: "penv \<Rightarrow> pack \<Rightarrow> bool \<times> pack" where "pack_sin = pack_named ''sin_f32''"
definition pack_cos :: "penv \<Rightarrow> pack \<Rightarrow> bool \<times> pack" where "pack_cos = pack_named ''cos_f32''"
definition pack_sqrt :: "penv \<Rightarrow> pack \<Rightarrow> bool \<times> pack" where "pack_sqrt = pack_named ''sqrt_f32''"
definition pack_gelu_quick :: "penv \<Rightarrow> pack \<Rightarrow> bool \<times> pack" where "pack_gelu_quick = pack_named ''gelu_quick_f32''"

section \<open>Binary ops\<close>

definition supports_binary_f32 :: "penv \<Rightarrow> tensor \<Rightarrow> bool" where
  "supports_binary_f32 E op =
     (case (t_src op 0, t_src op 1) of
        (Some a, Some b) \<Rightarrow>
          if \<not> null (t_src op 2) then False
          else if t_type op \<noteq> GGML_TYPE_F32 \<or> t_type a \<noteq> GGML_TYPE_F32 \<or> t_type b \<noteq> GGML_TYPE_F32 then False
          else if \<not> ggml_are_same_shape a op \<or> \<not> ggml_can_repeat b a then False
          else tensor_fits (Some op) \<and> tensor_fits (Some a) \<and> tensor_fits (Some b)
      | _ \<Rightarrow> False)"

definition binary_kernel_for :: "ggml_op \<Rightarrow> string" where
  "binary_kernel_for op =
     (case op of GGML_OP_ADD \<Rightarrow> ''add_f32'' | GGML_OP_SUB \<Rightarrow> ''sub_f32'' | GGML_OP_DIV \<Rightarrow> ''div_f32''
      | _ \<Rightarrow> ''mul_f32'')"

definition pack_binary_f32 :: "penv \<Rightarrow> pack \<Rightarrow> bool \<times> pack" where
  "pack_binary_f32 E p = pack_named (binary_kernel_for (t_op (pk_node p))) E p"

section \<open>ARANGE, ARGSORT, PAD, POOL, UPSCALE, TIMESTEP_EMBEDDING, GET_ROWS\<close>

text \<open>
  \<open>std::ceil\<close> of a quotient that is not finite is not \<open>double(ggml_nelements(op))\<close>; a count
  past \<open>2 ^ 53\<close>, which that conversion would round, does not pass \<open>tensor_fits\<close>.
\<close>

definition supports_arange_f32 :: "penv \<Rightarrow> tensor \<Rightarrow> bool" where
  "supports_arange_f32 E op =
     (if \<not> null (t_src op 0) \<or> \<not> null (t_src op 1) \<or> \<not> null (t_src op 2) then False
      else if t_type op \<noteq> GGML_TYPE_F32 \<or> t_ne op 1 \<noteq> 1 \<or> t_ne op 2 \<noteq> 1 \<or> t_ne op 3 \<noteq> 1 then False
      else let start = t_params op 0; stop = t_params op 1; step = t_params op 2 in
        if f32_is_zero step \<or> \<not> f32_isfinite start \<or> \<not> f32_isfinite stop \<or> \<not> f32_isfinite step then False
        else let q = pe_div E (pe_sub E stop start) step in
          if \<not> (f32_isfinite q \<and> 1 \<le> f32_ceil q) \<or> f32_ceil q \<noteq> sint (ggml_nelements op) then False
          else tensor_fits (Some op))"

definition pack_arange_f32 :: "penv \<Rightarrow> pack \<Rightarrow> bool \<times> pack" where
  "pack_arange_f32 = pack_named ''arange_f32''"

definition supports_argsort_f32 :: "penv \<Rightarrow> tensor \<Rightarrow> bool" where
  "supports_argsort_f32 E op =
     (case t_src op 0 of
        None \<Rightarrow> False
      | Some a \<Rightarrow>
          if \<not> null (t_src op 1) \<or> \<not> null (t_src op 2) then False
          else if t_type op \<noteq> GGML_TYPE_I32 \<or> t_type a \<noteq> GGML_TYPE_F32 \<or> \<not> ggml_are_same_shape a op then False
          else if t_params op 0 \<noteq> 0 \<and> t_params op 0 \<noteq> 1 then False
          else if sint (t_ne a 0) > 65536 then False
          else tensor_fits (Some op) \<and> tensor_fits (Some a))"

definition pack_argsort_f32 :: "penv \<Rightarrow> pack \<Rightarrow> bool \<times> pack" where
  "pack_argsort_f32 = pack_named ''argsort_f32''"

definition supports_pad_f32 :: "penv \<Rightarrow> tensor \<Rightarrow> bool" where
  "supports_pad_f32 E op =
     (case t_src op 0 of
        None \<Rightarrow> False
      | Some a \<Rightarrow>
          if \<not> null (t_src op 1) \<or> \<not> null (t_src op 2) then False
          else if t_type op \<noteq> GGML_TYPE_F32 \<or> t_type a \<noteq> GGML_TYPE_F32 then False
          else if \<not> all4 (\<lambda>k. let lp = scast (t_params op (2 * k)) :: i64; rp = scast (t_params op (2 * k + 1)) in
                 \<not> (sint lp < 0 \<or> sint rp < 0 \<or> t_ne op k \<noteq> t_ne a k + lp + rp) \<and>
                 \<not> (t_params op 8 \<noteq> 0 \<and> sint lp > sint (t_ne a k)))
          then False
          else tensor_fits (Some op) \<and> tensor_fits (Some a))"

definition pack_pad_f32 :: "penv \<Rightarrow> pack \<Rightarrow> bool \<times> pack" where
  "pack_pad_f32 = pack_named ''pad_f32''"

definition supports_pool_1d_f32 :: "penv \<Rightarrow> tensor \<Rightarrow> bool" where
  "supports_pool_1d_f32 E op =
     (case t_src op 0 of
        None \<Rightarrow> False
      | Some a \<Rightarrow>
          if \<not> null (t_src op 1) \<or> \<not> null (t_src op 2) then False
          else if t_type op \<noteq> GGML_TYPE_F32 \<or> t_type a \<noteq> GGML_TYPE_F32 then False
          else if t_ne op 1 \<noteq> t_ne a 1 \<or> t_ne op 2 \<noteq> t_ne a 2 \<or> t_ne op 3 \<noteq> t_ne a 3 then False
          else let mode = t_params op 0; k0 = t_params op 1; s0 = t_params op 2; p0 = t_params op 3 in
            if mode \<noteq> 0 \<and> mode \<noteq> 1 then False
            else if sint k0 < 1 \<or> sint s0 < 1 \<or> sint p0 < 0 then False
            else if (t_ne op 0 - 1) * scast s0 + scast k0 > UINT32_MAX then False
            else tensor_fits (Some op) \<and> tensor_fits (Some a))"

definition pack_pool_1d_f32 :: "penv \<Rightarrow> pack \<Rightarrow> bool \<times> pack" where
  "pack_pool_1d_f32 E p =
     pack_named (if t_params (pk_node p) 0 = 0 then ''pool_1d_max_f32'' else ''pool_1d_avg_f32'') E p"

definition upscale_kernel_for :: "tensor \<Rightarrow> string option" where
  "upscale_kernel_for op =
     (let mode = t_params op 0 in
      if mode = 0 then Some ''upscale_nearest_f32''
      else if mode = 1 \<or> mode = or 1 (push_bit 8 1) then Some ''upscale_bilinear_f32'' else None)"

definition supports_upscale_f32 :: "penv \<Rightarrow> tensor \<Rightarrow> bool" where
  "supports_upscale_f32 E op =
     (case t_src op 0 of
        None \<Rightarrow> False
      | Some a \<Rightarrow>
          if \<not> null (t_src op 1) \<or> \<not> null (t_src op 2) then False
          else if t_type op \<noteq> GGML_TYPE_F32 \<or> t_type a \<noteq> GGML_TYPE_F32 then False
          else if null (upscale_kernel_for op) then False
          else if \<not> all4 (\<lambda>k. \<not> (sint (t_ne op k) \<le> 0 \<or> sint (t_ne a k) \<le> 0 \<or>
                                 (t_ne op k - 1) * t_ne a k > UINT32_MAX)) then False
          else tensor_fits (Some op) \<and> tensor_fits (Some a))"

text \<open>\<open>kernel_index\<close> of a null name is undefined; it is only reached after \<open>supports\<close>.\<close>

definition pack_named_opt :: "string option \<Rightarrow> penv \<Rightarrow> pack \<Rightarrow> bool \<times> pack" where
  "pack_named_opt name E p = (case name of None \<Rightarrow> (False, p) | Some n \<Rightarrow> pack_named n E p)"

definition pack_upscale_f32 :: "penv \<Rightarrow> pack \<Rightarrow> bool \<times> pack" where
  "pack_upscale_f32 E p = pack_named_opt (upscale_kernel_for (pk_node p)) E p"

definition supports_timestep_embedding_f32 :: "penv \<Rightarrow> tensor \<Rightarrow> bool" where
  "supports_timestep_embedding_f32 E op =
     (case t_src op 0 of
        None \<Rightarrow> False
      | Some a \<Rightarrow>
          if \<not> null (t_src op 1) \<or> \<not> null (t_src op 2) then False
          else if t_type op \<noteq> GGML_TYPE_F32 \<or> t_type a \<noteq> GGML_TYPE_F32 then False
          else if sint (t_params op 0) < 1 \<or> sint (t_params op 1) < 1 \<or> t_ne op 0 \<noteq> scast (t_params op 0) then False
          else if t_ne op 1 \<noteq> t_ne a 0 \<or> t_ne op 2 \<noteq> 1 \<or> t_ne op 3 \<noteq> 1 \<or> t_ne a 1 \<noteq> 1 \<or> t_ne a 2 \<noteq> 1 \<or>
                  t_ne a 3 \<noteq> 1 then False
          else tensor_fits (Some op) \<and> tensor_fits (Some a))"

definition pack_timestep_embedding_f32 :: "penv \<Rightarrow> pack \<Rightarrow> bool \<times> pack" where
  "pack_timestep_embedding_f32 = pack_named ''timestep_embedding_f32''"

definition get_rows_kernel_for :: "ggml_type \<Rightarrow> ggml_type \<Rightarrow> string option" where
  "get_rows_kernel_for s d =
     (if s = GGML_TYPE_F32 \<and> d = GGML_TYPE_F32 \<or> s = GGML_TYPE_I32 \<and> d = GGML_TYPE_I32 then Some ''get_rows_b32''
      else if s = GGML_TYPE_F16 \<and> d = GGML_TYPE_F32 then Some ''get_rows_f16''
      else if s = GGML_TYPE_BF16 \<and> d = GGML_TYPE_F32 then Some ''get_rows_bf16'' else None)"

definition supports_get_rows :: "penv \<Rightarrow> tensor \<Rightarrow> bool" where
  "supports_get_rows E op =
     (case (t_src op 0, t_src op 1) of
        (Some a, Some r) \<Rightarrow>
          if \<not> null (t_src op 2) \<or> t_type r \<noteq> GGML_TYPE_I32 then False
          else if null (get_rows_kernel_for (t_type a) (t_type op)) then False
          else if t_ne op 0 \<noteq> t_ne a 0 \<or> t_ne op 1 \<noteq> t_ne r 0 \<or> t_ne op 2 \<noteq> t_ne r 1 \<or> t_ne op 3 \<noteq> t_ne r 2 \<or>
                  t_ne a 2 \<noteq> t_ne r 1 \<or> t_ne a 3 \<noteq> t_ne r 2 \<or> t_ne r 3 \<noteq> 1 then False
          else tensor_fits (Some op) \<and> tensor_fits (Some a) \<and> tensor_fits (Some r)
      | _ \<Rightarrow> False)"

definition pack_get_rows :: "penv \<Rightarrow> pack \<Rightarrow> bool \<times> pack" where
  "pack_get_rows E p =
     (case t_src (pk_node p) 0 of
        None \<Rightarrow> (False, p)
      | Some a \<Rightarrow> pack_named_opt (get_rows_kernel_for (t_type a) (t_type (pk_node p))) E p)"

section \<open>Convolutions\<close>

definition kernel_f32_or_f16 :: "tensor \<Rightarrow> bool" where
  "kernel_f32_or_f16 k \<longleftrightarrow> t_type k = GGML_TYPE_F32 \<or> t_type k = GGML_TYPE_F16"

definition supports_conv2d :: "penv \<Rightarrow> tensor \<Rightarrow> bool" where
  "supports_conv2d E op =
     (case (t_src op 0, t_src op 1) of
        (Some k, Some inp) \<Rightarrow>
          if \<not> null (t_src op 2) then False
          else if t_type op \<noteq> GGML_TYPE_F32 \<or> t_type inp \<noteq> GGML_TYPE_F32 \<or> \<not> kernel_f32_or_f16 k then False
          else if \<not> ggml_is_contiguous k then False
          else let pp = (\<lambda>i. sint (t_params op i)) in
            if pp 0 < 1 \<or> pp 2 < 0 \<or> pp 4 < 1 \<or> pp 1 < 1 \<or> pp 3 < 0 \<or> pp 5 < 1 then False
            else if t_ne k 2 \<noteq> t_ne inp 2 \<or> t_ne op 2 \<noteq> t_ne k 3 \<or> t_ne op 3 \<noteq> t_ne inp 3 then False
            else tensor_fits (Some op) \<and> tensor_fits (Some k) \<and> tensor_fits (Some inp)
      | _ \<Rightarrow> False)"

text \<open>The choice between a family's f16 and f32 kernels by the type of \<open>src[0]\<close>.\<close>

definition pack_by_kernel :: "string \<Rightarrow> string \<Rightarrow> penv \<Rightarrow> pack \<Rightarrow> bool \<times> pack" where
  "pack_by_kernel f16 f32 E p =
     (case t_src (pk_node p) 0 of
        None \<Rightarrow> (False, p)
      | Some k \<Rightarrow> pack_named (if t_type k = GGML_TYPE_F16 then f16 else f32) E p)"

definition pack_conv2d :: "penv \<Rightarrow> pack \<Rightarrow> bool \<times> pack" where
  "pack_conv2d = pack_by_kernel ''conv2d_f16'' ''conv2d_f32''"

definition supports_conv_2d_dw_f32 :: "penv \<Rightarrow> tensor \<Rightarrow> bool" where
  "supports_conv_2d_dw_f32 E op =
     (case (t_src op 0, t_src op 1) of
        (Some k, Some img) \<Rightarrow>
          if \<not> null (t_src op 2) then False
          else if t_type op \<noteq> GGML_TYPE_F32 \<or> t_type k \<noteq> GGML_TYPE_F32 \<or> t_type img \<noteq> GGML_TYPE_F32 then False
          else if t_ne k 2 \<noteq> 1 \<or> t_ne k 3 \<noteq> t_ne img 2 \<or> t_ne op 2 \<noteq> t_ne img 2 \<or> t_ne op 3 \<noteq> t_ne img 3 then False
          else let s0 = t_params op 0; s1 = t_params op 1; p0 = t_params op 2; p1 = t_params op 3;
                   d0 = t_params op 4; d1 = t_params op 5 in
            if sint s0 < 1 \<or> sint s1 < 1 \<or> sint p0 < 0 \<or> sint p1 < 0 \<or> sint d0 < 1 \<or> sint d1 < 1 then False
            else if (t_ne op 0 - 1) * scast s0 + (t_ne k 0 - 1) * scast d0 > UINT32_MAX \<or>
                    (t_ne op 1 - 1) * scast s1 + (t_ne k 1 - 1) * scast d1 > UINT32_MAX then False
            else tensor_fits (Some op) \<and> tensor_fits (Some k) \<and> tensor_fits (Some img)
      | _ \<Rightarrow> False)"

definition pack_conv_2d_dw_f32 :: "penv \<Rightarrow> pack \<Rightarrow> bool \<times> pack" where
  "pack_conv_2d_dw_f32 = pack_named ''conv_2d_dw_f32''"

definition supports_conv3d :: "penv \<Rightarrow> tensor \<Rightarrow> bool" where
  "supports_conv3d E op =
     (case (t_src op 0, t_src op 1) of
        (Some k, Some inp) \<Rightarrow>
          if \<not> null (t_src op 2) then False
          else if t_type op \<noteq> GGML_TYPE_F32 \<or> t_type inp \<noteq> GGML_TYPE_F32 \<or> \<not> kernel_f32_or_f16 k then False
          else if \<not> ggml_is_contiguous k then False
          else let pp = (\<lambda>i. sint (t_params op i)) in
            if pp 0 < 1 \<or> pp 3 < 0 \<or> pp 6 < 1 \<or> pp 1 < 1 \<or> pp 4 < 0 \<or> pp 7 < 1 \<or> pp 2 < 1 \<or> pp 5 < 0 \<or> pp 8 < 1 then False
            else let c = scast (t_params op 9) :: i64; n = scast (t_params op 10) :: i64;
                     oc = scast (t_params op 11) :: i64 in
              if sint c < 1 \<or> sint n < 1 \<or> sint oc < 1 \<or> t_ne k 3 \<noteq> c * oc \<or> t_ne inp 3 \<noteq> c * n \<or>
                 t_ne op 3 \<noteq> oc * n then False
              else tensor_fits (Some op) \<and> tensor_fits (Some k) \<and> tensor_fits (Some inp)
      | _ \<Rightarrow> False)"

definition pack_conv3d :: "penv \<Rightarrow> pack \<Rightarrow> bool \<times> pack" where
  "pack_conv3d = pack_by_kernel ''conv3d_f16'' ''conv3d_f32''"

definition supports_conv_transpose2d :: "penv \<Rightarrow> tensor \<Rightarrow> bool" where
  "supports_conv_transpose2d E op =
     (case (t_src op 0, t_src op 1) of
        (Some k, Some inp) \<Rightarrow>
          if \<not> null (t_src op 2) then False
          else if t_type op \<noteq> GGML_TYPE_F32 \<or> t_type inp \<noteq> GGML_TYPE_F32 \<or> \<not> kernel_f32_or_f16 k then False
          else if t_nb k 0 \<noteq> ggml_type_size (t_type k) \<or> t_nb inp 0 \<noteq> 4 then False
          else let s = scast (t_params op 0) :: i64 in
            if sint s < 1 \<or> t_ne k 3 \<noteq> t_ne inp 2 \<or> t_ne inp 3 \<noteq> 1 \<or> t_ne op 3 \<noteq> 1 \<or> t_ne op 2 \<noteq> t_ne k 2 then False
            else if t_ne op 0 \<noteq> (t_ne inp 0 - 1) * s + t_ne k 0 \<or> t_ne op 1 \<noteq> (t_ne inp 1 - 1) * s + t_ne k 1 then False
            else tensor_fits (Some op) \<and> tensor_fits (Some k) \<and> tensor_fits (Some inp)
      | _ \<Rightarrow> False)"

definition pack_conv_transpose2d :: "penv \<Rightarrow> pack \<Rightarrow> bool \<times> pack" where
  "pack_conv_transpose2d = pack_by_kernel ''conv_transpose_2d_f16'' ''conv_transpose_2d_f32''"

definition supports_im2col :: "penv \<Rightarrow> tensor \<Rightarrow> bool" where
  "supports_im2col E op =
     (case (t_src op 0, t_src op 1) of
        (Some k, Some img) \<Rightarrow>
          if \<not> null (t_src op 2) then False
          else if t_type img \<noteq> GGML_TYPE_F32 \<or> (t_type op \<noteq> GGML_TYPE_F32 \<and> t_type op \<noteq> GGML_TYPE_F16) then False
          else let pp = (\<lambda>i. sint (t_params op i)); is2d = t_params op 6 in
            if is2d \<noteq> 0 \<and> is2d \<noteq> 1 then False
            else if pp 0 < 1 \<or> pp 4 < 1 \<or> pp 2 < 0 \<or> (is2d \<noteq> 0 \<and> (pp 1 < 1 \<or> pp 5 < 1 \<or> pp 3 < 0)) then False
            else if t_nb img 0 \<noteq> 4 then False
            else if is2d \<noteq> 0 \<and> (t_nb img 1 \<noteq> t_ne img 0 * 4 \<or> t_ne k 2 \<noteq> t_ne img 2) then False
            else if is2d = 0 \<and> (t_ne k 1 \<noteq> t_ne img 1 \<or> t_ne img 3 \<noteq> 1) then False
            else if t_type op = GGML_TYPE_F16 \<and> \<not> ggml_is_contiguous op then False
            else if sint (ggml_nelements op) \<ge> 2 ^ 31 then False
            else tensor_fits (Some op) \<and> tensor_fits (Some k) \<and> tensor_fits (Some img)
      | _ \<Rightarrow> False)"

definition pack_im2col :: "penv \<Rightarrow> pack \<Rightarrow> bool \<times> pack" where
  "pack_im2col E p =
     (if t_type (pk_node p) = GGML_TYPE_F32 then pack_named ''im2col_f32'' E p
      else let p1 = p\<lparr>pk_kernel := kernel_index ''im2col_f16''\<rparr>;
               off = ucast (pk_w p (W_DST + T_OFF)) :: u64; n = ggml_nelements (pk_node p);
               words = drop_bit 1 (off + n - 1) - drop_bit 1 off + 1
           in if 0 \<le> pk_kernel p1 then grid_1d words p1 else (False, p1))"

section \<open>What is supported is packed\<close>

text \<open>The packers by name need nothing but that \<open>supports\<close> checks the destination.\<close>

lemma named_packer:
  assumes "\<And>E op. supports E op \<Longrightarrow> tensor_fits (Some op)"
    and "\<And>E (p :: pack). supports E (pk_node p) \<Longrightarrow> \<exists>name. pack E p = pack_named name E p \<and> wide_kernel name"
  shows "packer supports pack (\<lambda>E op. True)"
proof
  fix E and p :: pack assume "supports E (pk_node p)" "exact_all (pk_node p)"
  with assms pack_named_packs show "fst (pack E p) \<and> packed p (snd (pack E p))" by metis
qed

lemma fits_dst:
  "supports_elementwise_f32 E op \<Longrightarrow> tensor_fits (Some op)"
  "supports_diag_mask_inf_f32 E op \<Longrightarrow> tensor_fits (Some op)"
  "supports_math_f32 E op \<Longrightarrow> tensor_fits (Some op)"
  "supports_binary_f32 E op \<Longrightarrow> tensor_fits (Some op)"
  "supports_arange_f32 E op \<Longrightarrow> tensor_fits (Some op)"
  "supports_argsort_f32 E op \<Longrightarrow> tensor_fits (Some op)"
  "supports_pad_f32 E op \<Longrightarrow> tensor_fits (Some op)"
  "supports_pool_1d_f32 E op \<Longrightarrow> tensor_fits (Some op)"
  "supports_upscale_f32 E op \<Longrightarrow> tensor_fits (Some op)"
  "supports_timestep_embedding_f32 E op \<Longrightarrow> tensor_fits (Some op)"
  "supports_get_rows E op \<Longrightarrow> tensor_fits (Some op)"
  "supports_conv2d E op \<Longrightarrow> tensor_fits (Some op)"
  "supports_conv_2d_dw_f32 E op \<Longrightarrow> tensor_fits (Some op)"
  "supports_conv3d E op \<Longrightarrow> tensor_fits (Some op)"
  "supports_conv_transpose2d E op \<Longrightarrow> tensor_fits (Some op)"
  "supports_im2col E op \<Longrightarrow> tensor_fits (Some op)"
  unfolding supports_elementwise_f32_def supports_diag_mask_inf_f32_def supports_math_f32_def
    supports_binary_f32_def supports_arange_f32_def supports_argsort_f32_def supports_pad_f32_def
    supports_pool_1d_f32_def supports_upscale_f32_def supports_timestep_embedding_f32_def
    supports_get_rows_def supports_conv2d_def supports_conv_2d_dw_f32_def supports_conv3d_def
    supports_conv_transpose2d_def supports_im2col_def
  by (auto split: option.splits if_splits simp: Let_def)

interpretation silu: packer supports_elementwise_f32 pack_silu "\<lambda>E op. True"
  by (rule named_packer) (use wide_kernel_simps in \<open>auto simp: fits_dst pack_silu_def\<close>)

interpretation gelu: packer supports_elementwise_f32 pack_gelu "\<lambda>E op. True"
  by (rule named_packer) (use wide_kernel_simps in \<open>auto simp: fits_dst pack_gelu_def\<close>)

interpretation gelu_erf: packer supports_elementwise_f32 pack_gelu_erf "\<lambda>E op. True"
  by (rule named_packer) (use wide_kernel_simps in \<open>auto simp: fits_dst pack_gelu_erf_def\<close>)

interpretation sigmoid: packer supports_elementwise_f32 pack_sigmoid "\<lambda>E op. True"
  by (rule named_packer) (use wide_kernel_simps in \<open>auto simp: fits_dst pack_sigmoid_def\<close>)

interpretation neg: packer supports_elementwise_f32 pack_neg "\<lambda>E op. True"
  by (rule named_packer) (use wide_kernel_simps in \<open>auto simp: fits_dst pack_neg_def\<close>)

interpretation scale: packer supports_elementwise_f32 pack_scale "\<lambda>E op. True"
  by (rule named_packer) (use wide_kernel_simps in \<open>auto simp: fits_dst pack_scale_def\<close>)

interpretation relu: packer supports_elementwise_f32 pack_relu "\<lambda>E op. True"
  by (rule named_packer) (use wide_kernel_simps in \<open>auto simp: fits_dst pack_relu_def\<close>)

interpretation leaky_relu: packer supports_elementwise_f32 pack_leaky_relu "\<lambda>E op. True"
  by (rule named_packer) (use wide_kernel_simps in \<open>auto simp: fits_dst pack_leaky_relu_def\<close>)

interpretation clamp: packer supports_elementwise_f32 pack_clamp "\<lambda>E op. True"
  by (rule named_packer) (use wide_kernel_simps in \<open>auto simp: fits_dst pack_clamp_def\<close>)

interpretation sqrt: packer supports_elementwise_f32 pack_sqrt "\<lambda>E op. True"
  by (rule named_packer) (use wide_kernel_simps in \<open>auto simp: fits_dst pack_sqrt_def\<close>)

interpretation gelu_quick: packer supports_elementwise_f32 pack_gelu_quick "\<lambda>E op. True"
  by (rule named_packer) (use wide_kernel_simps in \<open>auto simp: fits_dst pack_gelu_quick_def\<close>)

interpretation diag_mask_inf: packer supports_diag_mask_inf_f32 pack_diag_mask_inf "\<lambda>E op. True"
  by (rule named_packer) (use wide_kernel_simps in \<open>auto simp: fits_dst pack_diag_mask_inf_def\<close>)

interpretation abs: packer supports_math_f32 pack_abs "\<lambda>E op. True"
  by (rule named_packer) (use wide_kernel_simps in \<open>auto simp: fits_dst pack_abs_def\<close>)

interpretation sgn: packer supports_math_f32 pack_sgn "\<lambda>E op. True"
  by (rule named_packer) (use wide_kernel_simps in \<open>auto simp: fits_dst pack_sgn_def\<close>)

interpretation step: packer supports_math_f32 pack_step "\<lambda>E op. True"
  by (rule named_packer) (use wide_kernel_simps in \<open>auto simp: fits_dst pack_step_def\<close>)

interpretation tanh: packer supports_math_f32 pack_tanh "\<lambda>E op. True"
  by (rule named_packer) (use wide_kernel_simps in \<open>auto simp: fits_dst pack_tanh_def\<close>)

interpretation exp: packer supports_math_f32 pack_exp "\<lambda>E op. True"
  by (rule named_packer) (use wide_kernel_simps in \<open>auto simp: fits_dst pack_exp_def\<close>)

interpretation floor: packer supports_math_f32 pack_floor "\<lambda>E op. True"
  by (rule named_packer) (use wide_kernel_simps in \<open>auto simp: fits_dst pack_floor_def\<close>)

interpretation sqr: packer supports_math_f32 pack_sqr "\<lambda>E op. True"
  by (rule named_packer) (use wide_kernel_simps in \<open>auto simp: fits_dst pack_sqr_def\<close>)

interpretation log: packer supports_math_f32 pack_log "\<lambda>E op. True"
  by (rule named_packer) (use wide_kernel_simps in \<open>auto simp: fits_dst pack_log_def\<close>)

interpretation sin: packer supports_math_f32 pack_sin "\<lambda>E op. True"
  by (rule named_packer) (use wide_kernel_simps in \<open>auto simp: fits_dst pack_sin_def\<close>)

interpretation cos: packer supports_math_f32 pack_cos "\<lambda>E op. True"
  by (rule named_packer) (use wide_kernel_simps in \<open>auto simp: fits_dst pack_cos_def\<close>)

interpretation binary: packer supports_binary_f32 pack_binary_f32 "\<lambda>E op. True"
proof (rule named_packer)
  show "\<exists>name. pack_binary_f32 E p = pack_named name E p \<and> wide_kernel name" for E and p :: pack
    using wide_kernel_simps by (auto simp: pack_binary_f32_def binary_kernel_for_def split: ggml_op.splits)
qed (rule fits_dst)

interpretation arange: packer supports_arange_f32 pack_arange_f32 "\<lambda>E op. True"
  by (rule named_packer) (use wide_kernel_simps in \<open>auto simp: fits_dst pack_arange_f32_def\<close>)

interpretation argsort: packer supports_argsort_f32 pack_argsort_f32 "\<lambda>E op. True"
  by (rule named_packer) (use wide_kernel_simps in \<open>auto simp: fits_dst pack_argsort_f32_def\<close>)

interpretation pad: packer supports_pad_f32 pack_pad_f32 "\<lambda>E op. True"
  by (rule named_packer) (use wide_kernel_simps in \<open>auto simp: fits_dst pack_pad_f32_def\<close>)

interpretation timestep_embedding: packer supports_timestep_embedding_f32 pack_timestep_embedding_f32 "\<lambda>E op. True"
  by (rule named_packer) (use wide_kernel_simps in \<open>auto simp: fits_dst pack_timestep_embedding_f32_def\<close>)

interpretation conv_2d_dw: packer supports_conv_2d_dw_f32 pack_conv_2d_dw_f32 "\<lambda>E op. True"
  by (rule named_packer) (use wide_kernel_simps in \<open>auto simp: fits_dst pack_conv_2d_dw_f32_def\<close>)

interpretation pool_1d: packer supports_pool_1d_f32 pack_pool_1d_f32 "\<lambda>E op. True"
proof (rule named_packer)
  show "\<exists>name. pack_pool_1d_f32 E p = pack_named name E p \<and> wide_kernel name" for E and p :: pack
    using wide_kernel_simps by (auto simp: pack_pool_1d_f32_def)
qed (rule fits_dst)

interpretation upscale: packer supports_upscale_f32 pack_upscale_f32 "\<lambda>E op. True"
proof (rule named_packer)
  show "\<exists>name. pack_upscale_f32 E p = pack_named name E p \<and> wide_kernel name"
    if s: "supports_upscale_f32 E (pk_node p)" for E and p :: pack
  proof -
    obtain name where name: "upscale_kernel_for (pk_node p) = Some name"
      using s by (simp add: supports_upscale_f32_def split: option.splits if_splits)
    then have "name = ''upscale_nearest_f32'' \<or> name = ''upscale_bilinear_f32''"
      unfolding upscale_kernel_for_def Let_def by (metis option.inject option.distinct(1))
    then show ?thesis using wide_kernel_simps name
      by (simp only: pack_upscale_f32_def pack_named_opt_def option.case) blast
  qed
qed (rule fits_dst)

interpretation get_rows: packer supports_get_rows pack_get_rows "\<lambda>E op. True"
proof (rule named_packer)
  show "\<exists>name. pack_get_rows E p = pack_named name E p \<and> wide_kernel name"
    if s: "supports_get_rows E (pk_node p)" for E and p :: pack
  proof -
    obtain a where "t_src (pk_node p) 0 = Some a" "\<not> null (get_rows_kernel_for (t_type a) (t_type (pk_node p)))"
      using s by (auto simp: supports_get_rows_def split: option.splits if_splits)
    then obtain a name where name: "t_src (pk_node p) 0 = Some a"
        "get_rows_kernel_for (t_type a) (t_type (pk_node p)) = Some name" by blast
    then have "name = ''get_rows_b32'' \<or> name = ''get_rows_f16'' \<or> name = ''get_rows_bf16''"
      unfolding get_rows_kernel_for_def by (metis option.inject option.distinct(1))
    then show ?thesis using wide_kernel_simps name
      by (simp only: pack_get_rows_def pack_named_opt_def option.case) blast
  qed
qed (rule fits_dst)

lemma by_kernel_packer:
  assumes "\<And>E op. supports E op \<Longrightarrow> tensor_fits (Some op)" "\<And>E op. supports E op \<Longrightarrow> \<not> null (t_src op 0)"
    and "wide_kernel f16" "wide_kernel f32"
  shows "packer supports (pack_by_kernel f16 f32) (\<lambda>E op. True)"
proof (rule named_packer)
  show "\<exists>name. pack_by_kernel f16 f32 E p = pack_named name E p \<and> wide_kernel name"
    if "supports E (pk_node p)" for E and p :: pack
    using assms(2) [OF that] assms(3,4) by (auto simp: pack_by_kernel_def)
qed (rule assms(1))

interpretation conv2d: packer supports_conv2d pack_conv2d "\<lambda>E op. True"
  unfolding pack_conv2d_def
proof (rule by_kernel_packer)
  show "\<not> null (t_src op 0)" if "supports_conv2d E op" for E op
    using that by (cases "t_src op 0") (simp_all add: supports_conv2d_def)
qed (rule fits_dst, assumption, simp_all only: wide_kernel_simps)

interpretation conv3d: packer supports_conv3d pack_conv3d "\<lambda>E op. True"
  unfolding pack_conv3d_def
proof (rule by_kernel_packer)
  show "\<not> null (t_src op 0)" if "supports_conv3d E op" for E op
    using that by (cases "t_src op 0") (simp_all add: supports_conv3d_def)
qed (rule fits_dst, assumption, simp_all only: wide_kernel_simps)

interpretation conv_transpose2d: packer supports_conv_transpose2d pack_conv_transpose2d "\<lambda>E op. True"
  unfolding pack_conv_transpose2d_def
proof (rule by_kernel_packer)
  show "\<not> null (t_src op 0)" if "supports_conv_transpose2d E op" for E op
    using that by (cases "t_src op 0") (simp_all add: supports_conv_transpose2d_def)
qed (rule fits_dst, assumption, simp_all only: wide_kernel_simps)

lemma sint_small:
  assumes "unat (w :: i64) < 2 ^ 63"
  shows "sint w = int (unat w)"
proof -
  have "int (unat w) < int (2 ^ 63)" using assms by (simp only: of_nat_less_iff)
  then have "uint w < 2 ^ 63" by simp
  moreover have "- (2 ^ 63) \<le> uint w" by (rule order_trans [OF _ uint_ge_0]) simp
  ultimately have "signed_take_bit 63 (uint w) = uint w" by (intro signed_take_bit_int_eq_self)
  then show ?thesis by (simp add: sint_uint)
qed

text \<open>The f16 IM2COL owns the 32-bit words from the one with the first half to the last.\<close>

lemma im2col_words:
  assumes "unat off < 2 ^ 32" "0 < unat n" "unat n < 2 ^ 31"
  shows "unat (drop_bit 1 (off + n - 1) - drop_bit 1 off + 1 :: u64) =
     (unat off + unat n - 1) div 2 - unat off div 2 + 1"
proof -
  have e: "unat (off + n - 1) = unat off + unat n - 1"
  proof -
    have s: "unat (off + n) = unat off + unat n" using assms by (intro unat_add_no_wrap) simp
    then have "1 \<le> off + n" using assms(2) by (simp add: word_le_nat_alt)
    then show ?thesis using s by (simp add: unat_sub_no_wrap)
  qed
  have d: "unat (drop_bit 1 (off + n - 1)) = (unat off + unat n - 1) div 2" "unat (drop_bit 1 off) = unat off div 2"
    using e by (simp_all add: drop_bit_eq_div unat_div)
  have le: "unat off div 2 \<le> (unat off + unat n - 1) div 2" using assms(2) by (intro div_le_mono) simp
  then have "unat (drop_bit 1 (off + n - 1) - drop_bit 1 off) = (unat off + unat n - 1) div 2 - unat off div 2"
    using d by (subst unat_sub_no_wrap) (simp_all add: word_le_nat_alt)
  then show ?thesis using assms by (subst unat_add_no_wrap) auto
qed

interpretation im2col: packer supports_im2col pack_im2col "\<lambda>E op. True"
proof
  fix E and p :: pack
  assume s: "supports_im2col E (pk_node p)" and ex: "exact_all (pk_node p)"
  note fits = fits_dst(16) [OF s]
  show "fst (pack_im2col E p) \<and> packed p (snd (pack_im2col E p))"
  proof (cases "t_type (pk_node p) = GGML_TYPE_F32")
    case True
    then show ?thesis using pack_named_packs [OF _ fits ex] wide_kernel_simps by (simp add: pack_im2col_def)
  next
    case False
    let ?off = "ucast (pk_w p (W_DST + T_OFF)) :: u64" and ?n = "ggml_nelements (pk_node p)"
    let ?words = "drop_bit 1 (?off + ?n - 1) - drop_bit 1 ?off + 1"
    let ?p1 = "p\<lparr>pk_kernel := kernel_index ''im2col_f16''\<rparr>"
    have n: "0 < unat ?n" using nelements_exact(2) ex by (simp add: exact_all_def)
    have le: "unat ?n \<le> 4294967295" using tensor_fits_dims(6) [OF fits, of 0] by (simp add: word_le_nat_alt)
    have "sint ?n < 2 ^ 31"
      using s by (auto simp: supports_im2col_def Let_def split: option.splits if_splits)
    moreover have "sint ?n = int (unat ?n)"
      using le by (intro sint_small) simp
    ultimately have "int (unat ?n) < int (2 ^ 31)" by simp
    then have n31: "unat ?n < 2 ^ 31" by (simp only: of_nat_less_iff)
    have off: "unat ?off < 2 ^ 32" using unat_lt32 [of "pk_w p (W_DST + T_OFF)"] by (simp add: unat_ucast32_64)
    have w: "unat ?words = (unat ?off + unat ?n - 1) div 2 - unat ?off div 2 + 1"
      using off n n31 by (rule im2col_words)
    have "(unat ?off + unat ?n - 1) div 2 \<le> 4294967294" using off n31 by simp
    then have small: "0 < unat ?words" "unat ?words \<le> 4294967295"
      unfolding w using off n n31 by linarith+
    have k: "wide_kernel ''im2col_f16''" using wide_kernel_simps by blast
    have "fst (grid_1d ?words ?p1) \<and> packed ?p1 (snd (grid_1d ?words ?p1))"
      by (rule grid_1d_packed) (use k small in \<open>simp_all add: wide_kernel_def\<close>)
    then show ?thesis using False k packed_from by (auto simp: pack_im2col_def wide_kernel_def Let_def)
  qed
qed

end
