(* ===== verification/RdOpsDerived.thy ===== *)
theory RdOpsDerived
  imports RdOpsSimple RdMove
begin

text \<open>
  The op families of \<open>guest/ggml-rd/ops\<close> that write derived words, permute blocks or lay out
  a grid of their own: \<open>cpy\<close>, \<open>concat\<close> and \<open>repeat\<close> (over \<open>move.h\<close>), \<open>norm\<close>,
  \<open>soft_max\<close> and \<open>sum\<close> (over \<open>rows.h\<close>), \<open>group_norm\<close>, \<open>glu\<close>, \<open>set\<close>, \<open>rope\<close>,
  \<open>mul_mat\<close> and \<open>flash_attn_ext\<close>.
\<close>

section \<open>Copies\<close>

definition cpy_kernel_for :: "ggml_type \<Rightarrow> ggml_type \<Rightarrow> string option" where
  "cpy_kernel_for s d =
     (if s = d then
        (case s of GGML_TYPE_F32 \<Rightarrow> Some ''cpy_b32'' | GGML_TYPE_I32 \<Rightarrow> Some ''cpy_b32''
         | GGML_TYPE_F16 \<Rightarrow> Some ''cpy_b16'' | GGML_TYPE_BF16 \<Rightarrow> Some ''cpy_b16'' | GGML_TYPE_I16 \<Rightarrow> Some ''cpy_b16''
         | _ \<Rightarrow> None)
      else if s = GGML_TYPE_F32 \<and> d = GGML_TYPE_F16 then Some ''cpy_f32_f16''
      else if s = GGML_TYPE_F32 \<and> d = GGML_TYPE_BF16 then Some ''cpy_f32_bf16''
      else if s = GGML_TYPE_F16 \<and> d = GGML_TYPE_F32 then Some ''cpy_f16_f32''
      else if s = GGML_TYPE_BF16 \<and> d = GGML_TYPE_F32 then Some ''cpy_bf16_f32''
      else if s = GGML_TYPE_F16 \<and> d = GGML_TYPE_BF16 then Some ''cpy_f16_bf16''
      else if s = GGML_TYPE_BF16 \<and> d = GGML_TYPE_F16 then Some ''cpy_bf16_f16'' else None)"

definition supports_cpy :: "penv \<Rightarrow> tensor \<Rightarrow> bool" where
  "supports_cpy E op =
     (case t_src op 0 of
        None \<Rightarrow> False
      | Some s \<Rightarrow>
          if \<not> null (t_src op 2) then False
          else if (if t_op op = GGML_OP_CPY then null (t_src op 1) else \<not> null (t_src op 1)) then False
          else if null (cpy_kernel_for (t_type s) (t_type op)) \<or> ggml_nelements s \<noteq> ggml_nelements op then False
          else tensor_fits (Some op) \<and> tensor_fits (Some s) \<and> dst_ok op)"

text \<open>\<open>lin\<close>: dst's ggml linear weight of each original dimension.\<close>

fun lin_weight :: "tensor \<Rightarrow> nat \<Rightarrow> u64" where
  "lin_weight t 0 = 1"
| "lin_weight t (Suc k) = lin_weight t k * t_ne t k"

definition with_kernel :: "string option \<Rightarrow> pack \<Rightarrow> (pack \<Rightarrow> bool \<times> pack) \<Rightarrow> bool \<times> pack" where
  "with_kernel name p f =
     (case name of
        None \<Rightarrow> (False, p)
      | Some n \<Rightarrow> let p1 = p\<lparr>pk_kernel := kernel_index n\<rparr> in if pk_kernel p1 < 0 then (False, p1) else f p1)"

definition src0_type :: "tensor \<Rightarrow> ggml_type option" where
  "src0_type t = map_option t_type (t_src t 0)"

definition pack_cpy :: "penv \<Rightarrow> pack \<Rightarrow> bool \<times> pack" where
  "pack_cpy E p =
     with_kernel (Option.bind (src0_type (pk_node p)) (\<lambda>s. cpy_kernel_for s (t_type (pk_node p)))) p (\<lambda>p1.
       case apply_order [] p1 of (ok, ord, p2) \<Rightarrow>
         if \<not> ok then (False, p2)
         else let lin = lin_weight (pk_node p);
                  p3 = fold (\<lambda>k q. set_w (W_LINW + k) (ucast (lin (or_perm ord k))) q) [0, 1, 2, 3] p2
              in grid_1d (ggml_nelements (pk_node p)) p3)"

section \<open>CONCAT and REPEAT\<close>

definition concat_kernel_for :: "ggml_type \<Rightarrow> string option" where
  "concat_kernel_for t =
     (case t of GGML_TYPE_F32 \<Rightarrow> Some ''concat_b32'' | GGML_TYPE_I32 \<Rightarrow> Some ''concat_b32''
      | GGML_TYPE_F16 \<Rightarrow> Some ''concat_b16'' | GGML_TYPE_BF16 \<Rightarrow> Some ''concat_b16''
      | GGML_TYPE_I16 \<Rightarrow> Some ''concat_b16'' | _ \<Rightarrow> None)"

definition supports_concat :: "penv \<Rightarrow> tensor \<Rightarrow> bool" where
  "supports_concat E op =
     (case (t_src op 0, t_src op 1) of
        (Some a, Some b) \<Rightarrow>
          if \<not> null (t_src op 2) then False
          else if null (concat_kernel_for (t_type op)) \<or> t_type a \<noteq> t_type op \<or> t_type b \<noteq> t_type op then False
          else let dim = sint (t_params op 0) in
            if dim < 0 \<or> dim > 3 then False
            else if \<not> all4 (\<lambda>k. let want = (if int k = dim then t_ne a k + t_ne b k else t_ne a k) in
                   \<not> (t_ne op k \<noteq> want \<or> (int k \<noteq> dim \<and> t_ne b k \<noteq> t_ne a k))) then False
            else tensor_fits (Some op) \<and> tensor_fits (Some a) \<and> tensor_fits (Some b) \<and> dst_ok op
      | _ \<Rightarrow> False)"

definition pack_concat :: "penv \<Rightarrow> pack \<Rightarrow> bool \<times> pack" where
  "pack_concat E p =
     with_kernel (concat_kernel_for (t_type (pk_node p))) p (\<lambda>p1.
       case apply_order [W_SRC0, W_SRC1] p1 of (ok, ord, p2) \<Rightarrow>
         if ok then grid_1d (ggml_nelements (pk_node p)) p2 else (False, p2))"

definition repeat_kernel_for :: "ggml_type \<Rightarrow> string option" where
  "repeat_kernel_for t =
     (case t of GGML_TYPE_F32 \<Rightarrow> Some ''repeat_b32'' | GGML_TYPE_I32 \<Rightarrow> Some ''repeat_b32''
      | GGML_TYPE_F16 \<Rightarrow> Some ''repeat_b16'' | GGML_TYPE_BF16 \<Rightarrow> Some ''repeat_b16''
      | GGML_TYPE_I16 \<Rightarrow> Some ''repeat_b16'' | _ \<Rightarrow> None)"

definition supports_repeat :: "penv \<Rightarrow> tensor \<Rightarrow> bool" where
  "supports_repeat E op =
     (case t_src op 0 of
        None \<Rightarrow> False
      | Some a \<Rightarrow>
          if \<not> null (t_src op 1) \<or> \<not> null (t_src op 2) then False
          else if null (repeat_kernel_for (t_type op)) \<or> t_type a \<noteq> t_type op \<or> \<not> ggml_can_repeat a op then False
          else tensor_fits (Some op) \<and> tensor_fits (Some a) \<and> dst_ok op)"

definition pack_repeat :: "penv \<Rightarrow> pack \<Rightarrow> bool \<times> pack" where
  "pack_repeat E p =
     with_kernel (repeat_kernel_for (t_type (pk_node p))) p (\<lambda>p1.
       case apply_order [W_SRC0] p1 of (ok, ord, p2) \<Rightarrow>
         if ok then grid_1d (ggml_nelements (pk_node p)) p2 else (False, p2))"

section \<open>Row kernels\<close>

abbreviation (input) W_ROWS :: nat where "W_ROWS \<equiv> 55"

definition rows_f32_unary :: "tensor \<Rightarrow> bool" where
  "rows_f32_unary op =
     (case t_src op 0 of
        None \<Rightarrow> False
      | Some a \<Rightarrow>
          if \<not> null (t_src op 1) \<or> \<not> null (t_src op 2) then False
          else if t_type op \<noteq> GGML_TYPE_F32 \<or> t_type a \<noteq> GGML_TYPE_F32 then False
          else tensor_fits (Some op) \<and> tensor_fits (Some a))"

definition pick_threads :: "penv \<Rightarrow> tensor \<Rightarrow> string \<Rightarrow> string \<Rightarrow> string" where
  "pick_threads E op k256 k64 =
     (let short = (case t_src op 0 of None \<Rightarrow> False | Some a \<Rightarrow> sint (t_ne a 0) \<le> 1024);
          default = (if short then k64 else k256)
      in case pe_getenv E ''GGML_RD_ROW_THREADS'' of
           None \<Rightarrow> default
         | Some e \<Rightarrow> if atoi e = 64 then k64 else if atoi e = 256 then k256 else default)"

definition pack_rows :: "string \<Rightarrow> pack \<Rightarrow> bool \<times> pack" where
  "pack_rows name p =
     with_kernel (Some name) p (\<lambda>p1.
       case t_src (pk_node p) 0 of
         None \<Rightarrow> (False, p1)
       | Some a \<Rightarrow>
           let rows = t_ne a 1 * t_ne a 2 * t_ne a 3; tg = threadgroup0 (pk_kernel p1)
           in if rows = 0 \<or> rows > UINT32_MAX div tg then (False, p1)
              else grid_1d (rows * tg) (set_w W_ROWS (ucast rows) p1))"

definition supports_norm :: "penv \<Rightarrow> tensor \<Rightarrow> bool" where
  "supports_norm E op \<longleftrightarrow> rows_f32_unary op \<and> (case t_src op 0 of None \<Rightarrow> False | Some a \<Rightarrow> ggml_are_same_shape a op)"

definition reduces_rows :: "tensor \<Rightarrow> bool" where
  "reduces_rows op \<longleftrightarrow> rows_f32_unary op \<and>
     (case t_src op 0 of
        None \<Rightarrow> False
      | Some a \<Rightarrow> t_ne op 0 = 1 \<and> t_ne op 1 = t_ne a 1 \<and> t_ne op 2 = t_ne a 2 \<and> t_ne op 3 = t_ne a 3)"

definition supports_mean :: "penv \<Rightarrow> tensor \<Rightarrow> bool" where "supports_mean E op = reduces_rows op"
definition supports_sum_rows :: "penv \<Rightarrow> tensor \<Rightarrow> bool" where "supports_sum_rows E op = reduces_rows op"

definition pack_norm :: "penv \<Rightarrow> pack \<Rightarrow> bool \<times> pack" where
  "pack_norm E p = pack_rows (pick_threads E (pk_node p) ''norm_f32'' ''norm_f32_t64'') p"
definition pack_rms_norm :: "penv \<Rightarrow> pack \<Rightarrow> bool \<times> pack" where
  "pack_rms_norm E p = pack_rows (pick_threads E (pk_node p) ''rms_norm_f32'' ''rms_norm_f32_t64'') p"
definition pack_mean :: "penv \<Rightarrow> pack \<Rightarrow> bool \<times> pack" where "pack_mean E p = pack_rows ''mean_f32'' p"
definition pack_sum_rows :: "penv \<Rightarrow> pack \<Rightarrow> bool \<times> pack" where "pack_sum_rows E p = pack_rows ''sum_rows_f32'' p"

definition supports_sum :: "penv \<Rightarrow> tensor \<Rightarrow> bool" where
  "supports_sum E op \<longleftrightarrow> rows_f32_unary op \<and> ggml_nelements op = 1 \<and>
     (case t_src op 0 of None \<Rightarrow> False | Some a \<Rightarrow> sint (ggml_nelements a) \<le> 4294967295)"

definition pack_sum :: "penv \<Rightarrow> pack \<Rightarrow> bool \<times> pack" where
  "pack_sum E p = with_kernel (Some ''sum_f32'') p (\<lambda>p1. grid_1d (threadgroup0 (pk_kernel p1)) p1)"

definition supports_soft_max :: "penv \<Rightarrow> tensor \<Rightarrow> bool" where
  "supports_soft_max E op =
     (if \<not> rows_f32_unary op \<or> \<not> (case t_src op 0 of None \<Rightarrow> False | Some a \<Rightarrow> ggml_are_same_shape a op) then False
      else f32_is_zero (t_params op 1))"

definition pack_soft_max :: "penv \<Rightarrow> pack \<Rightarrow> bool \<times> pack" where
  "pack_soft_max E p = pack_rows (pick_threads E (pk_node p) ''soft_max_f32'' ''soft_max_f32_t64'') p"

definition supports_group_norm_f32 :: "penv \<Rightarrow> tensor \<Rightarrow> bool" where
  "supports_group_norm_f32 E op =
     (case t_src op 0 of
        None \<Rightarrow> False
      | Some a \<Rightarrow>
          if \<not> null (t_src op 1) \<or> \<not> null (t_src op 2) then False
          else if t_type op \<noteq> GGML_TYPE_F32 \<or> t_type a \<noteq> GGML_TYPE_F32 \<or> \<not> ggml_are_same_shape a op then False
          else let ng = scast (t_params op 0) :: i64 in
            if sint ng < 1 then False
            else let cpg = (t_ne a 2 + ng - 1) div ng in
              if t_ne a 0 * t_ne a 1 * cpg > UINT32_MAX then False
              else if ng * t_ne a 3 > UINT32_MAX div 256 then False
              else tensor_fits (Some op) \<and> tensor_fits (Some a))"

definition pack_group_norm_f32 :: "penv \<Rightarrow> pack \<Rightarrow> bool \<times> pack" where
  "pack_group_norm_f32 E p =
     with_kernel (Some ''group_norm_f32'') p (\<lambda>p1.
       case t_src (pk_node p) 0 of
         None \<Rightarrow> (False, p1)
       | Some a \<Rightarrow>
           let rows = scast (t_params (pk_node p) 0) * t_ne a 3; tg = threadgroup0 (pk_kernel p1)
           in grid_1d (rows * tg) (set_w W_ROWS (ucast rows) p1))"

section \<open>GLU and SET\<close>

abbreviation (input) W_XOFF :: nat where "W_XOFF \<equiv> 55"
abbreviation (input) W_GOFF :: nat where "W_GOFF \<equiv> 56"
abbreviation (input) W_SPLIT :: nat where "W_SPLIT \<equiv> 57"

definition supports_geglu_erf_f32 :: "penv \<Rightarrow> tensor \<Rightarrow> bool" where
  "supports_geglu_erf_f32 E op =
     (case t_src op 0 of
        None \<Rightarrow> False
      | Some a \<Rightarrow>
          if \<not> null (t_src op 2) then False
          else if t_type op \<noteq> GGML_TYPE_F32 \<or> t_type a \<noteq> GGML_TYPE_F32 \<or>
                  (case t_src op 1 of None \<Rightarrow> False | Some b \<Rightarrow> t_type b \<noteq> GGML_TYPE_F32) then False
          else if t_params op 1 \<noteq> 0 \<and> t_params op 1 \<noteq> 1 then False
          else (case t_src op 1 of
                  Some b \<Rightarrow> ggml_are_same_shape a b \<and> ggml_are_same_shape a op
                | None \<Rightarrow> t_ne a 0 = 2 * t_ne op 0 \<and> t_ne a 1 = t_ne op 1 \<and> t_ne a 2 = t_ne op 2 \<and> t_ne a 3 = t_ne op 3) \<and>
               tensor_fits (Some op) \<and> tensor_fits (Some a) \<and> tensor_fits (t_src op 1))"

definition pack_geglu_erf_f32 :: "penv \<Rightarrow> pack \<Rightarrow> bool \<times> pack" where
  "pack_geglu_erf_f32 E p =
     with_kernel (Some ''geglu_erf_f32'') p (\<lambda>p1.
       let split = \<not> null (t_src (pk_node p) 1);
           swapped = t_params (pk_node p) 1 \<noteq> 0;
           nc = ucast (t_ne (pk_node p) 0) :: u32
       in grid_1d (ggml_nelements (pk_node p))
            (set_w W_SPLIT (if split then 1 else 0)
              (set_w W_GOFF (if split then 0 else if swapped then 0 else nc)
                (set_w W_XOFF (if split then 0 else if swapped then nc else 0) p1))))"

text \<open>\<open>window_of\<close>: the strides and offset of the window in elements, when they are legal.\<close>

definition window_of :: "tensor \<Rightarrow> ((nat \<Rightarrow> u64) \<times> u64) option" where
  "window_of op =
     (case t_src op 1 of
        None \<Rightarrow> None
      | Some b \<Rightarrow>
          let pp = (\<lambda>k. t_params op k) in
          if \<not> all4 (\<lambda>k. \<not> (sint (pp k) < 0 \<or> smod_w (pp k) 4 \<noteq> 0)) then None
          else let nb = (\<lambda>k. (scast (pp k) :: u64) div 4); off = (scast (pp 3) :: u64) div 4 in
            if nb 0 < t_ne b 0 \<or> nb 1 < t_ne b 1 * nb 0 \<or> nb 2 < t_ne b 2 * nb 1 then None
            else let last = off + (t_ne b 0 - 1) + (t_ne b 1 - 1) * nb 0 + (t_ne b 2 - 1) * nb 1
                           + (t_ne b 3 - 1) * nb 2
                 in if last < ggml_nelements op \<and> nb 2 \<le> UINT32_MAX \<and> off \<le> UINT32_MAX then Some (nb, off)
                    else None)"

definition supports_set_f32 :: "penv \<Rightarrow> tensor \<Rightarrow> bool" where
  "supports_set_f32 E op =
     (case (t_src op 0, t_src op 1) of
        (Some a, Some b) \<Rightarrow>
          if \<not> null (t_src op 2) then False
          else if t_type op \<noteq> GGML_TYPE_F32 \<or> t_type a \<noteq> GGML_TYPE_F32 \<or> t_type b \<noteq> GGML_TYPE_F32 then False
          else if \<not> ggml_are_same_shape a op \<or> \<not> ggml_is_contiguous op \<or> \<not> ggml_is_contiguous a then False
          else \<not> null (window_of op) \<and> tensor_fits (Some op) \<and> tensor_fits (Some a) \<and> tensor_fits (Some b)
      | _ \<Rightarrow> False)"

definition pack_set_f32 :: "penv \<Rightarrow> pack \<Rightarrow> bool \<times> pack" where
  "pack_set_f32 E p =
     with_kernel (Some ''set_f32'') p (\<lambda>p1.
       case window_of (pk_node p) of
         None \<Rightarrow> (False, p1)
       | Some (nb, off) \<Rightarrow>
           grid_1d (ggml_nelements (pk_node p))
             (set_w 58 (ucast off) (set_w 57 (ucast (nb 2)) (set_w 56 (ucast (nb 1)) (set_w 55 (ucast (nb 0)) p1)))))"

section \<open>ROPE\<close>

definition supports_rope_neox_f32 :: "penv \<Rightarrow> tensor \<Rightarrow> bool" where
  "supports_rope_neox_f32 E op =
     (case (t_src op 0, t_src op 1) of
        (Some a, Some pos) \<Rightarrow>
          if \<not> null (t_src op 2) then False
          else if t_type op \<noteq> GGML_TYPE_F32 \<or> t_type a \<noteq> GGML_TYPE_F32 \<or> t_type pos \<noteq> GGML_TYPE_I32 then False
          else let n_dims = t_params op 1; mode = t_params op 2 in
            if mode \<noteq> 2 then False
            else if \<not> ggml_are_same_shape a op \<or> smod_w (t_ne a 0) 2 \<noteq> 0 \<or> sint n_dims \<le> 0 \<or> smod_w n_dims 2 \<noteq> 0 \<or>
                    sint n_dims > sint (t_ne a 0) then False
            else if sint (t_ne pos 0) < sint (t_ne a 2) then False
            else tensor_fits (Some op) \<and> tensor_fits (Some a) \<and> tensor_fits (Some pos)
      | _ \<Rightarrow> False)"

text \<open>\<open>ggml_rope_yarn_corr_dim\<close> and \<open>ggml_rope_yarn_corr_dims\<close>; the constants are 2 and pi.\<close>

definition rope_yarn_corr_dim :: "penv \<Rightarrow> int \<Rightarrow> int \<Rightarrow> f32 \<Rightarrow> f32 \<Rightarrow> f32" where
  "rope_yarn_corr_dim E n_dims n_ctx_orig n_rot base =
     pe_div E (pe_mul E (pe_of_int E n_dims)
                 (pe_log E (pe_div E (pe_of_int E n_ctx_orig) (pe_mul E (pe_mul E n_rot 0x40000000) 0x40490FDB))))
              (pe_mul E 0x40000000 (pe_log E base))"

definition rope_yarn_corr_dims :: "penv \<Rightarrow> int \<Rightarrow> int \<Rightarrow> f32 \<Rightarrow> f32 \<Rightarrow> f32 \<Rightarrow> f32 \<times> f32" where
  "rope_yarn_corr_dims E n_dims n_ctx_orig freq_base beta_fast beta_slow =
     (let start = pe_floor E (rope_yarn_corr_dim E n_dims n_ctx_orig beta_fast freq_base);
          end_dim = pe_ceil E (rope_yarn_corr_dim E n_dims n_ctx_orig beta_slow freq_base)
      in (if pe_less E start (pe_of_int E 0) then pe_of_int E 0 else start,
          if pe_less E (pe_of_int E (n_dims - 1)) end_dim then pe_of_int E (n_dims - 1) else end_dim))"

definition pack_rope_neox_f32 :: "penv \<Rightarrow> pack \<Rightarrow> bool \<times> pack" where
  "pack_rope_neox_f32 E p =
     with_kernel (Some ''rope_neox_f32'') p (\<lambda>p1.
       let op = pk_node p;
           n_dims = t_params op 1; n_ctx_orig = t_params op 4; freq_base = t_params op 5; freq_scale = t_params op 6;
           ext_factor = t_params op 7; attn_factor = t_params op 8; beta_fast = t_params op 9; beta_slow = t_params op 10;
           theta_scale = pe_pow E freq_base (pe_div E 0xC0000000 (pe_of_int E (sint n_dims)));
           corr = rope_yarn_corr_dims E (sint n_dims) (sint n_ctx_orig) freq_base beta_fast beta_slow;
           mscale = (if \<not> f32_is_zero ext_factor
                     then pe_mul E attn_factor (pe_add E 0x3F800000
                            (pe_mul E 0x3DCCCCCD (pe_log E (pe_div E 0x3F800000 freq_scale))))
                     else attn_factor);
           pairs = t_ne op 0 div 2
       in grid_1d (pairs * ggml_nrows op)
            (set_w 60 mscale (set_w 59 (snd corr) (set_w 58 (fst corr) (set_w 57 theta_scale
              (set_w 56 (sdiv_w n_dims 2) (set_w 55 (ucast pairs) p1)))))))"

section \<open>MUL_MAT\<close>

definition type_tag :: "ggml_type \<Rightarrow> string" where
  "type_tag t = (case t of GGML_TYPE_F32 \<Rightarrow> ''f32'' | GGML_TYPE_F16 \<Rightarrow> ''f16'' | GGML_TYPE_BF16 \<Rightarrow> ''bf16'' | _ \<Rightarrow> [])"

definition has_kernel :: "ggml_type \<Rightarrow> ggml_type \<Rightarrow> bool" where
  "has_kernel a b =
     (if b = GGML_TYPE_F32 then a = GGML_TYPE_F32 \<or> a = GGML_TYPE_F16 \<or> a = GGML_TYPE_BF16
      else b = GGML_TYPE_F16 \<and> a = GGML_TYPE_F16)"

definition cdiv :: "u64 \<Rightarrow> u64 \<Rightarrow> u64" where
  "cdiv a b = (a + b - 1) div b"

definition mm_grid :: "tensor \<Rightarrow> ((u32 \<times> u32 \<times> u32) \<times> u32) option" where
  "mm_grid op =
     (let m = t_ne op 0; n = t_ne op 1; batches = t_ne op 2 * t_ne op 3 in
      if batches > kMaxGroupsPerDim then None
      else if n \<le> 4
      then let blocks = cdiv m 8; gx = (if blocks < kMaxGroupsPerDim then blocks else kMaxGroupsPerDim);
               gy = cdiv blocks gx
           in if gy > kMaxGroupsPerDim then None
              else Some ((ucast gx, ucast gy, ucast batches), ucast gx)
      else let gx = cdiv m 64; gy = cdiv n 64
           in if gx > kMaxGroupsPerDim \<or> gy > kMaxGroupsPerDim then None
              else Some ((ucast gx, ucast gy, ucast batches), 0))"

definition supports_mul_mat :: "penv \<Rightarrow> tensor \<Rightarrow> bool" where
  "supports_mul_mat E op =
     (case (t_src op 0, t_src op 1) of
        (Some a, Some b) \<Rightarrow>
          if \<not> null (t_src op 2) then False
          else if t_type op \<noteq> GGML_TYPE_F32 \<or> \<not> has_kernel (t_type a) (t_type b) then False
          else if t_ne a 0 \<noteq> t_ne b 0 \<or> t_ne op 0 \<noteq> t_ne a 1 \<or> t_ne op 1 \<noteq> t_ne b 1 \<or> t_ne op 2 \<noteq> t_ne b 2 \<or>
                  t_ne op 3 \<noteq> t_ne b 3 then False
          else if \<not> tensor_fits (Some op) \<or> \<not> tensor_fits (Some a) \<or> \<not> tensor_fits (Some b) then False
          else if smod_w (t_ne b 2) (t_ne a 2) \<noteq> 0 \<or> smod_w (t_ne b 3) (t_ne a 3) \<noteq> 0 then False
          else \<not> null (mm_grid op)
      | _ \<Rightarrow> False)"

definition grid3 :: "u32 \<times> u32 \<times> u32 \<Rightarrow> nat \<Rightarrow> u32" where
  "grid3 g = (\<lambda>i. if i = 0 then fst g else if i = 1 then fst (snd g) else snd (snd g))"

definition pack_mul_mat :: "penv \<Rightarrow> pack \<Rightarrow> bool \<times> pack" where
  "pack_mul_mat E p =
     (case (t_src (pk_node p) 0, t_src (pk_node p) 1) of
        (Some a, Some b) \<Rightarrow>
          let vec = t_ne (pk_node p) 1 \<le> 4;
              name = (if vec then ''mul_mat_vec_'' else ''mul_mat_tiled_'') @ type_tag (t_type a) @ ''_'' @ type_tag (t_type b)
          in with_kernel (Some name) p (\<lambda>p1.
               case mm_grid (pk_node p) of
                 None \<Rightarrow> (False, p1)
               | Some (g, gx) \<Rightarrow>
                   (True, (set_w 57 gx (set_w 56 (ucast (sdiv_w (t_ne b 3) (t_ne a 3)))
                            (set_w 55 (ucast (sdiv_w (t_ne b 2) (t_ne a 2))) p1)))\<lparr>pk_groups := grid3 g\<rparr>))
      | _ \<Rightarrow> (False, p))"

section \<open>FLASH_ATTN_EXT\<close>

definition rows_contiguous :: "tensor \<Rightarrow> bool" where
  "rows_contiguous t \<longleftrightarrow> t_nb t 0 = ggml_type_size (t_type t)"

definition fa_qblocks :: "tensor \<Rightarrow> i64" where
  "fa_qblocks q = sdiv_w (t_ne q 1 + 16 - 1) 16"

definition supports_fa :: "penv \<Rightarrow> tensor \<Rightarrow> bool" where
  "supports_fa E op =
     (case (t_src op 0, t_src op 1, t_src op 2) of
        (Some q, Some k, Some v) \<Rightarrow>
          if \<not> null (t_src op 3) \<or> \<not> null (t_src op 4) then False
          else if t_type q \<noteq> GGML_TYPE_F32 \<or> t_type op \<noteq> GGML_TYPE_F32 then False
          else if t_type k \<noteq> t_type v \<or> \<not> kernel_f32_or_f16 k then False
          else let d = t_ne q 0 in
            if (d \<noteq> 64 \<and> d \<noteq> 128) \<or> t_ne k 0 \<noteq> d \<or> t_ne v 0 \<noteq> d then False
            else if t_params op 3 \<noteq> 0 \<and> t_params op 3 \<noteq> 10 then False
            else if t_ne k 1 \<noteq> t_ne v 1 \<or> sint (t_ne k 1) < 1 then False
            else if smod_w (t_ne q 2) (t_ne k 2) \<noteq> 0 \<or> smod_w (t_ne q 2) (t_ne v 2) \<noteq> 0 \<or>
                    smod_w (t_ne q 3) (t_ne k 3) \<noteq> 0 \<or> smod_w (t_ne q 3) (t_ne v 3) \<noteq> 0 then False
            else if t_ne op 0 \<noteq> d \<or> t_ne op 1 \<noteq> t_ne q 2 \<or> t_ne op 2 \<noteq> t_ne q 1 \<or> t_ne op 3 \<noteq> t_ne q 3 then False
            else if \<not> rows_contiguous q \<or> \<not> rows_contiguous k \<or> \<not> rows_contiguous v \<or> \<not> rows_contiguous op then False
            else if sint (fa_qblocks q) > 65535 \<or> sint (t_ne q 2) > 65535 \<or> sint (t_ne q 3) > 65535 then False
            else tensor_fits (Some op) \<and> tensor_fits (Some q) \<and> tensor_fits (Some k) \<and> tensor_fits (Some v)
      | _ \<Rightarrow> False)"

definition pack_fa :: "penv \<Rightarrow> pack \<Rightarrow> bool \<times> pack" where
  "pack_fa E p =
     (case (t_src (pk_node p) 0, t_src (pk_node p) 1, t_src (pk_node p) 2) of
        (Some q, Some k, Some v) \<Rightarrow>
          let op = pk_node p; serial = serial_kernels E;
              name = ''flash_attn_ext_'' @ (if t_type k = GGML_TYPE_F16 then ''f16'' else ''f32'') @ ''_d'' @
                     to_string (sint (t_ne q 0)) @ (if serial then ''_serial'' else [])
          in with_kernel (Some name) p (\<lambda>p1.
               let softcap = t_params op 2;
                   scale = (if \<not> f32_is_zero softcap then pe_div E (t_params op 0) softcap else t_params op 0);
                   p2 = set_w 60 softcap (set_w 59 scale
                          (set_w 58 (ucast (sdiv_w (t_ne q 3) (t_ne v 3))) (set_w 57 (ucast (sdiv_w (t_ne q 2) (t_ne v 2)))
                            (set_w 56 (ucast (sdiv_w (t_ne q 3) (t_ne k 3))) (set_w 55 (ucast (sdiv_w (t_ne q 2) (t_ne k 2))) p1)))))
               in if serial then grid_1d (t_ne q 1 * t_ne q 2 * t_ne q 3) p2
                  else (True, p2\<lparr>pk_groups := grid3 (ucast (fa_qblocks q), ucast (t_ne q 2), ucast (t_ne q 3))\<rparr>))
      | _ \<Rightarrow> (False, p))"

section \<open>What the derived words leave alone\<close>

text \<open>A change of the slot outside the kernel's word and the raw parameters, before the grid.\<close>

definition prepared :: "pack \<Rightarrow> pack \<Rightarrow> bool" where
  "prepared p p' \<longleftrightarrow> pk_node p' = pk_node p \<and> pk_w p' W_KERNEL = pk_w p W_KERNEL \<and>
     (\<forall>i<16. pk_w p' (W_OP_PARAMS + i) = pk_w p (W_OP_PARAMS + i))"

lemma prepared_packed: "prepared p p1 \<Longrightarrow> packed p1 p' \<Longrightarrow> packed p p'"
  by (simp add: prepared_def packed_def)

lemma prepared_set_w [simp]: "53 \<le> i \<Longrightarrow> prepared p (set_w i x q) \<longleftrightarrow> prepared p q"
  by (auto simp: prepared_def set_w_def)

lemma set_w_simps [simp]: "pk_kernel (set_w i x p) = pk_kernel p" "pk_node (set_w i x p) = pk_node p"
  by (simp_all add: set_w_def)

lemma prepared_kernel [simp]: "prepared p (p\<lparr>pk_kernel := k\<rparr>)"
  by (simp add: prepared_def)

lemma wide_kernelD:
  "wide_kernel n \<Longrightarrow> 0 \<le> kernel_index n" "wide_kernel n \<Longrightarrow> kernel_index n < int kKernelCount"
  "wide_kernel n \<Longrightarrow> 2 \<le> unat (threadgroup0 (kernel_index n))"
  unfolding wide_kernel_def by blast+

lemma grid_prepared:
  assumes "wide_kernel name" "prepared p p1" "pk_kernel p1 = kernel_index name"
    and "0 < unat threads" "unat threads \<le> 4294967295"
  shows "fst (grid_1d threads p1) \<and> packed p (snd (grid_1d threads p1))"
  using grid_1d_packed [of p1 threads] prepared_packed [OF assms(2)] wide_kernelD [OF assms(1)] assms by simp

lemma nelements_range:
  assumes "tensor_fits (Some t)" "exact_all t"
  shows "0 < unat (ggml_nelements t)" "unat (ggml_nelements t) \<le> 4294967295"
  using nelements_exact(2) [of t] tensor_fits_dims(6) [OF assms(1), of 0] assms(2)
  by (simp_all add: exact_all_def word_le_nat_alt)

text \<open>One kernel, some derived words, a one-dimensional grid.\<close>

lemma with_kernel_grid:
  assumes "wide_kernel name" "0 < unat threads" "unat threads \<le> 4294967295"
    and "\<And>p1. f p1 = grid_1d threads (g p1)"
    and "\<And>p1. pk_kernel (g p1) = pk_kernel p1" "\<And>p1. prepared p p1 \<Longrightarrow> prepared p (g p1)"
  shows "fst (with_kernel (Some name) p f) \<and> packed p (snd (with_kernel (Some name) p f))"
proof -
  let ?p1 = "p\<lparr>pk_kernel := kernel_index name\<rparr>"
  have "with_kernel (Some name) p f = grid_1d threads (g ?p1)"
    using wide_kernelD(1) [OF assms(1)] by (simp add: with_kernel_def assms(4))
  then show ?thesis
    using grid_prepared [OF assms(1) assms(6) [of ?p1] _ assms(2,3)] assms(5) by simp
qed

lemma with_kernel_packs:
  assumes "wide_kernel name" "tensor_fits (Some (pk_node p))" "exact_all (pk_node p)"
    and "\<And>p1. f p1 = grid_1d (ggml_nelements (pk_node p)) (g p1)"
    and "\<And>p1. pk_kernel (g p1) = pk_kernel p1" "\<And>p1. prepared p p1 \<Longrightarrow> prepared p (g p1)"
  shows "fst (with_kernel (Some name) p f) \<and> packed p (snd (with_kernel (Some name) p f))"
  using with_kernel_grid [OF assms(1) nelements_range [OF assms(2,3)]] assms(4-6) by blast

interpretation geglu_erf: packer supports_geglu_erf_f32 pack_geglu_erf_f32 "\<lambda>E op. True"
proof
  fix E and p :: pack
  assume s: "supports_geglu_erf_f32 E (pk_node p)" and ex: "exact_all (pk_node p)"
  have fits: "tensor_fits (Some (pk_node p))"
    using s by (cases "t_src (pk_node p) 0") (simp_all add: supports_geglu_erf_f32_def split: if_splits)
  show "fst (pack_geglu_erf_f32 E p) \<and> packed p (snd (pack_geglu_erf_f32 E p))"
    unfolding pack_geglu_erf_f32_def Let_def
    by (rule with_kernel_packs [OF _ fits ex refl]) (simp_all add: wide_kernel_simps)
qed

interpretation set_f32: packer supports_set_f32 pack_set_f32 "\<lambda>E op. True"
proof
  fix E and p :: pack
  assume s: "supports_set_f32 E (pk_node p)" and ex: "exact_all (pk_node p)"
  have "tensor_fits (Some (pk_node p)) \<and> \<not> null (window_of (pk_node p))"
    using s by (cases "t_src (pk_node p) 0"; cases "t_src (pk_node p) 1")
      (simp_all add: supports_set_f32_def split: if_splits)
  then obtain nb off where fits: "tensor_fits (Some (pk_node p))" and w: "window_of (pk_node p) = Some (nb, off)" by auto
  show "fst (pack_set_f32 E p) \<and> packed p (snd (pack_set_f32 E p))"
    unfolding pack_set_f32_def w option.case prod.case
    by (rule with_kernel_packs [OF _ fits ex refl]) (simp_all add: wide_kernel_simps)
qed

section \<open>Permuted blocks\<close>

lemma filled_words:
  assumes "block_holds w W_DST t off" "tensor_fits (Some t)" "k < 4"
  shows "ucast (w (W_DST + T_NE + k)) = t_ne t k"
    and "ucast (w (W_DST + T_NB + k)) = t_nb t k div ggml_type_size (t_type t)"
proof -
  note d = tensor_fits_dims [OF assms(2,3)]
  have ne: "unat (w (W_DST + T_NE + k)) = unat (t_ne t k)"
    and nb: "unat (w (W_DST + T_NB + k)) * unat (ggml_type_size (t_type t)) = unat (t_nb t k)"
    using assms(1,3) d(5) by (simp_all add: block_holds_def unit_of_def)
  show "ucast (w (W_DST + T_NE + k)) = t_ne t k"
    using ne by (simp only: word_unat_eq_iff unat_ucast32_64)
  have ts: "0 < unat (ggml_type_size (t_type t))"
    by (cases "t_type t") (simp_all add: ggml_type_size_def)
  have "unat (t_nb t k div ggml_type_size (t_type t)) = unat (w (W_DST + T_NB + k))"
    unfolding unat_div nb [symmetric] using ts by simp
  then show "ucast (w (W_DST + T_NB + k)) = t_nb t k div ggml_type_size (t_type t)"
    by (simp only: word_unat_eq_iff unat_ucast32_64)
qed

lemma dim_order_cong:
  assumes "\<forall>k<4. ne k = ne' k \<and> nb k = nb' k"
  shows "dim_order ne nb = dim_order ne' nb'"
proof -
  have "key_less ne nb a b = key_less ne' nb' a b" if "a < 4" "b < 4" for a b
    using assms that by (simp add: key_less_def)
  then show ?thesis by (simp add: dim_order_def insertion_sort_def)
qed

lemma order_of_dims_cong:
  assumes "\<forall>k<4. ne k = ne' k \<and> nb k = nb' k"
  shows "\<And>k. k < 4 \<Longrightarrow> or_perm (order_of_dims ne nb) k = or_perm (order_of_dims ne' nb') k"
    and "\<And>k. k < 4 \<Longrightarrow> or_ne (order_of_dims ne nb) k = or_ne (order_of_dims ne' nb') k"
    and "\<And>k. k < 4 \<Longrightarrow> or_nb (order_of_dims ne nb) k = or_nb (order_of_dims ne' nb') k"
    and "or_nontrivial (order_of_dims ne nb) = or_nontrivial (order_of_dims ne' nb')"
    and "nested (order_of_dims ne nb) = nested (order_of_dims ne' nb')"
proof -
  note eq = dim_order_cong [OF assms]
  have at: "ne (dim_order ne' nb' ! k) = ne' (dim_order ne' nb' ! k)"
    "nb (dim_order ne' nb' ! k) = nb' (dim_order ne' nb' ! k)" if "k < 4" for k
    using assms dim_order_lt [OF that] by auto
  show 1: "or_perm (order_of_dims ne nb) k = or_perm (order_of_dims ne' nb') k"
    "or_ne (order_of_dims ne nb) k = or_ne (order_of_dims ne' nb') k"
    "or_nb (order_of_dims ne nb) k = or_nb (order_of_dims ne' nb') k" if "k < 4" for k
    using that at by (simp_all add: order_of_dims_simps eq)
  have n4: "or_nontrivial (order_of_dims ne nb) \<le> 4" by (simp add: order_of_dims_def Let_def)
  have count: "or_nontrivial (order_of_dims ne nb) = length (filter (\<lambda>k. 1 < sint (ne (dim_order ne nb ! k))) [0, 1, 2, 3])"
    for ne nb by (simp add: order_of_dims_def dim_order_def Let_def)
  show nt: "or_nontrivial (order_of_dims ne nb) = or_nontrivial (order_of_dims ne' nb')"
    unfolding count eq using at by (intro arg_cong [of _ _ length] filter_cong) auto
  show "nested (order_of_dims ne nb) = nested (order_of_dims ne' nb')"
    unfolding nested_def nt [symmetric] using n4 1(2,3)
    by (auto simp: list_all_iff)
qed

text \<open>The order read from the slot is the tensor's own.\<close>

lemma slot_order:
  assumes "block_holds w W_DST t off" "tensor_fits (Some t)"
  shows "\<forall>k<4. ucast (w (W_DST + T_NE + k)) = t_ne t k \<and>
     ucast (w (W_DST + T_NB + k)) = t_nb t k div ggml_type_size (t_type t)"
  using filled_words [OF assms] by simp

definition movable :: "pack \<Rightarrow> bool" where
  "movable p \<longleftrightarrow> tensor_fits (Some (pk_node p)) \<and> dst_ok (pk_node p) \<and> filled p"

lemma apply_order_ok:
  assumes "movable p" and "set bs \<subseteq> {W_SRC0, W_SRC1}"
  shows "fst (apply_order bs p)" and "prepared p (snd (snd (apply_order bs p)))"
    and "pk_kernel (snd (snd (apply_order bs p))) = pk_kernel p"
proof -
  obtain off where b: "block_holds (pk_w p) W_DST (pk_node p) off" "tensor_fits (Some (pk_node p))"
    using assms(1) by (auto simp: filled_def movable_def)
  have "nested (order_of_dims (\<lambda>k. ucast (pk_w p (W_DST + T_NE + k))) (\<lambda>k. ucast (pk_w p (W_DST + T_NB + k)))) =
      nested (order_of (pk_node p))"
    unfolding order_of_def using slot_order [OF b] by (rule order_of_dims_cong(5))
  then have ok: "\<not> (is16 (t_type (pk_node p)) \<and>
      \<not> nested (order_of_dims (\<lambda>k. ucast (pk_w p (W_DST + T_NE + k))) (\<lambda>k. ucast (pk_w p (W_DST + T_NB + k)))))"
    using assms(1) by (auto simp: movable_def dst_ok_def)
  have keep: "fold (\<lambda>b. permute_block b ord) bs w i = w i" if "i = W_KERNEL \<or> 37 \<le> i" for ord w i
    using assms(2)
  proof (induction bs arbitrary: w)
    case (Cons b bs)
    then have "permute_block b ord w i = w i" using that by (auto simp: permute_block_def)
    with Cons show ?case by simp
  qed simp
  show "fst (apply_order bs p)" "prepared p (snd (snd (apply_order bs p)))"
    "pk_kernel (snd (snd (apply_order bs p))) = pk_kernel p"
    using ok keep by (auto simp: apply_order_def Let_def prepared_def permute_block_def)
qed

lemma movable_kernel [simp]: "movable (p\<lparr>pk_kernel := k\<rparr>) = movable p"
  by (simp add: movable_def filled_def)

lemma move_packs:
  assumes "movable p" "exact_all (pk_node p)" "set bs \<subseteq> {W_SRC0, W_SRC1}" "name = Some n" "wide_kernel n"
    and "\<And>p1. f p1 = (case apply_order bs p1 of (ok, ord, p2) \<Rightarrow>
        if ok then grid_1d (ggml_nelements (pk_node p)) (g ord p2) else (False, p2))"
    and "\<And>ord p1. pk_kernel (g ord p1) = pk_kernel p1" "\<And>ord p1. prepared p p1 \<Longrightarrow> prepared p (g ord p1)"
  shows "fst (with_kernel name p f) \<and> packed p (snd (with_kernel name p f))"
proof -
  let ?p1 = "p\<lparr>pk_kernel := kernel_index n\<rparr>"
  obtain ok ord p2 where a: "apply_order bs ?p1 = (ok, ord, p2)" by (metis surj_pair)
  note ao = apply_order_ok [of ?p1 bs, unfolded a fst_conv snd_conv, OF _ assms(3)]
  have p2: "ok" "prepared p p2" "pk_kernel p2 = kernel_index n"
    using ao assms(1) by (simp_all add: prepared_def)
  have "with_kernel name p f = grid_1d (ggml_nelements (pk_node p)) (g ord p2)"
    using wide_kernelD(1) [OF assms(5)] p2(1) by (simp add: with_kernel_def assms(4,6) a)
  moreover have "tensor_fits (Some (pk_node p))" using assms(1) by (simp add: movable_def)
  ultimately show ?thesis
    using grid_prepared [OF assms(5) assms(8) [OF p2(2)] _ nelements_range] assms(2,7) p2(3) by simp
qed

lemma cpy_kernel_wide: "cpy_kernel_for s d = Some n \<Longrightarrow> wide_kernel n"
  unfolding cpy_kernel_for_def
  by (cases s; cases d) (simp_all add: wide_kernel_simps, auto simp: wide_kernel_simps)

lemma concat_kernel_wide: "concat_kernel_for t = Some n \<Longrightarrow> wide_kernel n"
  by (cases t) (auto simp: concat_kernel_for_def wide_kernel_simps)

lemma repeat_kernel_wide: "repeat_kernel_for t = Some n \<Longrightarrow> wide_kernel n"
  by (cases t) (auto simp: repeat_kernel_for_def wide_kernel_simps)

interpretation cpy: packer supports_cpy pack_cpy "\<lambda>E op. True"
proof
  fix E and p :: pack
  assume s: "supports_cpy E (pk_node p)" and ex: "exact_all (pk_node p)" and f: "filled p"
  obtain a n where a: "t_src (pk_node p) 0 = Some a" and n: "cpy_kernel_for (t_type a) (t_type (pk_node p)) = Some n"
    and m: "movable p"
    using s f by (cases "t_src (pk_node p) 0")
      (auto simp: supports_cpy_def movable_def simp del: not_None_eq split: if_splits)
  have name: "Option.bind (src0_type (pk_node p)) (\<lambda>s. cpy_kernel_for s (t_type (pk_node p))) = Some n"
    using a n by (simp add: src0_type_def)
  show "fst (pack_cpy E p) \<and> packed p (snd (pack_cpy E p))"
    unfolding pack_cpy_def Let_def
    by (rule move_packs [OF m ex _ name cpy_kernel_wide [OF n], where bs = "[]"
          and g = "\<lambda>ord. fold (\<lambda>k. set_w (W_LINW + k) (ucast (lin_weight (pk_node p) (or_perm ord k)))) [0, 1, 2, 3]"])
      (simp_all split: prod.split)
qed

interpretation concat: packer supports_concat pack_concat "\<lambda>E op. True"
proof
  fix E and p :: pack
  assume s: "supports_concat E (pk_node p)" and ex: "exact_all (pk_node p)" and f: "filled p"
  obtain n where n: "concat_kernel_for (t_type (pk_node p)) = Some n" and m: "movable p"
    using s f by (cases "t_src (pk_node p) 0"; cases "t_src (pk_node p) 1")
      (auto simp: supports_concat_def movable_def Let_def simp del: not_None_eq split: if_splits)
  show "fst (pack_concat E p) \<and> packed p (snd (pack_concat E p))"
    unfolding pack_concat_def
    by (rule move_packs [OF m ex _ n concat_kernel_wide [OF n], where g = "\<lambda>ord p. p"]) simp_all
qed

interpretation repeat: packer supports_repeat pack_repeat "\<lambda>E op. True"
proof
  fix E and p :: pack
  assume s: "supports_repeat E (pk_node p)" and ex: "exact_all (pk_node p)" and f: "filled p"
  obtain n where n: "repeat_kernel_for (t_type (pk_node p)) = Some n" and m: "movable p"
    using s f by (cases "t_src (pk_node p) 0")
      (auto simp: supports_repeat_def movable_def simp del: not_None_eq split: if_splits)
  show "fst (pack_repeat E p) \<and> packed p (snd (pack_repeat E p))"
    unfolding pack_repeat_def
    by (rule move_packs [OF m ex _ n repeat_kernel_wide [OF n], where g = "\<lambda>ord p. p"]) simp_all
qed

section \<open>Row families\<close>

text \<open>
  \<open>supports\<close> of the row families does not look at the number of rows; \<open>pack_rows\<close> refuses
  more than \<open>UINT32_MAX\<close> threads.
\<close>

definition few_rows :: "penv \<Rightarrow> tensor \<Rightarrow> bool" where
  "few_rows E op \<longleftrightarrow>
     (case t_src op 0 of None \<Rightarrow> True | Some a \<Rightarrow> t_ne a 1 * t_ne a 2 * t_ne a 3 \<le> UINT32_MAX div 256)"

lemma rows_f32_unaryD:
  assumes "rows_f32_unary op"
  obtains a where "t_src op 0 = Some a" "tensor_fits (Some a)" "tensor_fits (Some op)"
  using assms by (cases "t_src op 0") (simp_all add: rows_f32_unary_def split: if_splits)

lemma unat_mult3:
  assumes "exact a"
  shows "unat (t_ne a 1 * t_ne a 2 * t_ne a 3) = unat (t_ne a 1) * unat (t_ne a 2) * unat (t_ne a 3)"
    and "0 < unat (t_ne a 1 * t_ne a 2 * t_ne a 3)"
proof -
  have ge: "0 < unat (t_ne a 0)" "0 < unat (t_ne a 1)" "0 < unat (t_ne a 2)" "0 < unat (t_ne a 3)"
    and lt: "unat (t_ne a 0) * unat (t_ne a 1) * unat (t_ne a 2) * unat (t_ne a 3) < 2 ^ 64"
    using assms sint_pos_unat unfolding exact_def by auto
  have "unat (t_ne a 1) * unat (t_ne a 2) * unat (t_ne a 3)
      \<le> unat (t_ne a 0) * (unat (t_ne a 1) * unat (t_ne a 2) * unat (t_ne a 3))"
    using ge(1) by simp
  with lt have "1 * unat (t_ne a 1) * unat (t_ne a 2) * unat (t_ne a 3) < 2 ^ 64"
    unfolding mult.assoc mult_1 by (rule le_less_trans [rotated])
  with unat_mult4 [of 1 "t_ne a 1" "t_ne a 2" "t_ne a 3"] ge(3,4)
  show eq: "unat (t_ne a 1 * t_ne a 2 * t_ne a 3) = unat (t_ne a 1) * unat (t_ne a 2) * unat (t_ne a 3)" by simp
  show "0 < unat (t_ne a 1 * t_ne a 2 * t_ne a 3)" unfolding eq using ge by simp
qed

lemma threads_of_rows:
  assumes "rows \<le> UINT32_MAX div 256" "0 < unat rows" "0 \<le> k" "k < int kKernelCount"
  shows "unat (rows * threadgroup0 k) = unat rows * unat (threadgroup0 k)"
    and "0 < unat (rows * threadgroup0 k)" "unat (rows * threadgroup0 k) \<le> 4294967295"
    and "\<not> (rows = 0 \<or> rows > UINT32_MAX div threadgroup0 k)"
proof -
  note tg = threadgroup0_bounds [OF assms(3,4)]
  have r: "unat rows \<le> 16777215" using assms(1) by (simp add: word_le_nat_alt unat_div)
  then have le: "unat rows * unat (threadgroup0 k) \<le> 16777215 * 256" using tg(2) by (intro mult_le_mono)
  then show eq: "unat (rows * threadgroup0 k) = unat rows * unat (threadgroup0 k)"
    by (intro unat_mult_no_wrap) simp
  show "0 < unat (rows * threadgroup0 k)" "unat (rows * threadgroup0 k) \<le> 4294967295"
    unfolding eq using assms(2) tg le by simp_all
  have "unat rows \<le> 4294967295 div unat (threadgroup0 k)"
    using le tg(1) by (simp add: less_eq_div_iff_mult_less_eq)
  then show "\<not> (rows = 0 \<or> rows > UINT32_MAX div threadgroup0 k)"
    using assms(2) by (auto simp: word_less_nat_alt unat_div)
qed

lemma pack_rows_packs:
  assumes "wide_kernel name" "rows_f32_unary (pk_node p)" "few_rows E (pk_node p)" "exact_all (pk_node p)"
  shows "fst (pack_rows name p) \<and> packed p (snd (pack_rows name p))"
proof -
  obtain a where a: "t_src (pk_node p) 0 = Some a" using assms(2) by (rule rows_f32_unaryD)
  let ?rows = "t_ne a 1 * t_ne a 2 * t_ne a 3"
  have "exact a" using assms(4) a by (auto simp: exact_all_def)
  then have pos: "0 < unat ?rows" by (rule unat_mult3)
  have le: "?rows \<le> UINT32_MAX div 256" using assms(3) by (simp add: few_rows_def a)
  note k = wide_kernelD [OF assms(1)]
  note t = threads_of_rows [OF le pos k(1,2)]
  have "pack_rows name p = grid_1d (?rows * threadgroup0 (kernel_index name))
      (set_w W_ROWS (ucast ?rows) (p\<lparr>pk_kernel := kernel_index name\<rparr>))"
    using k(1) t(4) by (simp add: pack_rows_def with_kernel_def a Let_def)
  then show ?thesis
    using grid_prepared [OF assms(1) _ _ t(2,3), of p "set_w W_ROWS (ucast ?rows) (p\<lparr>pk_kernel := kernel_index name\<rparr>)"] by simp
qed

lemma pick_threads_wide: "wide_kernel a \<Longrightarrow> wide_kernel b \<Longrightarrow> wide_kernel (pick_threads E op a b)"
  by (simp add: pick_threads_def Let_def split: option.splits)

interpretation norm: packer supports_norm pack_norm few_rows
  by unfold_locales (unfold pack_norm_def, rule pack_rows_packs,
      simp_all add: supports_norm_def pick_threads_wide wide_kernel_simps)

interpretation rms_norm: packer supports_norm pack_rms_norm few_rows
  by unfold_locales (unfold pack_rms_norm_def, rule pack_rows_packs,
      simp_all add: supports_norm_def pick_threads_wide wide_kernel_simps)

interpretation mean: packer supports_mean pack_mean few_rows
  by unfold_locales (unfold pack_mean_def, rule pack_rows_packs,
      simp_all add: supports_mean_def reduces_rows_def wide_kernel_simps)

interpretation sum_rows: packer supports_sum_rows pack_sum_rows few_rows
  by unfold_locales (unfold pack_sum_rows_def, rule pack_rows_packs,
      simp_all add: supports_sum_rows_def reduces_rows_def wide_kernel_simps)

interpretation soft_max: packer supports_soft_max pack_soft_max few_rows
  by unfold_locales (unfold pack_soft_max_def, rule pack_rows_packs,
      simp_all add: supports_soft_max_def pick_threads_wide wide_kernel_simps split: if_splits)

interpretation sum: packer supports_sum pack_sum "\<lambda>E op. True"
proof
  fix E and p :: pack
  let ?p1 = "p\<lparr>pk_kernel := kernel_index ''sum_f32''\<rparr>"
  have w: "wide_kernel ''sum_f32''" by (simp add: wide_kernel_simps)
  note k = wide_kernelD [OF w]
  have "pack_sum E p = grid_1d (threadgroup0 (kernel_index ''sum_f32'')) ?p1"
    using k(1) by (simp add: pack_sum_def with_kernel_def)
  then show "fst (pack_sum E p) \<and> packed p (snd (pack_sum E p))"
    using grid_prepared [OF w, of p ?p1] threadgroup0_bounds [OF k(1,2)] by simp
qed

lemma uint_of_sint_pos:
  assumes "0 \<le> sint (w :: i64)"
  shows "uint w = sint w"
proof -
  have "uint w = take_bit 64 (sint w)" by (simp add: uint_sint)
  also have "\<dots> = sint w" using assms sint_lt [of w] by (intro take_bit_int_eq_self) simp_all
  finally show ?thesis .
qed

interpretation group_norm: packer supports_group_norm_f32 pack_group_norm_f32 "\<lambda>E op. True"
proof
  fix E and p :: pack
  assume s: "supports_group_norm_f32 E (pk_node p)" and ex: "exact_all (pk_node p)"
  obtain a where a: "t_src (pk_node p) 0 = Some a" "\<not> sint (scast (t_params (pk_node p) 0) :: i64) < 1"
      "\<not> scast (t_params (pk_node p) 0) * t_ne a 3 > UINT32_MAX div 256" "tensor_fits (Some a)"
    using s by (cases "t_src (pk_node p) 0") (simp_all add: supports_group_norm_f32_def Let_def split: if_splits)
  let ?ng = "scast (t_params (pk_node p) 0) :: i64"
  let ?rows = "?ng * t_ne a 3"
  have ng: "0 < unat ?ng" "unat ?ng < 2 ^ 31"
  proof -
    have g: "sint ?ng = sint (t_params (pk_node p) 0)" by (simp add: sint_up_scast is_up)
    have "sint (t_params (pk_node p) 0) < 2 ^ 31" using sint_lt [of "t_params (pk_node p) 0"] by simp
    with g a(2) have b: "1 \<le> sint ?ng" "sint ?ng < 2 ^ 31" by simp_all
    have "uint ?ng = sint ?ng" using b(1) by (intro uint_of_sint_pos) simp
    then have "unat ?ng = nat (sint ?ng)" by (metis nat_uint_eq)
    with b show "0 < unat ?ng" "unat ?ng < 2 ^ 31" by simp_all
  qed
  have n3: "0 < unat (t_ne a 3)" "unat (t_ne a 3) \<le> 4294967295"
    using tensor_fits_dims(1,2) [OF a(4), of 3] sint_pos_unat by auto
  have "unat ?ng * unat (t_ne a 3) \<le> 2 ^ 31 * 4294967295" using ng n3 by (intro mult_le_mono) simp_all
  then have "unat ?rows = unat ?ng * unat (t_ne a 3)" by (intro unat_mult_no_wrap) simp
  then have pos: "0 < unat ?rows" using ng n3 by simp
  have w: "wide_kernel ''group_norm_f32''" by (simp add: wide_kernel_simps)
  note k = wide_kernelD [OF w]
  have le: "?rows \<le> UINT32_MAX div 256" using a(3) by (simp add: not_less)
  note t = threads_of_rows [OF le pos k(1,2)]
  let ?p1 = "set_w W_ROWS (ucast ?rows) (p\<lparr>pk_kernel := kernel_index ''group_norm_f32''\<rparr>)"
  have "pack_group_norm_f32 E p = grid_1d (?rows * threadgroup0 (kernel_index ''group_norm_f32'')) ?p1"
    using k(1) by (simp add: pack_group_norm_f32_def with_kernel_def a(1) Let_def)
  then show "fst (pack_group_norm_f32 E p) \<and> packed p (snd (pack_group_norm_f32 E p))"
    using grid_prepared [OF w _ _ t(2,3), of p ?p1] by simp
qed

section \<open>ROPE, MUL_MAT and FLASH_ATTN_EXT\<close>

lemma unat_of_sint_pos: "0 \<le> sint (w :: i64) \<Longrightarrow> unat w = nat (sint w)"
  using uint_of_sint_pos by (metis nat_uint_eq)

lemma rows_exact:
  assumes "exact t"
  shows "unat (ggml_nrows t) = unat (t_ne t 1) * unat (t_ne t 2) * unat (t_ne t 3)" "0 < unat (ggml_nrows t)"
    and "unat (t_ne t 0) * unat (ggml_nrows t) = unat (ggml_nelements t)"
  using unat_mult3 [OF assms] nelements_exact(1) [OF assms] by (simp_all add: ggml_nrows_def mult.assoc)

lemma even_extent:
  assumes "smod_w (n :: u32) 2 = 0" "0 < sint n"
  shows "2 \<le> sint n"
proof (rule ccontr)
  assume "\<not> 2 \<le> sint n"
  with assms(2) have "sint n = sint (1 :: u32)" by simp
  then have "n = 1" by (rule signed_word_eqI)
  with assms(1) show False by (simp add: smod_w_def signed_modulo_int_def signed_divide_int_def)
qed

interpretation rope: packer supports_rope_neox_f32 pack_rope_neox_f32 "\<lambda>E op. True"
proof
  fix E and p :: pack
  let ?op = "pk_node p"
  assume s: "supports_rope_neox_f32 E ?op" and ex: "exact_all ?op"
  obtain a where fits: "tensor_fits (Some ?op)" and same: "ggml_are_same_shape a ?op"
    and dims: "0 < sint (t_params ?op 1)" "smod_w (t_params ?op 1) 2 = 0" "sint (t_params ?op 1) \<le> sint (t_ne a 0)"
    using s by (cases "t_src ?op 0"; cases "t_src ?op 1")
      (simp_all add: supports_rope_neox_f32_def Let_def not_le not_less split: if_splits)
  have e: "exact ?op" using ex by (simp add: exact_all_def)
  have "t_ne a 0 = t_ne ?op 0" using same by (simp add: ggml_are_same_shape_def all4_iff)
  then have "2 \<le> sint (t_ne ?op 0)" using even_extent [OF dims(2,1)] dims(3) by simp
  then have ge2: "2 \<le> unat (t_ne ?op 0)" by (simp add: unat_of_sint_pos)
  let ?threads = "(t_ne ?op 0 div 2) * ggml_nrows ?op"
  have le: "unat (t_ne ?op 0 div 2) * unat (ggml_nrows ?op) \<le> unat (ggml_nelements ?op)"
    unfolding rows_exact(3) [OF e, symmetric] by (intro mult_le_mono1) (simp add: unat_div)
  then have t: "unat ?threads = unat (t_ne ?op 0 div 2) * unat (ggml_nrows ?op)"
    using nelements_range [OF fits ex] by (intro unat_mult_no_wrap) simp
  then have range: "0 < unat ?threads" "unat ?threads \<le> 4294967295"
    using le nelements_range [OF fits ex] ge2 rows_exact(2) [OF e] by (simp_all add: unat_div div_greater_zero_iff)
  have w: "wide_kernel ''rope_neox_f32''" by (simp add: wide_kernel_simps)
  show "fst (pack_rope_neox_f32 E p) \<and> packed p (snd (pack_rope_neox_f32 E p))"
    unfolding pack_rope_neox_f32_def Let_def by (rule with_kernel_grid [OF w range refl]) simp_all
qed

lemma type_tags:
  assumes "has_kernel a b"
  shows "wide_kernel (''mul_mat_vec_'' @ type_tag a @ ''_'' @ type_tag b)"
    and "wide_kernel (''mul_mat_tiled_'' @ type_tag a @ ''_'' @ type_tag b)"
  using assms by (cases a; cases b; simp add: has_kernel_def type_tag_def wide_kernel_simps)+

lemma unat_cdiv_small:
  assumes "0 < unat b" "unat b \<le> 65535" "0 < unat a" "unat a \<le> 4294967295"
  shows "unat (cdiv a b) = cdiv_nat (unat a) (unat b)" "0 < unat (cdiv a b)" "unat (cdiv a b) \<le> unat a"
proof -
  show eq: "unat (cdiv a b) = cdiv_nat (unat a) (unat b)"
    unfolding cdiv_def using assms by (intro unat_cdiv) simp_all
  show "0 < unat (cdiv a b)" "unat (cdiv a b) \<le> unat a"
    unfolding eq using assms by (simp_all add: cdiv_nat_bounds)
qed

lemma mm_grid_range:
  assumes "tensor_fits (Some t)" "mm_grid t = Some (g, gx)" "i < 3"
  shows "1 \<le> unat (grid3 g i) \<and> unat (grid3 g i) \<le> 65535"
proof -
  have pos: "0 < unat (t_ne t k)" "unat (t_ne t k) \<le> 4294967295" if "k < 4" for k
    using tensor_fits_dims(1,2) [OF assms(1) that] sint_pos_unat by auto
  have "unat (t_ne t 2) * unat (t_ne t 3) \<le> 4294967295 * 4294967295"
    using pos [of 2] pos [of 3] by (intro mult_le_mono) simp_all
  then have "unat (t_ne t 2 * t_ne t 3) = unat (t_ne t 2) * unat (t_ne t 3)" by (intro unat_mult_no_wrap) simp
  then have b0: "0 < unat (t_ne t 2 * t_ne t 3)" using pos [of 2] pos [of 3] by simp
  have word: "1 \<le> unat (ucast w :: u32) \<and> unat (ucast w :: u32) \<le> 65535"
    if "0 < unat w" "w \<le> kMaxGroupsPerDim" for w :: u64
    using that by (subst (1 2) unat_ucast64_32) (simp_all add: word_le_nat_alt)
  let ?b = "cdiv (t_ne t 0) 8"
  let ?gx = "if ?b < kMaxGroupsPerDim then ?b else kMaxGroupsPerDim"
  have b: "0 < unat ?b" "unat ?b \<le> 4294967295" using unat_cdiv_small [of 8 "t_ne t 0"] pos [of 0] by simp_all
  have x: "0 < unat ?gx" "?gx \<le> kMaxGroupsPerDim" using b by (auto simp: not_less)
  then have y: "0 < unat (cdiv ?b ?gx)" using unat_cdiv_small(2) [of ?gx ?b] b by (simp add: word_le_nat_alt)
  have c: "0 < unat (cdiv (t_ne t 0) 64)" "0 < unat (cdiv (t_ne t 1) 64)"
    using unat_cdiv_small [of 64 "t_ne t 0"] unat_cdiv_small [of 64 "t_ne t 1"] pos [of 0] pos [of 1] by simp_all
  have "(\<exists>x y. g = (ucast x, ucast y, ucast (t_ne t 2 * t_ne t 3)) \<and> 0 < unat x \<and> x \<le> kMaxGroupsPerDim \<and>
      0 < unat y \<and> y \<le> kMaxGroupsPerDim) \<and> t_ne t 2 * t_ne t 3 \<le> kMaxGroupsPerDim"
  proof (cases "t_ne t 1 \<le> 4")
    case True
    then have "g = (ucast ?gx, ucast (cdiv ?b ?gx), ucast (t_ne t 2 * t_ne t 3))" "cdiv ?b ?gx \<le> kMaxGroupsPerDim"
      "t_ne t 2 * t_ne t 3 \<le> kMaxGroupsPerDim"
      using assms(2) unfolding mm_grid_def Let_def by (simp_all only: if_True not_less split: if_split_asm) auto
    with x y show ?thesis by blast
  next
    case False
    then have "g = (ucast (cdiv (t_ne t 0) 64), ucast (cdiv (t_ne t 1) 64), ucast (t_ne t 2 * t_ne t 3))"
      "cdiv (t_ne t 0) 64 \<le> kMaxGroupsPerDim" "cdiv (t_ne t 1) 64 \<le> kMaxGroupsPerDim"
      "t_ne t 2 * t_ne t 3 \<le> kMaxGroupsPerDim"
      using assms(2) unfolding mm_grid_def Let_def by (auto simp: not_less split: if_split_asm)
    with c show ?thesis by blast
  qed
  then obtain x y where g: "g = (ucast x, ucast y, ucast (t_ne t 2 * t_ne t 3))" "0 < unat x" "x \<le> kMaxGroupsPerDim"
    "0 < unat y" "y \<le> kMaxGroupsPerDim" "t_ne t 2 * t_ne t 3 \<le> kMaxGroupsPerDim" by blast
  note words = word [OF g(2,3)] word [OF g(4,5)] word [OF b0 g(6)]
  have "i = 0 \<or> i = 1 \<or> i = 2" using assms(3) by auto
  then show ?thesis using words by (auto simp: grid3_def g(1))
qed

lemma own_grid_packed:
  assumes "prepared p p1" "0 \<le> pk_kernel p1" "pk_kernel p1 < int kKernelCount"
    and "\<And>i. i < 3 \<Longrightarrow> 1 \<le> unat (g i) \<and> unat (g i) \<le> 65535"
  shows "packed p (p1\<lparr>pk_groups := g\<rparr>)"
  using assms by (auto simp: packed_def prepared_def)

interpretation mul_mat: packer supports_mul_mat pack_mul_mat "\<lambda>E op. True"
proof
  fix E and p :: pack
  let ?op = "pk_node p"
  assume s: "supports_mul_mat E ?op" and ex: "exact_all ?op"
  obtain a b g gx where a: "t_src ?op 0 = Some a" and b: "t_src ?op 1 = Some b"
    and k: "has_kernel (t_type a) (t_type b)" and fits: "tensor_fits (Some ?op)" and g: "mm_grid ?op = Some (g, gx)"
    using s by (cases "t_src ?op 0"; cases "t_src ?op 1") (auto simp: supports_mul_mat_def split: if_splits)
  define name where "name = (if t_ne ?op 1 \<le> 4 then ''mul_mat_vec_'' else ''mul_mat_tiled_'') @
      type_tag (t_type a) @ ''_'' @ type_tag (t_type b)"
  have w: "wide_kernel name" using type_tags [OF k] by (simp only: name_def split: if_split) blast
  note idx = wide_kernelD(1,2) [OF w]
  let ?p1 = "p\<lparr>pk_kernel := kernel_index name\<rparr>"
  have "pack_mul_mat E p = (True, (set_w 57 gx (set_w 56 (ucast (sdiv_w (t_ne b 3) (t_ne a 3)))
      (set_w 55 (ucast (sdiv_w (t_ne b 2) (t_ne a 2))) ?p1)))\<lparr>pk_groups := grid3 g\<rparr>)"
    using idx(1) unfolding pack_mul_mat_def with_kernel_def a b g option.case prod.case Let_def name_def [symmetric]
    by simp
  then show "fst (pack_mul_mat E p) \<and> packed p (snd (pack_mul_mat E p))"
    using own_grid_packed [OF _ _ _ mm_grid_range [OF fits g]] idx by simp
qed

text \<open>\<open>to_string\<close> of the two head dimensions flash attention accepts.\<close>

lemma fa_kernel_wide:
  assumes "d = 64 \<or> d = (128 :: int)"
  shows "wide_kernel (''flash_attn_ext_'' @ (if b then ''f16'' else ''f32'') @ ''_d'' @ to_string d @
     (if serial then ''_serial'' else []))"
proof -
  have "to_string 64 = ''64''" "to_string 128 = ''128''" by code_simp+
  with assms show ?thesis by (cases b; cases serial) (auto simp: wide_kernel_simps)
qed

lemma ucast_small:
  assumes "1 \<le> sint (x :: i64)" "sint x \<le> 65535"
  shows "1 \<le> unat (ucast x :: u32) \<and> unat (ucast x :: u32) \<le> 65535"
proof -
  have "unat x = nat (sint x)" using assms(1) by (simp add: unat_of_sint_pos)
  with assms have "1 \<le> unat x" "unat x \<le> 65535" by linarith+
  then show ?thesis by (simp add: unat_ucast64_32)
qed

lemma sdiv16_pos: "0 < a \<Longrightarrow> a sdiv 16 = a div (16 :: int)"
  by (simp add: signed_divide_int_def)

lemma fa_qblocks_pos:
  assumes "tensor_fits (Some q)"
  shows "1 \<le> sint (fa_qblocks q)"
proof -
  have n: "0 < unat (t_ne q 1)" "unat (t_ne q 1) \<le> 4294967295"
    using tensor_fits_dims(1,2) [OF assms, of 1] sint_pos_unat by auto
  have "unat (t_ne q 1 + 15) = unat (t_ne q 1) + 15" using n by (subst unat_add_no_wrap) simp_all
  then have s: "sint (t_ne q 1 + 15) = int (unat (t_ne q 1)) + 15" using n by (subst sint_small) simp_all
  let ?v = "(int (unat (t_ne q 1)) + 15) div 16"
  have "1 \<le> int (unat (t_ne q 1))" "int (unat (t_ne q 1)) \<le> 4294967295" using n by linarith+
  then have "1 \<le> ?v" "?v \<le> 4294967295" by linarith+
  then have v: "1 \<le> ?v" "?v < 2 ^ 63" by (blast, elim le_less_trans, simp)
  have "sint (t_ne q 1 + 15) sdiv 16 = ?v"
    unfolding s by (rule sdiv16_pos) linarith
  then have "fa_qblocks q = word_of_int ?v" by (simp add: fa_qblocks_def sdiv_w_def add.commute)
  moreover have "sint (word_of_int ?v :: i64) = ?v"
    using v by (simp add: sint_sbintrunc' signed_take_bit_int_eq_self)
  ultimately show ?thesis using v(1) by simp
qed

interpretation fa: packer supports_fa pack_fa "\<lambda>E op. True"
proof
  fix E and p :: pack
  let ?op = "pk_node p"
  assume s: "supports_fa E ?op" and ex: "exact_all ?op"
  obtain q k v where q: "t_src ?op 0 = Some q" and kv: "t_src ?op 1 = Some k" "t_src ?op 2 = Some v"
    and d: "t_ne q 0 = 64 \<or> t_ne q 0 = 128" and small: "sint (fa_qblocks q) \<le> 65535" "sint (t_ne q 2) \<le> 65535"
      "sint (t_ne q 3) \<le> 65535" and fits: "tensor_fits (Some q)"
    using s by (cases "t_src ?op 0"; cases "t_src ?op 1"; cases "t_src ?op 2")
      (auto simp: supports_fa_def Let_def not_le not_less simp del: not_None_eq split: if_splits)
  have e: "exact q" using ex q by (auto simp: exact_all_def)
  have ge: "1 \<le> sint (t_ne q 2)" "1 \<le> sint (t_ne q 3)" using tensor_fits_dims(1) [OF fits] by simp_all
  note groups = ucast_small [OF fa_qblocks_pos [OF fits] small(1)] ucast_small [OF ge(1) small(2)]
    ucast_small [OF ge(2) small(3)]
  have "unat (ggml_nelements q) \<le> 4294967295" using tensor_fits_dims(6) [OF fits, of 0] by (simp add: word_le_nat_alt)
  moreover have "1 * unat (ggml_nrows q) \<le> unat (t_ne q 0) * unat (ggml_nrows q)"
    using d by (intro mult_le_mono1) auto
  ultimately have rows: "0 < unat (t_ne q 1 * t_ne q 2 * t_ne q 3)" "unat (t_ne q 1 * t_ne q 2 * t_ne q 3) \<le> 4294967295"
    using rows_exact(2,3) [OF e] unfolding ggml_nrows_def by linarith+
  have d': "sint (t_ne q 0) = 64 \<or> sint (t_ne q 0) = 128" using d by auto
  define name where "name = ''flash_attn_ext_'' @ (if t_type k = GGML_TYPE_F16 then ''f16'' else ''f32'') @ ''_d'' @
      to_string (sint (t_ne q 0)) @ (if serial_kernels E then ''_serial'' else [])"
  have w: "wide_kernel name" unfolding name_def by (rule fa_kernel_wide [OF d'])
  note idx = wide_kernelD(1,2) [OF w]
  show "fst (pack_fa E p) \<and> packed p (snd (pack_fa E p))"
  proof (cases "serial_kernels E")
    case True
    show ?thesis
      unfolding pack_fa_def q kv option.case prod.case Let_def name_def [symmetric]
      unfolding if_P [OF True]
      by (rule with_kernel_grid [OF w rows refl]) simp_all
  next
    case False
    show ?thesis
      unfolding pack_fa_def q kv option.case prod.case Let_def name_def [symmetric]
      unfolding if_not_P [OF False] with_kernel_def
      using idx groups by (auto intro!: own_grid_packed simp: grid3_def simp del: f32_is_zero_def)
  qed
qed

section \<open>What CPY writes\<close>

lemma grid_1d_words: "i \<noteq> W_THREADS \<Longrightarrow> i \<noteq> W_GROUPS_X \<Longrightarrow> pk_w (snd (grid_1d n p)) i = pk_w p i"
  by (simp add: grid_1d_def set_w_def Let_def)

lemma lin_weight_exact:
  assumes "exact t" "k < 4"
  shows "unat (lin_weight t k) = (\<Prod>j<k. unat (t_ne t j))" "unat (lin_weight t k) \<le> unat (ggml_nelements t)"
proof -
  have ge: "0 < unat (t_ne t 0)" "0 < unat (t_ne t 1)" "0 < unat (t_ne t 2)" "0 < unat (t_ne t 3)"
    using assms sint_pos_unat unfolding exact_def by auto
  note n = nelements_exact(1) [OF assms(1)]
  let ?a = "unat (t_ne t 0)" and ?b = "unat (t_ne t 1)" and ?c = "unat (t_ne t 2)" and ?d = "unat (t_ne t 3)"
  have le: "?a \<le> ?a * ?b" "?a * ?b \<le> ?a * ?b * ?c" "?a * ?b * ?c \<le> ?a * ?b * ?c * ?d" "1 \<le> ?a"
    using ge by simp_all
  have lt: "?a * ?b * ?c * ?d < 2 ^ 64" using n unat_lt64 [of "ggml_nelements t"] by simp
  have lt23: "?a * ?b < 2 ^ 64" "?a * ?b * ?c < 2 ^ 64" using le lt by linarith+
  then have u2: "unat (t_ne t 0 * t_ne t 1) = ?a * ?b" by (intro unat_mult_no_wrap) simp
  then have u3: "unat (t_ne t 0 * t_ne t 1 * t_ne t 2) = ?a * ?b * ?c"
    using lt23 by (subst unat_mult_no_wrap) simp_all
  consider "k = 0" | "k = 1" | "k = 2" | "k = 3" using assms(2) by linarith
  then have "unat (lin_weight t k) = (\<Prod>j<k. unat (t_ne t j)) \<and> unat (lin_weight t k) \<le> unat (ggml_nelements t)"
    using le u2 u3 n by cases (simp_all add: numeral_2_eq_2 numeral_3_eq_3 lessThan_Suc mult.commute mult.left_commute)
  then show "unat (lin_weight t k) = (\<Prod>j<k. unat (t_ne t j))" "unat (lin_weight t k) \<le> unat (ggml_nelements t)"
    by blast+
qed

lemma cpy_slot:
  assumes s: "supports_cpy E (pk_node p)" and f: "filled p"
  defines "t \<equiv> pk_node p" and "w \<equiv> pk_w (snd (pack_cpy E p))"
  shows "k < 4 \<Longrightarrow> w (W_DST + T_NE + k) = ucast (t_ne t (or_perm (order_of t) k))"
    and "k < 4 \<Longrightarrow> unat (w (W_DST + T_NB + k)) = elem_nb t (or_perm (order_of t) k)"
    and "k < 4 \<Longrightarrow> w (W_LINW + k) = ucast (lin_weight t (or_perm (order_of t) k))"
proof -
  let ?node = "pk_node p"
  obtain a n where a: "t_src ?node 0 = Some a" and n: "cpy_kernel_for (t_type a) (t_type ?node) = Some n"
    and m: "movable p"
    using s f by (cases "t_src ?node 0")
      (auto simp: supports_cpy_def movable_def simp del: not_None_eq split: if_splits)
  let ?p1 = "p\<lparr>pk_kernel := kernel_index n\<rparr>"
  let ?ord = "order_of_dims (\<lambda>k. ucast (pk_w p (W_DST + T_NE + k))) (\<lambda>k. ucast (pk_w p (W_DST + T_NB + k)))"
  obtain off where b: "block_holds (pk_w p) W_DST ?node off" and fits: "tensor_fits (Some ?node)"
    using m by (auto simp: movable_def filled_def)
  have ok: "fst (apply_order [] ?p1)" by (rule apply_order_ok) (use m in simp_all)
  have perm: "or_perm ?ord k = or_perm (order_of ?node) k" "or_perm ?ord k < 4" if "k < 4" for k
    using order_of_dims_cong(1) [OF slot_order [OF b fits] that] that dim_order_lt [OF that]
    by (simp_all add: order_of_def order_of_dims_simps)
  have eq: "apply_order [] ?p1 = (True, ?ord, ?p1\<lparr>pk_w := (permute_block W_DST ?ord (pk_w p))(W_MERGE := merge_chain ?ord)\<rparr>)"
    using ok by (simp add: apply_order_def Let_def split: if_splits)
  have res: "pack_cpy E p = grid_1d (ggml_nelements ?node)
      (fold (\<lambda>k. set_w (W_LINW + k) (ucast (lin_weight ?node (or_perm ?ord k)))) [0, 1, 2, 3]
        (?p1\<lparr>pk_w := (permute_block W_DST ?ord (pk_w p))(W_MERGE := merge_chain ?ord)\<rparr>))"
    using wide_kernelD(1) [OF cpy_kernel_wide [OF n]] a n
    by (simp add: pack_cpy_def with_kernel_def src0_type_def eq Let_def)
  have w: "w i = fold (\<lambda>k w. w(W_LINW + k := ucast (lin_weight ?node (or_perm ?ord k)))) [0, 1, 2, 3]
      ((permute_block W_DST ?ord (pk_w p))(W_MERGE := merge_chain ?ord)) i" if "i \<noteq> 53" "i \<noteq> 54" for i
    unfolding w_def res grid_1d_words [OF that] by (simp add: set_w_def)
  have slot: "pk_w p (W_DST + T_NE + j) = ucast (t_ne ?node j)"
    "unat (pk_w p (W_DST + T_NB + j)) = elem_nb ?node j" if "j < 4" for j
  proof -
    have "unat (t_ne ?node j) < 2 ^ 32" using tensor_fits_dims(2) [OF fits that] by simp
    then show "pk_w p (W_DST + T_NE + j) = ucast (t_ne ?node j)"
      using b that by (simp add: block_holds_def word_unat_eq_iff unat_ucast64_32)
    have "unat (pk_w p (W_DST + T_NB + j)) = unat (ucast (pk_w p (W_DST + T_NB + j)) :: u64)"
      by (simp only: unat_ucast32_64)
    also have "\<dots> = elem_nb ?node j"
      unfolding elem_nb_def filled_words(2) [OF b fits that] ..
    finally show "unat (pk_w p (W_DST + T_NB + j)) = elem_nb ?node j" .
  qed
  show "w (W_DST + T_NE + k) = ucast (t_ne t (or_perm (order_of t) k))" if k: "k < 4"
    using k slot(1) [OF perm(2) [OF k]] perm(1) [OF k] by (subst w) (simp_all add: permute_block_def t_def)
  show "unat (w (W_DST + T_NB + k)) = elem_nb t (or_perm (order_of t) k)" if k: "k < 4"
    using k slot(2) [OF perm(2) [OF k]] perm(1) [OF k] by (subst w) (simp_all add: permute_block_def t_def)
  show "w (W_LINW + k) = ucast (lin_weight t (or_perm (order_of t) k))" if k: "k < 4"
  proof -
    consider "k = 0" | "k = 1" | "k = 2" | "k = 3" using k by linarith
    then show ?thesis using perm(1) [OF k] by cases (subst w; simp add: t_def)+
  qed
qed

text \<open>
  C38: the slot CPY packs walks the destination in some order of its dimensions, and for every
  index the strides give the element's address and the weights its place in ggml's linear
  order, which is where the kernel reads the source.
\<close>

theorem cpy_walks_linear_order:
  fixes p :: pack
  assumes "supports_cpy E (pk_node p)" "exact_all (pk_node p)" "filled p"
  defines "t \<equiv> pk_node p" and "w \<equiv> pk_w (snd (pack_cpy E p))"
  shows "\<exists>perm. bij_betw perm {..<4} {..<4} \<and> (\<forall>k<4. unat (w (W_DST + T_NE + k)) = unat (t_ne t (perm k))) \<and>
     (\<forall>i. (\<Sum>k<4. i (perm k) * unat (w (W_DST + T_NB + k))) = (\<Sum>k<4. i k * elem_nb t k) \<and>
          (\<Sum>k<4. i (perm k) * unat (w (W_LINW + k))) = (\<Sum>k<4. i k * (\<Prod>j<k. unat (t_ne t j))))"
proof -
  note slot = cpy_slot [OF assms(1,3), folded t_def w_def]
  let ?p = "dim_order (t_ne t) (\<lambda>k. t_nb t k div ggml_type_size (t_type t))"
  have perm: "or_perm (order_of t) k = ?p ! k" "?p ! k < 4" if "k < 4" for k
    using that dim_order_lt by (simp_all add: order_of_def order_of_dims_simps)
  have fits: "tensor_fits (Some t)"
    using assms(1) by (auto simp: supports_cpy_def t_def split: option.splits if_splits)
  have e: "exact t" using assms(2) by (simp add: exact_all_def t_def)
  have ne: "unat (w (W_DST + T_NE + k)) = unat (t_ne t (?p ! k))" if "k < 4" for k
    using slot(1) [OF that] perm [OF that] tensor_fits_dims(2) [OF fits, of "?p ! k"]
    by (simp add: unat_ucast64_32)
  have lin: "unat (w (W_LINW + k)) = (\<Prod>j<?p ! k. unat (t_ne t j))" if "k < 4" for k
  proof -
    have "unat (lin_weight t (?p ! k)) \<le> unat (ggml_nelements t)"
      using lin_weight_exact(2) [OF e perm(2) [OF that]] .
    also have "\<dots> \<le> 4294967295" using tensor_fits_dims(6) [OF fits, of 0] by (simp add: word_le_nat_alt)
    finally show ?thesis
      using slot(3) [OF that] perm [OF that] lin_weight_exact(1) [OF e perm(2) [OF that]]
      by (simp add: unat_ucast64_32)
  qed
  have sums: "(\<Sum>k<4. i (?p ! k) * unat (w (W_DST + T_NB + k))) = (\<Sum>k<4. i k * elem_nb t k)"
    "(\<Sum>k<4. i (?p ! k) * unat (w (W_LINW + k))) = (\<Sum>k<4. i k * (\<Prod>j<k. unat (t_ne t j)))" for i
  proof -
    have "(\<Sum>k<4. i (?p ! k) * unat (w (W_DST + T_NB + k))) = (\<Sum>k<4. i (?p ! k) * elem_nb t (?p ! k))"
      using slot(2) perm(1) by (intro sum.cong) (simp_all add: add.assoc)
    also have "\<dots> = (\<Sum>k<4. i k * elem_nb t k)" by (rule sum_perm4)
    finally show "(\<Sum>k<4. i (?p ! k) * unat (w (W_DST + T_NB + k))) = (\<Sum>k<4. i k * elem_nb t k)" .
    have "(\<Sum>k<4. i (?p ! k) * unat (w (W_LINW + k))) = (\<Sum>k<4. i (?p ! k) * (\<Prod>j<?p ! k. unat (t_ne t j)))"
      using lin by (intro sum.cong) simp_all
    also have "\<dots> = (\<Sum>k<4. i k * (\<Prod>j<k. unat (t_ne t j)))" by (rule sum_perm4)
    finally show "(\<Sum>k<4. i (?p ! k) * unat (w (W_LINW + k))) = (\<Sum>k<4. i k * (\<Prod>j<k. unat (t_ne t j)))" .
  qed
  have "bij_betw (\<lambda>k. ?p ! k) {..<4} {..<4}"
    using dim_order_facts(2-4) [of "t_ne t"] by (intro bij_betw_nth) auto
  then show ?thesis using ne sums by blast
qed

text \<open>A pack whose destination block \<open>fill_block\<close> has filled, at offset 0.\<close>

definition demo_pack :: "tensor \<Rightarrow> pack" where
  "demo_pack t = \<lparr>pk_node = t, pk_w = (case fill_block W_DST t 0 (\<lambda>i. 0) of None \<Rightarrow> \<lambda>i. 0 | Some w \<Rightarrow> w),
     pk_kernel = - 1, pk_groups = (\<lambda>i. 1)\<rparr>"

lemma demo_pack_filled: "fill_block W_DST t 0 (\<lambda>i. 0) = Some w \<Longrightarrow> filled (demo_pack t)"
  using fill_block_words(1) [of W_DST t 0 "\<lambda>i. 0" w] by (auto simp: filled_def demo_pack_def)

abbreviation (input) demo_cpy :: tensor where
  "demo_cpy \<equiv> demo_tensor GGML_TYPE_F32 GGML_OP_DUP
     (\<lambda>s. if s = 0 then Some (demo_tensor GGML_TYPE_F32 GGML_OP_NONE (\<lambda>s. None)) else None)"

lemma demo_cpy_facts:
  "supports_cpy E demo_cpy" "exact_all demo_cpy" "\<exists>w. fill_block W_DST demo_cpy 0 (\<lambda>i. 0) = Some w"
proof -
  have nested: "dst_ok demo_cpy" by (simp add: dst_ok_def is16_def ggml_type_size_def demo_tensor_def)
  then show "supports_cpy E demo_cpy"
    unfolding supports_cpy_def
    by (simp add: demo_tensor_def cpy_kernel_for_def tensor_fits_def ggml_blck_size_def ggml_type_size_def
        ggml_nelements_def Let_def)
  show "exact_all demo_cpy" by (simp add: demo_tensor_def exact_all_def exact_def split: if_splits)
  show "\<exists>w. fill_block W_DST demo_cpy 0 (\<lambda>i. 0) = Some w"
    by (simp add: demo_tensor_def fill_block_def fill_dim_def ggml_blck_size_def ggml_type_size_def Let_def)
qed

theorem cpy_walks_linear_order_witness:
  "\<forall>E. \<exists>perm. bij_betw perm {..<4} {..<4} \<and>
     (\<Sum>k<4. perm k * unat (pk_w (snd (pack_cpy E (demo_pack demo_cpy))) (W_LINW + k))) =
     (\<Sum>k<4. k * (\<Prod>j<k. unat (t_ne demo_cpy j)))"
proof
  fix E
  obtain w where "fill_block W_DST demo_cpy 0 (\<lambda>i. 0) = Some w" using demo_cpy_facts(3) by blast
  then have f: "filled (demo_pack demo_cpy)" by (rule demo_pack_filled)
  have n: "pk_node (demo_pack demo_cpy) = demo_cpy" by (simp add: demo_pack_def)
  obtain perm where b: "bij_betw perm {..<4} {..<4}" and all: "\<forall>i. (\<Sum>k<4. i (perm k) * unat (pk_w (snd (pack_cpy E (demo_pack demo_cpy))) (W_LINW + k))) =
      (\<Sum>k<4. i k * (\<Prod>j<k. unat (t_ne demo_cpy j)))"
    using cpy_walks_linear_order [of E "demo_pack demo_cpy", unfolded n, OF demo_cpy_facts(1,2) f] by blast
  from b all [rule_format, of "\<lambda>k. k"] show "\<exists>perm. bij_betw perm {..<4} {..<4} \<and>
     (\<Sum>k<4. perm k * unat (pk_w (snd (pack_cpy E (demo_pack demo_cpy))) (W_LINW + k))) =
     (\<Sum>k<4. k * (\<Prod>j<k. unat (t_ne demo_cpy j)))" by (intro exI conjI)
qed

section \<open>What the row families refuse\<close>

definition tall :: "nat \<Rightarrow> ggml_op \<Rightarrow> (nat \<Rightarrow> tensor option) \<Rightarrow> tensor" where
  "tall rows op src = Tensor GGML_TYPE_F32 (Some 1) (\<lambda>k. if k = 1 then of_nat rows else 1)
     (\<lambda>k. if k < 2 then 4 else 4 * of_nat rows) op (\<lambda>i. 0) 0 src None 4096 ''t''"

abbreviation (input) tall_mean :: tensor where
  "tall_mean \<equiv> tall 16777216 GGML_OP_MEAN
     (\<lambda>s. if s = 0 then Some (tall 16777216 GGML_OP_NONE (\<lambda>s. None)) else None)"

lemma tall_supported: "supports_mean E tall_mean" "exact_all tall_mean"
  by (simp_all add: tall_def supports_mean_def reduces_rows_def rows_f32_unary_def tensor_fits_def exact_all_def exact_def
      ggml_blck_size_def ggml_type_size_def ggml_nelements_def Let_def word_less_nat_alt)

lemma mean_threads: "threadgroup0 (kernel_index ''mean_f32'') = 256" "0 \<le> kernel_index ''mean_f32''"
  by (simp_all add: threadgroup0_def kernel_index_simps kKernels_def)

text \<open>
  C39: \<open>supports\<close> of the row reductions looks at types and shapes only, so it accepts a tensor of
  2^24 rows of one element, which \<open>pack_rows\<close> refuses: the rows times the threads of a group
  no longer fit a word.
\<close>

theorem mean_supported_but_refused:
  "supports_mean E tall_mean \<and> exact_all tall_mean \<and> \<not> fst (pack_mean E (p\<lparr>pk_node := tall_mean\<rparr>))"
proof -
  have "\<not> fst (pack_mean E (p\<lparr>pk_node := tall_mean\<rparr>))"
    using mean_threads(2)
    by (simp add: pack_mean_def pack_rows_def with_kernel_def mean_threads(1) tall_def Let_def)
  with tall_supported show ?thesis by blast
qed

end
