(* ===== verification/Blake3.thy ===== *)
theory Blake3
  imports Prelude
begin

text \<open>
  \<open>guest/common/blake3.h\<close>: the BLAKE3 hash, streaming. The fixed arrays are lists; \<open>buf_\<close> is
  the list of its first \<open>buf_len_\<close> bytes, and \<open>stack_\<close> the list of its first \<open>stack_len_\<close>
  chaining values with the top at the head, so a pop below the bottom is visible (\<open>None\<close>).
\<close>

section \<open>Compression\<close>

unbundle bit_operations_syntax

definition IV :: "u32 list" where
  "IV = [0x6A09E667, 0xBB67AE85, 0x3C6EF372, 0xA54FF53A, 0x510E527F, 0x9B05688C, 0x1F83D9AB, 0x5BE0CD19]"

definition PERM :: "nat list" where
  "PERM = [2, 6, 3, 10, 7, 0, 4, 13, 1, 11, 12, 5, 9, 14, 15, 8]"

abbreviation (input) CHUNK_START :: u32 where "CHUNK_START \<equiv> 1"
abbreviation (input) CHUNK_END :: u32 where "CHUNK_END \<equiv> 2"
abbreviation (input) PARENT :: u32 where "PARENT \<equiv> 4"
abbreviation (input) ROOT :: u32 where "ROOT \<equiv> 8"
abbreviation (input) BLOCK :: nat where "BLOCK \<equiv> 64"
abbreviation (input) CHUNK :: nat where "CHUNK \<equiv> 1024"

definition rotr :: "u32 \<Rightarrow> nat \<Rightarrow> u32" where
  "rotr x n = drop_bit n x OR push_bit (32 - n) x"

definition g :: "nat \<Rightarrow> nat \<Rightarrow> nat \<Rightarrow> nat \<Rightarrow> u32 \<Rightarrow> u32 \<Rightarrow> u32 list \<Rightarrow> u32 list" where
  "g a b c d mx my s =
     (let s = s[a := s ! a + s ! b + mx];
          s = s[d := rotr (s ! d XOR s ! a) 16];
          s = s[c := s ! c + s ! d];
          s = s[b := rotr (s ! b XOR s ! c) 12];
          s = s[a := s ! a + s ! b + my];
          s = s[d := rotr (s ! d XOR s ! a) 8];
          s = s[c := s ! c + s ! d]
      in s[b := rotr (s ! b XOR s ! c) 7])"

definition mix_round :: "u32 list \<Rightarrow> u32 list \<Rightarrow> u32 list" where
  "mix_round m s =
     g 3 4 9 14 (m ! 14) (m ! 15) (g 2 7 8 13 (m ! 12) (m ! 13)
       (g 1 6 11 12 (m ! 10) (m ! 11) (g 0 5 10 15 (m ! 8) (m ! 9)
         (g 3 7 11 15 (m ! 6) (m ! 7) (g 2 6 10 14 (m ! 4) (m ! 5)
           (g 1 5 9 13 (m ! 2) (m ! 3) (g 0 4 8 12 (m ! 0) (m ! 1) s)))))))"

text \<open>\<open>r\<close> rounds are left; the message words are permuted before every round but the first.\<close>

fun mix_rounds :: "nat \<Rightarrow> u32 list \<Rightarrow> u32 list \<Rightarrow> u32 list" where
  "mix_rounds 0 m s = s"
| "mix_rounds (Suc r) m s =
     mix_rounds r (if r = 0 then m else map (\<lambda>i. m ! i) PERM) (mix_round m s)"

definition compress :: "u32 list \<Rightarrow> u32 list \<Rightarrow> u64 \<Rightarrow> u32 \<Rightarrow> u32 \<Rightarrow> u32 list" where
  "compress cv block counter len flags =
     (let s = mix_rounds 7 block (cv @ take 4 IV @ [ucast counter, ucast (drop_bit 32 counter), len, flags])
      in map (\<lambda>i. s ! i XOR s ! (i + 8)) [0..<8] @ map (\<lambda>i. s ! (i + 8) XOR cv ! i) [0..<8])"

definition words_of :: "u8 list \<Rightarrow> u32 list" where
  "words_of b = map (\<lambda>i. ucast (b ! (4 * i)) OR push_bit 8 (ucast (b ! (4 * i + 1))) OR
     push_bit 16 (ucast (b ! (4 * i + 2))) OR push_bit 24 (ucast (b ! (4 * i + 3)))) [0..<16]"

section \<open>Nodes\<close>

record Output =
  o_cv :: "u32 list"
  o_block :: "u32 list"
  o_counter :: u64
  o_len :: u32
  o_flags :: u32

definition chaining_value :: "Output \<Rightarrow> u32 list" where
  "chaining_value o1 = take 8 (compress (o_cv o1) (o_block o1) (o_counter o1) (o_len o1) (o_flags o1))"

definition parent :: "u32 list \<Rightarrow> u32 list \<Rightarrow> Output" where
  "parent l r = \<lparr>o_cv = IV, o_block = l @ r, o_counter = 0, o_len = of_nat BLOCK, o_flags = PARENT\<rparr>"

section \<open>The streaming context\<close>

record ctx =
  c_cv :: "u32 list"
  c_chunk :: u64
  c_buf :: "u8 list"
  c_blocks :: nat
  c_stack :: "u32 list list"

definition ctx_reset :: ctx where
  "ctx_reset = \<lparr>c_cv = IV, c_chunk = 0, c_buf = [], c_blocks = 0, c_stack = []\<rparr>"

definition chunk_bytes :: "ctx \<Rightarrow> nat" where
  "chunk_bytes s = c_blocks s * BLOCK + length (c_buf s)"

definition start_flag :: "nat \<Rightarrow> u32" where
  "start_flag blocks = (if blocks = 0 then CHUNK_START else 0)"

definition pad_block :: "u8 list \<Rightarrow> u8 list" where
  "pad_block b = b @ replicate (BLOCK - length b) 0"

definition chunk_output :: "ctx \<Rightarrow> Output" where
  "chunk_output s =
     \<lparr>o_cv = c_cv s, o_block = words_of (pad_block (c_buf s)), o_counter = c_chunk s,
       o_len = of_nat (length (c_buf s)), o_flags = start_flag (c_blocks s) OR CHUNK_END\<rparr>"

fun push_chunk :: "u32 list \<Rightarrow> u64 \<Rightarrow> u32 list list \<Rightarrow> u32 list list option" where
  "push_chunk cv n stack =
     (if n AND 1 = 0
      then (case stack of
              [] \<Rightarrow> None
            | l # rest \<Rightarrow> push_chunk (chaining_value (parent l cv)) (drop_bit 1 n) rest)
      else Some (cv # stack))"

declare push_chunk.simps [simp del]

text \<open>The two flushes at the top of a turn, and the bytes a turn takes.\<close>

definition finish_chunk :: "ctx \<Rightarrow> ctx option" where
  "finish_chunk s =
     (if chunk_bytes s = CHUNK
      then (case push_chunk (chaining_value (chunk_output s)) (c_chunk s + 1) (c_stack s) of
              None \<Rightarrow> None
            | Some st \<Rightarrow> Some (s\<lparr>c_stack := st, c_chunk := c_chunk s + 1, c_cv := IV, c_blocks := 0, c_buf := []\<rparr>))
      else Some s)"

definition finish_block :: "ctx \<Rightarrow> ctx" where
  "finish_block s =
     (if length (c_buf s) = BLOCK
      then s\<lparr>c_cv := take 8 (compress (c_cv s) (words_of (c_buf s)) (c_chunk s) (of_nat BLOCK) (start_flag (c_blocks s))),
             c_blocks := c_blocks s + 1, c_buf := []\<rparr>
      else s)"

definition take_bytes :: "ctx \<Rightarrow> nat \<Rightarrow> nat" where
  "take_bytes s n = min (min n (BLOCK - length (c_buf s))) (CHUNK - chunk_bytes s)"

partial_function (option) update :: "u8 list \<Rightarrow> ctx \<Rightarrow> ctx option" where
  "update p s =
     (if p = [] then Some s
      else (case finish_chunk s of
              None \<Rightarrow> None
            | Some s1 \<Rightarrow>
                let s2 = finish_block s1; n = take_bytes s2 (length p)
                in update (drop n p) (s2\<lparr>c_buf := c_buf s2 @ take n p\<rparr>)))"

text \<open>The digest: the open chunk folded with the stack, then the root's compression.\<close>

definition root_output :: "ctx \<Rightarrow> Output" where
  "root_output s = fold (\<lambda>l o1. parent l (chaining_value o1)) (c_stack s) (chunk_output s)"

definition hex_digit :: "u8 \<Rightarrow> char" where
  "hex_digit n = ''0123456789abcdef'' ! unat n"

definition root_words :: "Output \<Rightarrow> u32 list" where
  "root_words o1 = compress (o_cv o1) (o_block o1) (o_counter o1) (o_len o1) (o_flags o1 OR ROOT)"

definition hex_of :: "u32 list \<Rightarrow> string" where
  "hex_of out = concat (map (\<lambda>i. let b = ucast (drop_bit (8 * (i mod 4)) (out ! (i div 4))) :: u8
     in [hex_digit (drop_bit 4 b), hex_digit (b AND 15)]) [0..<32])"

definition hex :: "ctx \<Rightarrow> string" where
  "hex s = hex_of (root_words (root_output s))"

definition hex_bytes :: "u8 list \<Rightarrow> string option" where
  "hex_bytes data = map_option hex (update data ctx_reset)"

section \<open>The tree hash\<close>

text \<open>
  The specification: a chunk's blocks are chained, and the chunks are the leaves of the tree
  whose left subtree holds the largest power of two of them that leaves a right one.
\<close>

fun chunk_node :: "u32 list \<Rightarrow> nat \<Rightarrow> u64 \<Rightarrow> u8 list \<Rightarrow> Output" where
  "chunk_node cv blocks i b =
     (if length b \<le> BLOCK
      then \<lparr>o_cv = cv, o_block = words_of (pad_block b), o_counter = i, o_len = of_nat (length b),
             o_flags = start_flag blocks OR CHUNK_END\<rparr>
      else chunk_node (take 8 (compress cv (words_of (take BLOCK b)) i (of_nat BLOCK) (start_flag blocks)))
             (Suc blocks) i (drop BLOCK b))"

declare chunk_node.simps [simp del]

fun left_len :: "nat \<Rightarrow> nat" where
  "left_len n = (if n \<le> 2 then 1 else 2 * left_len ((n + 1) div 2))"

declare left_len.simps [simp del]

lemma left_len_eq: "2 ^ k < n \<Longrightarrow> n \<le> 2 ^ Suc k \<Longrightarrow> left_len n = 2 ^ k"
proof (induction k arbitrary: n)
  case 0
  then show ?case by (subst left_len.simps) simp
next
  case (Suc k)
  then have "left_len ((n + 1) div 2) = 2 ^ k" by (intro Suc.IH) simp_all
  moreover have "2 * 1 \<le> 2 * (2 :: nat) ^ k" by (intro mult_le_mono2 one_le_power) simp
  with Suc.prems(1) have "2 < n" by (simp only: power_Suc)
  ultimately show ?case by (subst left_len.simps) simp
qed

lemma left_len_less: "2 \<le> n \<Longrightarrow> 0 < left_len n \<and> left_len n < n"
proof (induction n rule: left_len.induct)
  case (1 n)
  show ?case
  proof (cases "n \<le> 2")
    case False
    moreover from this have "2 \<le> (n + 1) div 2" by linarith
    ultimately have "0 < left_len ((n + 1) div 2) \<and> left_len ((n + 1) div 2) < (n + 1) div 2" using 1(1) by blast
    then have "0 < 2 * left_len ((n + 1) div 2)" "2 * left_len ((n + 1) div 2) < n" by linarith+
    then show ?thesis using False by (subst (1 2) left_len.simps) simp
  qed (use 1(2) in \<open>simp add: left_len.simps\<close>)
qed

function tree :: "(nat \<Rightarrow> Output) \<Rightarrow> nat \<Rightarrow> nat \<Rightarrow> Output" where
  "tree leaf i n =
     (if n < 2 then leaf i
      else parent (chaining_value (tree leaf i (left_len n)))
             (chaining_value (tree leaf (i + left_len n) (n - left_len n))))"
  by auto
termination by (relation "measure (\<lambda>(_, _, n). n)") (auto simp: left_len_less not_less)

declare tree.simps [simp del]

definition chunk_at :: "u8 list \<Rightarrow> nat \<Rightarrow> u8 list" where
  "chunk_at bs i = take CHUNK (drop (CHUNK * i) bs)"

definition leaf_of :: "u8 list \<Rightarrow> nat \<Rightarrow> Output" where
  "leaf_of bs i = chunk_node IV 0 (of_nat i) (chunk_at bs i)"

definition n_chunks :: "u8 list \<Rightarrow> nat" where
  "n_chunks bs = max 1 ((length bs + 1023) div CHUNK)"

definition blake3 :: "u8 list \<Rightarrow> string" where
  "blake3 bs = hex_of (root_words (tree (leaf_of bs) 0 (n_chunks bs)))"

section \<open>The stack of complete subtrees\<close>

fun perfect :: "(nat \<Rightarrow> Output) \<Rightarrow> nat \<Rightarrow> nat \<Rightarrow> u32 list" where
  "perfect leaf 0 j = chaining_value (leaf j)"
| "perfect leaf (Suc k) j = chaining_value (parent (perfect leaf k (2 * j)) (perfect leaf k (2 * j + 1)))"

text \<open>\<open>n\<close> subtrees of level \<open>k\<close> are complete: one entry per binary digit of \<open>n\<close> that is set.\<close>

fun stack_of :: "(nat \<Rightarrow> Output) \<Rightarrow> nat \<Rightarrow> nat \<Rightarrow> u32 list list" where
  "stack_of leaf k n =
     (if n = 0 then []
      else (if odd n then [perfect leaf k (n - 1)] else []) @ stack_of leaf (Suc k) (n div 2))"

declare stack_of.simps [simp del]

lemma perfect_cong: "(\<And>i. i < (j + 1) * 2 ^ k \<Longrightarrow> l i = l' i) \<Longrightarrow> perfect l k j = perfect l' k j"
proof (induction k arbitrary: j)
  case (Suc k)
  have "perfect l k (2 * j) = perfect l' k (2 * j)" "perfect l k (2 * j + 1) = perfect l' k (2 * j + 1)"
    using Suc.prems by (auto intro!: Suc.IH simp: algebra_simps)
  then show ?case by simp
qed simp

lemma stack_of_cong: "(\<And>i. i < n * 2 ^ k \<Longrightarrow> l i = l' i) \<Longrightarrow> stack_of l k n = stack_of l' k n"
proof (induction l k n rule: stack_of.induct)
  case (1 l k n)
  show ?case
  proof (cases "n = 0")
    case False
    have "n div 2 * 2 ^ Suc k \<le> n * 2 ^ k" by (simp add: div_times_less_eq_dividend mult.commute mult.left_commute)
    then have "stack_of l (Suc k) (n div 2) = stack_of l' (Suc k) (n div 2)"
      using False by (intro 1(1) 1(2)) (auto intro: less_le_trans)
    moreover have "perfect l k (n - 1) = perfect l' k (n - 1)"
      using 1(2) False by (intro perfect_cong) simp
    ultimately show ?thesis using False by (subst (1 2) stack_of.simps) simp
  qed (simp add: stack_of.simps)
qed

lemma stack_of_depth: "n < 2 ^ m \<Longrightarrow> length (stack_of l k n) \<le> m"
proof (induction m arbitrary: k n)
  case (Suc m)
  then have "length (stack_of l (Suc k) (n div 2)) \<le> m" by (intro Suc.IH) (simp add: less_mult_imp_div_less)
  then show ?case by (subst stack_of.simps) simp
qed (simp add: stack_of.simps)

lemma word_and_1: "(w :: u64) AND 1 = 0 \<longleftrightarrow> even (unat w)"
  by (simp only: and_one_eq word_unat_eq_iff unat_mod) (simp add: even_iff_mod_2_eq_zero)

lemma push_chunk_stack:
  assumes "unat w = n" "0 < n"
  shows "push_chunk (perfect l k (n - 1)) w (stack_of l k (n - 1)) = Some (stack_of l k n)"
  using assms
proof (induction n arbitrary: w k rule: less_induct)
  case (less n)
  have half: "unat (drop_bit 1 w) = n div 2" by (simp add: drop_bit_eq_div unat_div less.prems(1))
  show ?case
  proof (cases "even n")
    case True
    then obtain m where m: "n = 2 * m" "0 < m" using less.prems(2) by (elim evenE) auto
    have st: "stack_of l k (n - 1) = perfect l k (2 * (m - 1)) # stack_of l (Suc k) (m - 1)"
    proof -
      have n1: "n - 1 = 2 * (m - 1) + 1" using m by simp
      show ?thesis unfolding n1 by (subst stack_of.simps) simp
    qed
    have "push_chunk (perfect l k (n - 1)) w (stack_of l k (n - 1)) =
        push_chunk (perfect l (Suc k) (m - 1)) (drop_bit 1 w) (stack_of l (Suc k) (m - 1))"
    proof -
      have n1: "n - Suc 0 = Suc (2 * (m - Suc 0))" using m by simp
      show ?thesis using True less.prems(1) unfolding st by (subst push_chunk.simps) (simp add: word_and_1 n1)
    qed
    also have "\<dots> = Some (stack_of l (Suc k) m)" using m half by (intro less.IH) simp_all
    also have "stack_of l (Suc k) m = stack_of l k n" using m True by (subst (2) stack_of.simps) simp
    finally show ?thesis .
  next
    case False
    then have "stack_of l k n = perfect l k (n - 1) # stack_of l (Suc k) (n div 2)"
      by (subst stack_of.simps) (auto dest: odd_pos)
    moreover have "stack_of l k (n - 1) = stack_of l (Suc k) (n div 2)"
      using False by (cases "n = 1") (subst stack_of.simps; auto elim!: oddE simp: stack_of.simps [of _ _ 0])+
    ultimately show ?thesis
      using False less.prems(1) by (subst push_chunk.simps) (simp add: word_and_1)
  qed
qed

lemma perfect_tree: "perfect l k j = chaining_value (tree l (j * 2 ^ k) (2 ^ k))"
proof (induction k arbitrary: j)
  case 0
  then show ?case by (simp add: tree.simps)
next
  case (Suc k)
  have "left_len (2 ^ Suc k) = 2 ^ k" by (intro left_len_eq) simp_all
  moreover have "\<not> (2 :: nat) ^ Suc k < 2" by simp
  ultimately have "tree l (j * 2 ^ Suc k) (2 ^ Suc k) =
      parent (chaining_value (tree l (j * 2 ^ Suc k) (2 ^ k))) (chaining_value (tree l (j * 2 ^ Suc k + 2 ^ k) (2 ^ k)))"
    by (subst tree.simps) simp
  then show ?case using Suc.IH [of "2 * j"] Suc.IH [of "2 * j + 1"] by (simp add: algebra_simps)
qed

text \<open>Folding the stack from its top joins the open subtree with everything before it.\<close>

lemma fold_stack:
  assumes "1 \<le> m" "m \<le> 2 ^ k"
  shows "fold (\<lambda>c o1. parent c (chaining_value o1)) (stack_of l k n) (tree l (n * 2 ^ k) m) = tree l 0 (n * 2 ^ k + m)"
  using assms
proof (induction l k n arbitrary: m rule: stack_of.induct)
  case (1 l k n)
  show ?case
  proof (cases "n = 0")
    case False
    show ?thesis
    proof (cases "odd n")
      case True
      then obtain j where n: "n = 2 * j + 1" by (elim oddE)
      have "left_len (2 ^ k + m) = 2 ^ k" using 1(2,3) by (intro left_len_eq) simp_all
      moreover have "\<not> 2 ^ k + m < 2" using 1(2) one_le_power [of "2 :: nat" k] by linarith
      ultimately have join: "tree l (j * 2 ^ Suc k) (2 ^ k + m) =
          parent (chaining_value (tree l (j * 2 ^ Suc k) (2 ^ k))) (chaining_value (tree l (n * 2 ^ k) m))"
        by (subst tree.simps) (simp add: n algebra_simps)
      have "fold (\<lambda>c o1. parent c (chaining_value o1)) (stack_of l (Suc k) (n div 2)) (tree l (n div 2 * 2 ^ Suc k) (2 ^ k + m)) =
          tree l 0 (n div 2 * 2 ^ Suc k + (2 ^ k + m))"
        using 1(2,3) False by (intro 1(1)) simp_all
      moreover have "n div 2 = j" by (simp add: n)
      moreover have "perfect l k (n - 1) = chaining_value (tree l (j * 2 ^ Suc k) (2 ^ k))"
        by (simp add: perfect_tree n algebra_simps)
      moreover have "stack_of l k n = perfect l k (n - 1) # stack_of l (Suc k) (n div 2)"
        using True False by (subst stack_of.simps) simp
      ultimately show ?thesis using join by (simp add: n algebra_simps)
    next
      case even: False
      then obtain j where n: "n = 2 * j" by (auto elim: evenE)
      have "fold (\<lambda>c o1. parent c (chaining_value o1)) (stack_of l (Suc k) (n div 2)) (tree l (n div 2 * 2 ^ Suc k) m) =
          tree l 0 (n div 2 * 2 ^ Suc k + m)"
        using 1(2,3) False by (intro 1(1)) simp_all
      moreover have "stack_of l k n = stack_of l (Suc k) (n div 2)"
        using even False by (subst stack_of.simps) simp
      ultimately show ?thesis by (simp add: n algebra_simps)
    qed
  qed (simp add: stack_of.simps)
qed

section \<open>The context after some bytes\<close>

definition open_chunk :: "ctx \<Rightarrow> u8 list \<Rightarrow> u8 list" where
  "open_chunk s bs = drop (CHUNK * unat (c_chunk s)) bs"

definition absorbed :: "ctx \<Rightarrow> u8 list \<Rightarrow> bool" where
  "absorbed s bs \<longleftrightarrow>
     CHUNK * unat (c_chunk s) \<le> length bs \<and> length (open_chunk s bs) \<le> CHUNK \<and>
     c_buf s = drop (BLOCK * c_blocks s) (open_chunk s bs) \<and> BLOCK * c_blocks s \<le> length (open_chunk s bs) \<and>
     length (c_buf s) \<le> BLOCK \<and>
     (\<forall>rest. c_buf s @ rest \<noteq> [] \<or> c_blocks s = 0 \<longrightarrow>
        chunk_node IV 0 (c_chunk s) (open_chunk s bs @ rest) = chunk_node (c_cv s) (c_blocks s) (c_chunk s) (c_buf s @ rest)) \<and>
     c_stack s = stack_of (leaf_of bs) 0 (unat (c_chunk s))"

text \<open>Between turns nothing is flushed before more input shows that it is not the last.\<close>

definition settled :: "ctx \<Rightarrow> u8 list \<Rightarrow> bool" where
  "settled s bs \<longleftrightarrow> absorbed s bs \<and> (0 < unat (c_chunk s) \<longrightarrow> open_chunk s bs \<noteq> []) \<and>
     (0 < c_blocks s \<longrightarrow> c_buf s \<noteq> [])"

lemma settled_reset: "settled ctx_reset []"
  by (simp add: settled_def absorbed_def ctx_reset_def open_chunk_def stack_of.simps)

lemma absorbedD:
  assumes "absorbed s bs"
  shows "CHUNK * unat (c_chunk s) \<le> length bs" "length (open_chunk s bs) \<le> CHUNK" "length (c_buf s) \<le> BLOCK"
    and "c_stack s = stack_of (leaf_of bs) 0 (unat (c_chunk s))"
    and "\<forall>rest. c_buf s @ rest \<noteq> [] \<or> c_blocks s = 0 \<longrightarrow>
      chunk_node IV 0 (c_chunk s) (open_chunk s bs @ rest) = chunk_node (c_cv s) (c_blocks s) (c_chunk s) (c_buf s @ rest)"
  using assms unfolding absorbed_def by blast+

lemma settledD: "settled s bs \<Longrightarrow> absorbed s bs"
  by (simp only: settled_def)

lemma absorbed_chunk_bytes: "absorbed s bs \<Longrightarrow> chunk_bytes s = length (open_chunk s bs)"
  by (auto simp: absorbed_def chunk_bytes_def)

lemma settled_output:
  assumes "settled s bs"
  shows "chunk_output s = chunk_node IV 0 (c_chunk s) (open_chunk s bs)"
proof -
  have "c_buf s @ [] \<noteq> [] \<or> c_blocks s = 0" using assms by (auto simp: settled_def)
  then have "chunk_node IV 0 (c_chunk s) (open_chunk s bs @ []) =
      chunk_node (c_cv s) (c_blocks s) (c_chunk s) (c_buf s @ [])"
    by (rule absorbedD(5) [OF settledD [OF assms], rule_format])
  moreover have "chunk_node (c_cv s) (c_blocks s) (c_chunk s) (c_buf s) = chunk_output s"
    using absorbedD(3) [OF settledD [OF assms]] by (subst chunk_node.simps) (simp add: chunk_output_def)
  ultimately show ?thesis by simp
qed

lemma open_chunk_leaf:
  "length (open_chunk s bs) \<le> CHUNK \<Longrightarrow> leaf_of bs (unat (c_chunk s)) = chunk_node IV 0 (c_chunk s) (open_chunk s bs)"
  by (simp add: leaf_of_def chunk_at_def open_chunk_def)

lemma finish_chunk_absorbed:
  assumes "settled s bs" "length bs < 2 ^ 64"
  shows "\<exists>s1. finish_chunk s = Some s1 \<and> absorbed s1 bs \<and> chunk_bytes s1 < CHUNK"
proof (cases "chunk_bytes s = CHUNK")
  case False
  moreover note a = settledD [OF assms(1)]
  moreover have "chunk_bytes s \<le> CHUNK" using absorbedD(2) [OF a] absorbed_chunk_bytes [OF a] by simp
  ultimately show ?thesis by (simp add: finish_chunk_def)
next
  case True
  note a = settledD [OF assms(1)]
  let ?c = "unat (c_chunk s)" and ?l = "leaf_of bs"
  have len: "length (open_chunk s bs) = CHUNK" using True absorbed_chunk_bytes [OF a] by simp
  then have c: "CHUNK * (?c + 1) = length bs" using absorbedD(1) [OF a] by (simp add: open_chunk_def)
  then have next_chunk: "unat (c_chunk s + 1) = ?c + 1" using assms(2) by (subst unat_add_no_wrap) simp_all
  have "push_chunk (perfect ?l 0 ?c) (c_chunk s + 1) (stack_of ?l 0 ?c) = Some (stack_of ?l 0 (?c + 1))"
    using push_chunk_stack [OF next_chunk, of ?l 0] by simp
  moreover have "perfect ?l 0 ?c = chaining_value (chunk_output s)"
    using settled_output [OF assms(1)] open_chunk_leaf [of s bs] len by simp
  moreover note absorbedD(4) [OF a]
  ultimately show ?thesis
    using True c next_chunk by (simp add: finish_chunk_def absorbed_def open_chunk_def chunk_bytes_def)
qed

lemma finish_block_absorbed:
  assumes "absorbed s bs" "chunk_bytes s < CHUNK"
  shows "absorbed (finish_block s) bs \<and> chunk_bytes (finish_block s) < CHUNK \<and> length (c_buf (finish_block s)) < BLOCK"
proof (cases "length (c_buf s) = BLOCK")
  case False
  then have "length (c_buf s) < BLOCK" using absorbedD(3) [OF assms(1)] by (rule le_neq_implies_less [rotated])
  then show ?thesis using assms False by (simp add: finish_block_def)
next
  case True
  have "chunk_node IV 0 (c_chunk s) (open_chunk s bs @ rest) =
      chunk_node (c_cv (finish_block s)) (Suc (c_blocks s)) (c_chunk s) rest" if "rest \<noteq> []" for rest
  proof -
    have "chunk_node IV 0 (c_chunk s) (open_chunk s bs @ rest) =
        chunk_node (c_cv s) (c_blocks s) (c_chunk s) (c_buf s @ rest)"
      by (rule absorbedD(5) [OF assms(1), rule_format]) (use that in simp)
    then show ?thesis using True that by (subst (asm) (2) chunk_node.simps) (simp add: finish_block_def)
  qed
  then show ?thesis
    using assms True by (auto simp: finish_block_def absorbed_def open_chunk_def chunk_bytes_def)
qed

lemma leaf_of_append: "i < unat (c_chunk s) \<Longrightarrow> CHUNK * unat (c_chunk s) \<le> length bs \<Longrightarrow> leaf_of (bs @ t) i = leaf_of bs i"
  by (simp add: leaf_of_def chunk_at_def)

lemma take_settled:
  assumes "absorbed s bs" "t \<noteq> []" "length (c_buf s) + length t \<le> BLOCK" "chunk_bytes s + length t \<le> CHUNK"
  shows "settled (s\<lparr>c_buf := c_buf s @ t\<rparr>) (bs @ t)"
proof -
  let ?s = "s\<lparr>c_buf := c_buf s @ t\<rparr>"
  have c: "CHUNK * unat (c_chunk s) \<le> length bs" using assms(1) by (simp add: absorbed_def)
  have open': "open_chunk ?s (bs @ t) = open_chunk s bs @ t" using c by (simp add: open_chunk_def)
  have "stack_of (leaf_of (bs @ t)) 0 (unat (c_chunk s)) = stack_of (leaf_of bs) 0 (unat (c_chunk s))"
    using c by (intro stack_of_cong leaf_of_append) auto
  moreover have "length (open_chunk s bs) + length t \<le> CHUNK" using assms(4) absorbed_chunk_bytes [OF assms(1)] by simp
  ultimately show ?thesis
    using assms(1-3) open' by (simp add: settled_def absorbed_def)
qed

lemma update_settled:
  "settled s bs \<Longrightarrow> length bs + length p < 2 ^ 64 \<Longrightarrow> \<exists>s'. update p s = Some s' \<and> settled s' (bs @ p)"
proof (induction "length p" arbitrary: p s bs rule: less_induct)
  case less
  show ?case
  proof (cases "p = []")
    case True
    then show ?thesis using less.prems by (subst update.simps) simp
  next
    case False
    obtain s1 where s1: "finish_chunk s = Some s1" "absorbed s1 bs" "chunk_bytes s1 < CHUNK"
      using finish_chunk_absorbed [OF less.prems(1)] less.prems(2) by auto
    define s2 where "s2 = finish_block s1"
    have s2: "absorbed s2 bs" "chunk_bytes s2 < CHUNK" "length (c_buf s2) < BLOCK"
      using finish_block_absorbed [OF s1(2,3)] by (simp_all add: s2_def)
    define n where "n = take_bytes s2 (length p)"
    have n: "0 < n" "n \<le> length p" "length (c_buf s2) + n \<le> BLOCK" "chunk_bytes s2 + n \<le> CHUNK"
      using False s2 by (auto simp: n_def take_bytes_def)
    have "settled (s2\<lparr>c_buf := c_buf s2 @ take n p\<rparr>) (bs @ take n p)"
      using n False by (intro take_settled [OF s2(1)]) simp_all
    then obtain s' where "update (drop n p) (s2\<lparr>c_buf := c_buf s2 @ take n p\<rparr>) = Some s'"
        "settled s' ((bs @ take n p) @ drop n p)"
    proof -
      have "length (drop n p) < length p" using n False by simp
      moreover have "length (bs @ take n p) + length (drop n p) < 2 ^ 64" using less.prems(2) n by simp
      ultimately show ?thesis
        using less.hyps \<open>settled _ (bs @ take n p)\<close> that by blast
    qed
    moreover have "update p s = update (drop n p) (s2\<lparr>c_buf := c_buf s2 @ take n p\<rparr>)"
      using False s1(1) by (subst update.simps) (simp add: s2_def [symmetric] n_def [symmetric] Let_def)
    ultimately show ?thesis by simp
  qed
qed

lemma settled_depth:
  assumes "settled s bs" "length bs < 2 ^ 64"
  shows "length (c_stack s) \<le> 54"
proof -
  have "CHUNK * unat (c_chunk s) < CHUNK * 2 ^ 54"
    using absorbedD(1) [OF settledD [OF assms(1)]] assms(2) by simp
  then have "unat (c_chunk s) < 2 ^ 54" by simp
  then show ?thesis using absorbedD(4) [OF settledD [OF assms(1)]] by (simp add: stack_of_depth)
qed

lemma settled_hex:
  assumes "settled s bs"
  shows "hex s = blake3 bs"
proof -
  let ?c = "unat (c_chunk s)"
  note a = absorbedD [OF settledD [OF assms]]
  have out: "chunk_output s = tree (leaf_of bs) (?c * 2 ^ 0) 1"
    using settled_output [OF assms] open_chunk_leaf [OF a(2)] by (simp add: tree.simps)
  have "root_output s = tree (leaf_of bs) 0 (?c * 2 ^ 0 + 1)"
    unfolding root_output_def a(4) out by (rule fold_stack) simp_all
  moreover have "n_chunks bs = ?c + 1"
  proof -
    have l: "length bs = CHUNK * ?c + length (open_chunk s bs)" using a(1) by (simp add: open_chunk_def)
    show ?thesis
    proof (cases "?c = 0")
      case True
      with l a(2) have "(length bs + 1023) div 1024 \<le> 1" by linarith
      with True show ?thesis by (simp add: n_chunks_def)
    next
      case False
      then have "0 < length (open_chunk s bs)" using assms by (simp add: settled_def)
      with l a(2) have "(length bs + 1023) div 1024 = ?c + 1" by linarith
      then show ?thesis by (simp add: n_chunks_def)
    qed
  qed
  ultimately show ?thesis by (simp add: hex_def blake3_def)
qed

text \<open>
  C11: however the bytes are cut into calls of \<open>update\<close>, every call returns (no pop below the
  stack's bottom), the digest is that of the BLAKE3 tree over all of them, and the stack never
  needs more than its 54 entries.
\<close>

theorem update_pieces_hash:
  assumes "length (concat pieces) < 2 ^ 64"
  shows "\<exists>s. fold (\<lambda>p r. Option.bind r (update p)) pieces (Some ctx_reset) = Some s \<and>
     hex s = blake3 (concat pieces) \<and> length (c_stack s) \<le> 54"
proof -
  have "\<exists>s'. fold (\<lambda>p r. Option.bind r (update p)) ps (Some s) = Some s' \<and> settled s' (bs @ concat ps)"
    if "settled s bs" "length bs + length (concat ps) < 2 ^ 64" for ps s bs
    using that
  proof (induction ps arbitrary: s bs)
    case (Cons p ps)
    obtain s1 where "update p s = Some s1" "settled s1 (bs @ p)"
      using update_settled [of s bs p] Cons.prems by auto
    with Cons.IH [of s1 "bs @ p"] Cons.prems show ?case by simp
  qed simp
  from this [OF settled_reset, of pieces] obtain s where
    s: "fold (\<lambda>p r. Option.bind r (update p)) pieces (Some ctx_reset) = Some s" "settled s (concat pieces)"
    using assms by auto
  with settled_hex [OF s(2)] settled_depth [OF s(2) assms] show ?thesis by blast
qed

theorem update_pieces_hash_witness:
  "\<exists>s. fold (\<lambda>p r. Option.bind r (update p)) [[1, 2], [], [3]] (Some ctx_reset) = Some s \<and> hex s = blake3 [1, 2, 3]"
  using update_pieces_hash [of "[[1, 2], [], [3]]"] by auto

text \<open>
  Pushing the \<open>n\<close>-th finished chunk merges one complete pair per trailing zero bit of \<open>n\<close>
  and leaves one chaining value per set bit, each of a perfect subtree; at most 54 of them for
  every count a 64-bit byte length allows.
\<close>

theorem push_chunk_merges:
  assumes "0 < unat n"
  shows "push_chunk (perfect leaf 0 (unat n - 1)) n (stack_of leaf 0 (unat n - 1)) = Some (stack_of leaf 0 (unat n)) \<and>
     (unat n < 2 ^ 54 \<longrightarrow> length (stack_of leaf 0 (unat n)) \<le> 54)"
  using push_chunk_stack [OF refl assms, of leaf 0] stack_of_depth by blast

theorem push_chunk_merges_witness:
  "push_chunk (perfect (\<lambda>i. parent IV IV) 0 3) 4 (stack_of (\<lambda>i. parent IV IV) 0 3) =
   Some (stack_of (\<lambda>i. parent IV IV) 0 4)"
  using push_chunk_merges [of 4 "\<lambda>i. parent IV IV"] by simp

end
