(* ===== verification/HostNames.thy ===== *)
theory HostNames
  imports Prelude
begin

text \<open>
  The method names of \<open>guest/rd_compute.cpp\<close> and their placement (\<open>NameTable\<close>): the host
  resolves a name through a direct-mapped cache keyed by the name's address, so each name is
  copied to an address with a slot of its own. The pool is a function of the offset, an
  address a 64-bit word; where the linker put the pool and the literals are parameters.
\<close>

unbundle bit_operations_syntax

definition kNameText :: "string list" where
  "kNameText =
     [''compute_list_begin'', ''compute_list_bind_compute_pipeline'', ''compute_list_bind_uniform_set'',
      ''compute_list_dispatch'', ''compute_list_add_barrier'', ''compute_list_end'', ''submit'', ''sync'',
      ''get_process_frames'', ''buffer_update'', ''buffer_copy'', ''buffer_clear'', ''buffer_get_data'',
      ''uniform_set_is_valid'', ''free_rid'', ''shader_create_from_spirv'', ''set_stage_bytecode'',
      ''compute_pipeline_create'', ''storage_buffer_create'', ''uniform_buffer_create'', ''set_uniform_type'',
      ''set_binding'', ''add_id'', ''uniform_set_create'', ''limit_get'', ''create_local_rendering_device'',
      ''free'', ''get_memory_usage'', ''get_device_name'', ''capture_timestamp'',
      ''get_captured_timestamps_count'', ''get_captured_timestamp_gpu_time'']"

abbreviation (input) N_CREATE_LOCAL_DEVICE :: nat where "N_CREATE_LOCAL_DEVICE \<equiv> 25"
abbreviation (input) N_COUNT :: nat where "N_COUNT \<equiv> 32"
abbreviation (input) kHostSlots :: nat where "kHostSlots \<equiv> 32"
abbreviation (input) pool_size :: nat where "pool_size \<equiv> 2048"

definition host_slot :: "u64 \<Rightarrow> nat" where
  "host_slot address = unat (drop_bit 8 (address * 2654435761) AND 31)"

text \<open>Where a name is read from: an offset of the pool, or the literal.\<close>

datatype name_at = Pool nat | Literal

record name_table =
  nt_pool :: "nat \<Rightarrow> char"
  nt_at :: "name_at list"
  nt_len :: "nat list"
  nt_slot :: "nat list"
  nt_distinct :: nat
  nt_used :: "nat \<Rightarrow> bool"
  nt_cursor :: nat

definition empty_table :: name_table where
  "empty_table = \<lparr>nt_pool = (\<lambda>i. CHR 0x00), nt_at = [], nt_len = [], nt_slot = [], nt_distinct = 0,
     nt_used = (\<lambda>s. False), nt_cursor = 0\<rparr>"

text \<open>\<open>memcpy(pool + off, text, n + 1)\<close>: the text and its terminating NUL.\<close>

definition write_name :: "nat \<Rightarrow> string \<Rightarrow> (nat \<Rightarrow> char) \<Rightarrow> nat \<Rightarrow> char" where
  "write_name off s p = (\<lambda>i. if off \<le> i \<and> i \<le> off + length s then (s @ [CHR 0x00]) ! (i - off) else p i)"

text \<open>The first offset from \<open>from\<close> on that holds \<open>n\<close> characters and whose address satisfies \<open>ok\<close>.\<close>

definition scan_pool :: "u64 \<Rightarrow> (nat \<Rightarrow> bool) \<Rightarrow> nat \<Rightarrow> nat \<Rightarrow> nat option" where
  "scan_pool base ok from n = List.find (\<lambda>off. ok (host_slot (base + of_nat off))) [from..<pool_size + 1 - n]"

definition place_name :: "u64 \<Rightarrow> (string \<Rightarrow> u64) \<Rightarrow> string \<Rightarrow> name_table \<Rightarrow> name_table" where
  "place_name base literal s t =
     (let n = length s;
          t = (case scan_pool base (\<lambda>sl. \<not> nt_used t sl) (nt_cursor t) (n + 1) of
                 None \<Rightarrow> t\<lparr>nt_at := nt_at t @ [Literal]\<rparr>
               | Some off \<Rightarrow>
                   t\<lparr>nt_pool := write_name off s (nt_pool t), nt_at := nt_at t @ [Pool off],
                     nt_distinct := nt_distinct t + 1,
                     nt_used := (nt_used t)(host_slot (base + of_nat off) := True), nt_cursor := off + n + 1\<rparr>);
          address = (case last (nt_at t) of Pool off \<Rightarrow> base + of_nat off | Literal \<Rightarrow> literal s)
      in t\<lparr>nt_len := nt_len t @ [n], nt_slot := nt_slot t @ [host_slot address]\<rparr>)"

definition place_names :: "u64 \<Rightarrow> (string \<Rightarrow> u64) \<Rightarrow> name_table" where
  "place_names base literal = fold (place_name base literal) kNameText empty_table"

definition kClockName :: string where
  "kClockName = ''get_ticks_usec''"

text \<open>The clock's name goes to the slot of \<open>create_local_rendering_device\<close>.\<close>

definition place_clock :: "u64 \<Rightarrow> name_table \<Rightarrow> name_at \<times> name_table" where
  "place_clock base t =
     (case scan_pool base (\<lambda>sl. sl = nt_slot t ! N_CREATE_LOCAL_DEVICE) (nt_cursor t) (length kClockName + 1) of
        None \<Rightarrow> (Literal, t)
      | Some off \<Rightarrow> (Pool off, t\<lparr>nt_pool := write_name off kClockName (nt_pool t)\<rparr>))"

text \<open>The constructor: the names, then the clock's.\<close>

definition construct_names :: "u64 \<Rightarrow> (string \<Rightarrow> u64) \<Rightarrow> name_at \<times> name_table" where
  "construct_names base literal = place_clock base (place_names base literal)"

definition nm :: "name_table \<Rightarrow> (string \<Rightarrow> string) \<Rightarrow> nat \<Rightarrow> string" where
  "nm t literal_text i =
     (case nt_at t ! i of
        Pool off \<Rightarrow> map (nt_pool t) [off..<off + nt_len t ! i]
      | Literal \<Rightarrow> take (nt_len t ! i) (literal_text (kNameText ! i)))"

definition name_slots :: "name_table \<Rightarrow> string" where
  "name_slots t = to_string (int (nt_distinct t)) @ '' of '' @ to_string (int N_COUNT) @
     '' RenderingDevice method names in slots of their own (host name cache: '' @ to_string (int kHostSlots) @ '' slots)''"

section \<open>The table as it grows\<close>

text \<open>
  The offsets placed so far: below the cursor, apart from each other, each holding its name,
  and each with a slot no other has.
\<close>

definition placed :: "name_table \<Rightarrow> (nat \<times> nat) set" where
  "placed t = {(i, off). i < length (nt_at t) \<and> nt_at t ! i = Pool off}"

definition table_inv :: "u64 \<Rightarrow> string list \<Rightarrow> name_table \<Rightarrow> bool" where
  "table_inv base names t \<longleftrightarrow>
     length (nt_at t) = length names \<and> nt_len t = map length names \<and> length (nt_slot t) = length names \<and>
     nt_cursor t \<le> pool_size \<and> nt_distinct t = card (placed t) \<and>
     (\<forall>(i, off) \<in> placed t. off + length (names ! i) < nt_cursor t \<and> nt_used t (host_slot (base + of_nat off)) \<and>
        nt_slot t ! i = host_slot (base + of_nat off) \<and>
        map (nt_pool t) [off..<off + length (names ! i) + 1] = names ! i @ [CHR 0x00]) \<and>
     inj_on (\<lambda>(i, off). host_slot (base + of_nat off)) (placed t)"

lemma scan_poolD:
  assumes "scan_pool base ok from n = Some off"
  shows "from \<le> off" "off + n \<le> pool_size" "ok (host_slot (base + of_nat off))"
  using assms by (auto simp: scan_pool_def find_Some_iff)

lemma placed_finite: "finite (placed t)"
proof -
  have "placed t \<subseteq> (\<lambda>i. (i, case nt_at t ! i of Pool off \<Rightarrow> off | Literal \<Rightarrow> 0)) ` {..<length (nt_at t)}"
    by (force simp: placed_def)
  then show ?thesis using finite_surj by blast
qed

lemma read_written: "map (write_name off s p) [off..<off + length s + 1] = s @ [CHR 0x00]"
  by (rule nth_equalityI) (simp_all add: write_name_def del: upt_Suc)

lemma read_below: "off + n \<le> at \<Longrightarrow> map (write_name at s p) [off..<off + n] = map p [off..<off + n]"
  by (auto simp: write_name_def)

lemma host_slot_less: "host_slot a < kHostSlots"
proof -
  have "drop_bit 8 (a * 2654435761) AND 31 \<le> (31 :: u64)" by (rule word_and_le1)
  then show ?thesis by (simp add: host_slot_def word_le_nat_alt)
qed

lemma place_name_literal:
  assumes "scan_pool base (\<lambda>sl. \<not> nt_used t sl) (nt_cursor t) (length s + 1) = None"
  shows "place_name base literal s t = t\<lparr>nt_at := nt_at t @ [Literal], nt_len := nt_len t @ [length s],
    nt_slot := nt_slot t @ [host_slot (literal s)]\<rparr>"
  using assms by (simp add: place_name_def Let_def)

lemma place_name_pool:
  assumes "scan_pool base (\<lambda>sl. \<not> nt_used t sl) (nt_cursor t) (length s + 1) = Some off"
  shows "place_name base literal s t =
    t\<lparr>nt_pool := write_name off s (nt_pool t), nt_at := nt_at t @ [Pool off], nt_distinct := nt_distinct t + 1,
      nt_used := (nt_used t)(host_slot (base + of_nat off) := True), nt_cursor := off + length s + 1,
      nt_len := nt_len t @ [length s], nt_slot := nt_slot t @ [host_slot (base + of_nat off)]\<rparr>"
  using assms by (simp add: place_name_def Let_def)

lemma placed_literal: "placed (t\<lparr>nt_at := nt_at t @ [Literal], nt_len := l, nt_slot := sl\<rparr>) = placed t"
  by (auto simp: placed_def nth_append less_Suc_eq)

lemma placed_pool:
  "placed (t\<lparr>nt_pool := p, nt_at := nt_at t @ [Pool off], nt_distinct := d, nt_used := u, nt_cursor := c, nt_len := l,
     nt_slot := sl\<rparr>) = insert (length (nt_at t), off) (placed t)"
  by (auto simp: placed_def nth_append less_Suc_eq)

lemma place_name_inv:
  assumes inv: "table_inv base names t"
  shows "table_inv base (names @ [s]) (place_name base literal s t)"
proof -
  have at: "length (nt_at t) = length names" "nt_len t = map length names" "length (nt_slot t) = length names"
    "nt_cursor t \<le> pool_size" "nt_distinct t = card (placed t)"
    and each: "\<And>i off. (i, off) \<in> placed t \<Longrightarrow> off + length (names ! i) < nt_cursor t \<and>
        nt_used t (host_slot (base + of_nat off)) \<and> nt_slot t ! i = host_slot (base + of_nat off) \<and>
        map (nt_pool t) [off..<off + length (names ! i) + 1] = names ! i @ [CHR 0x00]"
    and inj: "inj_on (\<lambda>(i, off). host_slot (base + of_nat off)) (placed t)"
    using inv unfolding table_inv_def by blast+
  have lt: "i < length names" if "(i, off) \<in> placed t" for i off using that at(1) by (simp add: placed_def)
  show ?thesis
  proof (cases "scan_pool base (\<lambda>sl. \<not> nt_used t sl) (nt_cursor t) (length s + 1)")
    case None
    show ?thesis
      unfolding table_inv_def place_name_literal [OF None] placed_literal
      using at each inj lt by (auto simp: nth_append simp del: upt_Suc)
  next
    case (Some off)
    note sc = scan_poolD [OF Some]
    let ?slot = "host_slot (base + of_nat off)"
    have new: "(length names, off) \<notin> placed t" using lt by blast
    have card: "card (insert (length names, off) (placed t)) = nt_distinct t + 1"
      using new placed_finite at(5) by simp
    have inj': "inj_on (\<lambda>(i, off). host_slot (base + of_nat off)) (insert (length names, off) (placed t))"
      using inj sc(3) each by (fastforce simp: inj_on_insert)
    have old: "o1 + length (names ! i) < off + length s + 1 \<and> i < length names \<and>
        nt_slot t ! i = host_slot (base + of_nat o1) \<and> nt_used t (host_slot (base + of_nat o1)) \<and>
        map (write_name off s (nt_pool t)) [o1..<o1 + length (names ! i) + 1] = names ! i @ [CHR 0x00]"
      if "(i, o1) \<in> placed t" for i o1
      using each [OF that] lt [OF that] sc(1) read_below [of o1 "length (names ! i) + 1" off s "nt_pool t"]
      by (simp del: upt_Suc)
    show ?thesis
      unfolding table_inv_def place_name_pool [OF Some] placed_pool
      using at card inj' old sc read_written [of off s "nt_pool t"]
      by (auto simp: nth_append simp del: upt_Suc)
  qed
qed

lemma place_names_inv: "table_inv base kNameText (place_names base literal)"
proof -
  have "table_inv base (names @ ns) (fold (place_name base literal) ns t)" if "table_inv base names t" for names ns t
    using that by (induction ns arbitrary: names t) (simp, metis append_Cons append_Nil append_assoc fold_simps(2) place_name_inv)
  moreover have "table_inv base [] empty_table" by (simp add: table_inv_def empty_table_def placed_def)
  ultimately show ?thesis unfolding place_names_def by (metis append_Nil)
qed

lemma names_count: "length kNameText = N_COUNT"
  by (simp add: kNameText_def)

text \<open>The names as the loop leaves them, before the clock's is placed.\<close>

lemma place_names_facts:
  fixes base :: u64 and literal :: "string \<Rightarrow> u64"
  defines "t \<equiv> place_names base literal"
  shows "length (nt_at t) = N_COUNT" "nt_cursor t \<le> pool_size"
    and "nt_distinct t = card {j. j < N_COUNT \<and> nt_at t ! j \<noteq> Literal}"
    and "i < N_COUNT \<Longrightarrow> nt_at t ! i = Pool off \<Longrightarrow> nt_len t ! i = length (kNameText ! i) \<and>
      off + length (kNameText ! i) < nt_cursor t \<and> nt_slot t ! i = host_slot (base + of_nat off) \<and>
      map (nt_pool t) [off..<off + length (kNameText ! i)] = kNameText ! i"
    and "i < N_COUNT \<Longrightarrow> nt_at t ! i = Pool off \<Longrightarrow> j < N_COUNT \<Longrightarrow> nt_at t ! j = Pool off' \<Longrightarrow>
      host_slot (base + of_nat off') = host_slot (base + of_nat off) \<Longrightarrow> j = i"
proof -
  note inv = place_names_inv [of base literal, folded t_def]
  show at: "length (nt_at t) = N_COUNT" and "nt_cursor t \<le> pool_size"
    using inv names_count by (simp_all add: table_inv_def)
  have len: "nt_len t = map length kNameText" and n: "nt_distinct t = card (placed t)"
    and inj: "inj_on (\<lambda>(i, off). host_slot (base + of_nat off)) (placed t)"
    using inv by (simp_all add: table_inv_def)
  show "nt_len t ! i = length (kNameText ! i) \<and> off + length (kNameText ! i) < nt_cursor t \<and>
      nt_slot t ! i = host_slot (base + of_nat off) \<and> map (nt_pool t) [off..<off + length (kNameText ! i)] = kNameText ! i"
    if "i < N_COUNT" "nt_at t ! i = Pool off"
  proof -
    have "(i, off) \<in> placed t" using that at by (simp add: placed_def)
    then have "off + length (kNameText ! i) < nt_cursor t" "nt_slot t ! i = host_slot (base + of_nat off)"
      "map (nt_pool t) [off..<off + length (kNameText ! i) + 1] = kNameText ! i @ [CHR 0x00]"
      using inv unfolding table_inv_def by blast+
    then show ?thesis using that(1) names_count by (simp add: len)
  qed
  show "j = i" if "i < N_COUNT" "nt_at t ! i = Pool off" "j < N_COUNT" "nt_at t ! j = Pool off'"
    "host_slot (base + of_nat off') = host_slot (base + of_nat off)"
  proof -
    have "(i, off) \<in> placed t" "(j, off') \<in> placed t" using that at by (simp_all add: placed_def)
    then show ?thesis using inj_onD [OF inj _ _ \<open>(i, off) \<in> placed t\<close>, of "(j, off')"] that(5) by simp
  qed
  have "fst ` placed t = {j. j < N_COUNT \<and> nt_at t ! j \<noteq> Literal}"
  proof (intro equalityI subsetI)
    fix j assume "j \<in> {j. j < N_COUNT \<and> nt_at t ! j \<noteq> Literal}"
    then obtain o1 where "(j, o1) \<in> placed t" using at by (cases "nt_at t ! j") (auto simp: placed_def)
    then show "j \<in> fst ` placed t" by force
  qed (use at in \<open>auto simp: placed_def\<close>)
  moreover have "inj_on fst (placed t)" by (auto simp: inj_on_def placed_def)
  ultimately show "nt_distinct t = card {j. j < N_COUNT \<and> nt_at t ! j \<noteq> Literal}"
    using n card_image by metis
qed

text \<open>Placing the clock's name changes only the pool, past the names.\<close>

lemma place_clock_facts:
  assumes "place_clock base t = (c, t')"
  shows "nt_at t' = nt_at t" "nt_len t' = nt_len t" "nt_slot t' = nt_slot t" "nt_distinct t' = nt_distinct t"
    and "off + n \<le> nt_cursor t \<Longrightarrow> map (nt_pool t') [off..<off + n] = map (nt_pool t) [off..<off + n]"
    and "c = Pool at \<Longrightarrow> at + length kClockName < pool_size \<and> host_slot (base + of_nat at) = nt_slot t ! N_CREATE_LOCAL_DEVICE \<and>
      map (nt_pool t') [at..<at + length kClockName] = kClockName"
proof -
  show "nt_at t' = nt_at t" "nt_len t' = nt_len t" "nt_slot t' = nt_slot t" "nt_distinct t' = nt_distinct t"
    using assms by (auto simp: place_clock_def split: option.splits)
  show "map (nt_pool t') [off..<off + n] = map (nt_pool t) [off..<off + n]" if "off + n \<le> nt_cursor t"
    using assms that by (auto simp: place_clock_def write_name_def dest!: scan_poolD(1) split: option.splits)
  show "at + length kClockName < pool_size \<and> host_slot (base + of_nat at) = nt_slot t ! N_CREATE_LOCAL_DEVICE \<and>
      map (nt_pool t') [at..<at + length kClockName] = kClockName" if "c = Pool at"
  proof -
    have sc: "scan_pool base (\<lambda>sl. sl = nt_slot t ! N_CREATE_LOCAL_DEVICE) (nt_cursor t) (length kClockName + 1) = Some at"
      and t': "t' = t\<lparr>nt_pool := write_name at kClockName (nt_pool t)\<rparr>"
      using assms that by (auto simp: place_clock_def split: option.splits)
    have "map (nt_pool t') [at..<at + length kClockName + 1] = kClockName @ [CHR 0x00]"
      using read_written [of at kClockName "nt_pool t"] unfolding t' by (simp del: upt_Suc)
    then have "map (nt_pool t') [at..<at + length kClockName] = kClockName" by simp
    then show ?thesis using scan_poolD [OF sc] by simp
  qed
qed

text \<open>
  C22: wherever the linker puts the pool and the literals, after the constructor every name moved
  to the pool reads back as itself, and so does the clock's if it was moved; no two moved names of
  the table share a slot of the host's cache (so neither evicts the other); the clock's name, when
  the name it is meant to share with was moved, shares a slot with that one only; and \<open>distinct\<close>
  counts the moved names.
\<close>

theorem place_names_distinct:
  assumes "construct_names base literal = (c, t)"
  shows "(\<forall>i off. i < N_COUNT \<and> nt_at t ! i = Pool off \<longrightarrow>
       nm t text_of i = kNameText ! i \<and> off + length (kNameText ! i) < pool_size \<and> nt_slot t ! i = host_slot (base + of_nat off) \<and>
       (\<forall>j off'. j < N_COUNT \<and> nt_at t ! j = Pool off' \<and> host_slot (base + of_nat off') = host_slot (base + of_nat off) \<longrightarrow> j = i)) \<and>
     (\<forall>at. c = Pool at \<longrightarrow> at + length kClockName < pool_size \<and> map (nt_pool t) [at..<at + length kClockName] = kClockName \<and>
       (\<forall>j off. nt_at t ! N_CREATE_LOCAL_DEVICE \<noteq> Literal \<and> j < N_COUNT \<and> nt_at t ! j = Pool off \<and>
          host_slot (base + of_nat off) = host_slot (base + of_nat at) \<longrightarrow> j = N_CREATE_LOCAL_DEVICE)) \<and>
     nt_distinct t = card {j. j < N_COUNT \<and> nt_at t ! j \<noteq> Literal}"
proof -
  let ?s = "place_names base literal"
  note P = place_names_facts [where base = base and literal = literal] and C = place_clock_facts [OF assms [unfolded construct_names_def]]
  have name: "nm t text_of i = kNameText ! i \<and> off + length (kNameText ! i) < pool_size \<and> nt_slot t ! i = host_slot (base + of_nat off)"
    if "i < N_COUNT" "nt_at t ! i = Pool off" for i off
  proof -
    have s: "nt_at ?s ! i = Pool off" using that(2) by (simp add: C(1))
    note f = P(4) [OF that(1) s]
    have "map (nt_pool t) [off..<off + length (kNameText ! i)] = kNameText ! i"
      using f C(5) [of off "length (kNameText ! i)"] by (simp only:) simp
    then show ?thesis using f P(2) that(2) by (simp add: C(2,3) nm_def)
  qed
  have uniq: "j = i" if "i < N_COUNT" "nt_at t ! i = Pool off" "j < N_COUNT" "nt_at t ! j = Pool off'"
    "host_slot (base + of_nat off') = host_slot (base + of_nat off)" for i j off off'
    using P(5) that unfolding C(1) by blast
  have "j = N_CREATE_LOCAL_DEVICE" if "c = Pool at" "nt_at t ! N_CREATE_LOCAL_DEVICE \<noteq> Literal" "j < N_COUNT" "nt_at t ! j = Pool off"
    "host_slot (base + of_nat off) = host_slot (base + of_nat at)" for at j off
  proof -
    have "\<exists>o1. nt_at t ! N_CREATE_LOCAL_DEVICE = Pool o1" using that(2) by (cases "nt_at t ! N_CREATE_LOCAL_DEVICE") auto
    then obtain o1 where o1: "nt_at t ! N_CREATE_LOCAL_DEVICE = Pool o1" by blast
    then have "host_slot (base + of_nat o1) = host_slot (base + of_nat off)"
      using P(4) [of N_CREATE_LOCAL_DEVICE, where off = o1] C(6) [OF that(1)] that(5) by (simp add: C(1))
    then show ?thesis using uniq [OF that(3,4) _ o1] by simp
  qed
  then show ?thesis using name uniq P(3) C(1,4,6) by simp
qed

text \<open>With the pool at address 0 the first name goes to its start.\<close>

lemma first_name_at_zero: "nt_at (place_names 0 literal) ! 0 = Pool 0"
proof -
  have keep: "nt_at (fold (place_name 0 literal) ns t) ! 0 = nt_at t ! 0" if "nt_at t \<noteq> []" for ns t
    using that
  proof (induction ns arbitrary: t)
    case (Cons s ns)
    have "nt_at (place_name 0 literal s t) \<noteq> [] \<and> nt_at (place_name 0 literal s t) ! 0 = nt_at t ! 0"
      using Cons.prems by (auto simp: place_name_def Let_def nth_append split: option.splits)
    with Cons.IH show ?case by simp
  qed simp
  obtain s ns where names: "kNameText = s # ns" "length s < 100" by (simp add: kNameText_def)
  have "nt_at (place_name 0 literal s empty_table) = [Pool 0]"
    using names(2) by (simp add: place_name_def scan_pool_def empty_table_def Let_def upt_rec)
  then show ?thesis using keep [of "place_name 0 literal s empty_table" ns] by (simp add: place_names_def names(1))
qed

theorem place_names_distinct_witness:
  "nm (snd (construct_names 0 (\<lambda>s. 0))) (\<lambda>s. s) 0 = ''compute_list_begin''"
proof -
  obtain c t where ct: "construct_names 0 (\<lambda>s. 0) = (c, t)" by fastforce
  then have "nt_at t ! 0 = Pool 0"
    using place_clock_facts(1) [OF ct [unfolded construct_names_def]] first_name_at_zero [of "\<lambda>s. 0"] by simp
  then show ?thesis using place_names_distinct [OF ct, of "\<lambda>s. s"] ct by (force simp: kNameText_def)
qed

end
