(* ===== verification/RdDevice.thy ===== *)
theory RdDevice
  imports Prelude
begin

text \<open>
  \<open>guest/rd_compute.{h,cpp}\<close>: \<open>rdc::Device\<close>, the one GPU layer of the guest. Everything it
  does to the outside is a host call; the host (Godot's RenderingDevice behind the sandbox
  boundary) is a parameter that answers a call, or kills the vmcall at it. The device record
  is guest memory, so it survives a killed call. An \<open>RID\<close> is its index.
\<close>

section \<open>Host calls\<close>

unbundle bit_operations_syntax

datatype (plugins only: code size) rd_call =
    C_render_server | C_create_local u64 | C_free_device u64 | C_instantiate string | C_set_stage_bytecode u64 "u8 list"
  | C_shader_from_spirv u64 | C_pipeline_create int | C_storage_buffer_create u64 "u8 list"
  | C_uniform_buffer_create u64 "u8 list" | C_buffer_update int u64 u64 "u8 list" | C_buffer_get_data int u64 u64
  | C_buffer_copy int int u64 u64 u64 | C_buffer_clear int u64 u64 | C_set_uniform_type u64 int
  | C_set_binding u64 u32 | C_add_id u64 int | C_uniform_set_create "u64 list" int u32
  | C_uniform_set_is_valid int | C_free_rid int | C_limit_get int | C_get_memory_usage int | C_get_device_name
  | C_capture_timestamp string | C_timestamps_count | C_timestamp_gpu_time int | C_list_begin
  | C_bind_pipeline int int | C_bind_uniform_set int int u32 | C_dispatch int u32 u32 u32 | C_barrier int
  | C_list_end | C_submit | C_sync | C_engine | C_process_frames u64 | C_make_permanent int | C_release int

datatype (plugins only: code size) reply = R_rid int | R_int int | R_bytes "u8 list" | R_obj u64 | R_str string | R_nil

type_synonym 'w host = "rd_call \<Rightarrow> 'w \<Rightarrow> reply option \<times> 'w"

text \<open>Reading a reply; the host answers each call with the type its documentation gives.\<close>

definition as_rid :: "reply \<Rightarrow> int" where "as_rid r = (case r of R_rid i \<Rightarrow> i | _ \<Rightarrow> 0)"
definition as_int :: "reply \<Rightarrow> int" where "as_int r = (case r of R_int i \<Rightarrow> i | _ \<Rightarrow> 0)"
definition as_bytes :: "reply \<Rightarrow> u8 list" where "as_bytes r = (case r of R_bytes b \<Rightarrow> b | _ \<Rightarrow> [])"
definition as_obj :: "reply \<Rightarrow> u64" where "as_obj r = (case r of R_obj p \<Rightarrow> p | _ \<Rightarrow> 0)"
definition as_str :: "reply \<Rightarrow> string" where "as_str r = (case r of R_str s \<Rightarrow> s | _ \<Rightarrow> [])"

definition kMaxTransferBytes :: u64 where "kMaxTransferBytes = push_bit 20 16"

record device =
  dv_rd :: u64
  dv_owned :: bool
  dv_list :: int
  dv_step :: string
  dv_err :: string
  dv_engine :: u64
  dv_submit_frame :: int
  dv_same_frame_syncs :: int
  dv_syncs :: int
  dv_submits :: int
  dv_permanent_live :: int
  dv_permanent_rids :: bool
  dv_list_open :: bool
  dv_submitted :: bool
  dv_recovery :: bool
  dv_recoveries :: int
  dv_staging :: int
  dv_staging_bytes :: u64
  dv_staging_max :: u64

definition new_device :: device where
  "new_device = \<lparr>dv_rd = 0, dv_owned = False, dv_list = 0, dv_step = [], dv_err = [], dv_engine = 0,
     dv_submit_frame = - 1, dv_same_frame_syncs = 0, dv_syncs = 0, dv_submits = 0, dv_permanent_live = 0,
     dv_permanent_rids = True, dv_list_open = False, dv_submitted = False, dv_recovery = True, dv_recoveries = 0,
     dv_staging = 0, dv_staging_bytes = 0, dv_staging_max = kMaxTransferBytes\<rparr>"

text \<open>
  A run of guest code on a state: \<open>None\<close> when the vmcall was killed (or a loop ran out of
  fuel). The state of \<open>rdc::Device\<close> is the device record and the world the host sees.
\<close>

type_synonym ('s, 'a) prog = "'s \<Rightarrow> 'a option \<times> 's"
type_synonym ('w, 'a) run = "(device \<times> 'w, 'a) prog"

definition ret :: "'a \<Rightarrow> ('s, 'a) prog" where "ret x s = (Some x, s)"

definition bindR :: "('s, 'a) prog \<Rightarrow> ('a \<Rightarrow> ('s, 'b) prog) \<Rightarrow> ('s, 'b) prog" where
  "bindR m f s = (case m s of (None, s') \<Rightarrow> (None, s') | (Some x, s') \<Rightarrow> f x s')"

definition thenR :: "('s, 'a) prog \<Rightarrow> ('s, 'b) prog \<Rightarrow> ('s, 'b) prog" where
  "thenR m n = bindR m (\<lambda>x. n)"

definition ask :: "('w, device) run" where "ask s = (Some (fst s), s)"
definition upd :: "(device \<Rightarrow> device) \<Rightarrow> ('w, unit) run" where "upd f s = (Some (), f (fst s), snd s)"
definition never :: "('s, 'a) prog" where "never s = (None, s)"

definition call :: "'w host \<Rightarrow> rd_call \<Rightarrow> ('w, reply) run" where
  "call H c s = (case H c (snd s) of (r, w) \<Rightarrow> (r, fst s, w))"

definition set_step :: "string \<Rightarrow> ('w, unit) run" where "set_step t = upd (\<lambda>d. d\<lparr>dv_step := t\<rparr>)"

definition dev_fail :: "string \<Rightarrow> ('w, bool) run" where
  "dev_fail why = thenR (upd (\<lambda>d. d\<lparr>dv_err := ''FAIL at '' @ dv_step d @ '': '' @ why\<rparr>)) (ret False)"

definition rid_or_fail :: "'w host \<Rightarrow> reply \<Rightarrow> ('w, int) run" where
  "rid_or_fail H v =
     (case v of
        R_rid i \<Rightarrow>
          bindR ask (\<lambda>d.
          bindR (if dv_permanent_rids d then bindR (call H (C_make_permanent i)) (\<lambda>r. ret (as_rid r)) else ret i) (\<lambda>k.
          if k = 0 then thenR (dev_fail ''null RID'') (ret 0)
          else if k < 0 then thenR (upd (\<lambda>d. d\<lparr>dv_permanent_live := dv_permanent_live d + 1\<rparr>)) (ret k)
          else ret k))
      | _ \<Rightarrow> thenR (dev_fail ''not an RID'') (ret 0))"

definition forget :: "'w host \<Rightarrow> int \<Rightarrow> ('w, unit) run" where
  "forget H rid =
     (if 0 \<le> rid then ret ()
      else thenR (call H (C_release rid)) (upd (\<lambda>d. d\<lparr>dv_permanent_live := dv_permanent_live d - 1\<rparr>)))"

definition uniform_set_valid :: "'w host \<Rightarrow> int \<Rightarrow> ('w, bool) run" where
  "uniform_set_valid H rid =
     (if rid = 0 then ret False
      else thenR (set_step ''uniform_set_is_valid'')
             (bindR (call H (C_uniform_set_is_valid rid)) (\<lambda>r. ret (as_int r \<noteq> 0))))"

definition dev_open :: "'w host \<Rightarrow> ('w, bool) run" where
  "dev_open H =
     bindR ask (\<lambda>d.
     if dv_rd d \<noteq> 0 then ret True
     else thenR (upd (\<lambda>d. d\<lparr>dv_err := [], dv_step := ''Object(\"RenderingServer\")''\<rparr>))
       (bindR (call H C_render_server) (\<lambda>rs.
        thenR (set_step ''create_local_rendering_device'')
       (bindR (call H (C_create_local (as_obj rs))) (\<lambda>v.
        case v of
          R_obj p \<Rightarrow> thenR (upd (\<lambda>d. d\<lparr>dv_rd := p, dv_owned := True\<rparr>))
            (if p = 0 then dev_fail ''null device'' else ret True)
        | _ \<Rightarrow> dev_fail ''not an Object (headless? run with --rendering-driver vulkan)'')))))"

definition dev_adopt :: "u64 \<Rightarrow> ('w, unit) run" where
  "dev_adopt rd = upd (\<lambda>d. d\<lparr>dv_rd := rd, dv_owned := False, dv_list_open := False, dv_submitted := False, dv_err := []\<rparr>)"

definition free_rid :: "'w host \<Rightarrow> int \<Rightarrow> ('w, unit) run" where
  "free_rid H rid =
     (if rid = 0 then ret ()
      else thenR (set_step ''free_rid'') (thenR (call H (C_free_rid rid)) (forget H rid)))"

definition dev_close :: "'w host \<Rightarrow> ('w, unit) run" where
  "dev_close H =
     bindR ask (\<lambda>d.
     thenR (if dv_staging d \<noteq> 0
            then thenR (if dv_rd d \<noteq> 0 then free_rid H (dv_staging d) else forget H (dv_staging d))
                   (upd (\<lambda>d. d\<lparr>dv_staging := 0, dv_staging_bytes := 0\<rparr>))
            else ret ())
     (bindR ask (\<lambda>d.
     thenR (if dv_rd d \<noteq> 0 \<and> dv_owned d
            then thenR (set_step ''free'') (thenR (call H (C_free_device (dv_rd d))) (ret ())) else ret ())
     (upd (\<lambda>d. d\<lparr>dv_rd := 0, dv_owned := False, dv_list_open := False, dv_submitted := False\<rparr>)))))"

section \<open>Recording\<close>

definition list_end :: "'w host \<Rightarrow> ('w, unit) run" where
  "list_end H = thenR (set_step ''compute_list_end'') (thenR (call H C_list_end) (upd (\<lambda>d. d\<lparr>dv_list_open := False\<rparr>)))"

definition recover :: "'w host \<Rightarrow> ('w, bool) run" where
  "recover H =
     bindR ask (\<lambda>d.
     if \<not> dv_list_open d \<or> \<not> dv_recovery d then ret False
     else thenR (list_end H) (thenR (upd (\<lambda>d. d\<lparr>dv_recoveries := dv_recoveries d + 1\<rparr>)) (ret True)))"

definition list_begin :: "'w host \<Rightarrow> ('w, bool) run" where
  "list_begin H =
     thenR (recover H)
     (thenR (upd (\<lambda>d. d\<lparr>dv_step := ''compute_list_begin'', dv_list_open := True\<rparr>))
     (bindR (call H C_list_begin) (\<lambda>r. thenR (upd (\<lambda>d. d\<lparr>dv_list := as_int r\<rparr>)) (ret True))))"

definition bind_pipeline :: "'w host \<Rightarrow> int \<Rightarrow> ('w, unit) run" where
  "bind_pipeline H pipeline =
     thenR (set_step ''compute_list_bind_compute_pipeline'')
       (bindR ask (\<lambda>d. thenR (call H (C_bind_pipeline (dv_list d) pipeline)) (ret ())))"

definition bind_uniform_set :: "'w host \<Rightarrow> int \<Rightarrow> u32 \<Rightarrow> ('w, unit) run" where
  "bind_uniform_set H uset at =
     thenR (set_step ''compute_list_bind_uniform_set'')
       (bindR ask (\<lambda>d. thenR (call H (C_bind_uniform_set (dv_list d) uset at)) (ret ())))"

definition dispatch :: "'w host \<Rightarrow> u32 \<Rightarrow> u32 \<Rightarrow> u32 \<Rightarrow> ('w, unit) run" where
  "dispatch H gx gy gz =
     thenR (set_step ''compute_list_dispatch'')
       (bindR ask (\<lambda>d. thenR (call H (C_dispatch (dv_list d) gx gy gz)) (ret ())))"

definition barrier :: "'w host \<Rightarrow> ('w, unit) run" where
  "barrier H =
     thenR (set_step ''compute_list_add_barrier'') (bindR ask (\<lambda>d. thenR (call H (C_barrier (dv_list d))) (ret ())))"

definition process_frame :: "'w host \<Rightarrow> ('w, int) run" where
  "process_frame H =
     bindR ask (\<lambda>d.
     thenR (if dv_engine d = 0
            then bindR (call H C_engine) (\<lambda>r. upd (\<lambda>d. d\<lparr>dv_engine := as_obj r\<rparr>)) else ret ())
     (bindR ask (\<lambda>d. bindR (call H (C_process_frames (dv_engine d))) (\<lambda>r. ret (as_int r)))))"

definition submit :: "'w host \<Rightarrow> ('w, unit) run" where
  "submit H =
     thenR (recover H) (thenR (set_step ''submit'') (thenR (call H C_submit)
     (thenR (upd (\<lambda>d. d\<lparr>dv_submitted := True\<rparr>))
     (bindR (process_frame H) (\<lambda>f. upd (\<lambda>d. d\<lparr>dv_submit_frame := f, dv_submits := dv_submits d + 1\<rparr>))))))"

definition sync :: "'w host \<Rightarrow> ('w, unit) run" where
  "sync H =
     thenR (set_step ''sync'')
     (bindR (process_frame H) (\<lambda>f.
      thenR (upd (\<lambda>d. if f = dv_submit_frame d then d\<lparr>dv_same_frame_syncs := dv_same_frame_syncs d + 1\<rparr> else d))
      (thenR (upd (\<lambda>d. d\<lparr>dv_syncs := dv_syncs d + 1\<rparr>))
      (thenR (call H C_sync) (upd (\<lambda>d. d\<lparr>dv_submitted := False\<rparr>))))))"

section \<open>Resources\<close>

definition shader_from_spirv :: "'w host \<Rightarrow> u8 list \<Rightarrow> ('w, int) run" where
  "shader_from_spirv H spirv =
     thenR (set_step ''ClassDB::instantiate(RDShaderSPIRV)'')
     (bindR (call H (C_instantiate ''RDShaderSPIRV'')) (\<lambda>sp.
      thenR (set_step ''set_stage_bytecode'')
      (thenR (call H (C_set_stage_bytecode (as_obj sp) spirv))
      (thenR (set_step ''shader_create_from_spirv'')
      (bindR (call H (C_shader_from_spirv (as_obj sp))) (rid_or_fail H))))))"

definition compute_pipeline :: "'w host \<Rightarrow> int \<Rightarrow> ('w, int) run" where
  "compute_pipeline H shader =
     thenR (set_step ''compute_pipeline_create'') (bindR (call H (C_pipeline_create shader)) (rid_or_fail H))"

definition bytes_or_zeros :: "u64 \<Rightarrow> u8 list option \<Rightarrow> u8 list" where
  "bytes_or_zeros bytes data =
     (case data of Some b \<Rightarrow> take (unat bytes) b | None \<Rightarrow> replicate (unat bytes) 0)"

definition buffer_clear :: "'w host \<Rightarrow> int \<Rightarrow> u64 \<Rightarrow> u64 \<Rightarrow> ('w, bool) run" where
  "buffer_clear H buffer offset bytes =
     thenR (recover H) (thenR (set_step ''buffer_clear'')
     (bindR (call H (C_buffer_clear buffer offset bytes)) (\<lambda>err.
      if as_int err \<noteq> 0 then dev_fail ''Godot Error != OK'' else ret True)))"

definition buffer_copy :: "'w host \<Rightarrow> int \<Rightarrow> int \<Rightarrow> u64 \<Rightarrow> u64 \<Rightarrow> u64 \<Rightarrow> ('w, bool) run" where
  "buffer_copy H src dst bytes src_offset dst_offset =
     thenR (recover H) (thenR (set_step ''buffer_copy'')
     (bindR (call H (C_buffer_copy src dst src_offset dst_offset bytes)) (\<lambda>err.
      if as_int err \<noteq> 0 then dev_fail ''Godot Error != OK'' else ret True)))"

definition storage_buffer_uninit :: "'w host \<Rightarrow> u64 \<Rightarrow> ('w, int) run" where
  "storage_buffer_uninit H bytes =
     thenR (set_step ''storage_buffer_create'') (bindR (call H (C_storage_buffer_create bytes [])) (rid_or_fail H))"

definition storage_buffer_empty :: "'w host \<Rightarrow> u64 \<Rightarrow> bool \<Rightarrow> ('w, int) run" where
  "storage_buffer_empty H bytes clear =
     (let bytes = (bytes + 3) AND NOT 3 in
      bindR (storage_buffer_uninit H bytes) (\<lambda>r.
      if r \<noteq> 0 \<and> clear
      then bindR (buffer_clear H r 0 bytes) (\<lambda>ok. if \<not> ok then thenR (free_rid H r) (ret 0) else ret r)
      else ret r))"

text \<open>One \<open>buffer_update\<close> call per transfer, from byte \<open>at\<close> (\<open>done\<close> in the code) on.\<close>

function update_from :: "'w host \<Rightarrow> int \<Rightarrow> u64 \<Rightarrow> u64 \<Rightarrow> u8 list \<Rightarrow> u64 \<Rightarrow> ('w, bool) run" where
  "update_from H buffer offset bytes data at =
     (let n = min (bytes - at) kMaxTransferBytes in
      bindR (call H (C_buffer_update buffer (offset + at) n (take (unat n) (drop (unat at) data)))) (\<lambda>err.
      if as_int err \<noteq> 0 then dev_fail ''Godot Error != OK''
      else if at + n < bytes then update_from H buffer offset bytes data (at + n) else ret True))"
  by auto

lemma transfer_pos: "0 < kMaxTransferBytes"
  by (simp add: kMaxTransferBytes_def push_bit_eq_mult)

lemma update_from_less:
  assumes "at + min (bytes - at) kMaxTransferBytes < (bytes :: u64)"
  shows "unat (bytes - (at + min (bytes - at) kMaxTransferBytes)) < unat (bytes - at)"
proof -
  let ?n = "min (bytes - at) kMaxTransferBytes"
  have n0: "?n \<noteq> 0"
  proof
    assume z: "?n = 0"
    then have "bytes - at = 0" using transfer_pos by (auto simp: min_def split: if_splits)
    with z assms show False by simp
  qed
  have le: "?n \<le> bytes - at" by simp
  have "0 < unat ?n" using n0 unat_gt_0 by blast
  moreover have "unat ?n \<le> unat (bytes - at)" using le unfolding word_le_nat_alt .
  moreover have "unat (bytes - (at + ?n)) = unat (bytes - at) - unat ?n"
    using unat_sub_no_wrap [OF le] by (simp only: diff_diff_eq)
  ultimately show ?thesis by linarith
qed

termination update_from
  by (relation "measure (\<lambda>(H, b, off, bytes, data, at). unat (bytes - at))")
    (simp_all add: update_from_less)

declare update_from.simps [simp del]

definition buffer_update :: "'w host \<Rightarrow> int \<Rightarrow> u64 \<Rightarrow> u64 \<Rightarrow> u8 list \<Rightarrow> ('w, bool) run" where
  "buffer_update H buffer offset bytes data =
     thenR (recover H) (thenR (set_step ''buffer_update'') (update_from H buffer offset bytes data 0))"

definition storage_buffer :: "'w host \<Rightarrow> u64 \<Rightarrow> u8 list option \<Rightarrow> ('w, int) run" where
  "storage_buffer H bytes data =
     (if kMaxTransferBytes < bytes
      then bindR (storage_buffer_empty H bytes (data = None)) (\<lambda>r.
        case data of
          None \<Rightarrow> ret r
        | Some b \<Rightarrow>
            if r \<noteq> 0
            then bindR (buffer_update H r 0 bytes b) (\<lambda>ok. if \<not> ok then thenR (free_rid H r) (ret 0) else ret r)
            else ret r)
      else thenR (set_step ''storage_buffer_create'')
        (bindR (call H (C_storage_buffer_create bytes (bytes_or_zeros bytes data))) (rid_or_fail H)))"

definition uniform_buffer :: "'w host \<Rightarrow> u64 \<Rightarrow> u8 list option \<Rightarrow> ('w, int) run" where
  "uniform_buffer H bytes data =
     thenR (set_step ''uniform_buffer_create'')
       (bindR (call H (C_uniform_buffer_create bytes (bytes_or_zeros bytes data))) (rid_or_fail H))"

definition buffer_get :: "'w host \<Rightarrow> int \<Rightarrow> u64 \<Rightarrow> u64 \<Rightarrow> ('w, u8 list) run" where
  "buffer_get H buffer offset bytes =
     thenR (recover H) (thenR (set_step ''buffer_get_data'')
     (bindR (call H (C_buffer_get_data buffer offset bytes)) (\<lambda>v. ret (as_bytes v))))"

text \<open>
  The loop of \<open>buffer_get_into\<close> with \<open>fuel\<close> turns left: \<open>got\<close> is the part of \<open>out\<close> already
  written. Every turn takes at least one byte, so as many turns as bytes are enough.
\<close>

primrec get_from :: "nat \<Rightarrow> 'w host \<Rightarrow> int \<Rightarrow> u64 \<Rightarrow> u64 \<Rightarrow> u64 \<Rightarrow> u8 list \<Rightarrow> ('w, u8 list option) run" where
  "get_from 0 H buffer offset bytes at got = (if \<not> at < bytes then ret (Some got) else never)"
| "get_from (Suc fuel) H buffer offset bytes at got =
     (if \<not> at < bytes then ret (Some got)
      else bindR ask (\<lambda>d.
        let n = min (bytes - at) (dv_staging_bytes d);
            lo = (offset + at) AND NOT 3;
            skew = (offset + at) - lo;
            span = min (dv_staging_bytes d) ((skew + n + 3) AND NOT 3);
            taken = min n (span - skew)
        in bindR (buffer_copy H buffer (dv_staging d) span lo 0) (\<lambda>ok.
           if \<not> ok then ret None
           else thenR (set_step ''buffer_get_data (staging)'')
             (bindR (call H (C_buffer_get_data (dv_staging d) 0 span)) (\<lambda>v.
              if length (as_bytes v) < unat span then thenR (dev_fail ''short staging read'') (ret None)
              else get_from fuel H buffer offset bytes (at + taken)
                     (got @ take (unat taken) (drop (unat skew) (as_bytes v))))))))"

definition grow_staging :: "'w host \<Rightarrow> u64 \<Rightarrow> ('w, bool) run" where
  "grow_staging H bytes =
     bindR ask (\<lambda>d.
     let want = min (dv_staging_max d) ((bytes + 255) AND NOT 255) in
     if dv_staging_bytes d < want
     then thenR (if dv_staging d \<noteq> 0
                 then thenR (free_rid H (dv_staging d)) (upd (\<lambda>d. d\<lparr>dv_staging := 0, dv_staging_bytes := 0\<rparr>))
                 else ret ())
          (bindR (storage_buffer_empty H want False) (\<lambda>r.
           thenR (upd (\<lambda>d. d\<lparr>dv_staging := r\<rparr>))
           (if r = 0 then ret False else thenR (upd (\<lambda>d. d\<lparr>dv_staging_bytes := want\<rparr>)) (ret True))))
     else ret True)"

definition buffer_get_into :: "'w host \<Rightarrow> int \<Rightarrow> u64 \<Rightarrow> u64 \<Rightarrow> ('w, u8 list option) run" where
  "buffer_get_into H buffer offset bytes =
     bindR ask (\<lambda>d.
     if dv_submitted d
     then thenR (set_step ''buffer_get_into'') (thenR (dev_fail ''the device is submitted; sync() first'') (ret None))
     else if bytes = 0 then ret (Some [])
     else bindR (grow_staging H bytes) (\<lambda>ok.
          if \<not> ok then ret None else get_from (unat bytes) H buffer offset bytes 0 []))"

definition set_staging_max :: "u64 \<Rightarrow> ('w, unit) run" where
  "set_staging_max bytes =
     upd (\<lambda>d. d\<lparr>dv_staging_max := (if bytes < 256 then 256 else if kMaxTransferBytes < bytes then kMaxTransferBytes else bytes)\<rparr>)"

text \<open>\<open>Binding\<close>: a binding slot, a uniform type and a buffer.\<close>

fun make_uniforms :: "'w host \<Rightarrow> (u32 \<times> int \<times> int) list \<Rightarrow> u64 list \<Rightarrow> ('w, u64 list) run" where
  "make_uniforms H [] acc = ret acc"
| "make_uniforms H ((binding, ty, rid) # bs) acc =
     bindR (call H (C_instantiate ''RDUniform'')) (\<lambda>un.
     thenR (call H (C_set_uniform_type (as_obj un) ty))
     (thenR (call H (C_set_binding (as_obj un) binding))
     (thenR (call H (C_add_id (as_obj un) rid))
     (make_uniforms H bs (acc @ [as_obj un])))))"

definition uniform_set :: "'w host \<Rightarrow> int \<Rightarrow> (u32 \<times> int \<times> int) list \<Rightarrow> u32 \<Rightarrow> ('w, int) run" where
  "uniform_set H shader bindings at =
     thenR (set_step ''RDUniform'')
     (bindR (make_uniforms H bindings []) (\<lambda>uniforms.
      thenR (set_step ''uniform_set_create'')
      (bindR (call H (C_uniform_set_create uniforms shader at)) (rid_or_fail H))))"

definition limit_get :: "'w host \<Rightarrow> int \<Rightarrow> ('w, int) run" where
  "limit_get H limit = thenR (set_step ''limit_get'') (bindR (call H (C_limit_get limit)) (\<lambda>r. ret (as_int r)))"

definition memory_usage :: "'w host \<Rightarrow> ('w, int) run" where
  "memory_usage H = thenR (set_step ''get_memory_usage'') (bindR (call H (C_get_memory_usage 2)) (\<lambda>r. ret (as_int r)))"

definition device_name :: "'w host \<Rightarrow> ('w, string) run" where
  "device_name H = thenR (set_step ''get_device_name'') (bindR (call H C_get_device_name) (\<lambda>r. ret (as_str r)))"

definition capture_timestamp :: "'w host \<Rightarrow> string \<Rightarrow> ('w, unit) run" where
  "capture_timestamp H name = thenR (set_step ''capture_timestamp'') (thenR (call H (C_capture_timestamp name)) (ret ()))"

definition timestamps_count :: "'w host \<Rightarrow> ('w, int) run" where
  "timestamps_count H =
     thenR (set_step ''get_captured_timestamps_count'') (bindR (call H C_timestamps_count) (\<lambda>r. ret (as_int r)))"

definition timestamp_gpu_ns :: "'w host \<Rightarrow> int \<Rightarrow> ('w, int) run" where
  "timestamp_gpu_ns H index =
     thenR (set_step ''get_captured_timestamp_gpu_time'')
       (bindR (call H (C_timestamp_gpu_time index)) (\<lambda>r. ret (as_int r)))"

definition groups_for :: "u32 \<Rightarrow> u32 \<Rightarrow> u32" where
  "groups_for threads threadgroup = (threads + threadgroup - 1) div threadgroup"

section \<open>Every public call\<close>

datatype (plugins only: code size) dev_op =
    Op_shader "u8 list" | Op_pipeline int | Op_storage_buffer u64 "u8 list option" | Op_storage_uninit u64
  | Op_storage_empty u64 bool | Op_uniform_buffer u64 "u8 list option" | Op_update int u64 u64 "u8 list"
  | Op_get int u64 u64 | Op_get_into int u64 u64 | Op_staging_max u64 | Op_copy int int u64 u64 u64
  | Op_clear int u64 u64 | Op_uniform_set int "(u32 \<times> int \<times> int) list" u32 | Op_free_rid int | Op_forget int
  | Op_set_valid int | Op_limit int | Op_memory | Op_name | Op_timestamp string | Op_ts_count | Op_ts_ns int
  | Op_list_begin | Op_bind_pipeline int | Op_bind_set int u32 | Op_dispatch u32 u32 u32 | Op_barrier
  | Op_list_end | Op_submit | Op_sync | Op_frame | Op_recover | Op_open | Op_adopt u64 | Op_close

definition void :: "('s, 'a) prog \<Rightarrow> ('s, unit) prog" where "void m = bindR m (\<lambda>x. ret ())"

fun do_op :: "'w host \<Rightarrow> dev_op \<Rightarrow> ('w, unit) run" where
  "do_op H (Op_shader b) = void (shader_from_spirv H b)"
| "do_op H (Op_pipeline r) = void (compute_pipeline H r)"
| "do_op H (Op_storage_buffer n b) = void (storage_buffer H n b)"
| "do_op H (Op_storage_uninit n) = void (storage_buffer_uninit H n)"
| "do_op H (Op_storage_empty n c) = void (storage_buffer_empty H n c)"
| "do_op H (Op_uniform_buffer n b) = void (uniform_buffer H n b)"
| "do_op H (Op_update r off n b) = void (buffer_update H r off n b)"
| "do_op H (Op_get r off n) = void (buffer_get H r off n)"
| "do_op H (Op_get_into r off n) = void (buffer_get_into H r off n)"
| "do_op H (Op_staging_max n) = set_staging_max n"
| "do_op H (Op_copy a b n i j) = void (buffer_copy H a b n i j)"
| "do_op H (Op_clear r off n) = void (buffer_clear H r off n)"
| "do_op H (Op_uniform_set sh bs i) = void (uniform_set H sh bs i)"
| "do_op H (Op_free_rid r) = free_rid H r"
| "do_op H (Op_forget r) = forget H r"
| "do_op H (Op_set_valid r) = void (uniform_set_valid H r)"
| "do_op H (Op_limit l) = void (limit_get H l)"
| "do_op H Op_memory = void (memory_usage H)"
| "do_op H Op_name = void (device_name H)"
| "do_op H (Op_timestamp s) = capture_timestamp H s"
| "do_op H Op_ts_count = void (timestamps_count H)"
| "do_op H (Op_ts_ns i) = void (timestamp_gpu_ns H i)"
| "do_op H Op_list_begin = void (list_begin H)"
| "do_op H (Op_bind_pipeline r) = bind_pipeline H r"
| "do_op H (Op_bind_set r i) = bind_uniform_set H r i"
| "do_op H (Op_dispatch x y z) = dispatch H x y z"
| "do_op H Op_barrier = barrier H"
| "do_op H Op_list_end = list_end H"
| "do_op H Op_submit = submit H"
| "do_op H Op_sync = sync H"
| "do_op H Op_frame = void (process_frame H)"
| "do_op H Op_recover = void (recover H)"
| "do_op H Op_open = void (dev_open H)"
| "do_op H (Op_adopt p) = dev_adopt p"
| "do_op H Op_close = dev_close H"

text \<open>A run from \<open>P\<close> that ends is in \<open>Q\<close>; one that is killed leaves a state in \<open>K\<close>.\<close>

definition safe :: "('s \<Rightarrow> bool) \<Rightarrow> ('s \<Rightarrow> bool) \<Rightarrow> ('s, 'a) prog \<Rightarrow> ('s \<Rightarrow> bool) \<Rightarrow> bool" where
  "safe K P m Q \<longleftrightarrow> (\<forall>s. P s \<longrightarrow> (case m s of (None, s') \<Rightarrow> K s' | (Some x, s') \<Rightarrow> Q s'))"

lemma safe_ret [intro!]: "safe K P (ret x) P"
  by (simp add: safe_def ret_def)

lemma safe_never [intro!]: "(\<And>s. P s \<Longrightarrow> K s) \<Longrightarrow> safe K P never Q"
  by (simp add: safe_def never_def)

lemma safe_bind: "safe K P m Q \<Longrightarrow> (\<And>x. safe K Q (f x) R) \<Longrightarrow> safe K P (bindR m f) R"
  by (fastforce simp: safe_def bindR_def split: prod.splits option.splits)

lemma safe_then: "safe K P m Q \<Longrightarrow> safe K Q n R \<Longrightarrow> safe K P (thenR m n) R"
  unfolding thenR_def by (rule safe_bind)

lemma safe_ask: "(\<And>d. safe K P (f d) R) \<Longrightarrow> safe K P (bindR ask f) R"
  by (auto simp: safe_def bindR_def ask_def)

lemma safe_upd: "(\<And>d w. P (d, w) \<Longrightarrow> Q (f d, w)) \<Longrightarrow> safe K P (upd f) Q"
  by (simp add: safe_def upd_def)

lemma safe_call:
  "(\<And>d w r w'. P (d, w) \<Longrightarrow> H c w = (r, w') \<Longrightarrow> (r = None \<longrightarrow> K (d, w')) \<and> (r \<noteq> None \<longrightarrow> Q (d, w'))) \<Longrightarrow>
   safe K P (call H c) Q"
  by (fastforce simp: safe_def call_def split: prod.splits option.splits)

lemma safeD:
  assumes "safe K P m Q" "P s"
  shows "case m s of (None, s') \<Rightarrow> K s' | (Some x, s') \<Rightarrow> Q s'"
  using assms(1) [unfolded safe_def, THEN spec, of s] assms(2) by (rule mp)

lemma safe_weaken: "safe K P m Q \<Longrightarrow> (\<And>s. P' s \<Longrightarrow> P s) \<Longrightarrow> (\<And>s. Q s \<Longrightarrow> Q' s) \<Longrightarrow> safe K P' m Q'"
  by (fastforce simp: safe_def split: prod.splits option.splits)

section \<open>Operations that record nothing\<close>

definition needs_no_list :: "rd_call \<Rightarrow> bool" where
  "needs_no_list c =
     (case c of C_buffer_update _ _ _ _ \<Rightarrow> True | C_buffer_get_data _ _ _ \<Rightarrow> True | C_buffer_copy _ _ _ _ _ \<Rightarrow> True
      | C_buffer_clear _ _ _ \<Rightarrow> True | C_list_begin \<Rightarrow> True | C_submit \<Rightarrow> True | _ \<Rightarrow> False)"

text \<open>\<open>P\<close> survives every call Godot takes while a list is open, and every change but the list's.\<close>

definition tame :: "'w host \<Rightarrow> (device \<times> 'w \<Rightarrow> bool) \<Rightarrow> (device \<times> 'w \<Rightarrow> bool) \<Rightarrow> bool" where
  "tame H K P \<longleftrightarrow>
     (\<forall>c. \<not> needs_no_list c \<longrightarrow> safe K P (call H c) P) \<and>
     (\<forall>f. (\<forall>d. dv_list_open (f d) = dv_list_open d \<and> dv_recovery (f d) = dv_recovery d) \<longrightarrow> safe K P (upd f) P)"

lemma tame_call: "tame H K P \<Longrightarrow> \<not> needs_no_list c \<Longrightarrow> safe K P (call H c) P"
  by (simp add: tame_def)

lemma tame_upd:
  "tame H K P \<Longrightarrow> (\<And>d. dv_list_open (f d) = dv_list_open d \<and> dv_recovery (f d) = dv_recovery d) \<Longrightarrow> safe K P (upd f) P"
  by (simp add: tame_def)

lemma same_ask: "(\<And>d. safe K P (f d) P) \<Longrightarrow> safe K P (bindR ask f) P"
  by (rule safe_ask)

lemma same_bind: "safe K P m P \<Longrightarrow> (\<And>x. safe K P (f x) P) \<Longrightarrow> safe K P (bindR m f) P"
  by (rule safe_bind)

lemma same_then: "safe K P m P \<Longrightarrow> safe K P n P \<Longrightarrow> safe K P (thenR m n) P"
  by (rule safe_then)

lemma same_if: "safe K P m P \<Longrightarrow> safe K P n P \<Longrightarrow> safe K P (if b then m else n) P"
  by simp

lemma same_reply:
  "(\<And>i. safe K P (f i) P) \<Longrightarrow> safe K P m P \<Longrightarrow> safe K P (case v of R_rid i \<Rightarrow> f i | _ \<Rightarrow> m) P"
  by (cases v) simp_all

lemma same_option: "safe K P m P \<Longrightarrow> (\<And>x. safe K P (f x) P) \<Longrightarrow> safe K P (case v of None \<Rightarrow> m | Some x \<Rightarrow> f x) P"
  by (cases v) simp_all

lemmas same_rules = same_ask same_bind same_then same_if same_reply same_option safe_ret

lemmas tame_defs = set_step_def dev_fail_def rid_or_fail_def forget_def free_rid_def process_frame_def sync_def
  shader_from_spirv_def compute_pipeline_def storage_buffer_uninit_def uniform_buffer_def uniform_set_def
  uniform_set_valid_def limit_get_def memory_usage_def device_name_def capture_timestamp_def timestamps_count_def
  timestamp_gpu_ns_def set_staging_max_def bind_pipeline_def bind_uniform_set_def dispatch_def barrier_def void_def

lemma tame_uniforms:
  assumes "tame H K P"
  shows "safe K P (make_uniforms H bs acc) P"
proof (induction bs arbitrary: acc)
  case (Cons b bs)
  obtain binding ty rid where "b = (binding, ty, rid)" by (metis surj_pair)
  then show ?case
    unfolding make_uniforms.simps
    by (simp only: make_uniforms.simps)
      (intro same_rules tame_call [OF assms] Cons.IH, simp_all add: needs_no_list_def)
qed (simp add: safe_ret)

lemma tame_quiet:
  assumes "tame H K P"
  shows "safe K P (set_step t) P" "safe K P (dev_fail why) P" "safe K P (rid_or_fail H v) P" "safe K P (free_rid H r) P"
    "safe K P (forget H r) P" "safe K P (process_frame H) P" "safe K P (sync H) P"
    "safe K P (shader_from_spirv H b) P" "safe K P (compute_pipeline H r) P" "safe K P (storage_buffer_uninit H n) P"
    "safe K P (uniform_buffer H n data) P" "safe K P (uniform_set H sh bs i) P"
    "safe K P (uniform_set_valid H r) P" "safe K P (limit_get H l) P" "safe K P (memory_usage H) P"
    "safe K P (device_name H) P" "safe K P (capture_timestamp H s) P" "safe K P (timestamps_count H) P"
    "safe K P (timestamp_gpu_ns H l) P" "safe K P (set_staging_max n) P"
    "safe K P (bind_pipeline H r) P" "safe K P (bind_uniform_set H r i) P" "safe K P (dispatch H x y z) P"
    "safe K P (barrier H) P"
  unfolding tame_defs
  by (intro same_rules tame_call [OF assms] tame_upd [OF assms] tame_uniforms [OF assms];
      simp add: needs_no_list_def)+

lemma same_void: "safe K P m P \<Longrightarrow> safe K P (void m) P"
  unfolding void_def by (intro same_rules)

section \<open>Compute lists and killed calls\<close>

text \<open>
  What Godot documents of compute lists: only \<open>compute_list_begin\<close> opens one, and
  \<open>compute_list_end\<close> closes it, as freeing the device does. \<open>open_of\<close> reads the world; a killed call may or may not have
  had its effect. The log pairs each call with whether a list was open when it was made.
\<close>

definition godot_lists :: "'w host \<Rightarrow> ('w \<Rightarrow> bool) \<Rightarrow> bool" where
  "godot_lists H open_of \<longleftrightarrow>
     (\<forall>c w. open_of (snd (H c w)) \<longrightarrow> open_of w \<or> c = C_list_begin) \<and>
     (\<forall>w. fst (H C_list_end w) \<noteq> None \<longrightarrow> \<not> open_of (snd (H C_list_end w))) \<and>
     (\<forall>p w. fst (H (C_free_device p) w) \<noteq> None \<longrightarrow> \<not> open_of (snd (H (C_free_device p) w)))"

definition logged :: "'w host \<Rightarrow> ('w \<Rightarrow> bool) \<Rightarrow> ('w \<times> (rd_call \<times> bool) list) host" where
  "logged H open_of c s = (case H c (fst s) of (r, w) \<Rightarrow> (r, w, snd s @ [(c, open_of (fst s))]))"

definition log_ok :: "(rd_call \<times> bool) list \<Rightarrow> bool" where
  "log_ok log \<longleftrightarrow> list_all (\<lambda>(c, o1). \<not> (needs_no_list c \<and> o1)) log"

definition list_inv :: "('w \<Rightarrow> bool) \<Rightarrow> device \<times> 'w \<times> (rd_call \<times> bool) list \<Rightarrow> bool" where
  "list_inv open_of s \<longleftrightarrow> dv_recovery (fst s) \<and> (open_of (fst (snd s)) \<longrightarrow> dv_list_open (fst s)) \<and> log_ok (snd (snd s))"

definition closed_inv :: "('w \<Rightarrow> bool) \<Rightarrow> device \<times> 'w \<times> (rd_call \<times> bool) list \<Rightarrow> bool" where
  "closed_inv open_of s \<longleftrightarrow> list_inv open_of s \<and> \<not> dv_list_open (fst s)"

text \<open>No list is open on the host, whatever the flag says.\<close>

definition idle_inv :: "('w \<Rightarrow> bool) \<Rightarrow> device \<times> 'w \<times> (rd_call \<times> bool) list \<Rightarrow> bool" where
  "idle_inv open_of s \<longleftrightarrow> list_inv open_of s \<and> \<not> open_of (fst (snd s))"

lemmas inv_defs = list_inv_def closed_inv_def idle_inv_def

lemma log_ok_append: "log_ok (log @ [(c, o1)]) \<longleftrightarrow> log_ok log \<and> \<not> (needs_no_list c \<and> o1)"
  by (simp add: log_ok_def)

lemma logged_effect:
  assumes "godot_lists H open_of" "logged H open_of c (w, log) = (r, w', log')"
  shows "log' = log @ [(c, open_of w)] \<and> (open_of w' \<longrightarrow> open_of w \<or> c = C_list_begin) \<and>
     ((c = C_list_end \<or> (\<exists>p. c = C_free_device p)) \<and> r \<noteq> None \<longrightarrow> \<not> open_of w')"
proof -
  obtain r1 w1 where h: "H c w = (r1, w1)" by fastforce
  then have "r1 = r" "w1 = w'" "log' = log @ [(c, open_of w)]" using assms(2) by (simp_all add: logged_def)
  moreover have "(open_of (snd (H c w)) \<longrightarrow> open_of w \<or> c = C_list_begin) \<and>
      (fst (H C_list_end w) \<noteq> None \<longrightarrow> \<not> open_of (snd (H C_list_end w))) \<and>
      (\<forall>p. fst (H (C_free_device p) w) \<noteq> None \<longrightarrow> \<not> open_of (snd (H (C_free_device p) w)))"
    using assms(1) by (simp add: godot_lists_def)
  ultimately show ?thesis using h by auto (metis fst_conv option.distinct(1) snd_conv)+
qed

lemma needs_begin [simp]: "needs_no_list C_list_begin" "\<not> needs_no_list C_list_end" "needs_no_list C_submit"
  by (simp_all add: needs_no_list_def)

lemma tame_list_inv: "godot_lists H open_of \<Longrightarrow> tame (logged H open_of) (list_inv open_of) (list_inv open_of)"
  unfolding tame_def
  by (intro conjI allI impI safe_call safe_upd) (auto simp: list_inv_def log_ok_append dest!: logged_effect)

lemma tame_closed_inv: "godot_lists H open_of \<Longrightarrow> tame (logged H open_of) (list_inv open_of) (closed_inv open_of)"
  unfolding tame_def
  by (intro conjI allI impI safe_call safe_upd) (auto simp: inv_defs log_ok_append dest!: logged_effect)

lemma closed_call:
  assumes "godot_lists H open_of" "c \<noteq> C_list_begin"
  shows "safe (list_inv open_of) (closed_inv open_of) (call (logged H open_of) c) (closed_inv open_of)"
  using assms(2) by (intro safe_call) (auto simp: inv_defs log_ok_append dest!: logged_effect [OF assms(1)])

lemma list_end_closes:
  assumes "godot_lists H open_of"
  shows "safe (list_inv open_of) (list_inv open_of) (list_end (logged H open_of)) (closed_inv open_of)"
proof -
  note tame = tame_list_inv [OF assms]
  have "safe (list_inv open_of) (list_inv open_of) (call (logged H open_of) C_list_end) (idle_inv open_of)"
    by (intro safe_call) (auto simp: inv_defs log_ok_append dest!: logged_effect [OF assms])
  then show ?thesis
    unfolding list_end_def
    by (intro safe_then [OF tame_quiet(1) [OF tame]] safe_then [where Q = "idle_inv open_of"] safe_upd)
      (auto simp: inv_defs)
qed

lemma recover_closes:
  assumes "godot_lists H open_of"
  shows "safe (list_inv open_of) (list_inv open_of) (recover (logged H open_of)) (closed_inv open_of)"
proof -
  have "case recover (logged H open_of) s of (None, s') \<Rightarrow> list_inv open_of s' | (Some x, s') \<Rightarrow> closed_inv open_of s'"
    if s: "list_inv open_of s" for s
  proof (cases "dv_list_open (fst s)")
    case False
    then show ?thesis using s by (simp add: recover_def bindR_def ask_def ret_def closed_inv_def)
  next
    case True
    note tc = tame_upd [OF tame_closed_inv [OF assms]]
    have m: "safe (list_inv open_of) (list_inv open_of)
        (thenR (list_end (logged H open_of)) (thenR (upd (\<lambda>d. d\<lparr>dv_recoveries := dv_recoveries d + 1\<rparr>)) (ret True)))
        (closed_inv open_of)"
      by (intro safe_then [OF list_end_closes [OF assms]] same_then tc safe_ret) simp_all
    have "dv_recovery (fst s)" using s by (simp add: list_inv_def)
    with True safeD [where P = "list_inv open_of" and s = s, OF m s] show ?thesis
      by (simp add: recover_def bindR_def ask_def)
  qed
  then show ?thesis by (simp add: safe_def)
qed

text \<open>After \<open>recover\<close>, any run that keeps the list closed is fine.\<close>

lemma after_recover:
  assumes "godot_lists H open_of"
    and "safe (list_inv open_of) (closed_inv open_of) m (closed_inv open_of)"
  shows "safe (list_inv open_of) (list_inv open_of) (thenR (recover (logged H open_of)) m) (closed_inv open_of)"
  by (rule safe_then [OF recover_closes [OF assms(1)] assms(2)])

lemma closed_weaken:
  "safe (list_inv open_of) (list_inv open_of) m (closed_inv open_of) \<Longrightarrow>
   safe (list_inv open_of) (list_inv open_of) m (list_inv open_of)"
  by (rule safe_weaken [where P = "list_inv open_of" and Q = "closed_inv open_of"]) (simp_all add: closed_inv_def)

lemma update_from_closed:
  assumes "godot_lists H open_of"
  shows "safe (list_inv open_of) (closed_inv open_of) (update_from (logged H open_of) b off n data at) (closed_inv open_of)"
proof (induction "logged H open_of" b off n data at rule: update_from.induct)
  case (1 b off n data at)
  show ?case
    unfolding update_from.simps [of "logged H open_of" b off n data at] Let_def
    using 1 by (intro same_bind closed_call [OF assms]) (simp_all add: tame_quiet(2) [OF tame_closed_inv [OF assms]] safe_ret)
qed

lemma transfers_closed:
  assumes L: "godot_lists H open_of"
  shows "safe (list_inv open_of) (list_inv open_of) (buffer_update (logged H open_of) b off n data) (closed_inv open_of)"
    and "safe (list_inv open_of) (list_inv open_of) (buffer_clear (logged H open_of) b off n) (closed_inv open_of)"
    and "safe (list_inv open_of) (list_inv open_of) (buffer_copy (logged H open_of) b c n i j) (closed_inv open_of)"
    and "safe (list_inv open_of) (list_inv open_of) (buffer_get (logged H open_of) b off n) (closed_inv open_of)"
  unfolding buffer_update_def buffer_clear_def buffer_copy_def buffer_get_def
  by (intro after_recover [OF L] same_then same_bind same_if safe_ret closed_call [OF L] update_from_closed [OF L]
      tame_quiet(1,2) [OF tame_closed_inv [OF L]]; simp)+

lemma storage_listed:
  assumes L: "godot_lists H open_of"
  shows "safe (list_inv open_of) (list_inv open_of) (storage_buffer_empty (logged H open_of) n c) (list_inv open_of)"
    and "safe (list_inv open_of) (list_inv open_of) (storage_buffer (logged H open_of) n data) (list_inv open_of)"
    and "safe (list_inv open_of) (list_inv open_of) (grow_staging (logged H open_of) n) (list_inv open_of)"
proof -
  note T = tame_list_inv [OF L]
  note rules = same_ask same_bind same_then same_if same_option safe_ret tame_quiet [OF T] tame_call [OF T] tame_upd [OF T]
    transfers_closed [OF L, THEN closed_weaken]
  show 1: "safe (list_inv open_of) (list_inv open_of) (storage_buffer_empty (logged H open_of) n c) (list_inv open_of)" for n c
    unfolding storage_buffer_empty_def Let_def by (intro rules)
  show "safe (list_inv open_of) (list_inv open_of) (storage_buffer (logged H open_of) n data) (list_inv open_of)"
    unfolding storage_buffer_def by (intro rules 1) (simp_all add: needs_no_list_def)
  show "safe (list_inv open_of) (list_inv open_of) (grow_staging (logged H open_of) n) (list_inv open_of)"
    unfolding grow_staging_def Let_def by (intro rules 1) simp_all
qed

lemma get_from_listed:
  assumes L: "godot_lists H open_of"
  shows "safe (list_inv open_of) (list_inv open_of) (get_from fuel (logged H open_of) b off n at got) (list_inv open_of)"
proof (induction fuel arbitrary: at got)
  case 0
  show ?case by (auto simp: safe_ret intro: safe_never)
next
  case (Suc fuel)
  note I = tame_quiet [OF tame_list_inv [OF L]] and C = tame_quiet [OF tame_closed_inv [OF L]]
  have end_turn: "safe (list_inv open_of) (closed_inv open_of)
      (thenR (set_step t) (bindR (call (logged H open_of) (C_buffer_get_data x y z)) (\<lambda>v.
         if P v then thenR (dev_fail e) (ret None) else get_from fuel (logged H open_of) b off n (at2 v) (got2 v))))
      (list_inv open_of)" for t x y z P e at2 got2
  proof (intro safe_then [OF C(1)] safe_bind [OF closed_call [OF L]])
    fix v
    have "safe (list_inv open_of) (list_inv open_of)
        (if P v then thenR (dev_fail e) (ret None) else get_from fuel (logged H open_of) b off n (at2 v) (got2 v))
        (list_inv open_of)"
      by (intro same_if same_then safe_ret I(2) Suc.IH)
    then show "safe (list_inv open_of) (closed_inv open_of)
        (if P v then thenR (dev_fail e) (ret None) else get_from fuel (logged H open_of) b off n (at2 v) (got2 v))
        (list_inv open_of)" by (rule safe_weaken) (simp_all add: closed_inv_def)
  qed simp
  have none: "safe (list_inv open_of) (closed_inv open_of) (ret None) (list_inv open_of)"
    by (simp add: safe_def ret_def closed_inv_def)
  show ?case
    unfolding get_from.simps Let_def
    by (intro same_if same_ask safe_ret safe_bind [OF transfers_closed(3) [OF L]])
      (simp add: none end_turn)
qed

lemma records_listed:
  assumes L: "godot_lists H open_of"
  shows "safe (list_inv open_of) (list_inv open_of) (list_begin (logged H open_of)) (list_inv open_of)"
    and "safe (list_inv open_of) (list_inv open_of) (submit (logged H open_of)) (list_inv open_of)"
proof -
  note I = tame_quiet [OF tame_list_inv [OF L]] and C = tame_quiet [OF tame_closed_inv [OF L]]
  have begin_call: "safe (list_inv open_of) (\<lambda>s. idle_inv open_of s \<and> dv_list_open (fst s)) (call (logged H open_of) C_list_begin)
      (list_inv open_of)"
    by (intro safe_call) (auto simp: inv_defs log_ok_append dest!: logged_effect [OF L])
  show "safe (list_inv open_of) (list_inv open_of) (list_begin (logged H open_of)) (list_inv open_of)"
    unfolding list_begin_def
    by (intro safe_then [OF recover_closes [OF L]]
        safe_then [where Q = "\<lambda>s. idle_inv open_of s \<and> dv_list_open (fst s)"] safe_upd safe_bind [OF begin_call] same_then
        tame_upd [OF tame_list_inv [OF L]] safe_ret) (auto simp: inv_defs)
  show "safe (list_inv open_of) (list_inv open_of) (submit (logged H open_of)) (list_inv open_of)"
    unfolding submit_def
    by (intro closed_weaken after_recover [OF L] same_then same_bind closed_call [OF L] C
        tame_upd [OF tame_closed_inv [OF L]]) simp_all
qed

lemma get_into_listed:
  assumes L: "godot_lists H open_of"
  shows "safe (list_inv open_of) (list_inv open_of) (buffer_get_into (logged H open_of) b off n) (list_inv open_of)"
  unfolding buffer_get_into_def
  by (intro same_rules tame_quiet [OF tame_list_inv [OF L]] storage_listed [OF L] get_from_listed [OF L])

text \<open>
  \<open>adopt\<close> and \<open>close\<close> forget an open list. That is right when there is none, and when \<open>close\<close> frees
  the device; a list a killed call left open on a device that lives on is then not known any more.
\<close>

definition forgets_list :: "dev_op \<Rightarrow> device \<Rightarrow> bool" where
  "forgets_list op1 d =
     (case op1 of
        Op_adopt p \<Rightarrow> dv_list_open d
      | Op_close \<Rightarrow> dv_list_open d \<and> \<not> (dv_owned d \<and> dv_rd d \<noteq> 0)
      | _ \<Rightarrow> False)"

lemma open_listed:
  assumes L: "godot_lists H open_of"
  shows "safe (list_inv open_of) (list_inv open_of) (dev_open (logged H open_of)) (list_inv open_of)"
proof -
  note T = tame_list_inv [OF L]
  have obj: "safe K P (case v of R_obj p \<Rightarrow> m p | _ \<Rightarrow> n) P" if "\<And>p. safe K P (m p) P" "safe K P n P" for K P v m n
    using that by (cases v) simp_all
  show ?thesis unfolding dev_open_def
    by (intro same_rules obj tame_quiet(1,2) [OF T] tame_call [OF T] tame_upd [OF T]; simp add: needs_no_list_def)
qed

lemma close_listed:
  assumes L: "godot_lists H open_of"
  shows "safe (list_inv open_of) (closed_inv open_of) (dev_close (logged H open_of)) (list_inv open_of)"
    and "safe (list_inv open_of) (\<lambda>s. list_inv open_of s \<and> dv_owned (fst s) \<and> dv_rd (fst s) \<noteq> 0) (dev_close (logged H open_of))
      (list_inv open_of)"
proof -
  note T = tame_closed_inv [OF L]
  have drop_closed: "safe (list_inv open_of) (closed_inv open_of)
      (upd (\<lambda>d. d\<lparr>dv_rd := 0, dv_owned := False, dv_list_open := False, dv_submitted := False\<rparr>)) (list_inv open_of)"
    by (intro safe_upd) (auto simp: inv_defs)
  have drop_idle: "safe (list_inv open_of) (idle_inv open_of)
      (upd (\<lambda>d. d\<lparr>dv_rd := 0, dv_owned := False, dv_list_open := False, dv_submitted := False\<rparr>)) (list_inv open_of)"
    by (intro safe_upd) (simp add: inv_defs)
  show "safe (list_inv open_of) (closed_inv open_of) (dev_close (logged H open_of)) (list_inv open_of)"
    unfolding dev_close_def
    by (intro safe_ask safe_then [where Q = "closed_inv open_of"] drop_closed same_rules tame_quiet(1,4,5) [OF T] tame_call [OF T]
        tame_upd [OF T]; simp add: needs_no_list_def)
  let ?own = "\<lambda>s. list_inv open_of s \<and> dv_owned (fst s) \<and> dv_rd (fst s) \<noteq> 0"
  have stage: "safe (list_inv open_of) ?own (upd f) ?own"
    if "\<And>d. dv_list_open (f d) = dv_list_open d \<and> dv_recovery (f d) = dv_recovery d \<and> dv_owned (f d) = dv_owned d \<and> dv_rd (f d) = dv_rd d" for f
    using that by (intro safe_upd) (simp add: list_inv_def)
  have calls: "safe (list_inv open_of) ?own (call (logged H open_of) c) ?own" if "\<not> needs_no_list c" for c
    using that by (intro safe_call) (auto simp: list_inv_def log_ok_append dest!: logged_effect [OF L])
  have free: "safe (list_inv open_of) ?own (free_rid (logged H open_of) r) ?own" "safe (list_inv open_of) ?own (forget (logged H open_of) r) ?own" for r
    unfolding free_rid_def forget_def set_step_def by (intro same_rules stage calls; simp add: needs_no_list_def)+
  have gone: "safe (list_inv open_of) ?own (call (logged H open_of) (C_free_device p)) (idle_inv open_of)" for p
    by (intro safe_call) (auto simp: inv_defs log_ok_append needs_no_list_def dest!: logged_effect [OF L])
  have last: "safe (list_inv open_of) (\<lambda>s. ?own s \<and> fst s = d)
      (thenR (if dv_rd d \<noteq> 0 \<and> dv_owned d
         then thenR (set_step ''free'') (thenR (call (logged H open_of) (C_free_device (dv_rd d))) (ret ())) else ret ())
       (upd (\<lambda>d. d\<lparr>dv_rd := 0, dv_owned := False, dv_list_open := False, dv_submitted := False\<rparr>))) (list_inv open_of)" for d
  proof (cases "dv_rd d \<noteq> 0 \<and> dv_owned d")
    case True
    have m: "safe (list_inv open_of) ?own
        (thenR (thenR (set_step ''free'') (thenR (call (logged H open_of) (C_free_device (dv_rd d))) (ret ())))
         (upd (\<lambda>d. d\<lparr>dv_rd := 0, dv_owned := False, dv_list_open := False, dv_submitted := False\<rparr>))) (list_inv open_of)"
      unfolding set_step_def
      by (intro safe_then [OF safe_then [OF stage safe_then [OF gone safe_ret]] drop_idle]) simp
    show ?thesis unfolding if_P [OF True] by (rule safe_weaken [OF m]) blast+
  next
    case False
    then show ?thesis by (auto simp: safe_def)
  qed
  have ask2: "safe K P (bindR ask f) Q" if "\<And>d. safe K (\<lambda>s. P s \<and> fst s = d) (f d) Q" for K P f Q
    using that by (simp add: safe_def bindR_def ask_def)
  show "safe (list_inv open_of) ?own (dev_close (logged H open_of)) (list_inv open_of)"
    unfolding dev_close_def
    by (intro safe_ask safe_then [OF _ ask2 [OF last]] same_rules free stage) simp_all
qed

lemma do_op_listed:
  assumes L: "godot_lists H open_of"
  shows "safe (list_inv open_of) (\<lambda>s. list_inv open_of s \<and> \<not> forgets_list op1 (fst s)) (do_op (logged H open_of) op1) (list_inv open_of)"
proof -
  note I = tame_quiet [OF tame_list_inv [OF L]]
  have ends: "safe (list_inv open_of) (list_inv open_of) (list_end (logged H open_of)) (list_inv open_of)"
    "safe (list_inv open_of) (list_inv open_of) (recover (logged H open_of)) (list_inv open_of)"
    by (rule closed_weaken [OF list_end_closes [OF L]], rule closed_weaken [OF recover_closes [OF L]])
  have plain: "safe (list_inv open_of) (list_inv open_of) (do_op (logged H open_of) op1) (list_inv open_of)"
    if "op1 \<noteq> Op_close" "\<And>p. op1 \<noteq> Op_adopt p"
    using that
    by (cases op1; simp only: do_op.simps)
      (intro same_void I ends records_listed [OF L] storage_listed [OF L] get_into_listed [OF L] open_listed [OF L]
        transfers_closed [OF L, THEN closed_weaken] | simp)+
  have adopt: "safe (list_inv open_of) (closed_inv open_of) (dev_adopt p) (list_inv open_of)" for p
    unfolding dev_adopt_def by (intro safe_upd) (auto simp: inv_defs)
  show ?thesis
  proof (cases "op1 = Op_close \<or> (\<exists>p. op1 = Op_adopt p)")
    case False
    then show ?thesis by (intro safe_weaken [OF plain]) auto
  next
    case True
    then show ?thesis
    proof (elim disjE exE)
      fix p
      assume "op1 = Op_adopt p"
      then show ?thesis using safe_weaken [OF adopt [of p]] by (simp add: forgets_list_def closed_inv_def)
    next
      assume c: "op1 = Op_close"
      show ?thesis
        using close_listed [OF L] by (fastforce simp: c safe_def forgets_list_def closed_inv_def split: prod.splits option.splits)
    qed
  qed
qed

text \<open>The guest's vmcalls, one public call each; a killed one leaves what it did.\<close>

definition run_op :: "'w host \<Rightarrow> dev_op \<Rightarrow> device \<times> 'w \<Rightarrow> device \<times> 'w" where
  "run_op H op1 s = snd (do_op H op1 s)"

fun run_ops :: "'w host \<Rightarrow> dev_op list \<Rightarrow> device \<times> 'w \<Rightarrow> device \<times> 'w" where
  "run_ops H [] s = s"
| "run_ops H (op1 # ops) s = run_ops H ops (run_op H op1 s)"

text \<open>No call of the history makes the device forget a list that may be open.\<close>

fun lists_known :: "'w host \<Rightarrow> dev_op list \<Rightarrow> device \<times> 'w \<Rightarrow> bool" where
  "lists_known H [] s = True"
| "lists_known H (op1 # ops) s \<longleftrightarrow> \<not> forgets_list op1 (fst s) \<and> lists_known H ops (run_op H op1 s)"

lemma run_ops_listed:
  assumes L: "godot_lists H open_of"
  shows "list_inv open_of s \<Longrightarrow> lists_known (logged H open_of) ops s \<Longrightarrow> list_inv open_of (run_ops (logged H open_of) ops s)"
proof (induction ops arbitrary: s)
  case (Cons op1 ops)
  then have "list_inv open_of s \<and> \<not> forgets_list op1 (fst s)" by simp
  then have "list_inv open_of (run_op (logged H open_of) op1 s)"
    using safeD [OF do_op_listed [OF L], of s op1] by (auto simp: run_op_def split: prod.splits option.splits)
  then show ?case using Cons by simp
qed simp


text \<open>A host with one compute list, that kills the vmcall at a dispatch of no groups.\<close>

definition one_list :: "bool host" where
  "one_list c w =
     (case c of
        C_list_begin \<Rightarrow> (Some (R_int 7), True)
      | C_list_end \<Rightarrow> (Some R_nil, False)
      | C_free_device _ \<Rightarrow> (Some R_nil, False)
      | C_dispatch _ x _ _ \<Rightarrow> (if x = 0 then None else Some R_nil, w)
      | C_buffer_get_data _ _ n \<Rightarrow> (Some (R_bytes (replicate (unat n) 1)), w)
      | _ \<Rightarrow> (Some (R_int 0), w))"

lemma one_list_documented: "godot_lists one_list (\<lambda>w. w)"
  by (auto simp: godot_lists_def one_list_def split: rd_call.splits if_splits)


text \<open>
  Without that condition it fails: after a recording killed at its dispatch, \<open>adopt\<close> of the same
  device clears the flag without ending the list, and the next \<open>buffer_update\<close> reaches Godot with
  the list open.
\<close>

lemma adopt_forgets_open_list:
  "last (snd (snd (run_ops (logged one_list (\<lambda>w. w)) [Op_list_begin, Op_dispatch 0 1 1, Op_adopt 5, Op_update 3 0 4 [1, 2, 3, 4]]
     (new_device, False, [])))) = (C_buffer_update 3 0 4 [1, 2, 3, 4], True)"
  by code_simp

section \<open>Readback through the staging buffer\<close>

text \<open>Rounding down to whole 4-byte words, and up.\<close>

lemma unat_down: "unat (x AND NOT (mask k) :: u64) = unat x div 2 ^ k * 2 ^ k"
proof -
  have shift: "k \<le> n \<Longrightarrow> k + (n - k) = n" for n :: nat by simp
  have "x AND NOT (mask k) = push_bit k (drop_bit k x)"
    by (rule bit_eqI) (auto simp: bit_simps shift not_less)
  then have "(x AND NOT (mask k)) + take_bit k x = x" by (simp only: bits_ident)
  then have p: "x AND NOT (mask k) = x - take_bit k x" by (simp only: eq_diff_eq)
  have t: "unat (take_bit k x) = unat x mod 2 ^ k" by (simp only: unsigned_take_bit_eq) (simp add: take_bit_eq_mod)
  show ?thesis unfolding p by (simp only: unat_sub_if' t) (simp add: minus_mod_eq_div_mult)
qed

lemma unat_down4: "unat (x AND NOT 3 :: u64) = unat x div 4 * 4"
  using unat_down [of x 2] by (simp add: mask_eq_exp_minus_1 flip: minus_eq_not_plus_1)

lemma unat_down256: "unat (x AND NOT 255 :: u64) = unat x div 256 * 256"
  using unat_down [of x 8] by (simp add: mask_eq_exp_minus_1 flip: minus_eq_not_plus_1)

lemma unat_up4: "unat x + 3 < 2 ^ 64 \<Longrightarrow> unat ((x + 3) AND NOT 3 :: u64) = (unat x + 3) div 4 * 4"
  by (simp only: unat_down4) (simp add: unat_add_no_wrap)

lemma unat_min: "unat (min a b) = min (unat a) (unat b)"
  by (simp add: min_def word_le_nat_alt)

lemma unat_kMaxTransferBytes: "unat kMaxTransferBytes = 2 ^ 24"
  by (simp add: kMaxTransferBytes_def push_bit_eq_mult)

text \<open>
  What Godot documents of storage buffers, \<open>mem w b\<close> being the bytes of buffer \<open>b\<close>: a copy
  of whole words inside two different buffers moves them, a read inside a buffer of at most
  16 MiB (what one packed array carries) returns them, a new buffer has its size and no old
  RID, moving it to permanent storage keeps it, and freeing a buffer changes no other.
\<close>

definition godot_copies :: "'w host \<Rightarrow> ('w \<Rightarrow> int \<Rightarrow> u8 list) \<Rightarrow> bool" where
  "godot_copies H mem \<longleftrightarrow>
     (\<forall>w src dst i j n. src \<noteq> dst \<and> unat i mod 4 = 0 \<and> unat j mod 4 = 0 \<and> unat n mod 4 = 0 \<and>
        unat i + unat n \<le> length (mem w src) \<and> unat j + unat n \<le> length (mem w dst) \<longrightarrow>
        (\<exists>w'. H (C_buffer_copy src dst i j n) w = (Some (R_int 0), w') \<and>
           mem w' = (mem w)(dst := take (unat j) (mem w dst) @ take (unat n) (drop (unat i) (mem w src)) @
                                    drop (unat j + unat n) (mem w dst)))) \<and>
     (\<forall>w b i n. 0 < n \<and> n \<le> kMaxTransferBytes \<and> unat i + unat n \<le> length (mem w b) \<longrightarrow>
        (\<exists>w'. H (C_buffer_get_data b i n) w = (Some (R_bytes (take (unat n) (drop (unat i) (mem w b)))), w') \<and>
           mem w' = mem w))"

definition godot_buffers :: "'w host \<Rightarrow> ('w \<Rightarrow> int \<Rightarrow> u8 list) \<Rightarrow> bool" where
  "godot_buffers H mem \<longleftrightarrow>
     (\<forall>w n. \<exists>i w1 k w2. H (C_storage_buffer_create n []) w = (Some (R_rid i), w1) \<and>
        H (C_make_permanent i) w1 = (Some (R_rid k), w2) \<and> k < 0 \<and> mem w k = [] \<and>
        length (mem w2 k) = unat n \<and> (\<forall>b. b \<noteq> k \<longrightarrow> mem w2 b = mem w b)) \<and>
     (\<forall>w r c. c \<in> {C_free_rid r, C_release r} \<longrightarrow>
        (\<exists>v w'. H c w = (Some v, w') \<and> (\<forall>b. b \<noteq> r \<longrightarrow> mem w' b = mem w b)))"

text \<open>The staging buffer is null, or has the whole words the device counts for it.\<close>

definition staged :: "('w \<Rightarrow> int \<Rightarrow> u8 list) \<Rightarrow> device \<Rightarrow> 'w \<Rightarrow> bool" where
  "staged mem d w \<longleftrightarrow>
     dv_permanent_rids d \<and> \<not> dv_list_open d \<and> dv_staging_bytes d \<le> kMaxTransferBytes \<and> unat (dv_staging_bytes d) mod 4 = 0 \<and>
     256 \<le> dv_staging_max d \<and> dv_staging_max d \<le> kMaxTransferBytes \<and> unat (dv_staging_max d) mod 4 = 0 \<and>
     (if dv_staging d = 0 then dv_staging_bytes d = 0 else length (mem w (dv_staging d)) = unat (dv_staging_bytes d))"

lemma staged_step [simp]: "staged mem (d\<lparr>dv_step := t\<rparr>) w = staged mem d w"
  by (simp add: staged_def)

text \<open>One turn, in numbers: \<open>x\<close> the byte to read from, \<open>m\<close> the bytes left, \<open>s\<close> the staging size.\<close>

lemma turn_numbers:
  fixes x m s len :: nat
  assumes "4 \<le> s" "s mod 4 = 0" "0 < m" "x + m \<le> len" "len mod 4 = 0"
    and span: "span = min s ((x mod 4 + min m s + 3) div 4 * 4)" and taken: "taken = min (min m s) (span - x mod 4)"
  shows "span mod 4 = 0" "x div 4 * 4 + span \<le> len" "x mod 4 + taken \<le> span" "0 < taken" "taken \<le> m" "span \<le> s"
proof -
  have "span = s \<or> span = (x mod 4 + min m s + 3) div 4 * 4" using span by (auto simp: min_def)
  then show "span mod 4 = 0" using assms(2) by auto
  have up: "x div 4 * 4 + (x mod 4 + e) div 4 * 4 = (x + e) div 4 * 4" for e :: nat
  proof -
    have "x + e = (x mod 4 + e) + x div 4 * 4" by simp
    then show ?thesis by (metis add.commute add_mult_distrib div_mult_self1 zero_neq_numeral)
  qed
  have "(x + min m s + 3) div 4 * 4 \<le> (len + 3) div 4 * 4"
    using assms(4) by (intro mult_right_mono div_le_mono) auto
  also obtain L where "len = 4 * L" using assms(5) by (auto simp: mod_eq_0_iff_dvd elim: dvdE)
  then have "(len + 3) div 4 * 4 = len" by simp
  finally have "(x + (min m s + 3)) div 4 * 4 \<le> len" by (simp only: add.assoc)
  moreover have "span \<le> (x mod 4 + (min m s + 3)) div 4 * 4" using span by (simp add: add.assoc)
  ultimately show "x div 4 * 4 + span \<le> len" using up [of "min m s + 3"] by linarith
  have "1 \<le> (x mod 4 + min m s + 3) div 4" using assms(1,3) by (simp add: div_greater_zero_iff Suc_le_eq)
  then have "4 \<le> (x mod 4 + min m s + 3) div 4 * 4" by simp
  then have "4 \<le> span" using span assms(1) by simp
  moreover have r: "x mod 4 < 4" by simp
  ultimately have "x mod 4 < span" by (rule less_le_trans [rotated])
  moreover have "taken \<le> span - x mod 4" using taken by (simp only: min.cobounded2)
  ultimately show "x mod 4 + taken \<le> span" by linarith
  show "0 < taken" using \<open>x mod 4 < span\<close> assms(1,3) unfolding taken by simp
  show "taken \<le> m" unfolding taken by simp
  show "span \<le> s" using span by simp
qed

text \<open>One turn of the loop, run: a copy into the staging buffer, and a read of it.\<close>

lemma staging_turn:
  assumes C: "godot_copies H mem" and closed: "\<not> dv_list_open d"
    and ne: "buffer \<noteq> dv_staging d" and st: "unat span \<le> length (mem w (dv_staging d))"
    and words: "unat lo mod 4 = 0" "unat span mod 4 = 0" and len: "unat lo + unat span \<le> length (mem w buffer)"
    and cap: "0 < span" "span \<le> kMaxTransferBytes"
  shows "\<exists>w'. (\<forall>f. bindR (buffer_copy H buffer (dv_staging d) span lo 0) (\<lambda>ok.
        if \<not> ok then ret None
        else thenR (set_step t) (bindR (call H (C_buffer_get_data (dv_staging d) 0 span)) f)) (d, w) =
      f (R_bytes (take (unat span) (drop (unat lo) (mem w buffer)))) (d\<lparr>dv_step := t\<rparr>, w')) \<and>
    (\<forall>b. b \<noteq> dv_staging d \<longrightarrow> mem w' b = mem w b) \<and>
    length (mem w' (dv_staging d)) = length (mem w (dv_staging d))"
proof -
  let ?slice = "take (unat span) (drop (unat lo) (mem w buffer))"
  have "\<exists>w1. H (C_buffer_copy buffer (dv_staging d) lo 0 span) w = (Some (R_int 0), w1) \<and>
      mem w1 = (mem w)(dv_staging d := take (unat 0) (mem w (dv_staging d)) @ ?slice @ drop (unat 0 + unat span) (mem w (dv_staging d)))"
    using C [unfolded godot_copies_def, THEN conjunct1, rule_format, of buffer "dv_staging d" lo 0 span w]
    using ne words len st by simp
  then obtain w1 where w1: "H (C_buffer_copy buffer (dv_staging d) lo 0 span) w = (Some (R_int 0), w1)"
    and m1: "mem w1 = (mem w)(dv_staging d := ?slice @ drop (unat span) (mem w (dv_staging d)))"
    by auto
  have l: "length ?slice = unat span" using len by simp
  have "\<exists>w2. H (C_buffer_get_data (dv_staging d) 0 span) w1 =
      (Some (R_bytes (take (unat span) (drop (unat 0) (mem w1 (dv_staging d))))), w2) \<and> mem w2 = mem w1"
    using C [unfolded godot_copies_def, THEN conjunct2, rule_format, of span 0 w1 "dv_staging d"] cap l
    by (simp add: m1)
  then obtain w2 where w2: "H (C_buffer_get_data (dv_staging d) 0 span) w1 = (Some (R_bytes ?slice), w2)" and m2: "mem w2 = mem w1"
    using l by (auto simp: m1)
  show ?thesis
  proof (intro exI [of _ w2] conjI allI impI)
    show "\<And>f. bindR (buffer_copy H buffer (dv_staging d) span lo 0) (\<lambda>ok.
        if \<not> ok then ret None
        else thenR (set_step t) (bindR (call H (C_buffer_get_data (dv_staging d) 0 span)) f)) (d, w) =
      f (R_bytes ?slice) (d\<lparr>dv_step := t\<rparr>, w2)"
      using closed w1 w2
      by (simp add: buffer_copy_def recover_def thenR_def bindR_def set_step_def upd_def ask_def ret_def call_def as_int_def)
    show "\<And>b. b \<noteq> dv_staging d \<Longrightarrow> mem w2 b = mem w b" by (simp add: m1 m2)
    show "length (mem w2 (dv_staging d)) = length (mem w (dv_staging d))" using l st by (simp add: m1 m2)
  qed
qed

lemma slice_append:
  assumes "q mod 4 + taken \<le> span" "q div 4 * 4 + span \<le> length xs"
  shows "take taken (drop (q mod 4) (take span (drop (q div 4 * 4) xs))) = take taken (drop q xs)"
proof -
  have "q mod 4 + q div 4 * 4 = q" by simp
  then show ?thesis using assms by (simp add: drop_take min_def)
qed

lemma get_from_exact:
  assumes C: "godot_copies H mem" and len: "unat off + unat n \<le> length M" "length M mod 4 = 0" "length M < 2 ^ 63"
  shows "staged mem d w \<Longrightarrow> dv_staging_bytes d \<ge> 4 \<Longrightarrow> buffer \<noteq> dv_staging d \<Longrightarrow> dv_staging d \<noteq> 0 \<Longrightarrow> mem w buffer = M \<Longrightarrow>
     unat at \<le> unat n \<Longrightarrow> unat n - unat at \<le> fuel \<Longrightarrow> got = take (unat at) (drop (unat off) M) \<Longrightarrow>
     \<exists>d' w'. get_from fuel H buffer off n at got (d, w) = (Some (Some (take (unat n) (drop (unat off) M))), d', w') \<and>
       staged mem d' w' \<and> mem w' buffer = M"
proof (induction fuel arbitrary: d w at got)
  case 0
  then have "at = n" by (simp add: word_unat_eq_iff)
  then show ?case using 0 by (auto simp: ret_def)
next
  case (Suc fuel)
  show ?case
  proof (cases "at < n")
    case False
    then have "at = n" using Suc.prems by (simp add: word_unat_eq_iff word_less_nat_alt)
    then show ?thesis using Suc.prems by (auto simp: ret_def)
  next
    case True
    let ?s = "dv_staging_bytes d" and ?x = "unat off + unat at" and ?m = "unat n - unat at"
    define n1 where "n1 = min (n - at) ?s"
    define lo where "lo = (off + at) AND NOT 3"
    define skew where "skew = (off + at) - lo"
    define span where "span = min ?s ((skew + n1 + 3) AND NOT 3)"
    define taken where "taken = min n1 (span - skew)"
    have s: "unat ?s mod 4 = 0" "unat ?s \<le> 2 ^ 24" "?s \<le> kMaxTransferBytes" "length (mem w (dv_staging d)) = unat ?s"
      "\<not> dv_list_open d"
      using Suc.prems(1,4) unat_kMaxTransferBytes by (auto simp: staged_def word_le_nat_alt split: if_splits)
    have s4: "4 \<le> unat ?s" using Suc.prems(2) by (simp add: word_le_nat_alt)
    have m: "0 < ?m" "unat (n - at) = ?m"
      using True by (simp_all add: word_less_nat_alt word_le_nat_alt unat_sub_no_wrap)
    have x: "unat (off + at) = ?x" using len Suc.prems(6) by (intro unat_add_no_wrap) simp
    have u: "unat n1 = min ?m (unat ?s)" "unat lo = ?x div 4 * 4" 
      using m(2) by (simp add: n1_def unat_min) (simp only: lo_def unat_down4 x)
    have uskew: "unat skew = ?x mod 4"
      unfolding skew_def using u(2) x by (simp add: unat_sub_no_wrap word_le_nat_alt minus_div_mult_eq_mod)
    have "unat skew + unat n1 < 2 ^ 25" using uskew u(1) s(2) by simp
    then have "unat (skew + n1) + 3 < 2 ^ 64" "unat (skew + n1) = unat skew + unat n1"
      by (simp_all add: unat_add_no_wrap)
    then have uspan: "unat span = min (unat ?s) ((?x mod 4 + min ?m (unat ?s) + 3) div 4 * 4)"
      unfolding span_def by (simp only: unat_min unat_up4 uskew u(1))
    have le: "unat skew \<le> unat span" 
      using turn_numbers(3) [OF s4 s(1) m(1) _ len(2) uspan refl] uskew len(1) Suc.prems(6) by simp
    then have utaken: "unat taken = min (min ?m (unat ?s)) (unat span - ?x mod 4)"
      unfolding taken_def by (simp add: unat_min u(1) unat_sub_no_wrap word_le_nat_alt uskew)
    have "?x + ?m \<le> length M" using len(1) Suc.prems(6) by simp
    note num = turn_numbers [OF s4 s(1) m(1) this len(2) uspan utaken]
    have cap: "0 < span" "span \<le> kMaxTransferBytes" using num(3,4,6) s(3) by (simp_all add: word_le_nat_alt word_less_nat_alt)
    have c: "unat span \<le> length (mem w (dv_staging d))" "unat lo mod 4 = 0" "unat span mod 4 = 0"
        "unat lo + unat span \<le> length (mem w buffer)"
      using num(1,2,6) s(4) u(2) Suc.prems(5) by simp_all
    obtain w' where run: "\<And>f :: reply \<Rightarrow> (_, u8 list option) run. bindR (buffer_copy H buffer (dv_staging d) span lo 0) (\<lambda>ok.
        if \<not> ok then ret None
        else thenR (set_step ''buffer_get_data (staging)'') (bindR (call H (C_buffer_get_data (dv_staging d) 0 span)) f)) (d, w) =
      f (R_bytes (take (unat span) (drop (unat lo) (mem w buffer)))) (d\<lparr>dv_step := ''buffer_get_data (staging)''\<rparr>, w')"
      and w': "\<And>b. b \<noteq> dv_staging d \<Longrightarrow> mem w' b = mem w b" "length (mem w' (dv_staging d)) = length (mem w (dv_staging d))"
      using staging_turn [OF C s(5) Suc.prems(3) c cap, where t = "''buffer_get_data (staging)''"] by blast
    note run = run [unfolded Suc.prems(5)]
    let ?at = "at + taken" and ?d = "d\<lparr>dv_step := ''buffer_get_data (staging)''\<rparr>"
    let ?got = "got @ take (unat taken) (drop (unat skew) (take (unat span) (drop (unat lo) M)))"
    have uat: "unat ?at = unat at + unat taken" using num(5) unat_lt64 [of n] True
      by (intro unat_add_no_wrap) (simp add: word_less_nat_alt)
    have "take (unat taken) (drop (unat skew) (take (unat span) (drop (unat lo) M))) = take (unat taken) (drop ?x M)"
      using slice_append [OF num(3,2)] by (simp only: u(2) uskew)
    then have got: "?got = take (unat ?at) (drop (unat off) M)"
      by (simp add: Suc.prems(8) uat take_add add.commute)
    let ?f = "\<lambda>v. if length (as_bytes v) < unat span then thenR (dev_fail ''short staging read'') (ret None)
      else get_from fuel H buffer off n (at + taken) (got @ take (unat taken) (drop (unat skew) (as_bytes v)))"
    have "get_from (Suc fuel) H buffer off n at got (d, w) =
        bindR (buffer_copy H buffer (dv_staging d) span lo 0) (\<lambda>ok.
        if \<not> ok then ret None
        else thenR (set_step ''buffer_get_data (staging)'') (bindR (call H (C_buffer_get_data (dv_staging d) 0 span)) ?f)) (d, w)"
      unfolding get_from.simps Let_def n1_def lo_def skew_def span_def taken_def
      by (simp only: True not_True_eq_False if_False bindR_def [of ask] ask_def prod.case option.case fst_conv)
    moreover have "as_bytes (R_bytes (take (unat span) (drop (unat lo) M))) = take (unat span) (drop (unat lo) M)"
      "\<not> length (take (unat span) (drop (unat lo) M)) < unat span"
      using num(2) u(2) by (simp_all add: as_bytes_def)
    ultimately have eq: "get_from (Suc fuel) H buffer off n at got (d, w) = get_from fuel H buffer off n ?at ?got (?d, w')"
      by (simp only: run if_False)
    have "staged mem ?d w'" using Suc.prems(1,4) w' by (simp add: staged_def)
    moreover have "unat ?at \<le> unat n" "unat n - unat ?at \<le> fuel" using num(4,5) uat Suc.prems(6,7) by linarith+
    ultimately show ?thesis unfolding eq using w'(1) Suc.prems(2-5) got by (intro Suc.IH) simp_all
  qed
qed

text \<open>Growing makes a fresh buffer and touches no other.\<close>

lemma free_rid_runs:
  assumes "godot_buffers H mem" "r \<noteq> 0"
  shows "\<exists>l w'. free_rid H r (d, w) = (Some (), d\<lparr>dv_step := ''free_rid'', dv_permanent_live := l\<rparr>, w') \<and>
     (\<forall>b. b \<noteq> r \<longrightarrow> mem w' b = mem w b)"
proof -
  have frees: "\<exists>v w'. H c w = (Some v, w') \<and> (\<forall>b. b \<noteq> r \<longrightarrow> mem w' b = mem w b)" if "c \<in> {C_free_rid r, C_release r}" for c w
    using assms(1) [unfolded godot_buffers_def, THEN conjunct2] that by blast
  obtain v w1 where w1: "H (C_free_rid r) w = (Some v, w1)" "\<forall>b. b \<noteq> r \<longrightarrow> mem w1 b = mem w b"
    using frees [of "C_free_rid r" w] by auto
  obtain v2 w2 where w2: "H (C_release r) w1 = (Some v2, w2)" "\<forall>b. b \<noteq> r \<longrightarrow> mem w2 b = mem w1 b"
    using frees [of "C_release r" w1] by auto
  show ?thesis
  proof (cases "0 \<le> r")
    case True
    then have "free_rid H r (d, w) = (Some (), d\<lparr>dv_step := ''free_rid'', dv_permanent_live := dv_permanent_live d\<rparr>, w1)"
      using assms(2) w1(1) by (simp add: free_rid_def forget_def thenR_def bindR_def set_step_def upd_def call_def ret_def)
    then show ?thesis using w1(2) by blast
  next
    case False
    then have "free_rid H r (d, w) = (Some (), d\<lparr>dv_step := ''free_rid'', dv_permanent_live := dv_permanent_live d - 1\<rparr>, w2)"
      using w1(1) w2(1) by (simp add: free_rid_def forget_def thenR_def bindR_def set_step_def upd_def call_def ret_def)
    then show ?thesis using w1(2) w2(2)
      by (intro exI [of _ "dv_permanent_live d - 1"] exI [of _ w2]) simp
  qed
qed

lemma new_storage_runs:
  assumes "godot_buffers H mem" "dv_permanent_rids d" "unat want mod 4 = 0" "unat want + 3 < 2 ^ 64"
  shows "\<exists>k w'. storage_buffer_empty H want False (d, w) =
       (Some k, d\<lparr>dv_step := ''storage_buffer_create'', dv_permanent_live := dv_permanent_live d + 1\<rparr>, w') \<and>
     k < 0 \<and> mem w k = [] \<and> length (mem w' k) = unat want \<and> (\<forall>b. b \<noteq> k \<longrightarrow> mem w' b = mem w b)"
proof -
  obtain L where "unat want = 4 * L" using assms(3) by (auto simp: mod_eq_0_iff_dvd elim: dvdE)
  then have "unat ((want + 3) AND NOT 3) = unat want"
    using assms(4) by (simp only: unat_up4) simp
  then have r: "(want + 3) AND NOT 3 = want" by (simp only: word_unat_eq_iff)
  obtain i w1 k w2 where "H (C_storage_buffer_create want []) w = (Some (R_rid i), w1)"
    "H (C_make_permanent i) w1 = (Some (R_rid k), w2)" and k: "k < 0" "mem w k = []"
    "length (mem w2 k) = unat want" "\<forall>b. b \<noteq> k \<longrightarrow> mem w2 b = mem w b"
    using assms(1) [unfolded godot_buffers_def, THEN conjunct1] by metis
  then have "storage_buffer_empty H want False (d, w) =
       (Some k, d\<lparr>dv_step := ''storage_buffer_create'', dv_permanent_live := dv_permanent_live d + 1\<rparr>, w2)"
    using assms(2)
    by (simp only: storage_buffer_empty_def Let_def r)
      (simp add: storage_buffer_uninit_def rid_or_fail_def as_rid_def thenR_def bindR_def set_step_def upd_def ask_def call_def ret_def)
  then show ?thesis using k by blast
qed

lemma grow_staging_runs:
  assumes B: "godot_buffers H mem" and S: "staged mem d w" and n: "0 < n" "unat n < 2 ^ 63"
  shows "\<exists>d' w'. grow_staging H n (d, w) = (Some True, d', w') \<and> staged mem d' w' \<and> dv_staging d' \<noteq> 0 \<and> 4 \<le> dv_staging_bytes d' \<and>
     dv_submitted d' = dv_submitted d \<and>
     (\<forall>b. b \<noteq> dv_staging d \<and> mem w b \<noteq> [] \<longrightarrow> b \<noteq> dv_staging d' \<and> mem w' b = mem w b)"
proof -
  define want where "want = min (dv_staging_max d) ((n + 255) AND NOT 255)"
  have max: "256 \<le> unat (dv_staging_max d)" "unat (dv_staging_max d) mod 4 = 0" "unat (dv_staging_max d) \<le> 2 ^ 24"
    using S unat_kMaxTransferBytes by (auto simp: staged_def word_le_nat_alt)
  have u: "unat want = min (unat (dv_staging_max d)) ((unat n + 255) div 256 * 256)"
    using n(2) unfolding want_def by (simp only: unat_min unat_down256) (simp add: unat_add_no_wrap)
  have "0 < unat n" using n(1) by (simp add: word_less_nat_alt)
  then have "1 \<le> (unat n + 255) div 256" by (simp add: div_greater_zero_iff Suc_le_eq)
  then have ge: "4 \<le> unat want" using u max(1) by simp
  have word: "unat want mod 4 = 0"
  proof (cases "unat want = unat (dv_staging_max d)")
    case False
    then have "unat want = (unat n + 255) div 256 * 64 * 4" using u by (simp add: min_def split: if_splits)
    then show ?thesis by (simp only: mod_mult_self2_is_0)
  qed (simp add: max)
  have cap: "unat want \<le> 2 ^ 24" "want \<le> kMaxTransferBytes" using u max(3) unat_kMaxTransferBytes by (auto simp: word_le_nat_alt)
  have grow: "grow_staging H n = bindR ask (\<lambda>e.
     let want = min (dv_staging_max e) ((n + 255) AND NOT 255) in
     if dv_staging_bytes e < want
     then thenR (if dv_staging e \<noteq> 0
                 then thenR (free_rid H (dv_staging e)) (upd (\<lambda>d. d\<lparr>dv_staging := 0, dv_staging_bytes := 0\<rparr>))
                 else ret ())
          (bindR (storage_buffer_empty H want False) (\<lambda>r.
           thenR (upd (\<lambda>d. d\<lparr>dv_staging := r\<rparr>))
           (if r = 0 then ret False else thenR (upd (\<lambda>d. d\<lparr>dv_staging_bytes := want\<rparr>)) (ret True))))
     else ret True)" by (rule grow_staging_def)
  have at: "grow_staging H n (d, w) =
     (if dv_staging_bytes d < want
     then thenR (if dv_staging d \<noteq> 0
                 then thenR (free_rid H (dv_staging d)) (upd (\<lambda>d. d\<lparr>dv_staging := 0, dv_staging_bytes := 0\<rparr>))
                 else ret ())
          (bindR (storage_buffer_empty H want False) (\<lambda>r.
           thenR (upd (\<lambda>d. d\<lparr>dv_staging := r\<rparr>))
           (if r = 0 then ret False else thenR (upd (\<lambda>d. d\<lparr>dv_staging_bytes := want\<rparr>)) (ret True))))
     else ret True) (d, w)"
    unfolding grow Let_def want_def by (simp only: bindR_def [of ask] ask_def prod.case option.case fst_conv)
  show ?thesis
  proof (cases "dv_staging_bytes d < want")
    case False
    then have "4 \<le> dv_staging_bytes d" using ge by (simp add: word_le_nat_alt word_less_nat_alt)
    moreover from this have "dv_staging d \<noteq> 0" using S by (auto simp: staged_def)
    ultimately show ?thesis using False S unfolding at by (simp add: ret_def)
  next
    case True
    obtain e w1 where freed: "(if dv_staging d \<noteq> 0
                 then thenR (free_rid H (dv_staging d)) (upd (\<lambda>d. d\<lparr>dv_staging := 0, dv_staging_bytes := 0\<rparr>))
                 else ret ()) (d, w) = (Some (), e, w1)"
      and e: "dv_permanent_rids e = dv_permanent_rids d" "dv_list_open e = dv_list_open d" "dv_submitted e = dv_submitted d"
        "dv_staging_max e = dv_staging_max d" "\<forall>b. b \<noteq> dv_staging d \<longrightarrow> mem w1 b = mem w b"
    proof (cases "dv_staging d = 0")
      case True
      then show ?thesis using that [of d w] by (simp add: ret_def)
    next
      case False
      obtain l w' where "free_rid H (dv_staging d) (d, w) = (Some (), d\<lparr>dv_step := ''free_rid'', dv_permanent_live := l\<rparr>, w')"
        "\<forall>b. b \<noteq> dv_staging d \<longrightarrow> mem w' b = mem w b"
        using free_rid_runs [OF B False] by blast
      then show ?thesis
        using False that [of "d\<lparr>dv_step := ''free_rid'', dv_permanent_live := l, dv_staging := 0, dv_staging_bytes := 0\<rparr>" w']
        by (simp add: thenR_def bindR_def upd_def)
    qed
    have pe: "dv_permanent_rids e" using e(1) S by (simp add: staged_def)
    have "unat want + 3 < 2 ^ 64" using cap(1) by simp
    then obtain k w2 where new: "storage_buffer_empty H want False (e, w1) =
       (Some k, e\<lparr>dv_step := ''storage_buffer_create'', dv_permanent_live := dv_permanent_live e + 1\<rparr>, w2)"
      and k: "k < 0" "mem w1 k = []" "length (mem w2 k) = unat want" "\<forall>b. b \<noteq> k \<longrightarrow> mem w2 b = mem w1 b"
      using new_storage_runs [OF B pe word, of w1] by blast
    let ?d = "e\<lparr>dv_step := ''storage_buffer_create'', dv_permanent_live := dv_permanent_live e + 1, dv_staging := k, dv_staging_bytes := want\<rparr>"
    have "grow_staging H n (d, w) = (Some True, ?d, w2)"
      unfolding at using True freed new k(1) by (simp add: thenR_def bindR_def upd_def ret_def)
    moreover have "staged mem ?d w2"
      using S e(1,2,4) k word cap by (simp add: staged_def)
    moreover have "\<forall>b. b \<noteq> dv_staging d \<and> mem w b \<noteq> [] \<longrightarrow> b \<noteq> k \<and> mem w2 b = mem w b"
      using e(5) k(2,4) by metis
    moreover have "4 \<le> want" using ge by (simp add: word_le_nat_alt)
    ultimately show ?thesis using k(1) e(3) by (intro exI [of _ ?d] exI [of _ w2]) simp
  qed
qed

lemma buffer_get_into_exact:
  assumes "godot_copies H mem" "godot_buffers H mem" "staged mem d w" "\<not> dv_submitted d"
    and "buffer \<noteq> dv_staging d" "mem w buffer = M"
    and "unat off + unat n \<le> length M" "length M mod 4 = 0" "length M < 2 ^ 63"
  shows "\<exists>d' w'. buffer_get_into H buffer off n (d, w) = (Some (Some (take (unat n) (drop (unat off) M))), d', w') \<and>
    staged mem d' w' \<and> mem w' buffer = M"
proof (cases "n = 0")
  case True
  then show ?thesis using assms by (simp add: buffer_get_into_def bindR_def ask_def ret_def)
next
  case False
  then have n: "0 < n" "0 < unat n" "unat n < 2 ^ 63" using assms(7,9) by (simp_all add: word_neq_0_conv unat_gt_0)
  obtain d1 w1 where g: "grow_staging H n (d, w) = (Some True, d1, w1)" "staged mem d1 w1" "dv_staging d1 \<noteq> 0"
    "4 \<le> dv_staging_bytes d1"
    and b: "\<forall>b. b \<noteq> dv_staging d \<and> mem w b \<noteq> [] \<longrightarrow> b \<noteq> dv_staging d1 \<and> mem w1 b = mem w b"
    using grow_staging_runs [OF assms(2,3) n(1,3)] by blast
  have "M \<noteq> []" using n(2) assms(7) by auto
  then have b: "buffer \<noteq> dv_staging d1" "mem w1 buffer = M" using b assms(5,6) by auto
  have "buffer_get_into H buffer off n (d, w) = get_from (unat n) H buffer off n 0 [] (d1, w1)"
    using assms(4) False g(1) by (simp add: buffer_get_into_def bindR_def ask_def)
  with get_from_exact [OF assms(1,7,8,9) g(2,4) b(1) g(3) b(2), of 0 "unat n" "[]"] show ?thesis by simp
qed

text \<open>A host that kills the call at a copy that is not of whole words, or a read of more than 16 MiB.\<close>

definition whole_transfer :: "rd_call \<Rightarrow> bool" where
  "whole_transfer c =
     (case c of
        C_buffer_copy src dst i j n \<Rightarrow> unat i mod 4 = 0 \<and> unat j mod 4 = 0 \<and> unat n mod 4 = 0
      | C_buffer_get_data b i n \<Rightarrow> n \<le> kMaxTransferBytes
      | _ \<Rightarrow> True)"

definition strict :: "'w host \<Rightarrow> 'w host" where
  "strict H c w = (if whole_transfer c then H c w else (None, w))"

lemma strict_documented:
  "godot_copies H mem \<Longrightarrow> godot_copies (strict H) mem" "godot_buffers H mem \<Longrightarrow> godot_buffers (strict H) mem"
  unfolding godot_copies_def godot_buffers_def by (auto simp: strict_def whole_transfer_def)

text \<open>
  C13: reading a buffer back through the staging buffer returns exactly the bytes asked for,
  whatever the offset's alignment, the staging size and the number of transfers, as long as the
  staging cap is a multiple of four; the staging buffer grows as needed, and neither the buffer
  read nor the device's readiness for the next read changes. Every copy is then of whole words and
  every read at most 16 MiB: a host that kills the call at any other gives the same bytes.
\<close>

theorem staging_read_exact:
  assumes "godot_copies H mem" "godot_buffers H mem" "staged mem d w" "\<not> dv_submitted d"
    and "buffer \<noteq> dv_staging d" "mem w buffer = M"
    and "unat off + unat n \<le> length M" "length M mod 4 = 0" "length M < 2 ^ 63"
  shows "(\<exists>d' w'. buffer_get_into H buffer off n (d, w) = (Some (Some (take (unat n) (drop (unat off) M))), d', w') \<and>
      staged mem d' w' \<and> mem w' buffer = M) \<and>
    fst (buffer_get_into (strict H) buffer off n (d, w)) = Some (Some (take (unat n) (drop (unat off) M)))"
  using buffer_get_into_exact [OF assms]
    buffer_get_into_exact [OF strict_documented(1) [OF assms(1)] strict_documented(2) [OF assms(2)] assms(3-9)] by auto

text \<open>A small Godot: RIDs counted down from \<open>-1\<close>, the last size asked for, the buffers' bytes.\<close>

definition tiny_mem :: "nat \<times> nat \<times> (int \<Rightarrow> u8 list) \<Rightarrow> int \<Rightarrow> u8 list" where
  "tiny_mem w b = (case w of (next, asked, f) \<Rightarrow> if b \<le> - 1 - int next then [] else f b)"

definition tiny_godot :: "(nat \<times> nat \<times> (int \<Rightarrow> u8 list)) host" where
  "tiny_godot c w =
     (case w of (next, asked, f) \<Rightarrow>
      case c of
        C_storage_buffer_create n _ \<Rightarrow> (Some (R_rid 5), next, unat n, f)
      | C_make_permanent _ \<Rightarrow> (Some (R_rid (- 1 - int next)), Suc next, asked, f(- 1 - int next := replicate asked 0))
      | C_buffer_copy src dst i j n \<Rightarrow>
          (Some (R_int 0), next, asked,
           f(dst := take (unat j) (tiny_mem w dst) @ take (unat n) (drop (unat i) (tiny_mem w src)) @
                    drop (unat j + unat n) (tiny_mem w dst)))
      | C_buffer_get_data b i n \<Rightarrow> (Some (R_bytes (take (unat n) (drop (unat i) (tiny_mem w b)))), w)
      | _ \<Rightarrow> (Some R_nil, w))"

lemma tiny_buffers: "godot_buffers tiny_godot tiny_mem"
  by (auto simp: godot_buffers_def tiny_godot_def tiny_mem_def)

lemma tiny_copies: "godot_copies tiny_godot tiny_mem"
proof -
  have m: "tiny_mem (nx, asked, f(dst := xs)) = (tiny_mem (nx, asked, f))(dst := xs)"
    if "dst \<le> - 1 - int nx \<longrightarrow> xs = []" for nx asked f dst xs
    using that by (auto simp: tiny_mem_def fun_eq_iff)
  show ?thesis unfolding godot_copies_def
    by (auto simp: tiny_godot_def m split: prod.splits) (auto simp: tiny_mem_def m)
qed

lemma staging_read_exact_witness:
  "\<exists>d' w'. buffer_get_into tiny_godot 3 1 5 (new_device, 0, 0, (\<lambda>b. if b = 3 then [0, 1, 2, 3, 4, 5, 6, 7] else [])) =
      (Some (Some [1, 2, 3, 4, 5]), d', w') \<and> staged tiny_mem d' w' \<and> tiny_mem w' 3 = [0, 1, 2, 3, 4, 5, 6, 7]"
  using staging_read_exact [OF tiny_copies tiny_buffers, of new_device "(0, 0, \<lambda>b. if b = 3 then [0, 1, 2, 3, 4, 5, 6, 7] else [])"
      3 "[0, 1, 2, 3, 4, 5, 6, 7]" 1 5]
  by (simp add: staged_def new_device_def tiny_mem_def kMaxTransferBytes_def push_bit_eq_mult)

text \<open>
  \<open>set_staging_max\<close> takes a size that is no multiple of four; the first copy of a long read
  is then not whole words, which \<open>staging_read_exact\<close> excludes and its comment promises.
\<close>

lemma staging_max_splits_a_word:
  "take 3 (snd (snd (run_ops (logged tiny_godot (\<lambda>w. False)) [Op_staging_max 257, Op_get_into 3 0 300]
      (new_device, (0, 0, \<lambda>b. replicate 300 9), [])))) =
   [(C_storage_buffer_create 260 [], False), (C_make_permanent 5, False), (C_buffer_copy 3 (- 1) 0 0 257, False)]"
  by code_simp

end
