(* ===== verification/RdState.thy ===== *)
theory RdState
  imports RdDevice RdPack "HOL-Library.Product_Lexorder" "HOL-Library.AList"
begin

text \<open>
  \<open>guest/ggml-rd/rd_internal.h\<close> and the first part of \<open>ggml-rd.cpp\<close>: the backend's context,
  statistics and buffers, waiting for the device, and where a tensor's bytes are. A run of
  the backend works on its own state beside the device and the host's world; the embedded
  SPIR-V, the environment, the op table, the generated CPU kernels and the hooks of the
  embedding program are parameters.
\<close>

section \<open>The backend's state\<close>

record stats =
  st_graphs :: int
  st_nodes :: int
  st_dispatches :: int
  st_skipped :: int
  st_barriers :: int
  st_pipelines :: int
  st_set0_created :: int
  st_slots_created :: int
  st_coop_yields :: int
  st_waits :: int
  st_faults :: int
  st_failed_graphs :: int
  st_params_bytes :: int
  st_set_bytes :: int
  st_get_bytes :: int
  st_copies :: int
  st_clears :: int
  st_buffers_live :: int
  st_bytes_live :: int
  st_last_nodes :: int
  st_last_dispatches :: int
  st_last_barriers :: int
  st_last_skipped :: int

text \<open>\<open>Ctx\<close>: \<open>cx_dev\<close> is whether the device pointer is set; the profile is not modelled.\<close>

record ctx_state =
  cx_dev :: bool
  cx_total_bytes :: u64
  cx_pending :: bool
  cx_next_buffer_index :: u32
  cx_dispatch_serial :: u64
  cx_timestamps :: bool
  cx_ts_armed :: bool
  cx_last_gpu_ns :: int
  cx_st :: stats
  cx_last_error :: string
  cx_last_dropped :: string

text \<open>A key of the set-0 cache: the RIDs of the params table, three sources and the destination.\<close>

datatype set_key = Set_key (key_rids: "int \<times> int \<times> int \<times> int \<times> int")

instantiation set_key :: linorder
begin

definition less_eq_set_key :: "set_key \<Rightarrow> set_key \<Rightarrow> bool" where
  "less_eq_set_key k l \<longleftrightarrow> key_rids k \<le> key_rids l"

definition less_set_key :: "set_key \<Rightarrow> set_key \<Rightarrow> bool" where
  "less_set_key k l \<longleftrightarrow> key_rids k < key_rids l"

instance
  by standard (auto simp: less_eq_set_key_def less_set_key_def set_key.expand)

end

text \<open>
  \<open>State\<close>: a \<open>Kern\<close> is a shader and a pipeline, and \<open>std::map\<close> the list of its pairs in the
  order of their keys.
\<close>

record kstate =
  ks_kerns :: "(int \<times> int) list"
  ks_layout_shader :: int
  ks_params :: int
  ks_params_slots :: u32
  ks_slot_ubos :: "int list"
  ks_slot_sets :: "int list"
  ks_set0 :: "(set_key \<times> int) list"
  ks_created :: u32

definition fresh_kstate :: kstate where
  "fresh_kstate = \<lparr>ks_kerns = [], ks_layout_shader = 0, ks_params = 0, ks_params_slots = 0, ks_slot_ubos = [],
     ks_slot_sets = [], ks_set0 = [], ks_created = 0\<rparr>"

text \<open>
  A ggml buffer: \<open>mem\<close> is the guest memory of the CPU fallback, null when the bytes are an RD
  buffer. \<open>b_bufs\<close> has the live buffers of this backend's type by their number, \<open>b_serial\<close> is
  the flag of \<open>set_serial_kernels\<close>, and \<open>b_since_yield\<close> the static of the CPU loop.
\<close>

record rd_buffer =
  bf_rid :: int
  bf_mem :: "u8 list option"
  bf_size :: u64
  bf_base :: u64
  bf_index :: u32

record bstate =
  b_ctx :: ctx_state
  b_ks :: kstate
  b_dev :: device
  b_bufs :: "nat \<Rightarrow> rd_buffer option"
  b_serial :: bool
  b_since_yield :: u64

type_synonym ('w, 'a) brun = "(bstate \<times> 'w, 'a) prog"

text \<open>
  What the backend is embedded in. A hook may be null, and may be where the vmcall dies;
  \<open>be_run_kernel\<close> is the generated runner of the CPU fallback: the kernel, its words, the
  four bound buffers, the grid and the memory of every buffer give the memory after it.
\<close>

type_synonym 'w hook = "('w \<Rightarrow> unit option \<times> 'w) option"

record 'w benv =
  be_host :: "'w host"
  be_penv :: penv
  be_ops :: "op_entry list"
  be_run_kernel :: "int \<Rightarrow> words \<Rightarrow> nat list \<Rightarrow> (nat \<Rightarrow> u32) \<Rightarrow> (nat \<Rightarrow> u8 list option) \<Rightarrow> (nat \<Rightarrow> u8 list option) option"
  be_op_desc :: "tensor \<Rightarrow> string"
  be_type_name :: "ggml_type \<Rightarrow> string"
  be_embedded :: "string \<Rightarrow> u8 list option"
  be_wait_gpu :: "'w hook"
  be_coop :: "'w hook"

definition dev :: "('w, 'a) run \<Rightarrow> ('w, 'a) brun" where
  "dev m s = (case m (b_dev (fst s), snd s) of (r, d, w) \<Rightarrow> (r, (fst s)\<lparr>b_dev := d\<rparr>, w))"

definition askB :: "('w, bstate) brun" where "askB s = (Some (fst s), s)"
definition updB :: "(bstate \<Rightarrow> bstate) \<Rightarrow> ('w, unit) brun" where "updB f s = (Some (), f (fst s), snd s)"
definition upd_ctx :: "(ctx_state \<Rightarrow> ctx_state) \<Rightarrow> ('w, unit) brun" where "upd_ctx f = updB (\<lambda>s. s\<lparr>b_ctx := f (b_ctx s)\<rparr>)"
definition upd_st :: "(stats \<Rightarrow> stats) \<Rightarrow> ('w, unit) brun" where "upd_st f = upd_ctx (\<lambda>c. c\<lparr>cx_st := f (cx_st c)\<rparr>)"
definition upd_ks :: "(kstate \<Rightarrow> kstate) \<Rightarrow> ('w, unit) brun" where "upd_ks f = updB (\<lambda>s. s\<lparr>b_ks := f (b_ks s)\<rparr>)"

definition run_hook :: "'w hook \<Rightarrow> ('w, unit) brun" where
  "run_hook h = (case h of None \<Rightarrow> ret () | Some f \<Rightarrow> (\<lambda>s. case f (snd s) of (r, w) \<Rightarrow> (r, fst s, w)))"

definition set_error :: "string \<Rightarrow> ('w, unit) brun" where
  "set_error e = upd_ctx (\<lambda>c. c\<lparr>cx_last_error := e\<rparr>)"

text \<open>A failure: the message goes to the context, and a null RID comes back.\<close>

definition null_rid :: "string \<Rightarrow> ('w, int) brun" where
  "null_rid e = thenR (set_error e) (ret 0)"

definition coop :: "'w benv \<Rightarrow> ('w, unit) brun" where
  "coop E = thenR (upd_st (\<lambda>t. t\<lparr>st_coop_yields := st_coop_yields t + 1\<rparr>)) (run_hook (be_coop E))"

section \<open>Waiting for the device\<close>

definition device_ok :: "bstate \<Rightarrow> bool" where
  "device_ok s \<longleftrightarrow> cx_dev (b_ctx s) \<and> dv_rd (b_dev s) \<noteq> 0"

definition env_int :: "'w benv \<Rightarrow> string \<Rightarrow> int" where
  "env_int E name = (case pe_getenv (be_penv E) name of Some e \<Rightarrow> atoi e | None \<Rightarrow> 0)"

definition cpu_mode :: "'w benv \<Rightarrow> bstate \<Rightarrow> bool" where
  "cpu_mode E s =
     (if device_ok s then False
      else case pe_getenv (be_penv E) ''GGML_RD_CPU_FALLBACK'' of None \<Rightarrow> True | Some e \<Rightarrow> atoi e \<noteq> 0)"

definition usable :: "'w benv \<Rightarrow> bstate \<Rightarrow> bool" where
  "usable E s \<longleftrightarrow> device_ok s \<or> cpu_mode E s"

text \<open>The timestamps of the last two captures, after the sync that resolves them.\<close>

definition read_timestamps :: "'w benv \<Rightarrow> ('w, unit) brun" where
  "read_timestamps E =
     bindR (dev (timestamps_count (be_host E))) (\<lambda>n.
     thenR (if 2 \<le> n
            then bindR (dev (timestamp_gpu_ns (be_host E) (n - 1))) (\<lambda>t1.
                 bindR (dev (timestamp_gpu_ns (be_host E) (n - 2))) (\<lambda>t0.
                 upd_ctx (\<lambda>c. c\<lparr>cx_last_gpu_ns := t1 - t0\<rparr>)))
            else upd_ctx (\<lambda>c. c\<lparr>cx_last_gpu_ns := - 1\<rparr>))
     (upd_ctx (\<lambda>c. c\<lparr>cx_ts_armed := False\<rparr>)))"

definition ensure_idle :: "'w benv \<Rightarrow> ('w, unit) brun" where
  "ensure_idle E =
     bindR askB (\<lambda>s.
     if \<not> cx_pending (b_ctx s) then ret ()
     else thenR (upd_st (\<lambda>t. t\<lparr>st_waits := st_waits t + 1\<rparr>))
          (thenR (run_hook (be_wait_gpu E))
          (thenR (dev (sync (be_host E)))
          (thenR (upd_ctx (\<lambda>c. c\<lparr>cx_pending := False\<rparr>))
          (bindR askB (\<lambda>s. if cx_ts_armed (b_ctx s) then read_timestamps E else ret ()))))))"

section \<open>Buffers of tensors\<close>

text \<open>The number of the backend buffer a tensor's bytes are in, when it is one of these.\<close>

definition buffer_no :: "bstate \<Rightarrow> tensor \<Rightarrow> nat option" where
  "buffer_no s t =
     (case (case t_view_src t of Some v \<Rightarrow> t_buffer v | None \<Rightarrow> t_buffer t) of
        None \<Rightarrow> None
      | Some n \<Rightarrow> if b_bufs s n = None then None else Some n)"

definition buffer_of :: "bstate \<Rightarrow> tensor \<Rightarrow> rd_buffer option" where
  "buffer_of s t = Option.bind (buffer_no s t) (b_bufs s)"

definition byte_offset :: "tensor \<Rightarrow> rd_buffer \<Rightarrow> u64" where
  "byte_offset t b = t_data t - bf_base b"

section \<open>A small host to run on\<close>

text \<open>It makes RIDs counted down from \<open>-1\<close>, answers every other call with 0, and kills nothing.\<close>

definition counting_godot :: "nat host" where
  "counting_godot c w =
     (case c of
        C_make_permanent _ \<Rightarrow> (Some (R_rid (- 1 - int w)), Suc w)
      | C_shader_from_spirv _ \<Rightarrow> (Some (R_rid 5), w)
      | C_pipeline_create _ \<Rightarrow> (Some (R_rid 5), w)
      | C_storage_buffer_create _ _ \<Rightarrow> (Some (R_rid 5), w)
      | C_uniform_buffer_create _ _ \<Rightarrow> (Some (R_rid 5), w)
      | C_uniform_set_create _ _ _ \<Rightarrow> (Some (R_rid 5), w)
      | _ \<Rightarrow> (Some (R_int 0), w))"

definition demo_penv :: penv where
  "demo_penv = \<lparr>pe_getenv = (\<lambda>n. None), pe_serial = False, pe_sub = (\<lambda>a b. 0), pe_div = (\<lambda>a b. 0), pe_mul = (\<lambda>a b. 0),
     pe_add = (\<lambda>a b. 0), pe_pow = (\<lambda>a b. 0), pe_log = (\<lambda>a. 0), pe_of_int = (\<lambda>i. 0), pe_floor = (\<lambda>a. a), pe_ceil = (\<lambda>a. a),
     pe_less = (\<lambda>a b. False)\<rparr>"

definition demo_benv :: "'w host \<Rightarrow> op_entry list \<Rightarrow> 'w benv" where
  "demo_benv H table = \<lparr>be_host = H, be_penv = demo_penv, be_ops = table,
     be_run_kernel = (\<lambda>k w bind groups mem. Some mem), be_op_desc = (\<lambda>t. ''op''),
     be_type_name = (\<lambda>ty. ''type''), be_embedded = (\<lambda>name. Some [0]), be_wait_gpu = None, be_coop = None\<rparr>"

definition no_stats :: stats where
  "no_stats = \<lparr>st_graphs = 0, st_nodes = 0, st_dispatches = 0, st_skipped = 0, st_barriers = 0, st_pipelines = 0,
     st_set0_created = 0, st_slots_created = 0, st_coop_yields = 0, st_waits = 0, st_faults = 0, st_failed_graphs = 0,
     st_params_bytes = 0, st_set_bytes = 0, st_get_bytes = 0, st_copies = 0, st_clears = 0, st_buffers_live = 0,
     st_bytes_live = 0, st_last_nodes = 0, st_last_dispatches = 0, st_last_barriers = 0, st_last_skipped = 0\<rparr>"

definition fresh_ctx :: ctx_state where
  "fresh_ctx = \<lparr>cx_dev = False, cx_total_bytes = 0, cx_pending = False, cx_next_buffer_index = 1, cx_dispatch_serial = 0,
     cx_timestamps = False, cx_ts_armed = False, cx_last_gpu_ns = - 1, cx_st = no_stats, cx_last_error = [], cx_last_dropped = []\<rparr>"

text \<open>A state with an attached device.\<close>

definition demo_bstate :: bstate where
  "demo_bstate = \<lparr>b_ctx = fresh_ctx\<lparr>cx_dev := True\<rparr>, b_ks = fresh_kstate, b_dev = new_device\<lparr>dv_rd := 1\<rparr>,
     b_bufs = (\<lambda>n. None), b_serial = False, b_since_yield = 0\<rparr>"

end
