(* ===== verification/RdKernels.thy ===== *)
theory RdKernels
  imports RdState
begin

text \<open>
  \<open>guest/ggml-rd/rd_kernels.cpp\<close>: the pipelines, the params table and the uniform sets a
  graph binds, made on first use and cached.
\<close>

unbundle bit_operations_syntax

definition created_one :: "'w benv \<Rightarrow> ('w, unit) brun" where
  "created_one E =
     thenR (upd_ks (\<lambda>k. k\<lparr>ks_created := ks_created k + 1\<rparr>))
     (bindR askB (\<lambda>s. if 256 \<le> ks_created (b_ks s) then thenR (upd_ks (\<lambda>k. k\<lparr>ks_created := 0\<rparr>)) (coop E) else ret ()))"

section \<open>Pipelines\<close>

definition kernel_pipeline :: "'w benv \<Rightarrow> int \<Rightarrow> ('w, int) brun" where
  "kernel_pipeline E k =
     (if k < 0 \<or> int kKernelCount \<le> k then null_rid (''kernel id '' @ to_string k @ '' out of range'')
      else
        thenR (upd_ks (\<lambda>s. if length (ks_kerns s) < kKernelCount
               then s\<lparr>ks_kerns := ks_kerns s @ replicate (kKernelCount - length (ks_kerns s)) (0, 0)\<rparr> else s))
        (bindR askB (\<lambda>s.
         if snd (ks_kerns (b_ks s) ! nat k) \<noteq> 0 then ret (snd (ks_kerns (b_ks s) ! nat k))
         else case be_embedded E (fst (kKernels ! nat k)) of
                None \<Rightarrow> null_rid (''kernel '' @ fst (kKernels ! nat k) @ '' is not embedded'')
              | Some spirv \<Rightarrow>
                  bindR (dev (shader_from_spirv (be_host E) spirv)) (\<lambda>sh.
                  thenR (upd_ks (\<lambda>s. s\<lparr>ks_kerns := (ks_kerns s)[nat k := (sh, snd (ks_kerns s ! nat k))]\<rparr>))
                  (if sh = 0
                   then bindR askB (\<lambda>s. null_rid (''shader '' @ fst (kKernels ! nat k) @ '': '' @ dv_err (b_dev s)))
                   else bindR (dev (compute_pipeline (be_host E) sh)) (\<lambda>p.
                     thenR (upd_ks (\<lambda>s. s\<lparr>ks_kerns := (ks_kerns s)[nat k := (sh, p)]\<rparr>))
                     (if p = 0
                      then bindR askB (\<lambda>s.
                           thenR (set_error (''pipeline '' @ fst (kKernels ! nat k) @ '': '' @ dv_err (b_dev s)))
                           (thenR (dev (free_rid (be_host E) sh))
                           (thenR (upd_ks (\<lambda>s. s\<lparr>ks_kerns := (ks_kerns s)[nat k := (0, p)]\<rparr>)) (ret 0))))
                      else thenR (upd_ks (\<lambda>s. if ks_layout_shader s = 0 then s\<lparr>ks_layout_shader := sh\<rparr> else s))
                           (thenR (upd_st (\<lambda>t. t\<lparr>st_pipelines := st_pipelines t + 1\<rparr>)) (ret p)))))))))"

section \<open>The params table\<close>

text \<open>\<open>while (cap < slots) cap *= 2;\<close> on 32 bits: it need not end.\<close>

partial_function (option) cap_loop :: "u32 \<Rightarrow> u32 \<Rightarrow> u32 option" where
  "cap_loop slots cap = (if cap < slots then cap_loop slots (cap * 2) else Some cap)"

declare cap_loop.simps [code]

definition params_cap :: "u32 \<Rightarrow> u32 option" where
  "params_cap slots = cap_loop slots 8192"

abbreviation kSlotBytes :: u64 where "kSlotBytes \<equiv> 256"

definition forget_all :: "'w benv \<Rightarrow> int list \<Rightarrow> ('w, unit) brun" where
  "forget_all E rids = fold (\<lambda>r m. thenR m (dev (forget (be_host E) r))) rids (ret ())"

definition params_buffer :: "'w benv \<Rightarrow> u32 \<Rightarrow> ('w, int) brun" where
  "params_buffer E slots =
     bindR askB (\<lambda>s.
     if ks_params (b_ks s) \<noteq> 0 \<and> slots \<le> ks_params_slots (b_ks s) then ret (ks_params (b_ks s))
     else case params_cap slots of
            None \<Rightarrow> never
          | Some cap \<Rightarrow>
              thenR (if ks_params (b_ks s) \<noteq> 0
                     then thenR (forget_all E (map snd (ks_set0 (b_ks s))))
                          (thenR (upd_ks (\<lambda>k. k\<lparr>ks_set0 := []\<rparr>))
                          (thenR (dev (free_rid (be_host E) (ks_params (b_ks s))))
                          (upd_ks (\<lambda>k. k\<lparr>ks_params := 0, ks_params_slots := 0\<rparr>))))
                     else ret ())
              (bindR (dev (storage_buffer_empty (be_host E) (ucast cap * kSlotBytes) True)) (\<lambda>p.
               thenR (upd_ks (\<lambda>k. k\<lparr>ks_params := p\<rparr>))
               (if p = 0 then bindR askB (\<lambda>s. null_rid (''params table: '' @ dv_err (b_dev s)))
                else thenR (upd_ks (\<lambda>k. k\<lparr>ks_params_slots := cap\<rparr>)) (ret p)))))"

section \<open>Uniform sets\<close>

definition UNIFORM_TYPE_STORAGE_BUFFER :: int where "UNIFORM_TYPE_STORAGE_BUFFER = 8"
definition UNIFORM_TYPE_UNIFORM_BUFFER :: int where "UNIFORM_TYPE_UNIFORM_BUFFER = 7"

definition le_bytes :: "u32 \<Rightarrow> u8 list" where
  "le_bytes x = map (\<lambda>i. ucast (drop_bit (8 * i) x)) [0..<4]"

text \<open>One slot: a 16-byte uniform buffer that holds the slot's first word, and its set.\<close>

definition make_slot :: "'w benv \<Rightarrow> ('w, bool) brun" where
  "make_slot E =
     bindR askB (\<lambda>s.
     let j = word_of_nat (length (ks_slot_sets (b_ks s))) :: u32 in
     bindR (dev (uniform_buffer (be_host E) 16 (Some (concat (map le_bytes [j * 64, 0, 0, 0]))))) (\<lambda>ubo.
     if ubo = 0 then bindR askB (\<lambda>s. thenR (set_error (''slot ubo: '' @ dv_err (b_dev s))) (ret False))
     else bindR (dev (uniform_set (be_host E) (ks_layout_shader (b_ks s)) [(0, UNIFORM_TYPE_UNIFORM_BUFFER, ubo)] 1)) (\<lambda>us.
          if us = 0
          then bindR askB (\<lambda>s. thenR (set_error (''slot set: '' @ dv_err (b_dev s)))
               (thenR (dev (free_rid (be_host E) ubo)) (ret False)))
          else thenR (upd_ks (\<lambda>k. k\<lparr>ks_slot_ubos := ks_slot_ubos k @ [ubo], ks_slot_sets := ks_slot_sets k @ [us]\<rparr>))
               (thenR (upd_st (\<lambda>t. t\<lparr>st_slots_created := st_slots_created t + 1\<rparr>))
               (thenR (created_one E) (ret True))))))"

text \<open>The loop makes one slot a turn, so \<open>n\<close> turns make the \<open>n\<close> missing ones.\<close>

primrec make_slots :: "nat \<Rightarrow> 'w benv \<Rightarrow> ('w, bool) brun" where
  "make_slots 0 E = ret True"
| "make_slots (Suc n) E = bindR (make_slot E) (\<lambda>ok. if ok then make_slots n E else ret False)"

definition slot_set :: "'w benv \<Rightarrow> nat \<Rightarrow> ('w, int) brun" where
  "slot_set E i =
     bindR askB (\<lambda>s.
     if ks_layout_shader (b_ks s) = 0 then null_rid ''slot_set before any pipeline''
     else bindR (make_slots (Suc i - length (ks_slot_sets (b_ks s))) E) (\<lambda>ok.
          if ok then bindR askB (\<lambda>s. ret (ks_slot_sets (b_ks s) ! i)) else ret 0))"

text \<open>\<open>std::map::emplace\<close>: a key that is there keeps its value.\<close>

fun map_emplace :: "'k::linorder \<Rightarrow> 'v \<Rightarrow> ('k \<times> 'v) list \<Rightarrow> ('k \<times> 'v) list" where
  "map_emplace k v [] = [(k, v)]"
| "map_emplace k v ((l, x) # m) = (if k < l then (k, v) # (l, x) # m else if k = l then (l, x) # m else (l, x) # map_emplace k v m)"

definition set_uniforms :: "set_key \<Rightarrow> (u32 \<times> int \<times> int) list" where
  "set_uniforms key =
     (case key_rids key of (params, s0, s1, s2, dst) \<Rightarrow>
        map (\<lambda>(b, rid). (b, UNIFORM_TYPE_STORAGE_BUFFER, rid)) [(0, params), (1, s0), (2, s1), (3, s2), (4, dst)])"

definition tensor_set :: "'w benv \<Rightarrow> int \<Rightarrow> int \<Rightarrow> int \<Rightarrow> int \<Rightarrow> int \<Rightarrow> ('w, int) brun" where
  "tensor_set E params s0 s1 s2 dst =
     bindR askB (\<lambda>s.
     let key = Set_key (params, s0, s1, s2, dst) in
     case map_of (ks_set0 (b_ks s)) key of
       Some us \<Rightarrow> ret us
     | None \<Rightarrow>
         if ks_layout_shader (b_ks s) = 0 then null_rid ''tensor_set before any pipeline''
         else bindR (dev (uniform_set (be_host E) (ks_layout_shader (b_ks s)) (set_uniforms key) 0)) (\<lambda>us.
              if us = 0 then bindR askB (\<lambda>s. null_rid (''set 0: '' @ dv_err (b_dev s)))
              else thenR (upd_ks (\<lambda>k. k\<lparr>ks_set0 := map_emplace key us (ks_set0 k)\<rparr>))
                   (thenR (upd_st (\<lambda>t. t\<lparr>st_set0_created := st_set0_created t + 1\<rparr>))
                   (thenR (created_one E) (ret us)))))"

section \<open>Forgetting and releasing\<close>

definition key_binds :: "int \<Rightarrow> set_key \<Rightarrow> bool" where
  "key_binds b k = (case key_rids k of (params, s0, s1, s2, dst) \<Rightarrow> s0 = b \<or> s1 = b \<or> s2 = b \<or> dst = b)"

text \<open>The loop erases an entry right after its set is forgotten.\<close>

primrec forget_entries :: "'w benv \<Rightarrow> int \<Rightarrow> (set_key \<times> int) list \<Rightarrow> ('w, unit) brun" where
  "forget_entries E b [] = ret ()"
| "forget_entries E b (kv # rest) =
     (if key_binds b (fst kv)
      then thenR (dev (forget (be_host E) (snd kv)))
           (thenR (upd_ks (\<lambda>k. k\<lparr>ks_set0 := AList.delete (fst kv) (ks_set0 k)\<rparr>)) (forget_entries E b rest))
      else forget_entries E b rest)"

definition forget_sets_of :: "'w benv \<Rightarrow> int \<Rightarrow> ('w, unit) brun" where
  "forget_sets_of E b = bindR askB (\<lambda>s. forget_entries E b (ks_set0 (b_ks s)))"

definition drop_rid :: "'w benv \<Rightarrow> bool \<Rightarrow> int \<Rightarrow> ('w, unit) brun" where
  "drop_rid E live r =
     (if r = 0 then ret ()
      else if live then dev (free_rid (be_host E) r) else dev (forget (be_host E) r))"

text \<open>
  \<open>drop\<close> over a range of RIDs: each is freed (or forgotten) and then nulled in the state,
  where \<open>get\<close> reads the range and \<open>put\<close> nulls its element.
\<close>

primrec drop_from :: "nat \<Rightarrow> 'w benv \<Rightarrow> bool \<Rightarrow> (kstate \<Rightarrow> int list) \<Rightarrow> (nat \<Rightarrow> kstate \<Rightarrow> kstate) \<Rightarrow> nat \<Rightarrow> ('w, unit) brun" where
  "drop_from 0 E live get put i = ret ()"
| "drop_from (Suc n) E live get put i =
     bindR askB (\<lambda>s.
     thenR (drop_rid E live (get (b_ks s) ! i)) (thenR (upd_ks (put i)) (drop_from n E live get put (Suc i))))"

definition drop_all :: "'w benv \<Rightarrow> bool \<Rightarrow> (kstate \<Rightarrow> int list) \<Rightarrow> (nat \<Rightarrow> kstate \<Rightarrow> kstate) \<Rightarrow> ('w, unit) brun" where
  "drop_all E live get put = bindR askB (\<lambda>s. drop_from (length (get (b_ks s))) E live get put 0)"

definition null_set :: "nat \<Rightarrow> kstate \<Rightarrow> kstate" where
  "null_set i k = k\<lparr>ks_set0 := (ks_set0 k)[i := (fst (ks_set0 k ! i), 0)]\<rparr>"

definition kern_rids :: "kstate \<Rightarrow> int list" where
  "kern_rids k = concat (map (\<lambda>(shader, pipeline). [pipeline, shader]) (ks_kerns k))"

definition null_kern :: "nat \<Rightarrow> kstate \<Rightarrow> kstate" where
  "null_kern i k =
     k\<lparr>ks_kerns := (ks_kerns k)[i div 2 := (case ks_kerns k ! (i div 2) of (shader, pipeline) \<Rightarrow>
        if even i then (shader, 0) else (0, pipeline))]\<rparr>"

definition release_kernels :: "'w benv \<Rightarrow> ('w, unit) brun" where
  "release_kernels E =
     bindR askB (\<lambda>s.
     if \<not> cx_dev (b_ctx s) then upd_ks (\<lambda>k. fresh_kstate)
     else let live = (dv_rd (b_dev s) \<noteq> 0) in
       thenR (drop_all E live (\<lambda>k. map snd (ks_set0 k)) null_set)
       (thenR (drop_all E live ks_slot_sets (\<lambda>i k. k\<lparr>ks_slot_sets := (ks_slot_sets k)[i := 0]\<rparr>))
       (thenR (drop_all E live ks_slot_ubos (\<lambda>i k. k\<lparr>ks_slot_ubos := (ks_slot_ubos k)[i := 0]\<rparr>))
       (thenR (drop_all E live (\<lambda>k. [ks_params k]) (\<lambda>i k. k\<lparr>ks_params := 0\<rparr>))
       (thenR (drop_all E live kern_rids null_kern)
       (upd_ks (\<lambda>k. fresh_kstate)))))))"

section \<open>The table's capacity\<close>

lemma cap_loop_sound:
  assumes "cap_loop slots c = Some r"
  shows "slots \<le> r \<and> (\<exists>k. r = c * 2 ^ k)"
proof (rule cap_loop.raw_induct [OF _ assms], goal_cases)
  case (1 loop slots c r)
  show ?case
  proof (cases "c < slots")
    case True
    with 1(2) have "loop slots (c * 2) = Some r" by simp
    from 1(1) [OF this] obtain k where "slots \<le> r" "r = c * 2 * 2 ^ k" by blast
    then show ?thesis by (metis mult.assoc power_Suc)
  next
    case False
    with 1 have "r = c" "slots \<le> c" by (simp_all add: not_less)
    then show ?thesis by (intro conjI exI [of _ 0]) simp_all
  qed
qed

lemma cap_loop_stop: "\<not> c < slots \<Longrightarrow> cap_loop slots c = Some c"
  by (simp add: cap_loop.simps [of slots c])

lemma cap_loop_go: "c < slots \<Longrightarrow> cap_loop slots c = cap_loop slots (c * 2)"
  by (simp add: cap_loop.simps [of slots c])

lemma cap_loop_more:
  assumes "unat c = 2 ^ i" "13 \<le> i" "i \<le> 31" "unat slots \<le> 2 ^ 31" "i = 13 \<or> 2 ^ (i - 1) < unat slots"
  shows "\<exists>r j. cap_loop slots c = Some r \<and> unat r = 2 ^ j \<and> unat slots \<le> 2 ^ j \<and> 13 \<le> j \<and> (j = 13 \<or> 2 ^ (j - 1) < unat slots)"
  using assms
proof (induction "31 - i" arbitrary: i c)
  case 0
  then have "i = 31" by simp
  then have "\<not> c < slots" using 0 by (simp add: word_less_nat_alt)
  then show ?case using 0 cap_loop_stop [of c slots] by (auto simp: \<open>i = 31\<close> intro!: exI [of _ 31])
next
  case (Suc n)
  show ?case
  proof (cases "c < slots")
    case False
    then have "unat slots \<le> 2 ^ i" using Suc.prems(1) by (simp add: word_less_nat_alt not_less)
    then show ?thesis using False Suc.prems cap_loop_stop [of c slots] by (intro exI [of _ c] exI [of _ i]) simp
  next
    case True
    have "(2 :: nat) ^ i < 2 ^ 31" using Suc(2) by (intro power_strict_increasing) simp_all
    then have u: "unat (c * 2) = 2 ^ Suc i" using Suc.prems(1) by (subst unat_mult_no_wrap) simp_all
    have big: "2 ^ i < unat slots" using True Suc.prems(1) by (simp add: word_less_nat_alt)
    have "\<exists>r j. cap_loop slots (c * 2) = Some r \<and> unat r = 2 ^ j \<and> unat slots \<le> 2 ^ j \<and> 13 \<le> j \<and>
        (j = 13 \<or> 2 ^ (j - 1) < unat slots)"
      using Suc(2) Suc.prems u big by (intro Suc(1) [of "Suc i"]) simp_all
    then show ?thesis by (simp only: cap_loop_go [OF True])
  qed
qed

lemma power_of_two_small: "unat ((2 :: u32) ^ i) \<le> 2 ^ 31"
proof -
  have "(2 :: u32) ^ i = word_of_nat (2 ^ i)" by simp
  then have u: "unat ((2 :: u32) ^ i) = 2 ^ i mod 2 ^ 32" by (simp only: unat_of_nat) simp
  show ?thesis
  proof (cases "i < 32")
    case True
    then have "(2 :: nat) ^ i \<le> 2 ^ 31" by (intro power_increasing) simp_all
    moreover have "(2 :: nat) ^ i mod 2 ^ 32 \<le> 2 ^ i" by (rule mod_less_eq_dividend)
    ultimately show ?thesis unfolding u by (rule le_trans [rotated])
  next
    case False
    then have "(2 :: nat) ^ 32 dvd 2 ^ i" by (intro le_imp_power_dvd) simp
    then show ?thesis unfolding u by (simp only: dvd_imp_mod_0)
  qed
qed

lemma params_cap_some:
  assumes "params_cap slots = Some cap"
  shows "unat slots \<le> 2 ^ 31"
proof -
  obtain k where "slots \<le> cap" "cap = 8192 * 2 ^ k" using cap_loop_sound assms unfolding params_cap_def by blast
  moreover have "8192 * 2 ^ k = (2 :: u32) ^ (13 + k)" by (simp only: power_add) simp
  ultimately have "slots \<le> 2 ^ (13 + k)" by simp
  then show ?thesis using power_of_two_small [of "13 + k"] unfolding word_le_nat_alt by (rule le_trans)
qed


section \<open>The set cache\<close>

lemma map_of_emplace:
  "sorted_wrt (<) (map fst m) \<Longrightarrow>
   map_of (map_emplace k v m) = (if map_of m k = None then (map_of m)(k \<mapsto> v) else map_of m)"
proof (induction m)
  case (Cons lx m)
  obtain l x where lx: "lx = (l, x)" by fastforce
  have "map_of m k = None" if "k < l"
    using Cons.prems lx that by (force simp: map_of_eq_None_iff)
  then show ?case using Cons lx by (auto simp: fun_eq_iff)
qed simp

lemma set_emplace: "set (map_emplace k v m) \<subseteq> insert (k, v) (set m)"
  by (induction m) (auto split: if_splits)

lemma sorted_emplace: "sorted_wrt (<) (map fst m) \<Longrightarrow> sorted_wrt (<) (map fst (map_emplace k v m))"
proof (induction m)
  case (Cons lx m)
  obtain l x where lx: "lx = (l, x)" by fastforce
  have "l < fst y" if "l < k" "y \<in> set (map_emplace k v m)" for y
    using set_emplace [of k v m] Cons.prems lx that by auto
  then show ?case using Cons lx
    by (cases "k < l"; cases "k = l") (auto intro: less_trans simp: not_less_iff_gr_or_eq)
qed simp

text \<open>
  Every cached set was made against the params table there is now; the map is in the order
  of its keys; a slot has its buffer and its set.
\<close>

definition cache_ok :: "kstate \<Rightarrow> bool" where
  "cache_ok k \<longleftrightarrow>
     sorted_wrt (<) (map fst (ks_set0 k)) \<and>
     (\<forall>(key, us)\<in>set (ks_set0 k). us \<noteq> 0 \<and> fst (key_rids key) = ks_params k \<and> ks_params k \<noteq> 0) \<and>
     length (ks_slot_ubos k) = length (ks_slot_sets k)"

text \<open>
  The same of a cache a release may have been killed in (\<open>broken\<close>): it has nulled some of its sets
  and slots, and a null set says nothing about the table. Without such a release no set and no
  slot is null.
\<close>

definition cache_kept :: "bool \<Rightarrow> kstate \<Rightarrow> bool" where
  "cache_kept broken k \<longleftrightarrow>
     sorted_wrt (<) (map fst (ks_set0 k)) \<and>
     (\<forall>(key, us)\<in>set (ks_set0 k). us \<noteq> 0 \<and> fst (key_rids key) = ks_params k \<and> ks_params k \<noteq> 0 \<or> us = 0 \<and> broken) \<and>
     length (ks_slot_ubos k) = length (ks_slot_sets k) \<and>
     (0 \<in> set (ks_slot_ubos k @ ks_slot_sets k) \<longrightarrow> broken)"

lemma cache_kept_whole: "cache_kept False k \<Longrightarrow> cache_ok k"
  by (auto simp: cache_kept_def cache_ok_def split: if_splits)

lemma cache_kept_cut: "cache_kept c k \<Longrightarrow> cache_kept True k"
  by (auto simp: cache_kept_def split: if_splits)

abbreviation kept :: "bool \<Rightarrow> bstate \<times> 'w \<Rightarrow> bool" where
  "kept broken s \<equiv> cache_kept broken (b_ks (fst s))"

lemma cache_kept_frame [simp]:
  "cache_kept c (k\<lparr>ks_created := n\<rparr>) = cache_kept c k" "cache_kept c (k\<lparr>ks_kerns := ns\<rparr>) = cache_kept c k"
  "cache_kept c (k\<lparr>ks_layout_shader := l\<rparr>) = cache_kept c k" "cache_kept c (k\<lparr>ks_params_slots := n2\<rparr>) = cache_kept c k"
  by (simp_all add: cache_kept_def)

lemma cached_dev: "safe (kept c) (kept c) (dev m) (kept c)"
  by (auto simp: safe_def dev_def split: prod.splits option.splits)

lemma cached_ctx: "safe (kept c) (kept c) (upd_ctx f) (kept c)"
  by (simp add: safe_def upd_ctx_def updB_def)

lemma cached_ks: "(\<And>k. cache_kept c k \<Longrightarrow> cache_kept c (f k)) \<Longrightarrow> safe (kept c) (kept c) (upd_ks f) (kept c)"
  by (simp add: safe_def upd_ks_def updB_def)

lemma cached_hook: "safe (kept c) (kept c) (run_hook h) (kept c)"
  by (auto simp: safe_def run_hook_def ret_def split: option.splits prod.splits)

lemma safe_askB: "(\<And>s. safe K (\<lambda>t. P t \<and> fst t = s) (f s) Q) \<Longrightarrow> safe K P (bindR askB f) Q"
  by (auto simp: safe_def bindR_def askB_def)

lemma same_askB: "(\<And>s. safe K P (f s) Q) \<Longrightarrow> safe K P (bindR askB f) Q"
  by (auto simp: safe_def bindR_def askB_def)

lemma safe_if: "safe K P m Q \<Longrightarrow> safe K P n Q \<Longrightarrow> safe K P (if b then m else n) Q"
  by simp

lemma safe_option: "safe K P m Q \<Longrightarrow> (\<And>x. safe K P (f x) Q) \<Longrightarrow> safe K P (case v of None \<Rightarrow> m | Some x \<Rightarrow> f x) Q"
  by (cases v) simp_all

lemmas cached_rules = same_bind same_then same_if same_option safe_ret cached_dev cached_ctx cached_hook same_askB

lemma cached_steps:
  "safe (kept c) (kept c) (upd_st f) (kept c)" "safe (kept c) (kept c) (set_error e) (kept c)" "safe (kept c) (kept c) (null_rid e) (kept c)"
  "safe (kept c) (kept c) (coop E) (kept c)" "safe (kept c) (kept c) (created_one E) (kept c)"
  "safe (kept c) (kept c) (forget_all E rids) (kept c)" "safe (kept c) (kept c) (kernel_pipeline E k) (kept c)"
proof -
  show st: "safe (kept c) (kept c) (upd_st f) (kept c)" for f unfolding upd_st_def by (rule cached_ctx)
  show er: "safe (kept c) (kept c) (set_error e) (kept c)" for e unfolding set_error_def by (rule cached_ctx)
  show nr: "safe (kept c) (kept c) (null_rid e) (kept c)" for e unfolding null_rid_def by (intro cached_rules er)
  show co: "safe (kept c) (kept c) (coop E) (kept c)" unfolding coop_def by (intro cached_rules st)
  show "safe (kept c) (kept c) (created_one E) (kept c)"
    unfolding created_one_def by (intro cached_rules co cached_ks) simp_all
  have "safe (kept c) (kept c) m (kept c) \<Longrightarrow> safe (kept c) (kept c) (fold (\<lambda>r m. thenR m (dev (forget (be_host E) r))) rids m) (kept c)" for m
    by (induction rids arbitrary: m) (simp_all add: same_then cached_dev)
  then show "safe (kept c) (kept c) (forget_all E rids) (kept c)" unfolding forget_all_def by (simp add: safe_ret)
  show "safe (kept c) (kept c) (kernel_pipeline E k) (kept c)"
    unfolding kernel_pipeline_def Let_def by (intro cached_rules er nr st cached_ks) simp_all
qed

lemma cached_slots:
  "safe (kept c) (kept c) (make_slots n E) (kept c)" "safe (kept c) (kept c) (slot_set E i) (kept c)"
proof -
  have add_slot: "safe (kept c) (kept c) (if x = 0 then m
        else thenR (upd_ks (\<lambda>k. k\<lparr>ks_slot_ubos := ks_slot_ubos k @ [u], ks_slot_sets := ks_slot_sets k @ [x]\<rparr>)) n) (kept c)"
    if "u \<noteq> 0" "safe (kept c) (kept c) m (kept c)" "safe (kept c) (kept c) n (kept c)" for u x and m n :: "('a, bool) brun"
  proof (cases "x = 0")
    case False
    then have "cache_kept c (k\<lparr>ks_slot_ubos := ks_slot_ubos k @ [u], ks_slot_sets := ks_slot_sets k @ [x]\<rparr>)" if "cache_kept c k" for k
      using that \<open>u \<noteq> 0\<close> by (simp add: cache_kept_def)
    then show ?thesis using False that(3) by (auto intro!: same_then cached_ks)
  qed (simp add: that)
  have add_ubo: "safe (kept c) (kept c) (if u = 0 then m else f u) (kept c)"
    if "safe (kept c) (kept c) m (kept c)" "u \<noteq> 0 \<Longrightarrow> safe (kept c) (kept c) (f u) (kept c)" for u f and m :: "('a, bool) brun"
    using that by simp
  have make: "safe (kept c) (kept c) (make_slot E) (kept c)"
    unfolding make_slot_def Let_def
    by (intro same_askB same_bind [OF cached_dev] add_ubo add_slot) (assumption | intro cached_rules cached_steps)+
  show slots: "safe (kept c) (kept c) (make_slots n E) (kept c)" for n
    by (induction n) (simp_all add: safe_ret same_bind same_if make)
  show "safe (kept c) (kept c) (slot_set E i) (kept c)"
    unfolding slot_set_def by (intro cached_rules cached_steps slots)
qed

text \<open>Growing the table empties the cache before the old table is freed.\<close>

abbreviation emptied :: "bool \<Rightarrow> bstate \<times> 'w \<Rightarrow> bool" where
  "emptied c s \<equiv> kept c s \<and> (\<forall>(key, us)\<in>set (ks_set0 (b_ks (fst s))). us = 0)"

lemma emptied_dev: "safe (kept c) (emptied c) (dev m) (emptied c)"
  by (auto simp: safe_def dev_def split: prod.splits option.splits)

lemma emptied_ks:
  "(\<And>k. ks_set0 (f k) = ks_set0 k \<and> ks_slot_ubos (f k) = ks_slot_ubos k \<and> ks_slot_sets (f k) = ks_slot_sets k) \<Longrightarrow>
   safe (kept c) (emptied c) (upd_ks f) (emptied c)"
  by (fastforce simp: safe_def upd_ks_def updB_def cache_kept_def split: if_splits)

lemma emptied_cached: "safe (kept c) (kept c) m (kept c) \<Longrightarrow> safe (kept c) (emptied c) m (kept c)"
  by (rule safe_weaken [where P = "kept c" and Q = "kept c"]) simp_all

lemma grown_params:
  "safe (kept c) (emptied c)
     (bindR (dev m) (\<lambda>p. thenR (upd_ks (\<lambda>k. k\<lparr>ks_params := p\<rparr>))
       (if p = 0 then bindR askB (\<lambda>s. null_rid (e s))
        else thenR (upd_ks (\<lambda>k. k\<lparr>ks_params_slots := cap\<rparr>)) (ret p)))) (kept c)"
  by (intro safe_bind [OF emptied_dev] safe_then [OF emptied_ks] emptied_cached cached_rules cached_steps cached_ks) simp_all

lemma cached_params: "safe (kept c) (kept c) (params_buffer E slots) (kept c)"
proof -
  have clear: "safe (kept c) (kept c) (upd_ks (\<lambda>k. k\<lparr>ks_set0 := []\<rparr>)) (emptied c)"
    by (simp add: safe_def upd_ks_def updB_def cache_kept_def)
  have drop: "safe (kept c) (\<lambda>t. kept c t \<and> fst t = s)
      (if ks_params (b_ks s) \<noteq> 0
       then thenR (forget_all E (map snd (ks_set0 (b_ks s))))
            (thenR (upd_ks (\<lambda>k. k\<lparr>ks_set0 := []\<rparr>))
            (thenR (dev (free_rid (be_host E) (ks_params (b_ks s))))
            (upd_ks (\<lambda>k. k\<lparr>ks_params := 0, ks_params_slots := 0\<rparr>))))
       else ret ()) (emptied c)" for s
  proof (cases "ks_params (b_ks s) = 0")
    case True
    have em: "emptied c (t :: bstate \<times> _)" if "kept c t \<and> fst t = s" for t
      using that True by (cases "ks_set0 (b_ks (fst t))") (auto simp: cache_kept_def)
    show ?thesis unfolding safe_def ret_def using True em by auto
  next
    case False
    have "safe (kept c) (kept c) (thenR (forget_all E (map snd (ks_set0 (b_ks s))))
            (thenR (upd_ks (\<lambda>k. k\<lparr>ks_set0 := []\<rparr>))
            (thenR (dev (free_rid (be_host E) (ks_params (b_ks s))))
            (upd_ks (\<lambda>k. k\<lparr>ks_params := 0, ks_params_slots := 0\<rparr>))))) (emptied c)"
      by (intro safe_then [OF cached_steps(6)] safe_then [OF clear] safe_then [OF emptied_dev] emptied_ks) simp
    then have "safe (kept c) (\<lambda>t. kept c t \<and> fst t = s) (thenR (forget_all E (map snd (ks_set0 (b_ks s))))
            (thenR (upd_ks (\<lambda>k. k\<lparr>ks_set0 := []\<rparr>))
            (thenR (dev (free_rid (be_host E) (ks_params (b_ks s))))
            (upd_ks (\<lambda>k. k\<lparr>ks_params := 0, ks_params_slots := 0\<rparr>))))) (emptied c)"
      by (rule safe_weaken) auto
    then show ?thesis using False by simp
  qed
  have kept: "safe (kept c) (\<lambda>t. kept c t \<and> fst t = s) (ret p) (kept c)" for s p by (simp add: safe_def ret_def)
  show ?thesis
    unfolding params_buffer_def
    by (intro safe_askB safe_if safe_option kept safe_never safe_then [OF drop grown_params]) simp
qed

text \<open>A set is made only against the current table, which the graph asked for just before.\<close>

definition bind_set :: "'w benv \<Rightarrow> u32 \<Rightarrow> int \<Rightarrow> int \<Rightarrow> int \<Rightarrow> int \<Rightarrow> ('w, int) brun" where
  "bind_set E n s0 s1 s2 dst = bindR (params_buffer E n) (\<lambda>p. if p = 0 then ret 0 else tensor_set E p s0 s1 s2 dst)"

lemma tensor_set_cached:
  fixes E :: "'w benv"
  shows "safe (kept c) (\<lambda>s. kept c s \<and> ks_params (b_ks (fst s)) = p \<and> p \<noteq> 0) (tensor_set E p s0 s1 s2 dst) (kept c)"
proof -
  let ?P = "\<lambda>s :: bstate \<times> 'w. kept c s \<and> ks_params (b_ks (fst s)) = p \<and> p \<noteq> 0"
  let ?key = "Set_key (p, s0, s1, s2, dst)"
  let ?Q = "\<lambda>s :: bstate \<times> 'w. ?P s \<and> map_of (ks_set0 (b_ks (fst s))) ?key = None"
  have weak: "safe (kept c) (kept c) m (kept c) \<Longrightarrow> safe (kept c) ?Q m (kept c)" for m :: "(bstate \<times> 'w, 'c) prog"
    by (rule safe_weaken [where P = "kept c" and Q = "kept c"]) simp_all
  have made: "safe (kept c) ?Q (dev m) ?Q" for m :: "('w, 'c) run"
    by (auto simp: safe_def dev_def split: prod.splits option.splits)
  have add: "safe (kept c) ?Q (upd_ks (\<lambda>k. k\<lparr>ks_set0 := map_emplace ?key us (ks_set0 k)\<rparr>)) (kept c)" if "us \<noteq> 0" for us
    using that
    by (auto simp: safe_def upd_ks_def updB_def cache_kept_def intro!: sorted_emplace dest!: set_emplace [THEN subsetD])
  have rest: "safe (kept c) ?Q (bindR (dev m) (\<lambda>us.
      if us = 0 then bindR askB (\<lambda>s. null_rid (e s))
      else thenR (upd_ks (\<lambda>k. k\<lparr>ks_set0 := map_emplace ?key us (ks_set0 k)\<rparr>))
           (thenR (upd_st f) (thenR (created_one E) (ret us))))) (kept c)" for m e f
  proof (rule safe_bind [OF made])
    fix us
    show "safe (kept c) ?Q (if us = 0 then bindR askB (\<lambda>s. null_rid (e s))
      else thenR (upd_ks (\<lambda>k. k\<lparr>ks_set0 := map_emplace ?key us (ks_set0 k)\<rparr>))
           (thenR (upd_st f) (thenR (created_one E) (ret us)))) (kept c)"
    proof (cases "us = 0")
      case True
      then show ?thesis using weak [OF same_askB [OF cached_steps(3)]] by simp
    next
      case False
      have "safe (kept c) (kept c) (thenR (upd_st f) (thenR (created_one E) (ret us))) (kept c)"
        by (intro cached_rules cached_steps)
      then show ?thesis using safe_then [OF add [OF False]] False by simp
    qed
  qed
  show ?thesis
    unfolding tensor_set_def Let_def
  proof (rule safe_askB)
    fix s
    show "safe (kept c) (\<lambda>t. ?P t \<and> fst t = s)
        (case map_of (ks_set0 (b_ks s)) ?key of Some us \<Rightarrow> ret us
         | None \<Rightarrow> if ks_layout_shader (b_ks s) = 0 then null_rid ''tensor_set before any pipeline''
             else bindR (dev (uniform_set (be_host E) (ks_layout_shader (b_ks s)) (set_uniforms ?key) 0)) (\<lambda>us.
              if us = 0 then bindR askB (\<lambda>s. null_rid (''set 0: '' @ dv_err (b_dev s)))
              else thenR (upd_ks (\<lambda>k. k\<lparr>ks_set0 := map_emplace ?key us (ks_set0 k)\<rparr>))
                   (thenR (upd_st (\<lambda>t. t\<lparr>st_set0_created := st_set0_created t + 1\<rparr>))
                   (thenR (created_one E) (ret us))))) (kept c)"
    proof (cases "map_of (ks_set0 (b_ks s)) ?key")
      case None
      have "safe (kept c) ?Q m (kept c) \<Longrightarrow> safe (kept c) (\<lambda>t. ?P t \<and> fst t = s) m (kept c)" for m :: "(bstate \<times> 'w, int) prog"
        using None by (elim safe_weaken) auto
      then show ?thesis using None rest weak [OF cached_steps(3)] by simp
    next
      case (Some us)
      then show ?thesis by (simp add: safe_def ret_def)
    qed
  qed
qed

text \<open>Forgetting a buffer's sets, and the public calls of the file.\<close>

lemma sorted_delete: "sorted_wrt (<) (map fst m) \<Longrightarrow> sorted_wrt (<) (map fst (AList.delete k m))"
  by (induction m) (auto simp: AList.delete_eq)

lemma cached_forget: "safe (kept c) (kept c) (forget_sets_of E b) (kept c)"
proof -
  have delete: "cache_kept c k \<Longrightarrow> cache_kept c (k\<lparr>ks_set0 := AList.delete key (ks_set0 k)\<rparr>)" for k key
    using sorted_delete [of "ks_set0 k" key] by (auto simp: cache_kept_def AList.delete_eq)
  have "safe (kept c) (kept c) (forget_entries E b m) (kept c)" for m
    by (induction m) (simp_all add: safe_ret same_then cached_dev cached_ks delete)
  then show ?thesis unfolding forget_sets_of_def by (intro cached_rules)
qed

datatype kernels_op = K_pipeline int | K_slot nat | K_bind u32 int int int int | K_forget int | K_release

fun do_kernels_op :: "'w benv \<Rightarrow> kernels_op \<Rightarrow> ('w, unit) brun" where
  "do_kernels_op E (K_pipeline k) = void (kernel_pipeline E k)"
| "do_kernels_op E (K_slot i) = void (slot_set E i)"
| "do_kernels_op E (K_bind n s0 s1 s2 dst) = void (bind_set E n s0 s1 s2 dst)"
| "do_kernels_op E (K_forget b) = forget_sets_of E b"
| "do_kernels_op E K_release = release_kernels E"

lemma params_buffer_result:
  assumes "params_buffer E n s = (Some p, s')" "p \<noteq> 0"
  shows "ks_params (b_ks (fst s')) = p"
  using assms
  by (auto simp: params_buffer_def bindR_def askB_def thenR_def ret_def never_def upd_ks_def updB_def null_rid_def
      split: if_splits option.splits prod.splits)

lemma cached_bind: "safe (kept c) (kept c) (bind_set E n s0 s1 s2 dst) (kept c)"
proof -
  have "case bind_set E n s0 s1 s2 dst s of (None, s') \<Rightarrow> kept c s' | (Some x, s') \<Rightarrow> kept c s'" if s: "kept c s" for s
  proof -
    obtain r s1' where Pair: "params_buffer E n s = (r, s1')" by (rule prod.exhaust)
    then have s1: "kept c s1'" using safeD [OF cached_params s, of E n] by (auto split: option.splits)
    show ?thesis
    proof (cases "r = None \<or> r = Some 0")
      case True
      then show ?thesis using Pair s1 by (auto simp: bind_set_def bindR_def ret_def)
    next
      case False
      then obtain p where p: "r = Some p" "p \<noteq> 0" by auto
      then have "kept c s1' \<and> ks_params (b_ks (fst s1')) = p \<and> p \<noteq> 0"
        using params_buffer_result Pair s1 by blast
      from safeD [OF tensor_set_cached this] show ?thesis
        using Pair p by (auto simp: bind_set_def bindR_def split: prod.splits option.splits)
    qed
  qed
  then show ?thesis by (simp add: safe_def)
qed

text \<open>
  The release nulls the sets one by one, then the slots, then the table: when it is killed
  between two of these, what it has nulled stays under its key.
\<close>

lemma cached_null:
  assumes "\<And>i k. cache_kept True k \<Longrightarrow> cache_kept True (put i k)"
    and "\<And>i k. map snd (ks_set0 (put i k)) = map snd (ks_set0 k)"
  shows "safe (kept True) (emptied True) (drop_all E live get put) (emptied True)"
proof -
  have drop: "safe (kept True) (emptied True) (drop_rid E live r) (emptied True)" for r
    by (simp add: drop_rid_def emptied_dev safe_ret)
  have empty: "(\<forall>(key, us)\<in>set (ks_set0 k). us = 0) \<longleftrightarrow> set (map snd (ks_set0 k)) \<subseteq> {0}" for k
    by auto
  have null: "safe (kept True) (emptied True) (upd_ks (put i)) (emptied True)" for i
    unfolding empty using assms by (simp add: safe_def upd_ks_def updB_def del: set_map)
  have "safe (kept True) (emptied True) (drop_from n E live get put i) (emptied True)" for n i
    by (induction n arbitrary: i) (simp_all add: safe_ret same_askB same_then drop null)
  then show ?thesis unfolding drop_all_def by (intro same_askB)
qed

lemma null_set_kept:
  assumes "cache_kept True k" "i < length (ks_set0 k)"
  shows "cache_kept True (null_set i k)"
proof -
  have "map fst (ks_set0 (null_set i k)) = map fst (ks_set0 k)"
    using assms(2) by (simp add: null_set_def map_update) (metis length_map list_update_id nth_map)
  then show ?thesis
    using assms by (auto simp: cache_kept_def null_set_def dest!: set_update_subset_insert [THEN subsetD] split: if_splits)
qed

lemma cached_null_sets:
  "safe (kept True) (kept True) (drop_all E live (\<lambda>k. map snd (ks_set0 k)) null_set) (emptied True)"
proof -
  let ?P = "\<lambda>i n s. kept True s \<and> length (ks_set0 (b_ks (fst s))) = n + i \<and> (\<forall>j<i. snd (ks_set0 (b_ks (fst s)) ! j) = 0)"
  have drop: "safe (kept True) (?P i n) (drop_rid E live r) (?P i n)" for i n r
    unfolding drop_rid_def by (auto simp: safe_def ret_def dev_def split: prod.splits option.splits)
  have put: "length (ks_set0 (null_set i k)) = length (ks_set0 k)"
    "i < length (ks_set0 k) \<Longrightarrow> j < Suc i \<Longrightarrow> snd (ks_set0 (null_set i k) ! j) = (if j = i then 0 else snd (ks_set0 k ! j))" for i j k
    by (simp_all add: null_set_def)
  have null: "safe (kept True) (?P i (Suc n)) (upd_ks (null_set i)) (?P (Suc i) n)" for i n
    by (auto simp: safe_def upd_ks_def updB_def null_set_kept put)
  have turn: "safe (kept True) (?P i n) (drop_from n E live (\<lambda>k. map snd (ks_set0 k)) null_set i) (?P (n + i) 0)" for n i
  proof (induction n arbitrary: i)
    case (Suc n)
    then show ?case using Suc [of "Suc i"]
      unfolding drop_from.simps by (intro same_askB safe_then [OF drop safe_then [OF null]]) simp
  qed (simp add: safe_ret)
  have "safe (kept True) (\<lambda>t. kept True t \<and> fst t = s)
      (drop_from (length (map snd (ks_set0 (b_ks s)))) E live (\<lambda>k. map snd (ks_set0 k)) null_set 0) (emptied True)" for s
    by (rule safe_weaken [OF turn [of _ 0]]) (auto simp: in_set_conv_nth, metis snd_conv)
  then show ?thesis unfolding drop_all_def by (rule safe_askB)
qed

lemma cached_release: "safe (kept True) (kept c) (release_kernels E) (kept False)"
proof -
  have fresh: "safe (kept True) P (upd_ks (\<lambda>k. fresh_kstate)) (kept False)" for P
    by (simp add: safe_def upd_ks_def updB_def cache_kept_def fresh_kstate_def)
  have keeps: "cache_kept True k \<Longrightarrow> cache_kept True (k\<lparr>ks_slot_sets := (ks_slot_sets k)[i := 0]\<rparr>)"
    "cache_kept True k \<Longrightarrow> cache_kept True (k\<lparr>ks_slot_ubos := (ks_slot_ubos k)[i := 0]\<rparr>)" for k i
    by (simp_all add: cache_kept_def)
  have table: "safe (kept True) (emptied True) (drop_all E live (\<lambda>k. [ks_params k]) (\<lambda>i k. k\<lparr>ks_params := 0\<rparr>)) (emptied True)" for live
  proof -
    have "safe (kept True) (emptied True) (drop_rid E live r) (emptied True)" for r
      by (simp add: drop_rid_def emptied_dev safe_ret)
    then have "safe (kept True) (emptied True) (drop_from n E live (\<lambda>k. [ks_params k]) (\<lambda>i k. k\<lparr>ks_params := 0\<rparr>) i) (emptied True)" for n i
      by (induction n arbitrary: i) (simp_all add: safe_ret same_askB same_then emptied_ks)
    then show ?thesis unfolding drop_all_def by (intro same_askB)
  qed
  have keeps3: "cache_kept True k \<Longrightarrow> cache_kept True (null_kern i k)" "map snd (ks_set0 (null_kern i k)) = map snd (ks_set0 k)" for k i
    by (simp_all add: null_kern_def split: prod.splits)
  have "safe (kept True) (kept True) (release_kernels E) (kept False)"
    unfolding release_kernels_def Let_def
    by (intro same_askB safe_if fresh safe_then [OF cached_null_sets] safe_then [OF cached_null] safe_then [OF table] keeps keeps3; simp)
  then show ?thesis by (rule safe_weaken) (simp_all add: cache_kept_cut)
qed

text \<open>A call on the cache; \<open>broken\<close> notes that a release was killed in it and none has returned since.\<close>

definition run_kernels_op :: "'w benv \<Rightarrow> kernels_op \<Rightarrow> bool \<times> bstate \<times> 'w \<Rightarrow> bool \<times> bstate \<times> 'w" where
  "run_kernels_op E op1 cs =
     (case do_kernels_op E op1 (snd cs) of (r, s) \<Rightarrow> (if op1 = K_release then r = None else fst cs, s))"

interpretation set_cache: machine "run_kernels_op E" "\<lambda>(broken, s). kept broken s" for E :: "'w benv"
proof
  fix cs :: "bool \<times> bstate \<times> 'w" and op1
  assume inv: "case cs of (broken, s) \<Rightarrow> kept broken s"
  obtain broken s where cs: "cs = (broken, s)" by (rule prod.exhaust)
  show "case run_kernels_op E op1 cs of (broken, s) \<Rightarrow> kept broken s"
  proof (cases "op1 = K_release")
    case True
    then show ?thesis using safeD [OF cached_release, of broken s E] inv cs
      by (auto simp: run_kernels_op_def split: prod.splits option.splits)
  next
    case False
    then have "safe (kept broken) (kept broken) (do_kernels_op E op1) (kept broken)"
      by (cases op1) (simp_all add: void_def same_bind safe_ret cached_steps cached_slots cached_bind cached_forget)
    then show ?thesis using safeD [of "kept broken" "kept broken" "do_kernels_op E op1" "kept broken" s] inv cs False
      by (auto simp: run_kernels_op_def split: prod.splits option.splits)
  qed
qed

text \<open>
  C5: whatever calls are made, and wherever they are killed, every set in the set-0 cache was
  made against the params table there is now (sets die with the table they bind) and is found
  under one key, and every slot made has its buffer and its set; only a release that was killed,
  and has not been repeated to its end, leaves null sets and null slots.
\<close>

theorem set_cache_current:
  assumes "cache_kept broken (b_ks s)" "fold (run_kernels_op E) ops (broken, s, w) = (broken', s', w')"
  shows "cache_kept broken' (b_ks s')"
  using set_cache.run_inv [of "(broken, s, w)" E ops] assms by simp

lemma set_cache_current_witness:
  "case fold (run_kernels_op (demo_benv counting_godot [])) [K_pipeline 0, K_bind 9000 1 2 3 4, K_release, K_forget 2] (False, demo_bstate, 0)
   of (broken, s, w) \<Rightarrow> cache_kept broken (b_ks s)"
proof -
  obtain broken s w where "fold (run_kernels_op (demo_benv counting_godot []))
      [K_pipeline 0, K_bind 9000 1 2 3 4, K_release, K_forget 2] (False, demo_bstate, 0) = (broken, s, w)"
    using prod_cases3 by blast
  from set_cache_current [OF _ this] show ?thesis
    using \<open>_ = (broken, s, w)\<close> by (simp add: demo_bstate_def cache_kept_def fresh_kstate_def)
qed

text \<open>
  What such a kill leads to: the set the release had nulled is still found under its key, so
  \<open>tensor_set\<close> hands out a null set, without an error, where the table is still the same.
\<close>

definition stopping_godot :: "nat host" where
  "stopping_godot c w = (if w = 2 then None else Some (R_int 0), Suc w)"

lemma killed_release_leaves_null_set:
  "let E = demo_benv stopping_godot [];
       s = (demo_bstate\<lparr>b_ks := fresh_kstate\<lparr>ks_params := 9, ks_set0 := [(Set_key (9, 1, 1, 1, 5), - 8), (Set_key (9, 1, 2, 3, 4), - 7)]\<rparr>\<rparr>, 0)
   in fst (release_kernels E s) = None \<and> fst (tensor_set E 9 1 1 1 5 (snd (release_kernels E s))) = Some 0"
  by (simp add: release_kernels_def drop_all_def drop_rid_def null_set_def tensor_set_def stopping_godot_def demo_benv_def demo_bstate_def
      fresh_ctx_def new_device_def free_rid_def forget_def set_step_def call_def upd_def thenR_def bindR_def askB_def ret_def dev_def
      upd_ks_def updB_def Let_def numeral_2_eq_2)

text \<open>
  What the loop does to everything else: it releases the permanent RIDs of the sets it drops,
  and counts them.
\<close>

definition forgotten :: "int list \<Rightarrow> bstate \<times> 'w \<times> (rd_call \<times> bool) list \<Rightarrow> bstate \<times> 'w \<times> (rd_call \<times> bool) list \<Rightarrow> bool" where
  "forgotten sets s s' \<longleftrightarrow>
     (\<exists>m. fst s' = (fst s)\<lparr>b_ks := (b_ks (fst s))\<lparr>ks_set0 := m\<rparr>, b_dev := (b_dev (fst s))\<lparr>dv_permanent_live :=
       dv_permanent_live (b_dev (fst s)) - int (length (filter (\<lambda>r. r < 0) sets))\<rparr>\<rparr>) \<and>
     map fst (snd (snd s')) = map fst (snd (snd s)) @ map C_release (filter (\<lambda>r. r < 0) sets)"

lemma forgotten_more:
  assumes "forgotten xs s t" "forgotten ys t u"
  shows "forgotten (xs @ ys) s u"
proof -
  have k: "k\<lparr>ks_set0 := m, ks_set0 := n\<rparr> = k\<lparr>ks_set0 := n\<rparr>" for k :: kstate and m n by simp
  obtain m where m: "fst t = (fst s)\<lparr>b_ks := (b_ks (fst s))\<lparr>ks_set0 := m\<rparr>, b_dev := (b_dev (fst s))\<lparr>dv_permanent_live :=
       dv_permanent_live (b_dev (fst s)) - int (length (filter (\<lambda>r. r < 0) xs))\<rparr>\<rparr>"
    using assms(1) by (auto simp: forgotten_def)
  obtain n where n: "fst u = (fst t)\<lparr>b_ks := (b_ks (fst t))\<lparr>ks_set0 := n\<rparr>, b_dev := (b_dev (fst t))\<lparr>dv_permanent_live :=
       dv_permanent_live (b_dev (fst t)) - int (length (filter (\<lambda>r. r < 0) ys))\<rparr>\<rparr>"
    using assms(2) by (auto simp: forgotten_def)
  show ?thesis
    using assms unfolding forgotten_def
    by (intro conjI exI [of _ n]) (simp_all add: n m diff_diff_eq)
qed

lemma forgotten_one:
  assumes "dev (forget (logged H P) us) s = (Some (), s')"
  shows "forgotten [us] s s' \<and> b_ks (fst s') = b_ks (fst s)"
  using assms
  by (auto simp: forgotten_def dev_def forget_def logged_def thenR_def bindR_def ret_def call_def upd_def
      intro!: exI [of _ "ks_set0 (b_ks (fst s))"] split: if_splits prod.splits option.splits)

lemma forgotten_ks: "forgotten [] s (fst s\<lparr>b_ks := (b_ks (fst s))\<lparr>ks_set0 := m\<rparr>\<rparr>, snd s)"
  by (auto simp: forgotten_def intro!: exI [of _ m])

lemma forget_entries_left:
  assumes "be_host E = logged H P" "forget_entries E b m s = (Some (), s')"
  shows "ks_set0 (b_ks (fst s')) = filter (\<lambda>kv. \<not> (key_binds b (fst kv) \<and> fst kv \<in> fst ` set m)) (ks_set0 (b_ks (fst s))) \<and>
    forgotten (map snd (filter (\<lambda>kv. key_binds b (fst kv)) m)) s s'"
  using assms(2)
proof (induction m arbitrary: s)
  case Nil
  then show ?case using forgotten_ks [of s "ks_set0 (b_ks (fst s))"] by (simp add: ret_def)
next
  case (Cons kv m)
  show ?case
  proof (cases "key_binds b (fst kv)")
    case False
    then show ?thesis using Cons by (auto intro!: filter_cong)
  next
    case True
    let ?del = "\<lambda>k. k\<lparr>ks_set0 := AList.delete (fst kv) (ks_set0 k)\<rparr>"
    obtain s1 where s1: "dev (forget (logged H P) (snd kv)) s = (Some (), s1)"
      and s2: "forget_entries E b m (fst s1\<lparr>b_ks := ?del (b_ks (fst s1))\<rparr>, snd s1) = (Some (), s')"
      using Cons.prems True assms(1)
      by (auto simp: thenR_def bindR_def upd_ks_def updB_def split: prod.splits option.splits)
    note one = forgotten_one [OF s1]
    have "forgotten ([snd kv] @ [] @ map snd (filter (\<lambda>kv. key_binds b (fst kv)) m)) s s'"
      by (rule forgotten_more [OF conjunct1 [OF one] forgotten_more [OF forgotten_ks conjunct2 [OF Cons.IH [OF s2]]]])
    then show ?thesis
      using Cons.IH [OF s2] True one
      by (simp add: AList.delete_eq conj_commute) (intro filter_cong, auto)
  qed
qed

text \<open>
  C23: when a buffer is freed, exactly the cached sets that were made with it at one of their
  tensor bindings are dropped (Godot frees those with the buffer): each one's permanent RID is
  released once and counted off, no other call is made, and nothing else changes.
\<close>

theorem forget_sets_exact:
  assumes "be_host E = logged H P" "forget_sets_of E b s = (Some (), s')"
  shows "let gone = filter (\<lambda>(key, us). \<exists>(slot, ty, rid)\<in>set (set_uniforms key). slot \<noteq> 0 \<and> rid = b) (ks_set0 (b_ks (fst s))) in
    ks_set0 (b_ks (fst s')) = filter (\<lambda>kv. kv \<notin> set gone) (ks_set0 (b_ks (fst s))) \<and> forgotten (map snd gone) s s'"
proof -
  have binds: "(\<exists>(slot, ty, rid)\<in>set (set_uniforms key). slot \<noteq> 0 \<and> rid = b) = key_binds b key" for key
    by (cases "key_rids key") (auto simp: set_uniforms_def key_binds_def)
  have "forget_entries E b (ks_set0 (b_ks (fst s))) s = (Some (), s')"
    using assms(2) by (simp add: forget_sets_of_def bindR_def askB_def)
  note left = forget_entries_left [OF assms(1) this]
  have gone: "filter (\<lambda>(key, us). key_binds b key) m = filter (\<lambda>kv. key_binds b (fst kv)) m" for m :: "(set_key \<times> int) list"
    by (rule filter_cong) auto
  have "filter (\<lambda>kv. \<not> (key_binds b (fst kv) \<and> fst kv \<in> fst ` set m)) m = filter (\<lambda>kv. kv \<notin> set (filter (\<lambda>kv. key_binds b (fst kv)) m)) m"
    for m :: "(set_key \<times> int) list" by (rule filter_cong) auto
  from trans [OF conjunct1 [OF left] this] conjunct2 [OF left] show ?thesis unfolding Let_def binds gone by (rule conjI)
qed

lemma forget_sets_exact_witness:
  "let E = demo_benv (logged counting_godot (\<lambda>w. False)) [];
       s = (demo_bstate\<lparr>b_ks := fresh_kstate\<lparr>ks_set0 := [(Set_key (9, 1, 1, 1, 5), - 8), (Set_key (9, 1, 2, 3, 4), - 7)]\<rparr>\<rparr>, 0, []);
       s' = snd (forget_sets_of E 2 s)
   in ks_set0 (b_ks (fst s')) = [(Set_key (9, 1, 1, 1, 5), - 8)] \<and> map fst (snd (snd s')) = [C_release (- 7)]"
proof -
  let ?E = "demo_benv (logged counting_godot (\<lambda>w. False)) []"
  let ?s = "(demo_bstate\<lparr>b_ks := fresh_kstate\<lparr>ks_set0 := [(Set_key (9, 1, 1, 1, 5), - 8), (Set_key (9, 1, 2, 3, 4), - 7)]\<rparr>\<rparr>, 0 :: nat, [])"
  have "fst (forget_sets_of ?E 2 ?s) = Some ()"
    by (simp add: forget_sets_of_def key_binds_def thenR_def bindR_def askB_def ret_def dev_def forget_def call_def logged_def
        upd_def upd_ks_def updB_def counting_godot_def demo_benv_def)
  then have "forget_sets_of ?E 2 ?s = (Some (), snd (forget_sets_of ?E 2 ?s))"
    by (simp add: prod_eq_iff)
  from forget_sets_exact [OF _ this, of counting_godot "\<lambda>w. False"] show ?thesis
    by (simp add: Let_def set_uniforms_def forgotten_def demo_benv_def)
qed

end
