(* ===== verification/RdGraph.thy ===== *)
theory RdGraph
  imports RdKernels
begin

text \<open>
  \<open>guest/ggml-rd/rd_graph.cpp\<close> and \<open>rd_cpu.cpp\<close>: a graph is packed into dispatches and then
  recorded as one compute list with the barriers its byte ranges need, or run dispatch after
  dispatch on guest memory. The host-clock profile of \<open>graph_compute\<close> and its printing are
  left out.
\<close>

unbundle bit_operations_syntax

section \<open>Byte ranges\<close>

record range =
  rg_rid :: int
  rg_lo :: u64
  rg_hi :: u64

text \<open>\<open>dp_buf\<close> has the numbers of the bound buffers, for the CPU fallback.\<close>

record dispatch_rec =
  dp_kernel :: int
  dp_groups :: "nat \<Rightarrow> u32"
  dp_bind :: "nat \<Rightarrow> int"
  dp_buf :: "nat \<Rightarrow> nat"
  dp_set0 :: int
  dp_reads :: "range list"
  dp_write :: range
  dp_node :: tensor

definition overlaps :: "range list \<Rightarrow> range \<Rightarrow> bool" where
  "overlaps v r \<longleftrightarrow> list_ex (\<lambda>x. rg_rid x = rg_rid r \<and> rg_lo x < rg_hi r \<and> rg_lo r < rg_hi x) v"

definition rd_offset :: "bstate \<Rightarrow> tensor \<Rightarrow> u64 option" where
  "rd_offset s t = (case buffer_of s t of None \<Rightarrow> None | Some b \<Rightarrow> Some (byte_offset t b))"

definition range_of :: "tensor \<Rightarrow> rd_buffer \<Rightarrow> range" where
  "range_of t b =
     (let lo = byte_offset t b
      in \<lparr>rg_rid = bf_rid b, rg_lo = lo AND NOT 3, rg_hi = (lo + ggml_nbytes t + 3) AND NOT 3\<rparr>)"

definition node_desc :: "'w benv \<Rightarrow> tensor \<Rightarrow> string" where
  "node_desc E n = be_op_desc E n @ '' '' @ [CHR 0x27] @ t_name n @ [CHR 0x27] @ '' '' @ be_type_name E (t_type n)"

datatype ggml_status = GGML_STATUS_ALLOC_FAILED | GGML_STATUS_FAILED | GGML_STATUS_SUCCESS | GGML_STATUS_ABORTED

definition fail_graph :: "string \<Rightarrow> ('w, ggml_status) brun" where
  "fail_graph why =
     thenR (upd_st (\<lambda>t. t\<lparr>st_failed_graphs := st_failed_graphs t + 1\<rparr>)) (thenR (set_error why) (ret GGML_STATUS_FAILED))"

section \<open>Packing\<close>

definition penv_now :: "'w benv \<Rightarrow> bstate \<Rightarrow> penv" where
  "penv_now E s = (be_penv E)\<lparr>pe_serial := b_serial s\<rparr>"

text \<open>
  The ranges and bindings of a node whose standard words are filled, which found every buffer.
  An unused binding names the destination.
\<close>

definition dispatch_of :: "bstate \<Rightarrow> tensor \<Rightarrow> dispatch_rec" where
  "dispatch_of s node =
     (let db = the (buffer_of s node);
          bound = (\<lambda>i. case t_src node i of None \<Rightarrow> node | Some src \<Rightarrow> src) in
      \<lparr>dp_kernel = 0, dp_groups = (\<lambda>i. 0),
       dp_bind = (\<lambda>i. if i = 3 then bf_rid db else bf_rid (the (buffer_of s (bound i)))),
       dp_buf = (\<lambda>i. if i = 3 then the (buffer_no s node) else the (buffer_no s (bound i))),
       dp_set0 = 0,
       dp_reads = concat (map (\<lambda>i. case t_src node i of None \<Rightarrow> [] | Some src \<Rightarrow> [range_of src (the (buffer_of s src))]) [0..<3]),
       dp_write = range_of node db, dp_node = node\<rparr>)"

definition pack_node :: "'w benv \<Rightarrow> bstate \<Rightarrow> tensor \<Rightarrow> string + (dispatch_rec \<times> words)" where
  "pack_node E s node =
     (case find_op (be_ops E) (penv_now E s) node of
        None \<Rightarrow> Inl (''no packer accepts '' @ node_desc E node)
      | Some e \<Rightarrow>
          (case fill_standard (rd_offset s) node of
             Inl why \<Rightarrow> Inl (why @ '': '' @ node_desc E node)
           | Inr w \<Rightarrow>
               (case oe_pack e (penv_now E s) \<lparr>pk_node = node, pk_w = w, pk_kernel = - 1, pk_groups = (\<lambda>i. 0)\<rparr> of
                  (ok, p) \<Rightarrow>
                    if \<not> ok \<or> pk_kernel p < 0 \<or> pk_groups p 0 = 0 \<or> pk_groups p 1 = 0 \<or> pk_groups p 2 = 0
                    then Inl (''packer '' @ oe_name e @ '' refused '' @ node_desc E node)
                    else Inr ((dispatch_of s node)\<lparr>dp_kernel := pk_kernel p, dp_groups := pk_groups p\<rparr>,
                              (pk_w p)(W_KERNEL := word_of_int (pk_kernel p))))))"

definition skipped_node :: "tensor \<Rightarrow> bool" where
  "skipped_node node \<longleftrightarrow> is_layout_only (t_op node) \<or> ggml_is_empty node \<or> t_flags node AND 16 = 0"

text \<open>The fault control moves a source of every \<open>fault\<close>-th dispatch by one element.\<close>

definition fault_word :: "tensor \<Rightarrow> nat" where
  "fault_word node = (if t_src node 1 = None then W_SRC0 else W_SRC1) + T_OFF"

definition count_dispatch :: "int \<Rightarrow> tensor \<Rightarrow> words \<Rightarrow> ('w, words) brun" where
  "count_dispatch fault node w =
     thenR (upd_ctx (\<lambda>c. c\<lparr>cx_dispatch_serial := cx_dispatch_serial c + 1\<rparr>))
     (bindR askB (\<lambda>s.
      if 0 < fault \<and> cx_dispatch_serial (b_ctx s) mod word_of_int fault = 0
      then thenR (upd_st (\<lambda>t. t\<lparr>st_faults := st_faults t + 1\<rparr>)) (ret (w(fault_word node := w (fault_word node) + 1)))
      else ret w))"

text \<open>The loop over the nodes: the dispatches with their words, and how many were skipped.\<close>

primrec pack_nodes :: "'w benv \<Rightarrow> int \<Rightarrow> tensor list \<Rightarrow> (dispatch_rec \<times> words) list \<Rightarrow> int \<Rightarrow>
    ('w, string + ((dispatch_rec \<times> words) list \<times> int)) brun" where
  "pack_nodes E fault [] ds skipped = ret (Inr (ds, skipped))"
| "pack_nodes E fault (node # nodes) ds skipped =
     (if skipped_node node then pack_nodes E fault nodes ds (skipped + 1)
      else bindR askB (\<lambda>s.
        case pack_node E s node of
          Inl why \<Rightarrow> ret (Inl why)
        | Inr (dp, w) \<Rightarrow> bindR (count_dispatch fault node w) (\<lambda>w2. pack_nodes E fault nodes (ds @ [(dp, w2)]) skipped)))"

section \<open>The CPU fallback\<close>

definition mem_of :: "bstate \<Rightarrow> nat \<Rightarrow> u8 list option" where
  "mem_of s n = Option.bind (b_bufs s n) bf_mem"

definition set_mems :: "(nat \<Rightarrow> u8 list option) \<Rightarrow> bstate \<Rightarrow> bstate" where
  "set_mems mem s = s\<lparr>b_bufs := (\<lambda>n. map_option (\<lambda>b. b\<lparr>bf_mem := (if bf_mem b = None then None else mem n)\<rparr>) (b_bufs s n))\<rparr>"

definition cpu_run :: "'w benv \<Rightarrow> dispatch_rec \<Rightarrow> words \<Rightarrow> ('w, string option) brun" where
  "cpu_run E dp w =
     bindR askB (\<lambda>s.
     if list_ex (\<lambda>i. mem_of s (dp_buf dp i) = None) [0..<4]
     then ret (Some ''cpu fallback: a binding is not in a CPU buffer'')
     else case be_run_kernel E (dp_kernel dp) w (map (dp_buf dp) [0..<4]) (dp_groups dp) (mem_of s) of
            None \<Rightarrow> ret (Some (''cpu fallback: kernel '' @ fst (kKernels ! nat (dp_kernel dp)) @ '' has no cpp emit''))
          | Some mem \<Rightarrow> thenR (updB (set_mems mem)) (ret None))"

text \<open>The kernel threads of a dispatch; after about \<open>2 ^ 22\<close> the frame is given back.\<close>

definition threads_of :: "dispatch_rec \<Rightarrow> u64" where
  "threads_of dp =
     (case snd (kKernels ! nat (dp_kernel dp)) of (tx, ty, tz) \<Rightarrow>
        ucast (dp_groups dp 0) * ucast (dp_groups dp 1) * ucast (dp_groups dp 2) * ucast tx * ucast ty * ucast tz)"

definition count_threads :: "'w benv \<Rightarrow> dispatch_rec \<Rightarrow> ('w, unit) brun" where
  "count_threads E dp =
     thenR (updB (\<lambda>s. s\<lparr>b_since_yield := b_since_yield s + threads_of dp\<rparr>))
     (bindR askB (\<lambda>s. if push_bit 22 1 \<le> b_since_yield s
                     then thenR (updB (\<lambda>s. s\<lparr>b_since_yield := 0\<rparr>)) (coop E) else ret ()))"

primrec cpu_dispatches :: "'w benv \<Rightarrow> (dispatch_rec \<times> words) list \<Rightarrow> ('w, string option) brun" where
  "cpu_dispatches E [] = ret None"
| "cpu_dispatches E (d # ds) =
     bindR (cpu_run E (fst d) (snd d)) (\<lambda>why.
     case why of Some e \<Rightarrow> ret (Some (e @ '': '' @ node_desc E (dp_node (fst d))))
     | None \<Rightarrow> thenR (count_threads E (fst d)) (cpu_dispatches E ds))"

definition cpu_graph :: "'w benv \<Rightarrow> (dispatch_rec \<times> words) list \<Rightarrow> ('w, ggml_status) brun" where
  "cpu_graph E ds =
     bindR (cpu_dispatches E ds) (\<lambda>why.
     case why of Some e \<Rightarrow> fail_graph e
     | None \<Rightarrow> thenR (upd_st (\<lambda>t. t\<lparr>st_dispatches := st_dispatches t + int (length ds)\<rparr>)) (ret GGML_STATUS_SUCCESS))"

section \<open>Everything the recording binds\<close>

primrec prepare_pipelines :: "'w benv \<Rightarrow> dispatch_rec list \<Rightarrow> ('w, string option) brun" where
  "prepare_pipelines E [] = ret None"
| "prepare_pipelines E (dp # ds) =
     bindR (kernel_pipeline E (dp_kernel dp)) (\<lambda>p.
     if p = 0 then ret (Some (''pipeline for '' @ node_desc E (dp_node dp) @ '' failed'')) else prepare_pipelines E ds)"

primrec prepare_slots :: "'w benv \<Rightarrow> nat list \<Rightarrow> ('w, string option) brun" where
  "prepare_slots E [] = ret None"
| "prepare_slots E (i # is) =
     bindR (slot_set E i) (\<lambda>us.
     if us = 0 then bindR askB (\<lambda>s. ret (Some (''slot set '' @ to_string (int i) @ '': '' @ cx_last_error (b_ctx s))))
     else prepare_slots E is)"

primrec prepare_sets :: "'w benv \<Rightarrow> int \<Rightarrow> dispatch_rec list \<Rightarrow> dispatch_rec list \<Rightarrow> ('w, string + dispatch_rec list) brun" where
  "prepare_sets E params [] acc = ret (Inr acc)"
| "prepare_sets E params (dp # ds) acc =
     bindR (tensor_set E params (dp_bind dp 0) (dp_bind dp 1) (dp_bind dp 2) (dp_bind dp 3)) (\<lambda>us.
     if us = 0 then bindR askB (\<lambda>s. ret (Inl (''set 0 for '' @ node_desc E (dp_node dp) @ '': '' @ cx_last_error (b_ctx s))))
     else prepare_sets E params ds (acc @ [dp\<lparr>dp_set0 := us\<rparr>]))"

definition table_bytes :: "words list \<Rightarrow> u8 list" where
  "table_bytes ws = concat (map (\<lambda>w. concat (map (\<lambda>i. le_bytes (w i)) [0..<kWordsPerSlot])) ws)"

section \<open>Recording\<close>

record rec_state =
  rs_reads :: "range list"
  rs_writes :: "range list"
  rs_barriers :: int
  rs_placed :: int
  rs_kernel :: int
  rs_set0 :: int

definition rec_start :: rec_state where
  "rec_start = \<lparr>rs_reads = [], rs_writes = [], rs_barriers = 0, rs_placed = 0, rs_kernel = - 1, rs_set0 = 0\<rparr>"

definition hazard :: "bool \<Rightarrow> nat \<Rightarrow> rec_state \<Rightarrow> dispatch_rec \<Rightarrow> bool" where
  "hazard barrier_all i rs dp \<longleftrightarrow>
     barrier_all \<and> 0 < i \<or> list_ex (overlaps (rs_writes rs)) (dp_reads dp) \<or>
     overlaps (rs_writes rs) (dp_write dp) \<or> overlaps (rs_reads rs) (dp_write dp)"

text \<open>The barrier before dispatch \<open>i\<close>, when there is a hazard: a new segment begins.\<close>

definition record_barrier :: "'w benv \<Rightarrow> bool \<Rightarrow> int \<Rightarrow> nat \<Rightarrow> dispatch_rec \<Rightarrow> rec_state \<Rightarrow> ('w, rec_state) brun" where
  "record_barrier E barrier_all drop_k i dp rs =
     (if hazard barrier_all i rs dp
      then let rs = rs\<lparr>rs_placed := rs_placed rs + 1\<rparr> in
           bindR (if 0 < drop_k \<and> rs_placed rs = drop_k \<and> \<not> barrier_all
                  then thenR (upd_ctx (\<lambda>c. c\<lparr>cx_last_dropped := ''barrier '' @ to_string (rs_placed rs) @
                           '' before dispatch '' @ to_string (int i) @ '' '' @ node_desc E (dp_node dp)\<rparr>)) (ret rs)
                  else thenR (dev (barrier (be_host E))) (ret (rs\<lparr>rs_barriers := rs_barriers rs + 1\<rparr>)))
             (\<lambda>rs. ret (rs\<lparr>rs_reads := [], rs_writes := []\<rparr>))
      else ret rs)"

definition record_dispatch :: "'w benv \<Rightarrow> nat \<Rightarrow> dispatch_rec \<Rightarrow> rec_state \<Rightarrow> ('w, rec_state) brun" where
  "record_dispatch E i dp rs =
     thenR (if dp_kernel dp \<noteq> rs_kernel rs
            then bindR (kernel_pipeline E (dp_kernel dp)) (\<lambda>p. dev (bind_pipeline (be_host E) p)) else ret ())
     (thenR (if dp_set0 dp \<noteq> rs_set0 rs then dev (bind_uniform_set (be_host E) (dp_set0 dp) 0) else ret ())
     (bindR (slot_set E i) (\<lambda>us.
      thenR (dev (bind_uniform_set (be_host E) us 1))
      (thenR (dev (dispatch (be_host E) (dp_groups dp 0) (dp_groups dp 1) (dp_groups dp 2)))
      (ret (rs\<lparr>rs_reads := rs_reads rs @ dp_reads dp, rs_writes := rs_writes rs @ [dp_write dp],
               rs_kernel := dp_kernel dp, rs_set0 := dp_set0 dp\<rparr>))))))"

primrec record_from :: "'w benv \<Rightarrow> bool \<Rightarrow> int \<Rightarrow> dispatch_rec list \<Rightarrow> nat \<Rightarrow> rec_state \<Rightarrow> ('w, rec_state) brun" where
  "record_from E barrier_all drop_k [] i rs = ret rs"
| "record_from E barrier_all drop_k (dp # ds) i rs =
     bindR (record_barrier E barrier_all drop_k i dp rs) (\<lambda>rs.
     bindR (record_dispatch E i dp rs) (\<lambda>rs. record_from E barrier_all drop_k ds (Suc i) rs))"

definition record_list :: "'w benv \<Rightarrow> dispatch_rec list \<Rightarrow> ('w, rec_state) brun" where
  "record_list E ds =
     bindR askB (\<lambda>s.
     let ts = cx_timestamps (b_ctx s) \<or> env_int E ''GGML_RD_TIMESTAMPS'' \<noteq> 0 in
     thenR (if ts then dev (capture_timestamp (be_host E) ''ggml_rd_graph_begin'') else ret ())
     (thenR (dev (list_begin (be_host E)))
     (bindR (record_from E (env_int E ''GGML_RD_BARRIER_ALL'' \<noteq> 0) (env_int E ''GGML_RD_DROP_BARRIER'') ds 0 rec_start) (\<lambda>rs.
      thenR (dev (list_end (be_host E)))
      (thenR (if ts then thenR (dev (capture_timestamp (be_host E) ''ggml_rd_graph_end''))
                         (upd_ctx (\<lambda>c. c\<lparr>cx_ts_armed := True\<rparr>)) else ret ())
      (ret rs))))))"

section \<open>A graph\<close>

definition gpu_graph :: "'w benv \<Rightarrow> (dispatch_rec \<times> words) list \<Rightarrow> ('w, ggml_status) brun" where
  "gpu_graph E dws =
     (let ds = map fst dws; n = word_of_nat (length ds) :: u32 in
      bindR (prepare_pipelines E ds) (\<lambda>why. case why of Some e \<Rightarrow> fail_graph e | None \<Rightarrow>
      bindR (params_buffer E n) (\<lambda>params.
      if params = 0 then bindR askB (\<lambda>s. fail_graph (''params table: '' @ cx_last_error (b_ctx s))) else
      bindR (prepare_slots E [0..<length ds]) (\<lambda>why. case why of Some e \<Rightarrow> fail_graph e | None \<Rightarrow>
      bindR (prepare_sets E params ds []) (\<lambda>r. case r of Inl e \<Rightarrow> fail_graph e | Inr ds \<Rightarrow>
      bindR (dev (buffer_update (be_host E) params 0 (ucast n * kSlotBytes) (table_bytes (map snd dws)))) (\<lambda>ok.
      if \<not> ok then bindR askB (\<lambda>s. fail_graph (''params upload: '' @ dv_err (b_dev s))) else
      thenR (upd_st (\<lambda>t. t\<lparr>st_params_bytes := st_params_bytes t + int (length ds) * 256\<rparr>))
      (bindR (record_list E ds) (\<lambda>rs.
       thenR (dev (submit (be_host E)))
       (thenR (upd_ctx (\<lambda>c. c\<lparr>cx_pending := True\<rparr>))
       (thenR (upd_st (\<lambda>t. t\<lparr>st_dispatches := st_dispatches t + int (length ds), st_barriers := st_barriers t + rs_barriers rs,
                             st_last_barriers := rs_barriers rs\<rparr>))
       (ret GGML_STATUS_SUCCESS)))))))))))"

definition graph_compute :: "'w benv \<Rightarrow> tensor list \<Rightarrow> ('w, ggml_status) brun" where
  "graph_compute E nodes =
     bindR askB (\<lambda>s.
     let cpu = cpu_mode E s in
     if \<not> device_ok s \<and> \<not> cpu then fail_graph ''graph_compute: no RenderingDevice''
     else
       thenR (if \<not> cpu then ensure_idle E else ret ())
       (thenR (updB (\<lambda>s. s\<lparr>b_serial := cpu\<rparr>))
       (thenR (upd_ctx (\<lambda>c. c\<lparr>cx_last_dropped := []\<rparr>))
       (bindR (pack_nodes E (env_int E ''GGML_RD_FAULT'') nodes [] 0) (\<lambda>r. case r of
          Inl why \<Rightarrow> fail_graph why
        | Inr (ds, skipped) \<Rightarrow>
            thenR (upd_st (\<lambda>t. t\<lparr>st_graphs := st_graphs t + 1, st_nodes := st_nodes t + int (length nodes),
               st_skipped := st_skipped t + skipped, st_last_nodes := int (length nodes), st_last_skipped := skipped,
               st_last_dispatches := int (length ds), st_last_barriers := 0\<rparr>))
            (if ds = [] then ret GGML_STATUS_SUCCESS else if cpu then cpu_graph E ds else gpu_graph E ds))))))"

section \<open>What a recorded list runs\<close>

text \<open>
  Godot's compute list, as far as its documentation says what it does: a dispatch runs with
  the pipeline and the sets bound last (kept over a barrier), and is ordered only after the
  dispatches before the last barrier; \<open>la_epoch\<close> counts the barriers before it.
\<close>

record launch =
  la_pipe :: int
  la_set0 :: int
  la_set1 :: int
  la_groups :: "u32 \<times> u32 \<times> u32"
  la_epoch :: nat

record glist =
  gl_pipe :: int
  gl_set0 :: int
  gl_set1 :: int
  gl_epoch :: nat
  gl_done :: "launch list"

definition gl_start :: glist where
  "gl_start = \<lparr>gl_pipe = 0, gl_set0 = 0, gl_set1 = 0, gl_epoch = 0, gl_done = []\<rparr>"

definition gl_step :: "rd_call \<Rightarrow> glist \<Rightarrow> glist" where
  "gl_step c g =
     (case c of
        C_list_begin \<Rightarrow> gl_start
      | C_bind_pipeline l p \<Rightarrow> g\<lparr>gl_pipe := p\<rparr>
      | C_bind_uniform_set l us at \<Rightarrow> if at = 0 then g\<lparr>gl_set0 := us\<rparr> else g\<lparr>gl_set1 := us\<rparr>
      | C_barrier l \<Rightarrow> g\<lparr>gl_epoch := Suc (gl_epoch g)\<rparr>
      | C_dispatch l x y z \<Rightarrow> g\<lparr>gl_done := gl_done g @
          [\<lparr>la_pipe = gl_pipe g, la_set0 = gl_set0 g, la_set1 = gl_set1 g, la_groups = (x, y, z), la_epoch = gl_epoch g\<rparr>]\<rparr>
      | _ \<Rightarrow> g)"

definition launched :: "(rd_call \<times> bool) list \<Rightarrow> glist" where
  "launched log = fold gl_step (map fst log) gl_start"

lemma launched_append [simp]: "launched (log @ cs) = fold gl_step (map fst cs) (launched log)"
  by (simp add: launched_def)

text \<open>Two dispatches conflict when one writes bytes the other reads or writes.\<close>

definition hits :: "range \<Rightarrow> range \<Rightarrow> bool" where
  "hits x r \<longleftrightarrow> rg_rid x = rg_rid r \<and> rg_lo x < rg_hi r \<and> rg_lo r < rg_hi x"

definition conflict :: "dispatch_rec \<Rightarrow> dispatch_rec \<Rightarrow> bool" where
  "conflict a b \<longleftrightarrow> (\<exists>r\<in>set (dp_reads b). hits (dp_write a) r) \<or> hits (dp_write a) (dp_write b) \<or>
     (\<exists>r\<in>set (dp_reads a). hits r (dp_write b))"

lemma overlaps_hits: "overlaps v r \<longleftrightarrow> (\<exists>x\<in>set v. hits x r)"
  by (simp add: overlaps_def hits_def list_ex_iff)

lemma hazard_iff:
  "hazard ball i rs dp \<longleftrightarrow> ball \<and> 0 < i \<or> (\<exists>w\<in>set (rs_writes rs). (\<exists>r\<in>set (dp_reads dp). hits w r) \<or> hits w (dp_write dp)) \<or>
     (\<exists>r\<in>set (rs_reads rs). hits r (dp_write dp))"
  by (auto simp: hazard_def overlaps_hits list_ex_iff)

section \<open>Runs that return\<close>

lemma bindR_Some: "bindR m f s = (Some y, s2) \<longleftrightarrow> (\<exists>x s1. m s = (Some x, s1) \<and> f x s1 = (Some y, s2))"
  by (auto simp: bindR_def split: prod.splits option.splits)

lemma thenR_Some: "thenR m n s = (Some y, s2) \<longleftrightarrow> (\<exists>x s1. m s = (Some x, s1) \<and> n s1 = (Some y, s2))"
  unfolding thenR_def by (rule bindR_Some)

lemma ret_Some: "ret x s = (Some y, s2) \<longleftrightarrow> x = y \<and> s = s2"
  by (auto simp: ret_def)

lemma if_Some: "(if b then m else n) s = (Some y, s2) \<longleftrightarrow> (if b then m s = (Some y, s2) else n s = (Some y, s2))"
  by simp

lemmas run_Some = bindR_Some thenR_Some ret_Some

text \<open>The caches stay, and the list has run up to \<open>g\<close>.\<close>

definition at_list :: "kstate \<Rightarrow> glist \<Rightarrow> bstate \<times> 'w \<times> (rd_call \<times> bool) list \<Rightarrow> bool" where
  "at_list k g s \<longleftrightarrow> b_ks (fst s) = k \<and> launched (snd (snd s)) = g"

lemma logged_Some: "logged H P c s = (r, s2) \<Longrightarrow> snd s2 = snd s @ [(c, P (fst s))]"
  by (auto simp: logged_def split: prod.splits)

lemma list_calls:
  assumes "at_list k g s"
  shows "dev (barrier (logged H P)) s = (Some x, s2) \<Longrightarrow> at_list k (g\<lparr>gl_epoch := Suc (gl_epoch g)\<rparr>) s2"
    and "dev (bind_pipeline (logged H P) p) s = (Some x, s2) \<Longrightarrow> at_list k (g\<lparr>gl_pipe := p\<rparr>) s2"
    and "dev (bind_uniform_set (logged H P) us 0) s = (Some x, s2) \<Longrightarrow> at_list k (g\<lparr>gl_set0 := us\<rparr>) s2"
    and "dev (bind_uniform_set (logged H P) us 1) s = (Some x, s2) \<Longrightarrow> at_list k (g\<lparr>gl_set1 := us\<rparr>) s2"
    and "dev (dispatch (logged H P) gx gy gz) s = (Some x, s2) \<Longrightarrow> at_list k (g\<lparr>gl_done := gl_done g @
       [\<lparr>la_pipe = gl_pipe g, la_set0 = gl_set0 g, la_set1 = gl_set1 g, la_groups = (gx, gy, gz), la_epoch = gl_epoch g\<rparr>]\<rparr>) s2"
  using assms
  by (auto simp: at_list_def dev_def barrier_def bind_pipeline_def bind_uniform_set_def dispatch_def set_step_def upd_def
      thenR_def bindR_def ask_def call_def ret_def gl_step_def dest!: logged_Some split: prod.splits option.splits)

text \<open>Once everything is cached, looking a pipeline or a slot up makes no call.\<close>

definition kern_ready :: "kstate \<Rightarrow> int \<Rightarrow> bool" where
  "kern_ready k n \<longleftrightarrow> 0 \<le> n \<and> n < int kKernelCount \<and> kKernelCount \<le> length (ks_kerns k) \<and> snd (ks_kerns k ! nat n) \<noteq> 0"

definition pipe_of :: "kstate \<Rightarrow> int \<Rightarrow> int" where
  "pipe_of k n = snd (ks_kerns k ! nat n)"

lemma kernel_pipeline_ready:
  "kern_ready (b_ks (fst s)) n \<Longrightarrow> kernel_pipeline E n s = (Some (pipe_of (b_ks (fst s)) n), s)"
  by (simp add: kernel_pipeline_def kern_ready_def pipe_of_def thenR_def bindR_def upd_ks_def updB_def askB_def ret_def)

lemma slot_set_ready:
  "ks_layout_shader (b_ks (fst s)) \<noteq> 0 \<Longrightarrow> i < length (ks_slot_sets (b_ks (fst s))) \<Longrightarrow>
   slot_set E i s = (Some (ks_slot_sets (b_ks (fst s)) ! i), s)"
  by (simp add: slot_set_def bindR_def askB_def ret_def)

section \<open>Recording keeps conflicting dispatches apart\<close>

text \<open>
  After the first \<open>i\<close> dispatches: each launches with its own pipeline, sets and grid; the segment
  has the ranges of the dispatches since the last barrier and only those; two conflicting
  dispatches are in different segments; and a barrier came only for a conflict (or always,
  with \<open>ball\<close>), one at a time.
\<close>

definition launch_of :: "kstate \<Rightarrow> dispatch_rec list \<Rightarrow> nat \<Rightarrow> nat \<Rightarrow> launch" where
  "launch_of k ds i e = \<lparr>la_pipe = pipe_of k (dp_kernel (ds ! i)), la_set0 = dp_set0 (ds ! i), la_set1 = ks_slot_sets k ! i,
     la_groups = (dp_groups (ds ! i) 0, dp_groups (ds ! i) 1, dp_groups (ds ! i) 2), la_epoch = e\<rparr>"

definition segment_ok :: "dispatch_rec list \<Rightarrow> nat \<Rightarrow> (nat \<Rightarrow> nat) \<Rightarrow> nat \<Rightarrow> rec_state \<Rightarrow> bool" where
  "segment_ok ds i e now rs \<longleftrightarrow>
     set (rs_reads rs) = (\<Union>j\<in>{j. j < i \<and> e j = now}. set (dp_reads (ds ! j))) \<and>
     set (rs_writes rs) = (\<lambda>j. dp_write (ds ! j)) ` {j. j < i \<and> e j = now}"

definition epochs_ok :: "bool \<Rightarrow> dispatch_rec list \<Rightarrow> nat \<Rightarrow> (nat \<Rightarrow> nat) \<Rightarrow> bool" where
  "epochs_ok ball ds i e \<longleftrightarrow>
     (0 < i \<longrightarrow> e 0 = 0) \<and>
     (\<forall>j. Suc j < i \<longrightarrow> e (Suc j) = e j \<or>
        e (Suc j) = Suc (e j) \<and> (ball \<or> (\<exists>l\<le>j. e l = e j \<and> conflict (ds ! l) (ds ! Suc j)))) \<and>
     (\<forall>j<i. \<forall>l<j. conflict (ds ! l) (ds ! j) \<longrightarrow> e l < e j)"

definition rec_inv :: "bool \<Rightarrow> kstate \<Rightarrow> dispatch_rec list \<Rightarrow> nat \<Rightarrow> (nat \<Rightarrow> nat) \<Rightarrow> rec_state \<Rightarrow> glist \<Rightarrow> bool" where
  "rec_inv ball k ds i e rs g \<longleftrightarrow>
     gl_done g = map (\<lambda>j. launch_of k ds j (e j)) [0..<i] \<and>
     (rs_kernel rs \<noteq> - 1 \<longrightarrow> gl_pipe g = pipe_of k (rs_kernel rs)) \<and>
     (rs_set0 rs \<noteq> 0 \<longrightarrow> gl_set0 g = rs_set0 rs) \<and>
     rs_barriers rs = int (gl_epoch g) \<and>
     (if i = 0 then gl_epoch g = 0 else gl_epoch g = e (i - 1)) \<and>
     epochs_ok ball ds i e \<and> segment_ok ds i e (gl_epoch g) rs"

lemma epochs_mono: "epochs_ok ball ds i e \<Longrightarrow> j < i \<Longrightarrow> l \<le> j \<Longrightarrow> e l \<le> e j"
proof (induction j)
  case (Suc j)
  then have "e j \<le> e (Suc j)" by (auto simp: epochs_ok_def)
  with Suc show ?case by (cases "l = Suc j") (auto intro: le_trans)
qed simp

text \<open>One more dispatch, put in the segment numbered \<open>now\<close>.\<close>

lemma epochs_step:
  assumes "epochs_ok ball ds i e"
    and first: "i = 0 \<Longrightarrow> now = 0"
    and next1: "0 < i \<Longrightarrow> now = e (i - 1) \<or>
        now = Suc (e (i - 1)) \<and> (ball \<or> (\<exists>l<i. e l = e (i - 1) \<and> conflict (ds ! l) (ds ! i)))"
    and apart: "\<And>l. l < i \<Longrightarrow> e l = now \<Longrightarrow> \<not> conflict (ds ! l) (ds ! i)"
  shows "epochs_ok ball ds (Suc i) (e(i := now))"
proof -
  have le: "e l \<le> now" if "l < i" for l
  proof -
    have "e l \<le> e (i - 1)" using epochs_mono [OF assms(1), of "i - 1" l] that by simp
    then show ?thesis using next1 that by auto
  qed
  have new: "conflict (ds ! l) (ds ! i) \<Longrightarrow> l < i \<Longrightarrow> e l < now" for l
    using apart [of l] le [of l] by (cases "e l = now") auto
  have same: "(e(i := now)) l = e l" if "l < i" for l using that by simp
  show ?thesis
    unfolding epochs_ok_def
  proof (intro conjI allI impI)
    show "(e(i := now)) 0 = 0" using first assms(1) by (simp add: epochs_ok_def)
  next
    fix j
    assume j: "Suc j < Suc i"
    have "e (Suc j) = e j \<or> e (Suc j) = Suc (e j) \<and> (ball \<or> (\<exists>l\<le>j. e l = e j \<and> conflict (ds ! l) (ds ! Suc j)))"
      if "Suc j < i" using assms(1) that by (simp add: epochs_ok_def)
    moreover have "now = e j \<or> now = Suc (e j) \<and> (ball \<or> (\<exists>l\<le>j. e l = e j \<and> conflict (ds ! l) (ds ! Suc j)))"
      if "Suc j = i" using next1 that by (auto simp: less_Suc_eq_le)
    moreover have "(\<exists>l\<le>j. e l = e j \<and> conflict (ds ! l) (ds ! Suc j)) \<longleftrightarrow>
        (\<exists>l\<le>j. (e(i := now)) l = (e(i := now)) j \<and> conflict (ds ! l) (ds ! Suc j))"
      using j same by (metis less_Suc_eq_le le_less_trans Suc_less_eq)
    ultimately show "(e(i := now)) (Suc j) = (e(i := now)) j \<or>
        (e(i := now)) (Suc j) = Suc ((e(i := now)) j) \<and>
        (ball \<or> (\<exists>l\<le>j. (e(i := now)) l = (e(i := now)) j \<and> conflict (ds ! l) (ds ! Suc j)))"
      using j by (cases "Suc j = i") auto
  next
    fix j l
    assume "j < Suc i" "l < j" "conflict (ds ! l) (ds ! j)"
    then show "(e(i := now)) l < (e(i := now)) j"
      using new [of l] assms(1) by (cases "j = i") (auto simp: epochs_ok_def)
  qed
qed

lemma record_barrier_runs:
  assumes "be_host E = logged H P" "drop_k \<le> 0" "at_list k g s"
    and "record_barrier E ball drop_k i dp rs s = (Some rs1, s1)"
  shows "if hazard ball i rs dp
    then at_list k (g\<lparr>gl_epoch := Suc (gl_epoch g)\<rparr>) s1 \<and>
      rs1 = rs\<lparr>rs_reads := [], rs_writes := [], rs_barriers := rs_barriers rs + 1, rs_placed := rs_placed rs + 1\<rparr>
    else at_list k g s1 \<and> rs1 = rs"
proof (cases "hazard ball i rs dp")
  case True
  then obtain x where "dev (barrier (logged H P)) s = (Some x, s1)"
    "rs1 = rs\<lparr>rs_reads := [], rs_writes := [], rs_barriers := rs_barriers rs + 1, rs_placed := rs_placed rs + 1\<rparr>"
    using assms(1,2,4) by (auto simp: record_barrier_def run_Some)
  then show ?thesis using True list_calls(1) [OF assms(3)] by auto
next
  case False
  then show ?thesis using assms(3,4) by (simp add: record_barrier_def ret_Some)
qed

lemma record_dispatch_runs:
  assumes E: "be_host E = logged H P" and at: "at_list k g s"
    and ready: "kern_ready k (dp_kernel dp)" "ks_layout_shader k \<noteq> 0" "i < length (ks_slot_sets k)" "dp_set0 dp \<noteq> 0"
    and pipe: "rs_kernel rs \<noteq> - 1 \<longrightarrow> gl_pipe g = pipe_of k (rs_kernel rs)" and set0: "rs_set0 rs \<noteq> 0 \<longrightarrow> gl_set0 g = rs_set0 rs"
    and run: "record_dispatch E i dp rs s = (Some rs2, s2)"
  shows "rs2 = rs\<lparr>rs_reads := rs_reads rs @ dp_reads dp, rs_writes := rs_writes rs @ [dp_write dp],
      rs_kernel := dp_kernel dp, rs_set0 := dp_set0 dp\<rparr> \<and>
    at_list k (g\<lparr>gl_pipe := pipe_of k (dp_kernel dp), gl_set0 := dp_set0 dp, gl_set1 := ks_slot_sets k ! i,
      gl_done := gl_done g @ [\<lparr>la_pipe = pipe_of k (dp_kernel dp), la_set0 = dp_set0 dp, la_set1 = ks_slot_sets k ! i,
        la_groups = (dp_groups dp 0, dp_groups dp 1, dp_groups dp 2), la_epoch = gl_epoch g\<rparr>]\<rparr>) s2"
proof -
  have ks: "b_ks (fst t) = k" if "at_list k h t" for h and t :: "bstate \<times> 'a \<times> (rd_call \<times> bool) list"
    using that by (simp add: at_list_def)
  have k1: "dp_kernel dp \<noteq> - 1" using ready(1) by (auto simp: kern_ready_def)
  obtain u1 s1 u2 s3 us s4 u3 s5 u4 where
    a: "(if dp_kernel dp \<noteq> rs_kernel rs
        then bindR (kernel_pipeline E (dp_kernel dp)) (\<lambda>p. dev (bind_pipeline (be_host E) p)) else ret ()) s = (Some u1, s1)"
    and b: "(if dp_set0 dp \<noteq> rs_set0 rs then dev (bind_uniform_set (be_host E) (dp_set0 dp) 0) else ret ()) s1 = (Some u2, s3)"
    and c: "slot_set E i s3 = (Some us, s4)" "dev (bind_uniform_set (be_host E) us 1) s4 = (Some u3, s5)"
    and d: "dev (dispatch (be_host E) (dp_groups dp 0) (dp_groups dp 1) (dp_groups dp 2)) s5 = (Some u4, s2)"
    and rs2: "rs2 = rs\<lparr>rs_reads := rs_reads rs @ dp_reads dp, rs_writes := rs_writes rs @ [dp_write dp],
      rs_kernel := dp_kernel dp, rs_set0 := dp_set0 dp\<rparr>"
    using run unfolding record_dispatch_def run_Some by auto
  let ?g1 = "g\<lparr>gl_pipe := pipe_of k (dp_kernel dp)\<rparr>" and ?g2 = "g\<lparr>gl_pipe := pipe_of k (dp_kernel dp), gl_set0 := dp_set0 dp\<rparr>"
  have 1: "at_list k ?g1 s1"
  proof (cases "dp_kernel dp = rs_kernel rs")
    case True
    then have "?g1 = g" using pipe k1 by simp
    then show ?thesis using a True at by (simp add: ret_Some)
  next
    case False
    have "kernel_pipeline E (dp_kernel dp) s = (Some (pipe_of k (dp_kernel dp)), s)"
      using kernel_pipeline_ready [of s] ks [OF at] ready(1) by simp
    then show ?thesis using a False E list_calls(2) [OF at] by (auto simp: run_Some)
  qed
  have 2: "at_list k ?g2 s3"
  proof (cases "dp_set0 dp = rs_set0 rs")
    case True
    then have "?g2 = ?g1" using set0 ready(4) by simp
    then show ?thesis using b True 1 by (simp add: ret_Some)
  next
    case False
    then show ?thesis using b E list_calls(3) [OF 1] by auto
  qed
  have "slot_set E i s3 = (Some (ks_slot_sets k ! i), s3)"
    using slot_set_ready [of s3] ks [OF 2] ready(2,3) by simp
  then have "at_list k (?g2\<lparr>gl_set1 := ks_slot_sets k ! i\<rparr>) s5" using c E list_calls(4) [OF 2] by auto
  from list_calls(5) [OF this] d E show ?thesis using rs2 by auto
qed

lemma record_step:
  assumes E: "be_host E = logged H P" "drop_k \<le> 0"
    and at: "at_list k g s" and inv: "rec_inv ball k ds i e rs g"
    and ready: "kern_ready k (dp_kernel (ds ! i))" "ks_layout_shader k \<noteq> 0" "i < length (ks_slot_sets k)" "dp_set0 (ds ! i) \<noteq> 0"
    and run: "record_barrier E ball drop_k i (ds ! i) rs s = (Some rs1, s1)" "record_dispatch E i (ds ! i) rs1 s1 = (Some rs2, s2)"
  shows "\<exists>g2. at_list k g2 s2 \<and> rec_inv ball k ds (Suc i) (e(i := gl_epoch g2)) rs2 g2"
proof -
  let ?dp = "ds ! i" and ?hz = "hazard ball i rs (ds ! i)"
  define g1 where "g1 = (if ?hz then g\<lparr>gl_epoch := Suc (gl_epoch g)\<rparr> else g)"
  have at1: "at_list k g1 s1" and rs1: "rs1 = (if ?hz then rs\<lparr>rs_reads := [], rs_writes := [],
      rs_barriers := rs_barriers rs + 1, rs_placed := rs_placed rs + 1\<rparr> else rs)"
    using record_barrier_runs [OF E at run(1)] by (auto simp: g1_def split: if_splits)
  have b: "rs_kernel rs1 \<noteq> - 1 \<longrightarrow> gl_pipe g1 = pipe_of k (rs_kernel rs1)" "rs_set0 rs1 \<noteq> 0 \<longrightarrow> gl_set0 g1 = rs_set0 rs1"
    using inv by (auto simp: rec_inv_def rs1 g1_def)
  from record_dispatch_runs [OF E(1) at1 ready b run(2)] obtain g2 where
    at2: "at_list k g2 s2" and g2: "g2 = g1\<lparr>gl_pipe := pipe_of k (dp_kernel ?dp), gl_set0 := dp_set0 ?dp, gl_set1 := ks_slot_sets k ! i,
      gl_done := gl_done g1 @ [launch_of k ds i (gl_epoch g1)]\<rparr>"
    and rs2: "rs2 = rs1\<lparr>rs_reads := rs_reads rs1 @ dp_reads ?dp, rs_writes := rs_writes rs1 @ [dp_write ?dp],
      rs_kernel := dp_kernel ?dp, rs_set0 := dp_set0 ?dp\<rparr>"
    by (auto simp: launch_of_def)
  let ?now = "gl_epoch g1" and ?e2 = "e(i := gl_epoch g1)"
  have seg: "segment_ok ds i e (gl_epoch g) rs" and eps: "epochs_ok ball ds i e" using inv by (auto simp: rec_inv_def)
  have before: "e l \<le> gl_epoch g" if "l < i" for l
    using epochs_mono [OF eps, of "i - 1" l] inv that by (auto simp: rec_inv_def)
  have hz: "?hz \<longleftrightarrow> ball \<and> 0 < i \<or> (\<exists>l<i. e l = gl_epoch g \<and> conflict (ds ! l) ?dp)"
    using seg unfolding hazard_iff segment_ok_def conflict_def by auto
  have i0: "\<not> ?hz \<and> gl_epoch g = 0" if "i = 0" using hz inv that by (simp add: rec_inv_def)
  have "epochs_ok ball ds (Suc i) ?e2"
  proof (rule epochs_step [OF eps])
    show "i = 0 \<Longrightarrow> ?now = 0" using i0 by (simp add: g1_def)
    show "?now = e (i - 1) \<or> ?now = Suc (e (i - 1)) \<and> (ball \<or> (\<exists>l<i. e l = e (i - 1) \<and> conflict (ds ! l) ?dp))" if "0 < i"
      using hz inv that by (auto simp: g1_def rec_inv_def)
    show "\<not> conflict (ds ! l) ?dp" if "l < i" "e l = ?now" for l
      using hz before [OF that(1)] that by (auto simp: g1_def split: if_splits)
  qed
  moreover have "segment_ok ds (Suc i) ?e2 ?now rs2"
  proof (cases ?hz)
    case True
    moreover have "e l \<noteq> Suc (gl_epoch g)" if "l < i" for l using before [OF that] by simp
    ultimately have "{j. j < Suc i \<and> ?e2 j = ?now} = {i}" by (auto simp: g1_def less_Suc_eq)
    then show ?thesis using True by (simp add: segment_ok_def rs2 rs1)
  next
    case False
    then have "{j. j < Suc i \<and> ?e2 j = ?now} = insert i {j. j < i \<and> e j = gl_epoch g}" by (auto simp: g1_def)
    then show ?thesis using False seg by (simp add: segment_ok_def rs2 rs1 Un_commute)
  qed
  moreover have "gl_done g2 = map (\<lambda>j. launch_of k ds j (?e2 j)) [0..<Suc i]"
    using inv by (simp add: g2 g1_def rec_inv_def)
  ultimately show ?thesis
    using at2 inv ready(4) by (intro exI [of _ g2]) (auto simp: rec_inv_def g2 rs2 rs1 g1_def)
qed

lemma record_from_runs:
  assumes E: "be_host E = logged H P" "drop_k \<le> 0"
    and ready: "\<forall>i<length ds. kern_ready k (dp_kernel (ds ! i)) \<and> dp_set0 (ds ! i) \<noteq> 0" "ks_layout_shader k \<noteq> 0"
      "length ds \<le> length (ks_slot_sets k)"
  shows "record_from E ball drop_k (List.drop i ds) i rs s = (Some rs2, s2) \<Longrightarrow> i \<le> length ds \<Longrightarrow> at_list k g s \<Longrightarrow>
    rec_inv ball k ds i e rs g \<Longrightarrow> \<exists>g2 e2. at_list k g2 s2 \<and> rec_inv ball k ds (length ds) e2 rs2 g2"
proof (induction "length ds - i" arbitrary: i rs s g e)
  case 0
  then show ?case by (auto simp: ret_Some)
next
  case (Suc n)
  then have i: "i < length ds" by simp
  then have "List.drop i ds = ds ! i # List.drop (Suc i) ds" by (simp add: Cons_nth_drop_Suc)
  then obtain rs1 s1 rs3 s3 where run: "record_barrier E ball drop_k i (ds ! i) rs s = (Some rs1, s1)"
    "record_dispatch E i (ds ! i) rs1 s1 = (Some rs3, s3)"
    "record_from E ball drop_k (List.drop (Suc i) ds) (Suc i) rs3 s3 = (Some rs2, s2)"
    using Suc.prems(1) by (auto simp: run_Some)
  obtain g2 where g2: "at_list k g2 s3" "rec_inv ball k ds (Suc i) (e(i := gl_epoch g2)) rs3 g2"
    using record_step [OF E Suc.prems(3,4) _ _ _ _ run(1,2)] ready i by fastforce
  show ?case using Suc(2) i by (intro Suc(1) [OF _ run(3) _ g2]) simp_all
qed

section \<open>Recording a list\<close>

lemma begin_resets: "dev (list_begin (logged H P)) s = (Some x, s2) \<Longrightarrow> b_ks (fst s) = k \<Longrightarrow> at_list k gl_start s2"
  by (auto simp: at_list_def dev_def list_begin_def recover_def list_end_def set_step_def upd_def
      thenR_def bindR_def ask_def call_def ret_def gl_step_def dest!: logged_Some split: prod.splits option.splits if_splits)

text \<open>Calls that run nothing leave the list as it was.\<close>

lemma quiet_call:
  "(\<And>h. gl_step c h = h) \<Longrightarrow>
   safe (\<lambda>s. True) (\<lambda>s. launched (snd (snd s)) = g) (call (logged H P) c) (\<lambda>s. launched (snd (snd s)) = g)"
  by (auto simp: safe_def call_def dest!: logged_Some split: prod.splits option.splits)

lemma quiet_upd: "safe (\<lambda>s. True) (\<lambda>s. launched (snd (snd s)) = g) (upd f) (\<lambda>s. launched (snd (snd s)) = g)"
  by (simp add: safe_def upd_def)

lemma quiet_runs:
  "safe (\<lambda>s. True) (\<lambda>s. launched (snd (snd s)) = g) (list_end (logged H P)) (\<lambda>s. launched (snd (snd s)) = g)"
  "safe (\<lambda>s. True) (\<lambda>s. launched (snd (snd s)) = g) (capture_timestamp (logged H P) t) (\<lambda>s. launched (snd (snd s)) = g)"
  "safe (\<lambda>s. True) (\<lambda>s. launched (snd (snd s)) = g) (submit (logged H P)) (\<lambda>s. launched (snd (snd s)) = g)"
  unfolding submit_def recover_def process_frame_def list_end_def capture_timestamp_def set_step_def
  by (intro same_rules quiet_call quiet_upd; simp add: gl_step_def)+

lemma quiet_at_list:
  assumes "safe (\<lambda>s. True) (\<lambda>s. launched (snd (snd s)) = g) m (\<lambda>s. launched (snd (snd s)) = g)"
    and "at_list k g s" "dev m s = (Some x, s2)"
  shows "at_list k g s2"
proof -
  obtain d w where "m (b_dev (fst s), snd s) = (Some x, d, w)" "s2 = ((fst s)\<lparr>b_dev := d\<rparr>, w)"
    using assms(3) by (auto simp: dev_def split: prod.splits)
  then show ?thesis
    using safeD [OF assms(1), of "(b_dev (fst s), snd s)"] assms(2) by (simp add: at_list_def)
qed

lemmas quiet_calls = quiet_at_list [OF quiet_runs(1)] quiet_at_list [OF quiet_runs(2)] quiet_at_list [OF quiet_runs(3)]

lemma upd_ctx_at_list: "at_list k g s \<Longrightarrow> upd_ctx f s = (Some x, s2) \<Longrightarrow> at_list k g s2"
  by (auto simp: at_list_def upd_ctx_def updB_def)

lemma rec_start_inv: "rec_inv ball k ds 0 e rec_start gl_start"
  by (simp add: rec_inv_def rec_start_def gl_start_def epochs_ok_def segment_ok_def)

lemma record_list_runs:
  assumes E: "be_host E = logged H P" "env_int E ''GGML_RD_DROP_BARRIER'' \<le> 0"
    and ready: "\<forall>i<length ds. kern_ready k (dp_kernel (ds ! i)) \<and> dp_set0 (ds ! i) \<noteq> 0" "ks_layout_shader k \<noteq> 0"
      "length ds \<le> length (ks_slot_sets k)"
    and k: "b_ks (fst s) = k" and run: "record_list E ds s = (Some rs, s2)"
  shows "\<exists>g e. at_list k g s2 \<and> rec_inv (env_int E ''GGML_RD_BARRIER_ALL'' \<noteq> 0) k ds (length ds) e rs g"
proof -
  define ts where "ts \<longleftrightarrow> cx_timestamps (b_ctx (fst s)) \<or> env_int E ''GGML_RD_TIMESTAMPS'' \<noteq> 0"
  let ?ball = "env_int E ''GGML_RD_BARRIER_ALL'' \<noteq> 0"
  obtain u1 s1 u3 s3 s4 u5 s5 u6 where
    a: "(if ts then dev (capture_timestamp (be_host E) ''ggml_rd_graph_begin'') else ret ()) s = (Some u1, s1)"
    and b: "dev (list_begin (be_host E)) s1 = (Some u3, s3)"
    and c: "record_from E ?ball (env_int E ''GGML_RD_DROP_BARRIER'') ds 0 rec_start s3 = (Some rs, s4)"
    and d: "dev (list_end (be_host E)) s4 = (Some u5, s5)"
    and e: "(if ts then thenR (dev (capture_timestamp (be_host E) ''ggml_rd_graph_end''))
                     (upd_ctx (\<lambda>c. c\<lparr>cx_ts_armed := True\<rparr>)) else ret ()) s5 = (Some u6, s2)"
    using run unfolding record_list_def Let_def run_Some ts_def by (auto simp: askB_def)
  have s: "at_list k (launched (snd (snd s))) s" using k by (simp add: at_list_def)
  have "at_list k (launched (snd (snd s))) s1"
  proof (cases ts)
    case True
    show ?thesis by (rule quiet_calls(2) [OF s]) (use a True E(1) in simp)
  qed (use a s in \<open>simp add: ret_Some\<close>)
  then have "b_ks (fst s1) = k" by (simp add: at_list_def)
  then have s3: "at_list k gl_start s3" by (rule begin_resets [OF b [unfolded E(1)]])
  have c0: "record_from E ?ball (env_int E ''GGML_RD_DROP_BARRIER'') (List.drop 0 ds) 0 rec_start s3 = (Some rs, s4)"
    using c by simp
  from record_from_runs [OF E ready c0 _ s3 rec_start_inv]
  obtain g e2 where g: "at_list k g s4" "rec_inv ?ball k ds (length ds) e2 rs g" by auto
  have "at_list k g s5" by (rule quiet_calls(1) [OF g(1) d [unfolded E(1)]])
  have "at_list k g s2"
  proof (cases ts)
    case True
    then obtain u7 s6 where "dev (capture_timestamp (logged H P) ''ggml_rd_graph_end'') s5 = (Some u7, s6)"
      "upd_ctx (\<lambda>c. c\<lparr>cx_ts_armed := True\<rparr>) s6 = (Some u6, s2)"
      using e E(1) by (auto simp: run_Some)
    then show ?thesis using quiet_calls(2) [OF \<open>at_list k g s5\<close>] upd_ctx_at_list by blast
  qed (use e \<open>at_list k g s5\<close> in \<open>simp add: ret_Some\<close>)
  then show ?thesis using g(2) by blast
qed

section \<open>What a returned preparation has cached\<close>

definition keeps :: "(kstate \<Rightarrow> bool) \<Rightarrow> ('w, 'a) brun \<Rightarrow> bool" where
  "keeps Q m \<longleftrightarrow> (\<forall>s x s2. m s = (Some x, s2) \<longrightarrow> Q (b_ks (fst s)) \<longrightarrow> Q (b_ks (fst s2)))"

lemma keepsD: "keeps Q m \<Longrightarrow> m s = (Some x, s2) \<Longrightarrow> Q (b_ks (fst s)) \<Longrightarrow> Q (b_ks (fst s2))"
  unfolding keeps_def by blast

lemma keeps_basic:
  "keeps Q (ret x)" "keeps Q (dev m)" "keeps Q (upd_ctx f)" "keeps Q (upd_st f2)" "keeps Q (run_hook h)" "keeps Q never"
  by (auto simp: keeps_def ret_def dev_def upd_ctx_def upd_st_def updB_def run_hook_def never_def split: prod.splits option.splits)

lemma keeps_ks: "(\<And>k. Q k \<Longrightarrow> Q (f k)) \<Longrightarrow> keeps Q (upd_ks f)"
  by (auto simp: keeps_def upd_ks_def updB_def)

lemma keeps_bind: "keeps Q m \<Longrightarrow> (\<And>x. keeps Q (f x)) \<Longrightarrow> keeps Q (bindR m f)"
  unfolding keeps_def bindR_Some by blast

lemma keeps_then: "keeps Q m \<Longrightarrow> keeps Q n \<Longrightarrow> keeps Q (thenR m n)"
  unfolding thenR_def by (rule keeps_bind)

lemma keeps_askB: "(\<And>s. keeps Q (f s)) \<Longrightarrow> keeps Q (bindR askB f)"
  by (auto simp: keeps_def bindR_def askB_def)

lemma keeps_if: "keeps Q m \<Longrightarrow> keeps Q n \<Longrightarrow> keeps Q (if b then m else n)"
  by simp

lemma keeps_option: "keeps Q m \<Longrightarrow> (\<And>x. keeps Q (f x)) \<Longrightarrow> keeps Q (case v of None \<Rightarrow> m | Some x \<Rightarrow> f x)"
  by (cases v) simp_all

lemmas keeps_rules = keeps_basic keeps_then keeps_askB keeps_bind keeps_if keeps_option

text \<open>Facts on the kernels and the slots outlive every later step of the preparation.\<close>

locale lasting =
  fixes Q :: "kstate \<Rightarrow> bool"
  assumes created: "Q k \<Longrightarrow> Q (k\<lparr>ks_created := n\<rparr>)"
    and slot: "Q k \<Longrightarrow> Q (k\<lparr>ks_slot_ubos := ks_slot_ubos k @ [u], ks_slot_sets := ks_slot_sets k @ [us]\<rparr>)"
    and emplace: "Q k \<Longrightarrow> Q (k\<lparr>ks_set0 := map_emplace key v (ks_set0 k)\<rparr>)"
begin

lemma keeps_created: "keeps Q (created_one E)" "keeps Q (set_error e)" "keeps Q (null_rid e)"
  unfolding created_one_def coop_def set_error_def null_rid_def
  by (intro keeps_rules keeps_ks created; assumption)+

lemma keeps_slot_set: "keeps Q (slot_set E i)"
proof -
  have "keeps Q (make_slot E)" for E :: "'w benv"
    unfolding make_slot_def Let_def by (intro keeps_rules keeps_created keeps_ks slot)
  note make = this
  have "keeps Q (make_slots n E)" for n and E :: "'w benv"
  proof (induction n)
    case (Suc n)
    then show ?case unfolding make_slots.simps by (intro keeps_rules make)
  qed (simp add: keeps_basic)
  then show ?thesis unfolding slot_set_def by (intro keeps_rules keeps_created)
qed

lemma keeps_tensor_set: "keeps Q (tensor_set E p a b c d)"
  unfolding tensor_set_def Let_def by (intro keeps_rules keeps_created keeps_ks emplace)

end

lemma keeps_params_buffer:
  assumes "\<And>k p n. Q k \<Longrightarrow> Q (k\<lparr>ks_set0 := []\<rparr>) \<and> Q (k\<lparr>ks_params := p\<rparr>) \<and> Q (k\<lparr>ks_params_slots := n\<rparr>) \<and>
      Q (k\<lparr>ks_params := 0, ks_params_slots := 0\<rparr>)"
  shows "keeps Q (params_buffer E n)"
proof -
  have "keeps Q m \<Longrightarrow> keeps Q (fold (\<lambda>r m. thenR m (dev (forget (be_host E) r))) rids m)" for m rids
    by (induction rids arbitrary: m) (simp_all add: keeps_rules)
  then have "keeps Q (forget_all E rids)" for rids unfolding forget_all_def by (simp add: keeps_basic)
  then show ?thesis
    unfolding params_buffer_def null_rid_def set_error_def
    by (intro keeps_rules keeps_ks) (simp_all add: assms)
qed

lemma keeps_kernel_pipeline:
  assumes "\<And>k x. Q k \<Longrightarrow> Q (k\<lparr>ks_kerns := x\<rparr>)" "\<And>k x. Q k \<Longrightarrow> Q (k\<lparr>ks_layout_shader := x\<rparr>)"
  shows "keeps Q (kernel_pipeline E n)"
  unfolding kernel_pipeline_def Let_def null_rid_def set_error_def
  by (intro keeps_rules keeps_ks) (simp_all add: assms)

text \<open>A pipeline, once made, stays while others are made.\<close>

lemma keeps_kern_ready: "keeps (\<lambda>k. kern_ready k n) (kernel_pipeline E m)"
proof (cases "m = n \<or> m < 0 \<or> int kKernelCount \<le> m")
  case True
  then show ?thesis
    using kernel_pipeline_ready [where E = E and n = n]
    by (auto simp: keeps_def kernel_pipeline_def null_rid_def set_error_def thenR_def bindR_def upd_ctx_def updB_def ret_def)
next
  case False
  have other: "kern_ready (k\<lparr>ks_kerns := (ks_kerns k)[nat m := x]\<rparr>) n" if "kern_ready k n" for k x
    using that False by (simp add: kern_ready_def nat_eq_iff2)
  have pad: "kern_ready (if length (ks_kerns s) < kKernelCount
      then s\<lparr>ks_kerns := ks_kerns s @ replicate (kKernelCount - length (ks_kerns s)) (0, 0)\<rparr> else s) n" if "kern_ready s n" for s
    using that by (simp add: kern_ready_def)
  show ?thesis
    unfolding kernel_pipeline_def null_rid_def set_error_def
    by (intro keeps_rules keeps_ks other pad) (simp_all add: kern_ready_def)
qed

abbreviation sorted_sets :: "kstate \<Rightarrow> bool" where
  "sorted_sets k \<equiv> sorted_wrt (<) (map fst (ks_set0 k))"

interpretation kern: lasting "\<lambda>k. kern_ready k n" for n
  by unfold_locales (simp_all add: kern_ready_def)

interpretation layout: lasting "\<lambda>k. ks_layout_shader k \<noteq> 0"
  by unfold_locales simp_all

interpretation slots: lasting "\<lambda>k. n \<le> length (ks_slot_sets k)" for n
  by unfold_locales simp_all

interpretation sets: lasting "\<lambda>k. sorted_sets k \<and> map_of (ks_set0 k) key = Some us" for key us
  by unfold_locales (auto simp: sorted_emplace map_of_emplace)

interpretation table: lasting "\<lambda>k. ks_params k = p" for p
  by unfold_locales simp_all

interpretation order1: lasting sorted_sets
  by unfold_locales (simp_all add: sorted_emplace)

lemma kernel_pipeline_makes:
  assumes "kernel_pipeline E n s = (Some p, s2)" "p \<noteq> 0"
  shows "kern_ready (b_ks (fst s2)) n"
  using assms
  by (auto simp: kernel_pipeline_def null_rid_def thenR_def bindR_def upd_ks_def updB_def askB_def ret_def kern_ready_def
      upd_st_def upd_ctx_def set_error_def dev_def split: if_splits option.splits prod.splits)

lemma prepare_pipelines_makes:
  "prepare_pipelines E ds s = (Some None, s2) \<Longrightarrow> dp \<in> set ds \<Longrightarrow> kern_ready (b_ks (fst s2)) (dp_kernel dp)"
proof (induction ds arbitrary: s)
  case (Cons d ds)
  have later: "keeps (\<lambda>k. kern_ready k n) (prepare_pipelines E ds)" for n ds
    by (induction ds) (simp_all add: keeps_basic keeps_bind keeps_if keeps_kern_ready)
  obtain p s1 where "kernel_pipeline E (dp_kernel d) s = (Some p, s1)" "p \<noteq> 0" "prepare_pipelines E ds s1 = (Some None, s2)"
    using Cons.prems(1) by (auto simp: run_Some split: if_splits)
  then show ?case
    using Cons kernel_pipeline_makes keepsD [OF later] by (metis set_ConsD)
qed simp

lemma make_slots_length:
  "make_slots n E s = (Some True, s2) \<Longrightarrow> length (ks_slot_sets (b_ks (fst s2))) \<ge> length (ks_slot_sets (b_ks (fst s))) + n"
proof (induction n arbitrary: s)
  case (Suc n)
  obtain s1 where m: "make_slot E s = (Some True, s1)" "make_slots n E s1 = (Some True, s2)"
    using Suc.prems by (auto simp: run_Some split: if_splits)
  have "\<exists>s3. created_one E s3 = (Some (), s1) \<and> length (ks_slot_sets (b_ks (fst s3))) = Suc (length (ks_slot_sets (b_ks (fst s))))"
    using m(1)
    by (auto simp: make_slot_def Let_def run_Some askB_def dev_def upd_ks_def upd_st_def upd_ctx_def updB_def set_error_def
        simp del: split_paired_Ex split: if_splits prod.splits)
  then have "length (ks_slot_sets (b_ks (fst s1))) \<ge> Suc (length (ks_slot_sets (b_ks (fst s))))"
    using keepsD [OF slots.keeps_created(1) [where n = "Suc (length (ks_slot_sets (b_ks (fst s))))"]] by fastforce
  then show ?case using Suc.IH [OF m(2)] by simp
qed (simp add: ret_Some)

lemma slot_set_makes:
  assumes "slot_set E i s = (Some us, s2)" "us \<noteq> 0"
  shows "i < length (ks_slot_sets (b_ks (fst s2))) \<and> ks_layout_shader (b_ks (fst s2)) \<noteq> 0"
proof -
  have l: "ks_layout_shader (b_ks (fst s)) \<noteq> 0"
    using assms by (auto simp: slot_set_def bindR_def askB_def null_rid_def set_error_def upd_ctx_def updB_def thenR_def ret_def)
  then obtain s1 where "make_slots (Suc i - length (ks_slot_sets (b_ks (fst s)))) E s = (Some True, s1)" "s2 = s1"
    using assms by (auto simp: slot_set_def run_Some askB_def split: if_splits)
  then have "i < length (ks_slot_sets (b_ks (fst s2)))" using make_slots_length by fastforce
  then show ?thesis using keepsD [OF layout.keeps_slot_set assms(1)] l by blast
qed

lemma prepare_slots_makes:
  "prepare_slots E is s = (Some None, s2) \<Longrightarrow> i \<in> set is \<Longrightarrow>
   i < length (ks_slot_sets (b_ks (fst s2))) \<and> ks_layout_shader (b_ks (fst s2)) \<noteq> 0"
proof (induction "is" arbitrary: s)
  case (Cons j "is")
  have later: "keeps (\<lambda>k. n \<le> length (ks_slot_sets k)) (prepare_slots E is)" "keeps (\<lambda>k. ks_layout_shader k \<noteq> 0) (prepare_slots E is)"
    for n "is"
    by (induction "is") (simp_all add: keeps_basic keeps_bind keeps_if keeps_askB slots.keeps_slot_set layout.keeps_slot_set)
  obtain us s1 where t: "slot_set E j s = (Some us, s1)" "us \<noteq> 0" and r: "prepare_slots E is s1 = (Some None, s2)"
    using Cons.prems(1) by (auto simp: run_Some askB_def split: if_splits)
  show ?case
  proof (cases "i = j")
    case True
    then show ?thesis
      using slot_set_makes [OF t] keepsD [OF later(1) [of "Suc j"] r] keepsD [OF later(2) r] by (simp add: Suc_le_eq)
  next
    case False
    then show ?thesis using Cons.IH [OF r] Cons.prems(2) by simp
  qed
qed simp

abbreviation bind_key :: "int \<Rightarrow> dispatch_rec \<Rightarrow> set_key" where
  "bind_key p dp \<equiv> Set_key (p, dp_bind dp 0, dp_bind dp 1, dp_bind dp 2, dp_bind dp 3)"

lemma tensor_set_makes:
  assumes "tensor_set E p a b c d s = (Some us, s2)" "us \<noteq> 0" "sorted_sets (b_ks (fst s))"
  shows "sorted_sets (b_ks (fst s2)) \<and> map_of (ks_set0 (b_ks (fst s2))) (Set_key (p, a, b, c, d)) = Some us"
proof (cases "map_of (ks_set0 (b_ks (fst s))) (Set_key (p, a, b, c, d))")
  case (Some v)
  then show ?thesis using assms by (auto simp: tensor_set_def Let_def bindR_def askB_def ret_def)
next
  case None
  let ?key = "Set_key (p, a, b, c, d)"
  have "\<exists>s1. created_one E s1 = (Some (), s2) \<and> ks_set0 (b_ks (fst s1)) = map_emplace ?key us (ks_set0 (b_ks (fst s)))"
    using None assms(1,2)
    by (auto simp: tensor_set_def Let_def run_Some askB_def null_rid_def dev_def upd_ks_def upd_st_def upd_ctx_def updB_def set_error_def
        simp del: split_paired_Ex split: if_splits prod.splits)
  then obtain s1 where s1: "ks_set0 (b_ks (fst s1)) = map_emplace ?key us (ks_set0 (b_ks (fst s)))" "created_one E s1 = (Some (), s2)"
    by blast
  then have "sorted_sets (b_ks (fst s1)) \<and> map_of (ks_set0 (b_ks (fst s1))) ?key = Some us"
    using assms(3) None by (simp add: sorted_emplace map_of_emplace)
  with keepsD [OF sets.keeps_created(1) s1(2)] show ?thesis by blast
qed

lemma prepare_sets_makes:
  "prepare_sets E p ds acc s = (Some (Inr ds2), s2) \<Longrightarrow> sorted_sets (b_ks (fst s)) \<Longrightarrow>
   \<exists>us. ds2 = acc @ map (\<lambda>i. (ds ! i)\<lparr>dp_set0 := us i\<rparr>) [0..<length ds] \<and>
     (\<forall>i<length ds. us i \<noteq> 0 \<and> map_of (ks_set0 (b_ks (fst s2))) (bind_key p (ds ! i)) = Some (us i))"
proof (induction ds arbitrary: s acc)
  case Nil
  then show ?case by (auto simp: ret_Some)
next
  case (Cons d ds)
  have later: "keeps (\<lambda>k. sorted_sets k \<and> map_of (ks_set0 k) key = Some us) (prepare_sets E p ds acc)" for key us ds acc
    by (induction ds arbitrary: acc) (simp_all add: keeps_basic keeps_bind keeps_if keeps_askB sets.keeps_tensor_set)
  obtain u s1 where t: "tensor_set E p (dp_bind d 0) (dp_bind d 1) (dp_bind d 2) (dp_bind d 3) s = (Some u, s1)" "u \<noteq> 0"
    and r: "prepare_sets E p ds (acc @ [d\<lparr>dp_set0 := u\<rparr>]) s1 = (Some (Inr ds2), s2)"
    using Cons.prems(1) by (auto simp: run_Some askB_def split: if_splits)
  have s1: "sorted_sets (b_ks (fst s1))" "map_of (ks_set0 (b_ks (fst s1))) (bind_key p d) = Some u"
    using tensor_set_makes [OF t Cons.prems(2)] by auto
  obtain us where us: "ds2 = (acc @ [d\<lparr>dp_set0 := u\<rparr>]) @ map (\<lambda>i. (ds ! i)\<lparr>dp_set0 := us i\<rparr>) [0..<length ds]"
    "\<forall>i<length ds. us i \<noteq> 0 \<and> map_of (ks_set0 (b_ks (fst s2))) (bind_key p (ds ! i)) = Some (us i)"
    using Cons.IH [OF r s1(1)] by blast
  have "map_of (ks_set0 (b_ks (fst s2))) (bind_key p d) = Some u" using keepsD [OF later r] s1 by blast
  then show ?case using us t(2)
    by (intro exI [of _ "case_nat u us"])
      (auto simp: map_upt_Suc less_Suc_eq_0_disj simp del: upt_Suc)
qed

section \<open>The whole graph on the GPU\<close>

lemma fail_graph_Some: "fail_graph e s = (Some x, s2) \<Longrightarrow> x = GGML_STATUS_FAILED"
  by (auto simp: fail_graph_def run_Some)

text \<open>A step that did not fail the graph.\<close>

lemma passed_option:
  assumes "bindR m (\<lambda>why. case why of Some e \<Rightarrow> fail_graph e | None \<Rightarrow> n) s = (Some GGML_STATUS_SUCCESS, s2)"
  obtains s1 where "m s = (Some None, s1)" "n s1 = (Some GGML_STATUS_SUCCESS, s2)"
proof -
  obtain r s1 where "m s = (Some r, s1)" "(case r of Some e \<Rightarrow> fail_graph e | None \<Rightarrow> n) s1 = (Some GGML_STATUS_SUCCESS, s2)"
    using assms unfolding bindR_Some by blast
  then show thesis using that by (cases r) (auto dest!: fail_graph_Some)
qed

lemma passed_sum:
  assumes "bindR m (\<lambda>r. case r of Inl e \<Rightarrow> fail_graph e | Inr x \<Rightarrow> n x) s = (Some GGML_STATUS_SUCCESS, s2)"
  obtains x s1 where "m s = (Some (Inr x), s1)" "n x s1 = (Some GGML_STATUS_SUCCESS, s2)"
proof -
  obtain r s1 where "m s = (Some r, s1)" "(case r of Inl e \<Rightarrow> fail_graph e | Inr x \<Rightarrow> n x) s1 = (Some GGML_STATUS_SUCCESS, s2)"
    using assms unfolding bindR_Some by blast
  then show thesis using that by (cases r) (auto dest!: fail_graph_Some)
qed

lemma passed_test:
  assumes "bindR m (\<lambda>r. if bad r then bindR askB (\<lambda>s. fail_graph (e s)) else n r) s = (Some GGML_STATUS_SUCCESS, s2)"
  obtains r s1 where "m s = (Some r, s1)" "\<not> bad r" "n r s1 = (Some GGML_STATUS_SUCCESS, s2)"
  using assms unfolding bindR_Some by (auto simp: bindR_Some split: if_splits dest!: fail_graph_Some)

lemma keeps_prepared:
  "keeps (\<lambda>k. kern_ready k n) (params_buffer E m)" "keeps (\<lambda>k. kern_ready k n) (prepare_slots E is)"
  "keeps (\<lambda>k. kern_ready k n) (prepare_sets E p ds acc)" "keeps sorted_sets (prepare_pipelines E ds)"
  "keeps sorted_sets (params_buffer E m)" "keeps sorted_sets (prepare_slots E is)"
  "keeps (\<lambda>k. ks_params k = q) (prepare_slots E is)" "keeps (\<lambda>k. ks_params k = q) (prepare_sets E p ds acc)"
  "keeps (\<lambda>k. i < length (ks_slot_sets k)) (prepare_sets E p ds acc)"
  "keeps (\<lambda>k. ks_layout_shader k \<noteq> 0) (prepare_sets E p ds acc)"
proof -
  have sets: "keeps Q (prepare_sets E p ds acc)" if "lasting Q" for Q
    by (induction ds arbitrary: acc)
      (simp_all add: keeps_basic keeps_bind keeps_if keeps_askB lasting.keeps_tensor_set [OF that])
  have slots: "keeps Q (prepare_slots E is)" if "lasting Q" for Q
    by (induction "is") (simp_all add: keeps_basic keeps_bind keeps_if keeps_askB lasting.keeps_slot_set [OF that])
  show "keeps (\<lambda>k. kern_ready k n) (params_buffer E m)" "keeps sorted_sets (params_buffer E m)"
    by (rule keeps_params_buffer, simp add: kern_ready_def)+
  show "keeps sorted_sets (prepare_pipelines E ds)"
    by (induction ds) (simp_all add: keeps_basic keeps_bind keeps_if keeps_kernel_pipeline)
  show "keeps (\<lambda>k. kern_ready k n) (prepare_slots E is)" "keeps sorted_sets (prepare_slots E is)"
    "keeps (\<lambda>k. ks_params k = q) (prepare_slots E is)"
    by (rule slots, unfold_locales)+
  show "keeps (\<lambda>k. kern_ready k n) (prepare_sets E p ds acc)" "keeps (\<lambda>k. ks_params k = q) (prepare_sets E p ds acc)"
    "keeps (\<lambda>k. ks_layout_shader k \<noteq> 0) (prepare_sets E p ds acc)"
    by (rule sets, unfold_locales)+
  show "keeps (\<lambda>k. i < length (ks_slot_sets k)) (prepare_sets E p ds acc)"
    using sets [of "\<lambda>k. Suc i \<le> length (ks_slot_sets k)"] slots.lasting_axioms [of "Suc i"] by (simp add: Suc_le_eq)
qed

definition with_sets :: "dispatch_rec list \<Rightarrow> (nat \<Rightarrow> int) \<Rightarrow> dispatch_rec list" where
  "with_sets ds us = map (\<lambda>i. (ds ! i)\<lparr>dp_set0 := us i\<rparr>) [0..<length ds]"

lemma gpu_graph_runs:
  assumes E: "be_host E = logged H P" "env_int E ''GGML_RD_DROP_BARRIER'' \<le> 0"
    and sorted: "cache_ok (b_ks (fst s))" and some: "dws \<noteq> []"
    and run: "gpu_graph E dws s = (Some GGML_STATUS_SUCCESS, s2)"
  defines "ds \<equiv> map fst dws"
  shows "\<exists>k g e us rs. at_list k g s2 \<and>
    rec_inv (env_int E ''GGML_RD_BARRIER_ALL'' \<noteq> 0) k (with_sets ds us) (length ds) e rs g \<and>
    st_last_barriers (cx_st (b_ctx (fst s2))) = rs_barriers rs \<and>
    (\<forall>i<length ds. kern_ready k (dp_kernel (ds ! i)) \<and> map_of (ks_set0 k) (bind_key (ks_params k) (ds ! i)) = Some (us i))"
proof -
  let ?n = "word_of_nat (length ds) :: u32"
  obtain s1 p s3 s4 ds2 s5 s6 u7 s7 where
    pipes: "prepare_pipelines E ds s = (Some None, s1)"
    and table: "params_buffer E ?n s1 = (Some p, s3)" "p \<noteq> 0"
    and slots: "prepare_slots E [0..<length ds] s3 = (Some None, s4)"
    and sets: "prepare_sets E p ds [] s4 = (Some (Inr ds2), s5)"
    and upload: "dev (buffer_update (be_host E) p 0 (ucast ?n * kSlotBytes) (table_bytes (map snd dws))) s5 = (Some True, s6)"
    and count: "upd_st (\<lambda>t. t\<lparr>st_params_bytes := st_params_bytes t + int (length ds2) * 256\<rparr>) s6 = (Some u7, s7)"
    and rest: "bindR (record_list E ds2) (\<lambda>rs.
       thenR (dev (submit (be_host E)))
       (thenR (upd_ctx (\<lambda>c. c\<lparr>cx_pending := True\<rparr>))
       (thenR (upd_st (\<lambda>t. t\<lparr>st_dispatches := st_dispatches t + int (length ds2), st_barriers := st_barriers t + rs_barriers rs,
                             st_last_barriers := rs_barriers rs\<rparr>))
       (ret GGML_STATUS_SUCCESS)))) s7 = (Some GGML_STATUS_SUCCESS, s2)"
  proof -
    from run [unfolded gpu_graph_def Let_def, folded ds_def] show ?thesis
      by (elim passed_option passed_test passed_sum) (auto simp: thenR_Some intro!: that)
  qed
  obtain rs s8 u9 s9 where list: "record_list E ds2 s7 = (Some rs, s8)"
    and submit: "dev (submit (be_host E)) s8 = (Some u9, s9)" and ctx: "b_ks (fst s2) = b_ks (fst s9)" "snd s2 = snd s9"
    and stat: "st_last_barriers (cx_st (b_ctx (fst s2))) = rs_barriers rs"
    using rest by (auto simp: run_Some upd_ctx_def upd_st_def updB_def)
  let ?k = "b_ks (fst s7)"
  have k7: "?k = b_ks (fst s5)"
    using upload count by (auto simp: dev_def upd_st_def upd_ctx_def updB_def split: prod.splits)
  have o: "sorted_sets (b_ks (fst s4))"
    using keepsD [OF keeps_prepared(6) slots] keepsD [OF keeps_prepared(5) table(1)] keepsD [OF keeps_prepared(4) pipes] sorted
    by (simp add: cache_ok_def)
  obtain us where us: "ds2 = with_sets ds us"
    "\<forall>i<length ds. us i \<noteq> 0 \<and> map_of (ks_set0 (b_ks (fst s5))) (bind_key p (ds ! i)) = Some (us i)"
    using prepare_sets_makes [OF sets o] by (auto simp: with_sets_def)
  have "ks_params (b_ks (fst s3)) = p" using params_buffer_result table by blast
  then have p: "ks_params ?k = p" using keepsD [OF keeps_prepared(7) slots] keepsD [OF keeps_prepared(8) sets] k7 by simp
  have ready: "kern_ready ?k (dp_kernel (ds ! i))" if "i < length ds" for i
    using prepare_pipelines_makes [OF pipes, of "ds ! i"] that keepsD [OF keeps_prepared(1) table(1)]
      keepsD [OF keeps_prepared(2) slots] keepsD [OF keeps_prepared(3) sets] k7 by simp
  have slot: "i < length (ks_slot_sets ?k) \<and> ks_layout_shader ?k \<noteq> 0" if "i < length ds" for i
    using prepare_slots_makes [OF slots, of i] that keepsD [OF keeps_prepared(9) sets] keepsD [OF keeps_prepared(10) sets] k7
    by simp
  have len: "length (with_sets ds us) = length ds" by (simp add: with_sets_def)
  have "\<exists>g e. at_list ?k g s8 \<and> rec_inv (env_int E ''GGML_RD_BARRIER_ALL'' \<noteq> 0) ?k (with_sets ds us) (length ds) e rs g"
  proof -
    have False: "ds \<noteq> []" using some by (simp add: ds_def)
    have pos: "0 < length ds" using False by simp
    then have "length ds - 1 < length (ks_slot_sets ?k)" using slot [of "length ds - 1"] by simp
    then have "length ds \<le> length (ks_slot_sets ?k)" using pos by linarith
    moreover have "ks_layout_shader ?k \<noteq> 0" using slot [of 0] False by simp
    moreover have "\<forall>i<length (with_sets ds us). kern_ready ?k (dp_kernel (with_sets ds us ! i)) \<and> dp_set0 (with_sets ds us ! i) \<noteq> 0"
      using ready us(2) by (simp add: with_sets_def)
    ultimately show ?thesis
      using record_list_runs [OF E, of "with_sets ds us" ?k s7 rs s8] list us(1) len by auto
  qed
  then obtain g e where g: "at_list ?k g s8" "rec_inv (env_int E ''GGML_RD_BARRIER_ALL'' \<noteq> 0) ?k (with_sets ds us) (length ds) e rs g"
    by blast
  have "at_list ?k g s9" by (rule quiet_calls(3) [OF g(1) submit [unfolded E(1)]])
  then have "at_list ?k g s2" using ctx by (simp add: at_list_def)
  moreover have "\<forall>i<length ds. kern_ready ?k (dp_kernel (ds ! i)) \<and>
      map_of (ks_set0 ?k) (bind_key (ks_params ?k) (ds ! i)) = Some (us i)"
    using ready us(2) p k7 by simp
  ultimately show ?thesis
    using g(2) stat by (intro exI [of _ ?k] exI [of _ g] exI [of _ e] exI [of _ us] exI [of _ rs]) simp
qed

lemma conflict_sets: "conflict (a\<lparr>dp_set0 := x\<rparr>) (b\<lparr>dp_set0 := y\<rparr>) = conflict a b"
  by (simp add: conflict_def)

text \<open>
  C4: when a graph was recorded, its compute list runs its dispatches in graph order, each with
  the pipeline of its own kernel, the uniform set of its own four buffers and the params table,
  the set of its own slot, and its own grid.
\<close>

theorem list_runs_graph:
  assumes "be_host E = logged H P" "env_int E ''GGML_RD_DROP_BARRIER'' \<le> 0" "cache_ok (b_ks (fst s))" "dws \<noteq> []"
    and "gpu_graph E dws s = (Some GGML_STATUS_SUCCESS, s2)"
  defines "ds \<equiv> map fst dws" and "k \<equiv> b_ks (fst s2)" and "launches \<equiv> gl_done (launched (snd (snd s2)))"
  shows "length launches = length ds \<and>
    (\<forall>i<length ds. la_pipe (launches ! i) = pipe_of k (dp_kernel (ds ! i)) \<and> la_pipe (launches ! i) \<noteq> 0 \<and>
       map_of (ks_set0 k) (bind_key (ks_params k) (ds ! i)) = Some (la_set0 (launches ! i)) \<and>
       la_set1 (launches ! i) = ks_slot_sets k ! i \<and>
       la_groups (launches ! i) = (dp_groups (ds ! i) 0, dp_groups (ds ! i) 1, dp_groups (ds ! i) 2))"
proof -
  obtain k2 g e us rs where g: "at_list k2 g s2"
    "rec_inv (env_int E ''GGML_RD_BARRIER_ALL'' \<noteq> 0) k2 (with_sets ds us) (length ds) e rs g"
    and ready: "\<forall>i<length ds. kern_ready k2 (dp_kernel (ds ! i)) \<and> map_of (ks_set0 k2) (bind_key (ks_params k2) (ds ! i)) = Some (us i)"
    using gpu_graph_runs [OF assms(1-5)] unfolding ds_def by blast
  have "launches = map (\<lambda>j. launch_of k (with_sets ds us) j (e j)) [0..<length ds]" "k2 = k"
    using g by (simp_all add: at_list_def rec_inv_def launches_def k_def)
  then show ?thesis using ready by (auto simp: launch_of_def with_sets_def kern_ready_def pipe_of_def)
qed

text \<open>
  C1: in a recorded graph two dispatches of which one writes bytes the other reads or writes
  are always separated by a barrier, in their order (\<open>la_epoch\<close> counts the barriers before a
  dispatch), unless the control that drops a barrier is on.
\<close>

theorem conflicts_have_barriers:
  assumes "be_host E = logged H P" "env_int E ''GGML_RD_DROP_BARRIER'' \<le> 0" "cache_ok (b_ks (fst s))" "dws \<noteq> []"
    and "gpu_graph E dws s = (Some GGML_STATUS_SUCCESS, s2)"
    and "i < j" "j < length dws" "conflict (fst (dws ! i)) (fst (dws ! j))"
  shows "la_epoch (gl_done (launched (snd (snd s2))) ! i) < la_epoch (gl_done (launched (snd (snd s2))) ! j)"
proof -
  let ?ds = "map fst dws"
  obtain k g e us rs where g: "at_list k g s2"
    "rec_inv (env_int E ''GGML_RD_BARRIER_ALL'' \<noteq> 0) k (with_sets ?ds us) (length ?ds) e rs g"
    using gpu_graph_runs [OF assms(1-5)] by blast
  then have "epochs_ok (env_int E ''GGML_RD_BARRIER_ALL'' \<noteq> 0) (with_sets ?ds us) (length ?ds) e" by (simp add: rec_inv_def)
  then have "e i < e j" using assms(6-8) by (simp add: epochs_ok_def with_sets_def conflict_sets)
  moreover have "gl_done (launched (snd (snd s2))) = map (\<lambda>j. launch_of k (with_sets ?ds us) j (e j)) [0..<length ?ds]"
    using g by (simp add: at_list_def rec_inv_def)
  ultimately show ?thesis using assms(6,7) by (simp add: launch_of_def)
qed

text \<open>
  C33: a barrier is recorded only where it is needed: between two consecutive dispatches there is
  at most one, and only when the second conflicts with a dispatch since the barrier before;
  the barriers counted for the graph are those recorded.
\<close>

theorem barriers_only_for_conflicts:
  assumes "be_host E = logged H P" "env_int E ''GGML_RD_DROP_BARRIER'' \<le> 0" "cache_ok (b_ks (fst s))" "dws \<noteq> []"
    and "gpu_graph E dws s = (Some GGML_STATUS_SUCCESS, s2)" and "env_int E ''GGML_RD_BARRIER_ALL'' = 0"
  defines "epoch \<equiv> \<lambda>i. la_epoch (gl_done (launched (snd (snd s2))) ! i)"
  shows "epoch 0 = 0 \<and> st_last_barriers (cx_st (b_ctx (fst s2))) = int (epoch (length dws - 1)) \<and>
    (\<forall>j. Suc j < length dws \<longrightarrow> epoch (Suc j) = epoch j \<or>
       epoch (Suc j) = Suc (epoch j) \<and> (\<exists>i\<le>j. epoch i = epoch j \<and> conflict (fst (dws ! i)) (fst (dws ! Suc j))))"
proof -
  let ?ds = "map fst dws"
  obtain k g e us rs where g: "at_list k g s2" "rec_inv False k (with_sets ?ds us) (length ?ds) e rs g"
    and stat: "st_last_barriers (cx_st (b_ctx (fst s2))) = rs_barriers rs"
    using gpu_graph_runs [OF assms(1-5)] assms(6) by auto
  then have ok: "epochs_ok False (with_sets ?ds us) (length ?ds) e" by (simp add: rec_inv_def)
  have launches: "gl_done (launched (snd (snd s2))) = map (\<lambda>j. launch_of k (with_sets ?ds us) j (e j)) [0..<length ?ds]"
    using g by (simp add: at_list_def rec_inv_def)
  have ep: "epoch i = e i" if "i < length dws" for i using that by (simp add: epoch_def launches launch_of_def)
  have "rs_barriers rs = int (e (length dws - 1))" using g(2) assms(4) by (simp add: rec_inv_def)
  moreover have "epoch (Suc j) = epoch j \<or> epoch (Suc j) = Suc (epoch j) \<and>
      (\<exists>i\<le>j. epoch i = epoch j \<and> conflict (fst (dws ! i)) (fst (dws ! Suc j)))" if j: "Suc j < length dws" for j
  proof -
    have "e (Suc j) = e j \<or> e (Suc j) = Suc (e j) \<and> (\<exists>i\<le>j. e i = e j \<and> conflict (with_sets ?ds us ! i) (with_sets ?ds us ! Suc j))"
      using ok j by (simp add: epochs_ok_def)
    then show ?thesis using j by (auto simp: ep with_sets_def conflict_sets)
  qed
  ultimately show ?thesis using stat ok assms(4) by (simp add: ep epochs_ok_def)
qed

section \<open>A small graph\<close>

text \<open>Three dispatches: the second reads what the first wrote, the third touches neither.\<close>

definition demo_dispatch :: "int \<Rightarrow> range list \<Rightarrow> range \<Rightarrow> dispatch_rec" where
  "demo_dispatch n rs w = \<lparr>dp_kernel = n, dp_groups = (\<lambda>i. 1), dp_bind = (\<lambda>i. int i + 1), dp_buf = (\<lambda>i. i), dp_set0 = 0,
     dp_reads = rs, dp_write = w, dp_node = demo_tensor GGML_TYPE_F32 GGML_OP_ADD (\<lambda>s. None)\<rparr>"

definition demo_graph :: "(dispatch_rec \<times> words) list" where
  "demo_graph =
     [(demo_dispatch 0 [\<lparr>rg_rid = 1, rg_lo = 0, rg_hi = 16\<rparr>] \<lparr>rg_rid = 2, rg_lo = 0, rg_hi = 16\<rparr>, \<lambda>i. 0),
      (demo_dispatch 1 [\<lparr>rg_rid = 2, rg_lo = 8, rg_hi = 16\<rparr>] \<lparr>rg_rid = 3, rg_lo = 0, rg_hi = 8\<rparr>, \<lambda>i. 0),
      (demo_dispatch 1 [\<lparr>rg_rid = 1, rg_lo = 0, rg_hi = 16\<rparr>] \<lparr>rg_rid = 4, rg_lo = 0, rg_hi = 16\<rparr>, \<lambda>i. 0)]"

definition demo_E :: "(nat \<times> (rd_call \<times> bool) list) benv" where
  "demo_E = demo_benv (logged counting_godot (\<lambda>w. False)) []"

definition demo_start :: "bstate \<times> nat \<times> (rd_call \<times> bool) list" where
  "demo_start = (demo_bstate, 0, [])"

lemma demo_graph_recorded: "fst (gpu_graph demo_E demo_graph demo_start) = Some GGML_STATUS_SUCCESS"
  by code_simp

lemma demo_graph_run: "gpu_graph demo_E demo_graph demo_start = (Some GGML_STATUS_SUCCESS, snd (gpu_graph demo_E demo_graph demo_start))"
  using demo_graph_recorded by (simp add: prod_eq_iff)

lemma demo_facts:
  "be_host demo_E = logged counting_godot (\<lambda>w. False)" "env_int demo_E t = 0" "cache_ok (b_ks (fst demo_start))" "demo_graph \<noteq> []"
  by (simp_all add: demo_E_def demo_benv_def demo_penv_def env_int_def demo_start_def demo_bstate_def fresh_kstate_def
      cache_ok_def demo_graph_def)

lemma list_runs_graph_witness:
  "length (gl_done (launched (snd (snd (snd (gpu_graph demo_E demo_graph demo_start)))))) = 3"
  using list_runs_graph [OF demo_facts(1) _ demo_facts(3,4) demo_graph_run]
  by (simp add: demo_facts(2)) (simp add: demo_graph_def)

lemma conflicts_have_barriers_witness:
  "la_epoch (gl_done (launched (snd (snd (snd (gpu_graph demo_E demo_graph demo_start))))) ! 0) <
   la_epoch (gl_done (launched (snd (snd (snd (gpu_graph demo_E demo_graph demo_start))))) ! 1)"
  by (rule conflicts_have_barriers [OF demo_facts(1) _ demo_facts(3,4) demo_graph_run])
    (simp_all add: demo_facts(2), simp_all add: demo_graph_def demo_dispatch_def conflict_def hits_def)

lemma barriers_only_for_conflicts_witness:
  "la_epoch (gl_done (launched (snd (snd (snd (gpu_graph demo_E demo_graph demo_start))))) ! 0) = 0"
  using barriers_only_for_conflicts [OF demo_facts(1) _ demo_facts(3,4) demo_graph_run] by (simp add: demo_facts(2))

end
