(* ===== verification/RdOps.thy ===== *)
theory RdOps
  imports RdOpsDerived
begin

text \<open>
  The op table of the backend: what each file of \<open>guest/ggml-rd/ops\<close> registers with
  \<open>GGML_RD_OP\<close>. The order in which the files' registrars run is the linker's.
\<close>

section \<open>The registrations of each file\<close>

definition ops_unary :: "op_entry list" where
  "ops_unary =
     [\<lparr>oe_name = ''silu_f32'', oe_op = GGML_OP_UNARY, oe_sub = GGML_UNARY_OP_SILU, oe_supports = supports_elementwise_f32, oe_pack = pack_silu\<rparr>,
      \<lparr>oe_name = ''gelu_f32'', oe_op = GGML_OP_UNARY, oe_sub = GGML_UNARY_OP_GELU, oe_supports = supports_elementwise_f32, oe_pack = pack_gelu\<rparr>,
      \<lparr>oe_name = ''gelu_erf_f32'', oe_op = GGML_OP_UNARY, oe_sub = GGML_UNARY_OP_GELU_ERF, oe_supports = supports_elementwise_f32, oe_pack = pack_gelu_erf\<rparr>,
      \<lparr>oe_name = ''sigmoid_f32'', oe_op = GGML_OP_UNARY, oe_sub = GGML_UNARY_OP_SIGMOID, oe_supports = supports_elementwise_f32, oe_pack = pack_sigmoid\<rparr>,
      \<lparr>oe_name = ''neg_f32'', oe_op = GGML_OP_UNARY, oe_sub = GGML_UNARY_OP_NEG, oe_supports = supports_elementwise_f32, oe_pack = pack_neg\<rparr>,
      \<lparr>oe_name = ''scale_f32'', oe_op = GGML_OP_SCALE, oe_sub = - 1, oe_supports = supports_elementwise_f32, oe_pack = pack_scale\<rparr>,
      \<lparr>oe_name = ''diag_mask_inf_f32'', oe_op = GGML_OP_DIAG_MASK_INF, oe_sub = - 1, oe_supports = supports_diag_mask_inf_f32, oe_pack = pack_diag_mask_inf\<rparr>,
      \<lparr>oe_name = ''relu_f32'', oe_op = GGML_OP_UNARY, oe_sub = GGML_UNARY_OP_RELU, oe_supports = supports_elementwise_f32, oe_pack = pack_relu\<rparr>,
      \<lparr>oe_name = ''leaky_relu_f32'', oe_op = GGML_OP_LEAKY_RELU, oe_sub = - 1, oe_supports = supports_elementwise_f32, oe_pack = pack_leaky_relu\<rparr>,
      \<lparr>oe_name = ''clamp_f32'', oe_op = GGML_OP_CLAMP, oe_sub = - 1, oe_supports = supports_elementwise_f32, oe_pack = pack_clamp\<rparr>]"

definition ops_unary_math :: "op_entry list" where
  "ops_unary_math =
     [\<lparr>oe_name = ''abs_f32'', oe_op = GGML_OP_UNARY, oe_sub = GGML_UNARY_OP_ABS, oe_supports = supports_math_f32, oe_pack = pack_abs\<rparr>,
      \<lparr>oe_name = ''sgn_f32'', oe_op = GGML_OP_UNARY, oe_sub = GGML_UNARY_OP_SGN, oe_supports = supports_math_f32, oe_pack = pack_sgn\<rparr>,
      \<lparr>oe_name = ''step_f32'', oe_op = GGML_OP_UNARY, oe_sub = GGML_UNARY_OP_STEP, oe_supports = supports_math_f32, oe_pack = pack_step\<rparr>,
      \<lparr>oe_name = ''tanh_f32'', oe_op = GGML_OP_UNARY, oe_sub = GGML_UNARY_OP_TANH, oe_supports = supports_math_f32, oe_pack = pack_tanh\<rparr>,
      \<lparr>oe_name = ''exp_f32'', oe_op = GGML_OP_UNARY, oe_sub = GGML_UNARY_OP_EXP, oe_supports = supports_math_f32, oe_pack = pack_exp\<rparr>,
      \<lparr>oe_name = ''floor_f32'', oe_op = GGML_OP_UNARY, oe_sub = GGML_UNARY_OP_FLOOR, oe_supports = supports_math_f32, oe_pack = pack_floor\<rparr>,
      \<lparr>oe_name = ''sqr_f32'', oe_op = GGML_OP_SQR, oe_sub = - 1, oe_supports = supports_math_f32, oe_pack = pack_sqr\<rparr>,
      \<lparr>oe_name = ''log_f32'', oe_op = GGML_OP_LOG, oe_sub = - 1, oe_supports = supports_math_f32, oe_pack = pack_log\<rparr>,
      \<lparr>oe_name = ''sin_f32'', oe_op = GGML_OP_SIN, oe_sub = - 1, oe_supports = supports_math_f32, oe_pack = pack_sin\<rparr>,
      \<lparr>oe_name = ''cos_f32'', oe_op = GGML_OP_COS, oe_sub = - 1, oe_supports = supports_math_f32, oe_pack = pack_cos\<rparr>]"

definition ops_unary_seethrough :: "op_entry list" where
  "ops_unary_seethrough =
     [\<lparr>oe_name = ''sqrt_f32'', oe_op = GGML_OP_SQRT, oe_sub = - 1, oe_supports = supports_elementwise_f32, oe_pack = pack_sqrt\<rparr>,
      \<lparr>oe_name = ''gelu_quick_f32'', oe_op = GGML_OP_UNARY, oe_sub = GGML_UNARY_OP_GELU_QUICK, oe_supports = supports_elementwise_f32, oe_pack = pack_gelu_quick\<rparr>]"

definition ops_binary :: "op_entry list" where
  "ops_binary =
     [\<lparr>oe_name = ''add_f32'', oe_op = GGML_OP_ADD, oe_sub = - 1, oe_supports = supports_binary_f32, oe_pack = pack_binary_f32\<rparr>,
      \<lparr>oe_name = ''sub_f32'', oe_op = GGML_OP_SUB, oe_sub = - 1, oe_supports = supports_binary_f32, oe_pack = pack_binary_f32\<rparr>,
      \<lparr>oe_name = ''mul_f32'', oe_op = GGML_OP_MUL, oe_sub = - 1, oe_supports = supports_binary_f32, oe_pack = pack_binary_f32\<rparr>,
      \<lparr>oe_name = ''div_f32'', oe_op = GGML_OP_DIV, oe_sub = - 1, oe_supports = supports_binary_f32, oe_pack = pack_binary_f32\<rparr>]"

definition ops_arange :: "op_entry list" where
  "ops_arange =
     [\<lparr>oe_name = ''arange_f32'', oe_op = GGML_OP_ARANGE, oe_sub = - 1, oe_supports = supports_arange_f32, oe_pack = pack_arange_f32\<rparr>]"

definition ops_argsort :: "op_entry list" where
  "ops_argsort =
     [\<lparr>oe_name = ''argsort_f32'', oe_op = GGML_OP_ARGSORT, oe_sub = - 1, oe_supports = supports_argsort_f32, oe_pack = pack_argsort_f32\<rparr>]"

definition ops_pad :: "op_entry list" where
  "ops_pad =
     [\<lparr>oe_name = ''pad_f32'', oe_op = GGML_OP_PAD, oe_sub = - 1, oe_supports = supports_pad_f32, oe_pack = pack_pad_f32\<rparr>]"

definition ops_pool :: "op_entry list" where
  "ops_pool =
     [\<lparr>oe_name = ''pool_1d_f32'', oe_op = GGML_OP_POOL_1D, oe_sub = - 1, oe_supports = supports_pool_1d_f32, oe_pack = pack_pool_1d_f32\<rparr>]"

definition ops_upscale :: "op_entry list" where
  "ops_upscale =
     [\<lparr>oe_name = ''upscale_f32'', oe_op = GGML_OP_UPSCALE, oe_sub = - 1, oe_supports = supports_upscale_f32, oe_pack = pack_upscale_f32\<rparr>]"

definition ops_timestep_embedding :: "op_entry list" where
  "ops_timestep_embedding =
     [\<lparr>oe_name = ''timestep_embedding_f32'', oe_op = GGML_OP_TIMESTEP_EMBEDDING, oe_sub = - 1, oe_supports = supports_timestep_embedding_f32, oe_pack = pack_timestep_embedding_f32\<rparr>]"

definition ops_get_rows :: "op_entry list" where
  "ops_get_rows =
     [\<lparr>oe_name = ''get_rows'', oe_op = GGML_OP_GET_ROWS, oe_sub = - 1, oe_supports = supports_get_rows, oe_pack = pack_get_rows\<rparr>]"

definition ops_conv2d :: "op_entry list" where
  "ops_conv2d =
     [\<lparr>oe_name = ''conv2d'', oe_op = GGML_OP_CONV_2D, oe_sub = - 1, oe_supports = supports_conv2d, oe_pack = pack_conv2d\<rparr>]"

definition ops_conv2d_dw :: "op_entry list" where
  "ops_conv2d_dw =
     [\<lparr>oe_name = ''conv_2d_dw_f32'', oe_op = GGML_OP_CONV_2D_DW, oe_sub = - 1, oe_supports = supports_conv_2d_dw_f32, oe_pack = pack_conv_2d_dw_f32\<rparr>]"

definition ops_conv3d :: "op_entry list" where
  "ops_conv3d =
     [\<lparr>oe_name = ''conv3d'', oe_op = GGML_OP_CONV_3D, oe_sub = - 1, oe_supports = supports_conv3d, oe_pack = pack_conv3d\<rparr>]"

definition ops_conv_transpose2d :: "op_entry list" where
  "ops_conv_transpose2d =
     [\<lparr>oe_name = ''conv_transpose2d'', oe_op = GGML_OP_CONV_TRANSPOSE_2D, oe_sub = - 1, oe_supports = supports_conv_transpose2d, oe_pack = pack_conv_transpose2d\<rparr>]"

definition ops_im2col :: "op_entry list" where
  "ops_im2col =
     [\<lparr>oe_name = ''im2col'', oe_op = GGML_OP_IM2COL, oe_sub = - 1, oe_supports = supports_im2col, oe_pack = pack_im2col\<rparr>]"

definition ops_cpy :: "op_entry list" where
  "ops_cpy =
     [\<lparr>oe_name = ''cpy'', oe_op = GGML_OP_CPY, oe_sub = - 1, oe_supports = supports_cpy, oe_pack = pack_cpy\<rparr>,
      \<lparr>oe_name = ''dup'', oe_op = GGML_OP_DUP, oe_sub = - 1, oe_supports = supports_cpy, oe_pack = pack_cpy\<rparr>,
      \<lparr>oe_name = ''cont'', oe_op = GGML_OP_CONT, oe_sub = - 1, oe_supports = supports_cpy, oe_pack = pack_cpy\<rparr>]"

definition ops_concat :: "op_entry list" where
  "ops_concat =
     [\<lparr>oe_name = ''concat'', oe_op = GGML_OP_CONCAT, oe_sub = - 1, oe_supports = supports_concat, oe_pack = pack_concat\<rparr>]"

definition ops_repeat :: "op_entry list" where
  "ops_repeat =
     [\<lparr>oe_name = ''repeat'', oe_op = GGML_OP_REPEAT, oe_sub = - 1, oe_supports = supports_repeat, oe_pack = pack_repeat\<rparr>]"

definition ops_norm :: "op_entry list" where
  "ops_norm =
     [\<lparr>oe_name = ''norm_f32'', oe_op = GGML_OP_NORM, oe_sub = - 1, oe_supports = supports_norm, oe_pack = pack_norm\<rparr>,
      \<lparr>oe_name = ''rms_norm_f32'', oe_op = GGML_OP_RMS_NORM, oe_sub = - 1, oe_supports = supports_norm, oe_pack = pack_rms_norm\<rparr>,
      \<lparr>oe_name = ''mean_f32'', oe_op = GGML_OP_MEAN, oe_sub = - 1, oe_supports = supports_mean, oe_pack = pack_mean\<rparr>]"

definition ops_sum :: "op_entry list" where
  "ops_sum =
     [\<lparr>oe_name = ''sum_rows_f32'', oe_op = GGML_OP_SUM_ROWS, oe_sub = - 1, oe_supports = supports_sum_rows, oe_pack = pack_sum_rows\<rparr>,
      \<lparr>oe_name = ''sum_f32'', oe_op = GGML_OP_SUM, oe_sub = - 1, oe_supports = supports_sum, oe_pack = pack_sum\<rparr>]"

definition ops_soft_max :: "op_entry list" where
  "ops_soft_max =
     [\<lparr>oe_name = ''soft_max_f32'', oe_op = GGML_OP_SOFT_MAX, oe_sub = - 1, oe_supports = supports_soft_max, oe_pack = pack_soft_max\<rparr>]"

definition ops_group_norm :: "op_entry list" where
  "ops_group_norm =
     [\<lparr>oe_name = ''group_norm_f32'', oe_op = GGML_OP_GROUP_NORM, oe_sub = - 1, oe_supports = supports_group_norm_f32, oe_pack = pack_group_norm_f32\<rparr>]"

definition ops_glu :: "op_entry list" where
  "ops_glu =
     [\<lparr>oe_name = ''geglu_erf_f32'', oe_op = GGML_OP_GLU, oe_sub = GGML_GLU_OP_GEGLU_ERF, oe_supports = supports_geglu_erf_f32, oe_pack = pack_geglu_erf_f32\<rparr>]"

definition ops_set :: "op_entry list" where
  "ops_set =
     [\<lparr>oe_name = ''set_f32'', oe_op = GGML_OP_SET, oe_sub = - 1, oe_supports = supports_set_f32, oe_pack = pack_set_f32\<rparr>]"

definition ops_rope :: "op_entry list" where
  "ops_rope =
     [\<lparr>oe_name = ''rope_neox_f32'', oe_op = GGML_OP_ROPE, oe_sub = - 1, oe_supports = supports_rope_neox_f32, oe_pack = pack_rope_neox_f32\<rparr>]"

definition ops_mul_mat :: "op_entry list" where
  "ops_mul_mat =
     [\<lparr>oe_name = ''mul_mat'', oe_op = GGML_OP_MUL_MAT, oe_sub = - 1, oe_supports = supports_mul_mat, oe_pack = pack_mul_mat\<rparr>]"

definition ops_flash_attn_ext :: "op_entry list" where
  "ops_flash_attn_ext =
     [\<lparr>oe_name = ''flash_attn_ext'', oe_op = GGML_OP_FLASH_ATTN_EXT, oe_sub = - 1, oe_supports = supports_fa, oe_pack = pack_fa\<rparr>]"

definition rd_ops :: "op_entry list" where
  "rd_ops =
     ops_unary @ ops_unary_math @ ops_unary_seethrough @ ops_binary @ ops_arange @
     ops_argsort @ ops_pad @ ops_pool @ ops_upscale @ ops_timestep_embedding @
     ops_get_rows @ ops_conv2d @ ops_conv2d_dw @ ops_conv3d @ ops_conv_transpose2d @
     ops_im2col @ ops_cpy @ ops_concat @ ops_repeat @ ops_norm @
     ops_sum @ ops_soft_max @ ops_group_norm @ ops_glu @ ops_set @
     ops_rope @ ops_mul_mat @ ops_flash_attn_ext"

lemmas ops_defs = rd_ops_def ops_unary_def ops_unary_math_def ops_unary_seethrough_def ops_binary_def ops_arange_def ops_argsort_def
  ops_pad_def ops_pool_def ops_upscale_def ops_timestep_embedding_def ops_get_rows_def ops_conv2d_def
  ops_conv2d_dw_def ops_conv3d_def ops_conv_transpose2d_def ops_im2col_def ops_cpy_def ops_concat_def
  ops_repeat_def ops_norm_def ops_sum_def ops_soft_max_def ops_group_norm_def ops_glu_def ops_set_def
  ops_rope_def ops_mul_mat_def ops_flash_attn_ext_def

lemmas packer_facts = abs.packs arange.packs argsort.packs binary.packs clamp.packs concat.packs conv2d.packs conv3d.packs
  conv_2d_dw.packs conv_transpose2d.packs cos.packs cpy.packs diag_mask_inf.packs exp.packs fa.packs
  floor.packs geglu_erf.packs gelu.packs gelu_erf.packs gelu_quick.packs get_rows.packs group_norm.packs
  im2col.packs leaky_relu.packs log.packs mean.packs mul_mat.packs neg.packs norm.packs pad.packs
  pool_1d.packs relu.packs repeat.packs rms_norm.packs rope.packs scale.packs set_f32.packs sgn.packs
  sigmoid.packs silu.packs sin.packs soft_max.packs sqr.packs sqrt.packs step.packs sum.packs sum_rows.packs
  tanh.packs timestep_embedding.packs upscale.packs

section \<open>What is found is packed\<close>

text \<open>The row ops look at no grid in \<open>supports\<close>; their rows must fit one.\<close>

definition within_limits :: "penv \<Rightarrow> tensor \<Rightarrow> bool" where
  "within_limits E op \<longleftrightarrow>
     t_op op \<in> {GGML_OP_NORM, GGML_OP_RMS_NORM, GGML_OP_MEAN, GGML_OP_SUM_ROWS, GGML_OP_SOFT_MAX} \<longrightarrow> few_rows E op"

definition entry_packs :: "op_entry \<Rightarrow> bool" where
  "entry_packs e \<longleftrightarrow>
     (\<forall>E p. oe_op e = t_op (pk_node p) \<and> oe_supports e E (pk_node p) \<and> within_limits E (pk_node p) \<and>
        exact_all (pk_node p) \<and> filled p \<longrightarrow> fst (oe_pack e E p) \<and> packed p (snd (oe_pack e E p)))"

lemma entry_packs_all: "list_all entry_packs rd_ops"
  unfolding ops_defs
  by (simp add: entry_packs_def packer_facts within_limits_def)

lemma find_op_entry:
  assumes "find_op table E op = Some e"
  shows "e \<in> set table \<and> oe_op e = t_op op \<and> oe_supports e E op \<and> (oe_sub e = - 1 \<or> oe_sub e = sub_op op)"
  using assms unfolding find_op_def by (auto simp: find_Some_iff)

text \<open>
  Whatever op the table finds for a node, its packer packs it: it names a kernel of the table
  and a grid Vulkan can launch (for the row ops, when the rows fit a grid).
\<close>

theorem found_op_packs:
  assumes "set table \<subseteq> set rd_ops" "find_op table E (pk_node p) = Some e"
    and "within_limits E (pk_node p)" "exact_all (pk_node p)" "filled p"
  shows "fst (oe_pack e E p) \<and> packed p (snd (oe_pack e E p))"
proof -
  have "entry_packs e" using entry_packs_all find_op_entry [OF assms(2)] assms(1) by (auto simp: list_all_iff)
  then show ?thesis using find_op_entry [OF assms(2)] assms(3-5) unfolding entry_packs_def by blast
qed

lemma found_op_packs_witness: "\<forall>E. fst (pack_cpy E (demo_pack demo_cpy))"
proof
  fix E
  obtain w where "fill_block W_DST demo_cpy 0 (\<lambda>i. 0) = Some w" using demo_cpy_facts(3) by blast
  then have f: "filled (demo_pack demo_cpy)" by (rule demo_pack_filled)
  have n: "pk_node (demo_pack demo_cpy) = demo_cpy" by (simp add: demo_pack_def)
  have op: "t_op demo_cpy = GGML_OP_DUP" by (simp add: demo_tensor_def)
  have "find_op rd_ops E demo_cpy = Some \<lparr>oe_name = ''dup'', oe_op = GGML_OP_DUP, oe_sub = - 1, oe_supports = supports_cpy, oe_pack = pack_cpy\<rparr>"
    unfolding find_op_def op ops_defs by (simp add: demo_cpy_facts(1))
  from found_op_packs [of rd_ops E "demo_pack demo_cpy", unfolded n, OF subset_refl this] show "fst (pack_cpy E (demo_pack demo_cpy))"
    using f demo_cpy_facts(2) by (simp add: within_limits_def op)
qed

section \<open>The order of registration\<close>

lemma find_unique:
  assumes "\<And>x y. x \<in> set xs \<Longrightarrow> y \<in> set xs \<Longrightarrow> P x \<Longrightarrow> P y \<Longrightarrow> x = y" "set ys = set xs"
  shows "List.find P ys = List.find P xs"
proof (cases "List.find P ys")
  case None
  then have "List.find P xs = None" using assms(2) by (simp add: find_None_iff)
  with None show ?thesis by simp
next
  case (Some y)
  then have y: "y \<in> set xs" "P y" using assms(2) by (auto simp: find_Some_iff)
  then obtain x where x: "List.find P xs = Some x" by (metis find_None_iff option.exhaust)
  then have "x \<in> set xs" "P x" by (auto simp: find_Some_iff)
  then show ?thesis using Some x assms(1) y by auto
qed

lemma op_keys_distinct: "distinct (map (\<lambda>e. (oe_op e, oe_sub e)) rd_ops)"
  unfolding ops_defs by simp

lemma op_subs: "list_all (\<lambda>e. (oe_sub e = - 1) = (oe_op e \<noteq> GGML_OP_UNARY \<and> oe_op e \<noteq> GGML_OP_GLU)) rd_ops"
  unfolding ops_defs by simp

text \<open>
  C34: at most one entry of the table matches a node, so which op is found for it does not depend
  on the order in which the files register.
\<close>

theorem find_op_any_order:
  assumes "set table = set rd_ops"
  shows "find_op table E op = find_op rd_ops E op"
  unfolding find_op_def
proof (rule find_unique [OF _ assms])
  fix e f
  assume e: "e \<in> set rd_ops" "oe_op e = t_op op \<and> (oe_sub e = - 1 \<or> oe_sub e = sub_op op) \<and> oe_supports e E op"
    and f: "f \<in> set rd_ops" "oe_op f = t_op op \<and> (oe_sub f = - 1 \<or> oe_sub f = sub_op op) \<and> oe_supports f E op"
  have "(oe_sub e = - 1) = (oe_sub f = - 1)" using op_subs e f by (auto simp: list_all_iff)
  then have "oe_sub e = oe_sub f" using e f by auto
  then have key: "(oe_op e, oe_sub e) = (oe_op f, oe_sub f)" using e(2) f(2) by simp
  have "inj_on (\<lambda>e. (oe_op e, oe_sub e)) (set rd_ops)" using op_keys_distinct by (simp add: distinct_map)
  from inj_onD [OF this key e(1) f(1)] show "e = f" .
qed

lemma find_op_any_order_witness: "\<forall>E op. find_op (rev rd_ops) E op = find_op rd_ops E op"
  by (intro allI find_op_any_order) simp

end
