(* ===== verification/RdBackend.thy ===== *)
theory RdBackend
  imports RdGraph RdOps
begin

text \<open>
  \<open>guest/ggml-rd/ggml-rd.cpp\<close>: the buffers, the device and the backend that ggml sees. ggml's
  interface structs hold only function pointers and are left out. A ggml buffer is named by a
  number; on the CPU fallback its bytes are guest memory.
\<close>

unbundle bit_operations_syntax

section \<open>Buffers\<close>

text \<open>\<open>memcpy\<close> and \<open>memset\<close> on guest memory (outside the block they are undefined).\<close>

definition mem_read :: "nat \<Rightarrow> nat \<Rightarrow> u8 list \<Rightarrow> u8 list" where
  "mem_read off n m = take n (drop off m)"

definition mem_write :: "nat \<Rightarrow> u8 list \<Rightarrow> u8 list \<Rightarrow> u8 list" where
  "mem_write off data m = take off m @ data @ drop (off + length data) m"

definition put_mem :: "nat \<Rightarrow> u8 list \<Rightarrow> bstate \<Rightarrow> bstate" where
  "put_mem n m s = s\<lparr>b_bufs := (b_bufs s)(n := map_option (\<lambda>b. b\<lparr>bf_mem := Some m\<rparr>) (b_bufs s n))\<rparr>"

text \<open>\<open>buf(buffer)\<close>: the context of a ggml buffer of this type.\<close>

definition buf :: "bstate \<Rightarrow> nat \<Rightarrow> rd_buffer" where
  "buf s n = the (b_bufs s n)"

definition buffer_free :: "'w benv \<Rightarrow> nat \<Rightarrow> ('w, unit) brun" where
  "buffer_free E n =
     bindR askB (\<lambda>s. let b = buf s n in
     thenR (if device_ok s \<and> bf_rid b \<noteq> 0
            then thenR (ensure_idle E) (thenR (forget_sets_of E (bf_rid b)) (dev (free_rid (be_host E) (bf_rid b)))) else ret ())
     (thenR (upd_st (\<lambda>t. t\<lparr>st_buffers_live := st_buffers_live t - 1, st_bytes_live := st_bytes_live t - int (unat (bf_size b))\<rparr>))
     (updB (\<lambda>s. s\<lparr>b_bufs := (b_bufs s)(n := None)\<rparr>))))"

definition buffer_set_tensor :: "'w benv \<Rightarrow> nat \<Rightarrow> tensor \<Rightarrow> u8 list \<Rightarrow> u64 \<Rightarrow> ('w, unit) brun" where
  "buffer_set_tensor E n tensor data offset =
     bindR askB (\<lambda>s. let b = buf s n; size1 = word_of_nat (length data) in
     case bf_mem b of
       Some m \<Rightarrow>
         thenR (updB (put_mem n (mem_write (unat (byte_offset tensor b + offset)) data m)))
         (upd_st (\<lambda>t. t\<lparr>st_set_bytes := st_set_bytes t + int (length data)\<rparr>))
     | None \<Rightarrow>
         thenR (ensure_idle E)
         (bindR (dev (buffer_update (be_host E) (bf_rid b) (byte_offset tensor b + offset) size1 data)) (\<lambda>ok.
          thenR (if ok then ret ()
                 else bindR askB (\<lambda>s. set_error (''set_tensor '' @ t_name tensor @ '': '' @ dv_err (b_dev s))))
          (upd_st (\<lambda>t. t\<lparr>st_set_bytes := st_set_bytes t + int (length data)\<rparr>)))))"

definition buffer_get_tensor :: "'w benv \<Rightarrow> nat \<Rightarrow> tensor \<Rightarrow> u64 \<Rightarrow> u64 \<Rightarrow> ('w, u8 list) brun" where
  "buffer_get_tensor E n tensor offset size1 =
     bindR askB (\<lambda>s. let b = buf s n in
     case bf_mem b of
       Some m \<Rightarrow>
         thenR (upd_st (\<lambda>t. t\<lparr>st_get_bytes := st_get_bytes t + int (unat size1)\<rparr>))
         (ret (mem_read (unat (byte_offset tensor b + offset)) (unat size1) m))
     | None \<Rightarrow>
         thenR (ensure_idle E)
         (bindR (dev (buffer_get_into (be_host E) (bf_rid b) (byte_offset tensor b + offset) size1)) (\<lambda>got.
          thenR (if got \<noteq> None then ret ()
                 else bindR askB (\<lambda>s. set_error (''get_tensor '' @ t_name tensor @ '': '' @ dv_err (b_dev s))))
          (thenR (upd_st (\<lambda>t. t\<lparr>st_get_bytes := st_get_bytes t + int (unat size1)\<rparr>))
          (ret (case got of Some data \<Rightarrow> data | None \<Rightarrow> replicate (unat size1) 0))))))"

text \<open>The loop of \<open>fill_bytes\<close> from byte \<open>at\<close> on; every turn takes at least a byte.\<close>

primrec fill_from :: "nat \<Rightarrow> 'w benv \<Rightarrow> rd_buffer \<Rightarrow> u64 \<Rightarrow> u64 \<Rightarrow> u8 \<Rightarrow> u64 \<Rightarrow> ('w, unit) brun" where
  "fill_from 0 E b offset size1 v at = (if \<not> at < size1 then ret () else never)"
| "fill_from (Suc fuel) E b offset size1 v at =
     (if \<not> at < size1 then ret ()
      else let n = min (size1 - at) kMaxTransferBytes in
        bindR (dev (buffer_update (be_host E) (bf_rid b) (offset + at) n (replicate (unat n) v))) (\<lambda>ok.
        if \<not> ok then bindR askB (\<lambda>s. set_error (''fill: '' @ dv_err (b_dev s)))
        else fill_from fuel E b offset size1 v (at + n)))"

definition fill_bytes :: "'w benv \<Rightarrow> rd_buffer \<Rightarrow> u64 \<Rightarrow> u64 \<Rightarrow> u8 \<Rightarrow> ('w, unit) brun" where
  "fill_bytes E b offset size1 v = fill_from (unat size1) E b offset size1 v 0"

definition count_clear :: "('w, unit) brun" where
  "count_clear = upd_st (\<lambda>t. t\<lparr>st_clears := st_clears t + 1\<rparr>)"

definition buffer_memset_tensor :: "'w benv \<Rightarrow> nat \<Rightarrow> tensor \<Rightarrow> u8 \<Rightarrow> u64 \<Rightarrow> u64 \<Rightarrow> ('w, unit) brun" where
  "buffer_memset_tensor E n tensor v offset size1 =
     bindR askB (\<lambda>s. let b = buf s n; off = byte_offset tensor b + offset in
     case bf_mem b of
       Some m \<Rightarrow> thenR (updB (put_mem n (mem_write (unat off) (replicate (unat size1) v) m))) count_clear
     | None \<Rightarrow>
         thenR (ensure_idle E)
         (if v = 0 \<and> off mod 4 = 0 \<and> size1 mod 4 = 0
          then thenR (dev (RdDevice.buffer_clear (be_host E) (bf_rid b) off size1)) count_clear
          else fill_bytes E b off size1 v))"

definition buffer_cpy_tensor :: "'w benv \<Rightarrow> nat \<Rightarrow> tensor \<Rightarrow> tensor \<Rightarrow> ('w, bool) brun" where
  "buffer_cpy_tensor E n src dst =
     bindR askB (\<lambda>s.
     case buffer_of s src of
       None \<Rightarrow> ret False
     | Some sb \<Rightarrow>
         let db = buf s n in
         thenR (upd_st (\<lambda>t. t\<lparr>st_copies := st_copies t + 1\<rparr>))
         (case bf_mem db of
            Some dm \<Rightarrow>
              (case bf_mem sb of
                 None \<Rightarrow> ret False
               | Some sm \<Rightarrow>
                   thenR (updB (put_mem n (mem_write (unat (byte_offset dst db))
                            (mem_read (unat (byte_offset src sb)) (unat (ggml_nbytes src)) sm) dm)))
                   (ret True))
          | None \<Rightarrow>
              thenR (ensure_idle E)
              (dev (buffer_copy (be_host E) (bf_rid sb) (bf_rid db) (ggml_nbytes src) (byte_offset src sb) (byte_offset dst db)))))"

definition clear_buffer :: "'w benv \<Rightarrow> nat \<Rightarrow> u8 \<Rightarrow> ('w, unit) brun" where
  "clear_buffer E n v =
     bindR askB (\<lambda>s. let b = buf s n in
     case bf_mem b of
       Some m \<Rightarrow> thenR (updB (put_mem n (replicate (unat (bf_size b)) v))) count_clear
     | None \<Rightarrow>
         thenR (ensure_idle E)
         (if v = 0 then thenR (dev (RdDevice.buffer_clear (be_host E) (bf_rid b) 0 (bf_size b))) count_clear
          else fill_bytes E b 0 (bf_size b) v))"

section \<open>The buffer type\<close>

definition max_buffer_bytes :: "'w benv \<Rightarrow> u64" where
  "max_buffer_bytes E =
     (let mb = (case pe_getenv (be_penv E) ''GGML_RD_MAX_BUFFER_MB'' of Some e \<Rightarrow> atoi e | None \<Rightarrow> 0) in
      if 0 < mb then min (push_bit 20 (word_of_int mb)) 4294967040 else push_bit 20 2048)"

text \<open>
  The bytes of a new buffer: guest memory on the CPU fallback (\<open>room\<close>: whether \<open>calloc\<close> has
  so many bytes), an RD buffer otherwise, or nothing; then its context, under the number \<open>n\<close>,
  which is not in use.
\<close>

definition alloc_bytes :: "'w benv \<Rightarrow> (u64 \<Rightarrow> bool) \<Rightarrow> u64 \<Rightarrow> ('w, (int \<times> u8 list option) option) brun" where
  "alloc_bytes E room bytes =
     bindR askB (\<lambda>s.
     if cpu_mode E s
     then if room bytes then ret (Some (0, Some (replicate (unat bytes) 0)))
          else thenR (set_error (''alloc_buffer: '' @ to_string (uint bytes) @ '' bytes: out of guest memory'')) (ret None)
     else thenR (ensure_idle E)
       (bindR (dev (storage_buffer_empty (be_host E) bytes True)) (\<lambda>rid.
        if rid = 0
        then bindR askB (\<lambda>s. thenR (set_error (''alloc_buffer: '' @ dv_err (b_dev s))) (ret None))
        else ret (Some (rid, None)))))"

definition new_buffer :: "nat \<Rightarrow> u64 \<Rightarrow> int \<Rightarrow> u8 list option \<Rightarrow> ('w, bool) brun" where
  "new_buffer n bytes rid mem =
     bindR askB (\<lambda>s.
     let i = cx_next_buffer_index (b_ctx s);
         b = \<lparr>bf_rid = rid, bf_mem = mem, bf_size = bytes, bf_base = 0x1000 + push_bit 40 (ucast i), bf_index = i\<rparr>
     in thenR (upd_ctx (\<lambda>c. c\<lparr>cx_next_buffer_index := cx_next_buffer_index c + 1\<rparr>))
        (thenR (upd_st (\<lambda>t. t\<lparr>st_buffers_live := st_buffers_live t + 1, st_bytes_live := st_bytes_live t + int (unat bytes)\<rparr>))
        (thenR (updB (\<lambda>s. s\<lparr>b_bufs := (b_bufs s)(n := Some b)\<rparr>)) (ret True))))"

definition buft_alloc_buffer :: "'w benv \<Rightarrow> (u64 \<Rightarrow> bool) \<Rightarrow> nat \<Rightarrow> u64 \<Rightarrow> ('w, bool) brun" where
  "buft_alloc_buffer E room n size1 =
     bindR askB (\<lambda>s.
     if \<not> usable E s then thenR (set_error ''alloc_buffer: no RenderingDevice'') (ret False)
     else let bytes = (max size1 1 + 255) AND NOT 255 in
       if max_buffer_bytes E < bytes
       then thenR (set_error (''alloc_buffer: '' @ to_string (uint bytes) @ '' bytes is over the maximum'')) (ret False)
       else bindR (alloc_bytes E room bytes) (\<lambda>got.
            case got of None \<Rightarrow> ret False | Some x \<Rightarrow> new_buffer n bytes (fst x) (snd x)))"

definition buft_get_alloc_size :: "tensor \<Rightarrow> u64" where
  "buft_get_alloc_size t = (ggml_nbytes t + 15) AND NOT 15"

section \<open>The device and the backend\<close>

definition dev_get_memory :: "bstate \<Rightarrow> u64 \<times> u64" where
  "dev_get_memory s =
     (let total = cx_total_bytes (b_ctx s);
          used = word_of_int (max (st_bytes_live (cx_st (b_ctx s))) 0)
      in (if used < total then total - used else 0, total))"

definition dev_supports_op :: "'w benv \<Rightarrow> bstate \<Rightarrow> tensor \<Rightarrow> bool" where
  "dev_supports_op E s op =
     (case t_op op of
        GGML_OP_NONE \<Rightarrow> True
      | GGML_OP_RESHAPE \<Rightarrow> True
      | GGML_OP_VIEW \<Rightarrow> True
      | GGML_OP_PERMUTE \<Rightarrow> True
      | GGML_OP_TRANSPOSE \<Rightarrow> True
      | _ \<Rightarrow> find_op (be_ops E) (penv_now E s) op \<noteq> None)"

definition backend_synchronize :: "'w benv \<Rightarrow> ('w, unit) brun" where
  "backend_synchronize E = bindR askB (\<lambda>s. if device_ok s then ensure_idle E else ret ())"

definition reg_get_device_count :: "'w benv \<Rightarrow> bstate \<Rightarrow> nat" where
  "reg_get_device_count E s = (if usable E s then 1 else 0)"

definition backend_rd_attach :: "bool \<Rightarrow> u64 \<Rightarrow> ('w, unit) brun" where
  "backend_rd_attach has_dev total_bytes =
     upd_ctx (\<lambda>c. c\<lparr>cx_dev := has_dev, cx_total_bytes := total_bytes, cx_pending := False\<rparr>)"

definition backend_rd_buffer_rid :: "bstate \<Rightarrow> nat \<Rightarrow> int" where
  "backend_rd_buffer_rid s n = (case b_bufs s n of Some b \<Rightarrow> bf_rid b | None \<Rightarrow> 0)"

definition backend_rd_tensor_offset :: "bstate \<Rightarrow> tensor \<Rightarrow> u64" where
  "backend_rd_tensor_offset s t = (case buffer_of s t of Some b \<Rightarrow> byte_offset t b | None \<Rightarrow> 0)"

text \<open>
  The hooks of \<open>ggml_backend_rd_tensor_upload\<close>: the host copies a range of a file into an RD
  buffer (\<open>upload\<close>) or into guest memory (\<open>read\<close>); either may be null, and may fail.
\<close>

type_synonym 'w upload_hook = "(string \<Rightarrow> u64 \<Rightarrow> u64 \<Rightarrow> int \<Rightarrow> u64 \<Rightarrow> 'w \<Rightarrow> bool option \<times> 'w) option"
type_synonym 'w read_hook = "(string \<Rightarrow> u64 \<Rightarrow> u64 \<Rightarrow> 'w \<Rightarrow> u8 list option option \<times> 'w) option"

definition in_world :: "('w \<Rightarrow> 'a option \<times> 'w) \<Rightarrow> ('w, 'a) brun" where
  "in_world f s = (case f (snd s) of (r, w) \<Rightarrow> (r, fst s, w))"

definition refuse :: "string \<Rightarrow> ('w, bool) brun" where
  "refuse e = thenR (set_error e) (ret False)"

definition backend_rd_tensor_upload :: "'w benv \<Rightarrow> 'w upload_hook \<Rightarrow> 'w read_hook \<Rightarrow>
    tensor \<Rightarrow> u64 \<Rightarrow> string \<Rightarrow> u64 \<Rightarrow> u64 \<Rightarrow> ('w, bool) brun" where
  "backend_rd_tensor_upload E up rd tensor offset path file_offset bytes =
     bindR askB (\<lambda>s.
     case (if usable E s then buffer_no s tensor else None) of
       None \<Rightarrow> refuse (''upload '' @ t_name tensor @ '': not in an RD buffer'')
     | Some n \<Rightarrow>
         let b = buf s n in
         if ggml_nbytes tensor < offset + bytes then refuse (''upload '' @ t_name tensor @ '': past the end of the tensor'')
         else case bf_mem b of
           Some m \<Rightarrow>
             (case rd of
                None \<Rightarrow> refuse ''upload: no read hook (the CPU fallback reads the file into guest memory)''
              | Some f \<Rightarrow>
                  bindR (in_world (f path file_offset bytes)) (\<lambda>got.
                  case got of
                    None \<Rightarrow> refuse (''upload '' @ path @ '': the host did not serve it'')
                  | Some data \<Rightarrow>
                      thenR (updB (put_mem n (mem_write (unat (byte_offset tensor b + offset)) data m)))
                      (thenR (upd_st (\<lambda>t. t\<lparr>st_set_bytes := st_set_bytes t + int (unat bytes)\<rparr>)) (ret True))))
         | None \<Rightarrow>
             (case up of
                None \<Rightarrow> refuse ''upload: no upload hook''
              | Some f \<Rightarrow>
                  thenR (ensure_idle E)
                  (bindR (in_world (f path file_offset bytes (bf_rid b) (byte_offset tensor b + offset))) (\<lambda>ok.
                   if \<not> ok then refuse (''upload '' @ path @ '': the host did not serve it'')
                   else thenR (upd_st (\<lambda>t. t\<lparr>st_set_bytes := st_set_bytes t + int (unat bytes)\<rparr>)) (ret True)))))"

definition backend_rd_last_graph :: "bstate \<Rightarrow> int \<times> int" where
  "backend_rd_last_graph s = (st_last_dispatches (cx_st (b_ctx s)), st_last_barriers (cx_st (b_ctx s)))"

definition backend_rd_set_timestamps :: "bool \<Rightarrow> ('w, unit) brun" where
  "backend_rd_set_timestamps on = upd_ctx (\<lambda>c. c\<lparr>cx_timestamps := on\<rparr>)"

definition backend_rd_kernel_name :: "int \<Rightarrow> string" where
  "backend_rd_kernel_name k = (if 0 \<le> k \<and> k < int kKernelCount then fst (kKernels ! nat k) else ''?'')"

definition backend_rd_release :: "'w benv \<Rightarrow> ('w, unit) brun" where
  "backend_rd_release E = bindR askB (\<lambda>s. thenR (if device_ok s then ensure_idle E else ret ()) (release_kernels E))"

section \<open>Supported ops are packed\<close>

text \<open>
  C9: a node the device says it supports, and whose operands are in its buffers and fit the
  params words, is never refused by \<open>graph_compute\<close>: it becomes a dispatch of a known kernel
  with a grid Vulkan can launch (for the row ops, when the rows fit a grid).
\<close>

theorem supported_node_packs:
  assumes "dev_supports_op E s node" "\<not> is_layout_only (t_op node)" "set (be_ops E) \<subseteq> set rd_ops"
    and "within_limits (penv_now E s) node" "exact_all node" "fill_standard (rd_offset s) node = Inr w0"
  shows "\<exists>dp w. pack_node E s node = Inr (dp, w) \<and> dp_node dp = node \<and> 0 \<le> dp_kernel dp \<and> dp_kernel dp < int kKernelCount \<and>
    w W_KERNEL = word_of_int (dp_kernel dp) \<and> (\<forall>i<3. 1 \<le> unat (dp_groups dp i) \<and> unat (dp_groups dp i) \<le> 65535)"
proof -
  obtain e where e: "find_op (be_ops E) (penv_now E s) node = Some e"
    using assms(1,2) by (auto simp: dev_supports_op_def is_layout_only_def split: ggml_op.splits)
  define p where "p = \<lparr>pk_node = node, pk_w = w0, pk_kernel = - 1, pk_groups = (\<lambda>i. 0)\<rparr>"
  obtain off where "block_holds w0 W_DST node off" using fill_standard_shape [OF assms(6)] by blast
  then have "filled p" by (auto simp: filled_def p_def)
  moreover have "entry_packs e" using entry_packs_all find_op_entry [OF e] assms(3) by (auto simp: list_all_iff)
  ultimately have r: "fst (oe_pack e (penv_now E s) p) \<and> packed p (snd (oe_pack e (penv_now E s) p))"
    using find_op_entry [OF e] assms(4,5) unfolding entry_packs_def by (auto simp: p_def)
  obtain q where q: "oe_pack e (penv_now E s) p = (True, q)" "packed p q" using r by (metis prod.collapse)
  have g: "1 \<le> unat (pk_groups q i) \<and> unat (pk_groups q i) \<le> 65535" if "i < 3" for i using q(2) that by (simp add: packed_def)
  have "pk_groups q 0 \<noteq> 0" "pk_groups q 1 \<noteq> 0" "pk_groups q 2 \<noteq> 0" using g [of 0] g [of 1] g [of 2] by auto
  then have "pack_node E s node = Inr ((dispatch_of s node)\<lparr>dp_kernel := pk_kernel q, dp_groups := pk_groups q\<rparr>,
      (pk_w q)(W_KERNEL := word_of_int (pk_kernel q)))"
    using e assms(6) q by (simp add: pack_node_def p_def packed_def)
  then show ?thesis using q(2) g by (simp add: packed_def dispatch_of_def Let_def)
qed

section \<open>Tensor bytes\<close>

text \<open>
  C29: on the CPU fallback, bytes written to a tensor's buffer are read back whole from the same
  place, and every other byte of the buffer is as it was.
\<close>

theorem cpu_set_get:
  assumes "b_bufs s n = Some b" "bf_mem b = Some m" "unat (byte_offset t b + off) + length data \<le> length m"
    and "length data = unat size1"
  shows "\<exists>s2 m2. buffer_set_tensor E n t data off (s, w) = (Some (), s2, w) \<and>
    fst (buffer_get_tensor E n t off size1 (s2, w)) = Some data \<and>
    mem_of s2 n = Some m2 \<and> length m2 = length m \<and>
    (\<forall>i<length m. i < unat (byte_offset t b + off) \<or> unat (byte_offset t b + off) + length data \<le> i \<longrightarrow> m2 ! i = m ! i) \<and>
    (\<forall>k. k \<noteq> n \<longrightarrow> b_bufs s2 k = b_bufs s k)"
proof -
  let ?at = "unat (byte_offset t b + off)"
  let ?m2 = "mem_write ?at data m"
  have o: "byte_offset t (b\<lparr>bf_mem := x\<rparr>) = byte_offset t b" for x by (simp add: byte_offset_def)
  have read: "mem_read ?at (unat size1) ?m2 = data"
    using assms(3,4) by (simp add: mem_read_def mem_write_def min_def)
  define s2 where "s2 = snd (buffer_set_tensor E n t data off (s, w))"
  have run: "buffer_set_tensor E n t data off (s, w) = (Some (), s2)" "snd s2 = w"
    "b_bufs (fst s2) = (b_bufs s)(n := Some (b\<lparr>bf_mem := Some ?m2\<rparr>))"
    using assms(1,2)
    by (simp_all add: s2_def buffer_set_tensor_def buf_def bindR_def askB_def thenR_def updB_def upd_st_def upd_ctx_def put_mem_def)
  have "fst (buffer_get_tensor E n t off size1 s2) = Some data"
    using run(3) read by (simp add: buffer_get_tensor_def buf_def bindR_def askB_def thenR_def upd_st_def upd_ctx_def updB_def ret_def o)
  moreover have "\<forall>i<length m. i < ?at \<or> ?at + length data \<le> i \<longrightarrow> ?m2 ! i = m ! i"
    using assms(3) by (auto simp: mem_write_def nth_append)
  moreover have "length ?m2 = length m" using assms(3) by (simp add: mem_write_def)
  ultimately show ?thesis using run
    by (intro exI [of _ "fst s2"] exI [of _ ?m2]) (auto simp: mem_of_def prod_eq_iff)
qed

lemma idle_at_once: "\<not> cx_pending (b_ctx (fst s)) \<Longrightarrow> ensure_idle E s = (Some (), s)"
  by (simp add: ensure_idle_def bindR_def askB_def ret_def)

text \<open>
  C28: with an idle device, \<open>get_tensor\<close> of a tensor in an RD buffer returns exactly the
  buffer's bytes at the tensor's offset, through the staging buffer, and leaves them there.
\<close>

theorem gpu_get_exact:
  assumes "godot_copies (be_host E) mem" "godot_buffers (be_host E) mem" "staged mem (b_dev s) w" "\<not> dv_submitted (b_dev s)"
    and "\<not> cx_pending (b_ctx s)" "b_bufs s n = Some b" "bf_mem b = None" "bf_rid b \<noteq> dv_staging (b_dev s)"
    and "unat (byte_offset t b + off) + unat size1 \<le> length (mem w (bf_rid b))" "length (mem w (bf_rid b)) mod 4 = 0"
      "length (mem w (bf_rid b)) < 2 ^ 63"
  shows "\<exists>s2 w2. buffer_get_tensor E n t off size1 (s, w) =
      (Some (take (unat size1) (drop (unat (byte_offset t b + off)) (mem w (bf_rid b)))), s2, w2) \<and>
    mem w2 (bf_rid b) = mem w (bf_rid b) \<and> st_get_bytes (cx_st (b_ctx s2)) = st_get_bytes (cx_st (b_ctx s)) + int (unat size1)"
proof -
  obtain d2 w2 where r: "buffer_get_into (be_host E) (bf_rid b) (byte_offset t b + off) size1 (b_dev s, w) =
      (Some (Some (take (unat size1) (drop (unat (byte_offset t b + off)) (mem w (bf_rid b))))), d2, w2)"
    "mem w2 (bf_rid b) = mem w (bf_rid b)"
    using buffer_get_into_exact [OF assms(1-4,8) refl assms(9-11)] by blast
  then show ?thesis
    using assms(5-7) idle_at_once [of "(s, w)"]
    by (simp add: buffer_get_tensor_def buf_def bindR_def askB_def thenR_def dev_def ret_def upd_st_def upd_ctx_def updB_def)
qed

text \<open>A state with one buffer, numbered 1, at the address the demo tensors have.\<close>

definition demo_with_buffer :: "u8 list option \<Rightarrow> bstate" where
  "demo_with_buffer mem = demo_bstate\<lparr>b_bufs := (\<lambda>n. if n = 1
     then Some \<lparr>bf_rid = 3, bf_mem = mem, bf_size = 256, bf_base = 4096, bf_index = 0\<rparr> else None)\<rparr>"

lemma supported_node_packs_witness:
  "\<exists>dp w. pack_node (demo_benv counting_godot rd_ops) (demo_with_buffer None) demo_cpy = Inr (dp, w) \<and> dp_kernel dp < int kKernelCount"
proof -
  let ?E = "demo_benv counting_godot rd_ops" and ?s = "demo_with_buffer None"
  have op: "t_op demo_cpy = GGML_OP_DUP" by (simp add: demo_tensor_def)
  have "supports_cpy (penv_now ?E ?s) demo_cpy" by (rule demo_cpy_facts(1))
  then have s: "dev_supports_op ?E ?s demo_cpy"
    unfolding dev_supports_op_def find_op_def op ops_defs by (simp add: demo_benv_def)
  have "\<exists>w0. fill_standard (rd_offset ?s) demo_cpy = Inr w0"
    by (simp add: demo_tensor_def fill_standard_def fill_block_def fill_dim_def fill_src_def bind_sum_def rd_offset_def buffer_of_def
        buffer_no_def demo_with_buffer_def byte_offset_def ggml_blck_size_def ggml_type_size_def Let_def)
  then obtain w0 where w0: "fill_standard (rd_offset ?s) demo_cpy = Inr w0" by blast
  have "\<not> is_layout_only (t_op demo_cpy)" "set (be_ops ?E) \<subseteq> set rd_ops" "within_limits (penv_now ?E ?s) demo_cpy"
    by (simp_all add: is_layout_only_def op demo_benv_def within_limits_def)
  from supported_node_packs [OF s this demo_cpy_facts(2) w0] show ?thesis by blast
qed

lemma cpu_set_get_witness:
  "\<exists>s2. fst (buffer_get_tensor (demo_benv counting_godot []) 1 demo_cpy 4 3 (s2, 0)) = Some [7, 8, 9]"
  using cpu_set_get [of "demo_with_buffer (Some (replicate 16 0))" 1
      "\<lparr>bf_rid = 3, bf_mem = Some (replicate 16 0), bf_size = 256, bf_base = 4096, bf_index = 0\<rparr>" "replicate 16 0" demo_cpy 4 "[7, 8, 9]" 3
      "demo_benv counting_godot []" 0]
  by (auto simp: demo_with_buffer_def byte_offset_def demo_tensor_def)

lemma gpu_get_exact_witness:
  "\<exists>s2 w2. buffer_get_tensor (demo_benv tiny_godot []) 1 demo_cpy 1 5 (demo_with_buffer None, 0, 0, (\<lambda>b. if b = 3 then [0, 1, 2, 3, 4, 5, 6, 7] else [])) =
     (Some [1, 2, 3, 4, 5], s2, w2)"
  using gpu_get_exact [of "demo_benv tiny_godot []" tiny_mem "demo_with_buffer None" "(0, 0, \<lambda>b. if b = 3 then [0, 1, 2, 3, 4, 5, 6, 7] else [])"
      1 "\<lparr>bf_rid = 3, bf_mem = None, bf_size = 256, bf_base = 4096, bf_index = 0\<rparr>" demo_cpy 1 5]
  by (auto simp: demo_benv_def tiny_copies tiny_buffers demo_with_buffer_def demo_bstate_def fresh_ctx_def staged_def new_device_def tiny_mem_def
      kMaxTransferBytes_def push_bit_eq_mult byte_offset_def demo_tensor_def)

section \<open>The live buffers\<close>

text \<open>
  The statistics count the live buffers and their bytes; every buffer has its own index, below
  the next one, and its fake base comes from it.
\<close>

definition bufs_ok :: "bstate \<Rightarrow> bool" where
  "bufs_ok s \<longleftrightarrow> finite (dom (b_bufs s)) \<and>
     st_buffers_live (cx_st (b_ctx s)) = int (card (dom (b_bufs s))) \<and>
     st_bytes_live (cx_st (b_ctx s)) = (\<Sum>n\<in>dom (b_bufs s). int (unat (bf_size (the (b_bufs s n))))) \<and>
     (\<forall>n b. b_bufs s n = Some b \<longrightarrow> bf_base b = 0x1000 + push_bit 40 (ucast (bf_index b)))"

text \<open>What allocating and freeing look at; nothing else changes it.\<close>

definition view :: "bstate \<Rightarrow> (nat \<Rightarrow> rd_buffer option) \<times> int \<times> int \<times> u32" where
  "view s = (b_bufs s, st_buffers_live (cx_st (b_ctx s)), st_bytes_live (cx_st (b_ctx s)), cx_next_buffer_index (b_ctx s))"

abbreviation frozen :: "_ \<Rightarrow> bstate \<times> 'w \<Rightarrow> bool" where
  "frozen v s \<equiv> view (fst s) = v"

lemma bufs_ok_view: "view s2 = view s \<Longrightarrow> bufs_ok s2 = bufs_ok s"
  by (simp add: bufs_ok_def view_def)

lemma frozen_dev: "safe (frozen v) (frozen v) (dev m) (frozen v)"
  by (auto simp: safe_def dev_def view_def split: prod.splits option.splits)

lemma frozen_ctx:
  "(\<And>c. cx_st (f c) = cx_st c \<and> cx_next_buffer_index (f c) = cx_next_buffer_index c) \<Longrightarrow>
   safe (frozen v) (frozen v) (upd_ctx f) (frozen v)"
  by (simp add: safe_def upd_ctx_def updB_def view_def)

lemma frozen_st:
  "(\<And>t. st_buffers_live (f t) = st_buffers_live t \<and> st_bytes_live (f t) = st_bytes_live t) \<Longrightarrow>
   safe (frozen v) (frozen v) (upd_st f) (frozen v)"
  by (simp add: safe_def upd_st_def upd_ctx_def updB_def view_def)

lemma frozen_hook: "safe (frozen v) (frozen v) (run_hook h) (frozen v)"
  by (auto simp: safe_def run_hook_def ret_def split: option.splits prod.splits)

lemma frozen_ks: "safe (frozen v) (frozen v) (upd_ks f) (frozen v)"
  by (simp add: safe_def upd_ks_def updB_def view_def)

lemmas frozen_rules = same_bind same_then same_if same_option safe_ret frozen_dev frozen_hook frozen_ks same_askB

lemma frozen_steps:
  "safe (frozen v) (frozen v) (set_error e) (frozen v)" "safe (frozen v) (frozen v) (ensure_idle E) (frozen v)"
  "safe (frozen v) (frozen v) (forget_sets_of E b) (frozen v)" "safe (frozen v) (frozen v) count_clear (frozen v)"
  "safe (frozen v) (frozen v) (fill_bytes E bb off size1 x) (frozen v)"
proof -
  show er: "safe (frozen v) (frozen v) (set_error e) (frozen v)" for e
    unfolding set_error_def by (intro frozen_ctx) simp
  have ts: "safe (frozen v) (frozen v) (read_timestamps E) (frozen v)"
    unfolding read_timestamps_def by (intro frozen_rules frozen_ctx) simp_all
  show "safe (frozen v) (frozen v) (ensure_idle E) (frozen v)"
    unfolding ensure_idle_def by (intro frozen_rules frozen_ctx frozen_st ts) simp_all
  have "safe (frozen v) (frozen v) (forget_entries E b m) (frozen v)" for m
    by (induction m) (simp_all add: safe_ret same_then frozen_dev frozen_ks)
  then show "safe (frozen v) (frozen v) (forget_sets_of E b) (frozen v)"
    unfolding forget_sets_of_def by (intro frozen_rules)
  show "safe (frozen v) (frozen v) count_clear (frozen v)" unfolding count_clear_def by (intro frozen_st) simp
  have "safe (frozen v) (frozen v) (fill_from fuel E bb off size1 x at) (frozen v)" for fuel at
  proof (induction fuel arbitrary: at)
    case 0
    show ?case by (simp add: safe_ret safe_never)
  next
    case (Suc fuel)
    then show ?case unfolding fill_from.simps Let_def by (intro frozen_rules er)
  qed
  then show "safe (frozen v) (frozen v) (fill_bytes E bb off size1 x) (frozen v)" unfolding fill_bytes_def .
qed

section \<open>Allocating and freeing\<close>

lemma bufs_ok_put: "bufs_ok s \<Longrightarrow> bufs_ok (put_mem n m s)"
proof -
  assume ok: "bufs_ok s"
  have "dom (b_bufs (put_mem n m s)) = dom (b_bufs s)" by (auto simp: put_mem_def split: if_splits)
  moreover have "bf_size (the (b_bufs (put_mem n m s) k)) = bf_size (the (b_bufs s k))" if "k \<in> dom (b_bufs s)" for k
    using that by (auto simp: put_mem_def)
  moreover have "b_bufs (put_mem n m s) k = Some b \<Longrightarrow> \<exists>b2. b_bufs s k = Some b2 \<and> bf_base b2 = bf_base b \<and> bf_index b2 = bf_index b" for k b
    by (auto simp: put_mem_def split: if_splits)
  ultimately show ?thesis using ok unfolding bufs_ok_def by (auto simp: put_mem_def)
qed

lemma bufs_ok_add:
  assumes "bufs_ok s" "b_bufs s n = None" "b_bufs s2 = (b_bufs s)(n := Some b)" "bf_base b = 0x1000 + push_bit 40 (ucast (bf_index b))"
    and "st_buffers_live (cx_st (b_ctx s2)) = st_buffers_live (cx_st (b_ctx s)) + 1"
    and "st_bytes_live (cx_st (b_ctx s2)) = st_bytes_live (cx_st (b_ctx s)) + int (unat (bf_size b))"
  shows "bufs_ok s2"
proof -
  have n: "n \<notin> dom (b_bufs s)" using assms(2) by auto
  then have "(\<Sum>k\<in>dom (b_bufs s). int (unat (bf_size (the (b_bufs s2 k))))) = (\<Sum>k\<in>dom (b_bufs s). int (unat (bf_size (the (b_bufs s k)))))"
    by (intro sum.cong) (auto simp: assms(3))
  then show ?thesis using assms n by (auto simp: bufs_ok_def)
qed

lemma bufs_ok_del:
  assumes "bufs_ok s" "b_bufs s n = Some b" "b_bufs s2 = (b_bufs s)(n := None)"
    and "st_buffers_live (cx_st (b_ctx s2)) = st_buffers_live (cx_st (b_ctx s)) - 1"
    and "st_bytes_live (cx_st (b_ctx s2)) = st_bytes_live (cx_st (b_ctx s)) - int (unat (bf_size b))"
  shows "bufs_ok s2"
proof -
  have n: "n \<in> dom (b_bufs s)" "dom (b_bufs s2) = dom (b_bufs s) - {n}" using assms(2,3) by auto
  then have c: "0 < card (dom (b_bufs s))" using assms(1) by (auto simp: bufs_ok_def card_gt_0_iff)
  have "(\<Sum>k\<in>dom (b_bufs s) - {n}. int (unat (bf_size (the (b_bufs s2 k))))) = (\<Sum>k\<in>dom (b_bufs s) - {n}. int (unat (bf_size (the (b_bufs s k)))))"
    by (intro sum.cong) (auto simp: assms(3))
  then show ?thesis using assms n c by (auto simp: bufs_ok_def sum_diff1 card_Diff_singleton of_nat_diff split: if_splits)
qed

abbreviation accounted :: "bstate \<times> 'w \<Rightarrow> bool" where
  "accounted s \<equiv> bufs_ok (fst s)"

text \<open>A run that freezes the view keeps what the view decides, killed or not.\<close>

lemma safe_view:
  assumes "\<And>s. Z s \<Longrightarrow> safe K (frozen (view (fst s))) m Q"
  shows "safe K Z m Q"
  unfolding safe_def using safeD [OF assms refl] by simp

lemma safe_killed:
  assumes "safe K P m Q" "\<And>s. K s \<Longrightarrow> K2 s"
  shows "safe K2 P m Q"
  unfolding safe_def
proof (intro allI impI)
  fix s
  assume "P s"
  then show "case m s of (None, s') \<Rightarrow> K2 s' | (Some x, s') \<Rightarrow> Q s'"
    using safeD [OF assms(1), of s] assms(2) by (simp split: prod.splits option.splits)
qed

lemma frozen_keeps:
  fixes m :: "('w, 'a) brun" and s :: "bstate \<times> 'w"
  assumes "safe (frozen (view (fst s))) (frozen (view (fst s))) m (frozen (view (fst s)))" "accounted s"
  shows "safe accounted (frozen (view (fst s))) m (frozen (view (fst s)))"
  by (rule safe_killed [OF assms(1)]) (use assms(2) bufs_ok_view in blast)

lemma frozen_accounted:
  fixes m :: "('w, 'a) brun"
  assumes "\<And>v. safe (frozen v) (frozen v) m (frozen v)"
  shows "safe accounted accounted m accounted"
proof (rule safe_view)
  fix s :: "bstate \<times> 'w"
  assume ok: "accounted s"
  show "safe accounted (frozen (view (fst s))) m accounted"
    by (rule safe_weaken [OF frozen_keeps [OF assms ok]]) (use ok bufs_ok_view in blast)+
qed

lemma frozen_alloc_bytes: "safe (frozen v) (frozen v) (alloc_bytes E room b) (frozen v)"
  unfolding alloc_bytes_def by (intro frozen_rules frozen_steps)

lemma new_buffer_result:
  "new_buffer n bytes rid mem s = (Some True,
     (fst s)\<lparr>b_ctx := (b_ctx (fst s))\<lparr>cx_next_buffer_index := cx_next_buffer_index (b_ctx (fst s)) + 1,
         cx_st := (cx_st (b_ctx (fst s)))\<lparr>st_buffers_live := st_buffers_live (cx_st (b_ctx (fst s))) + 1,
           st_bytes_live := st_bytes_live (cx_st (b_ctx (fst s))) + int (unat bytes)\<rparr>\<rparr>,
       b_bufs := (b_bufs (fst s))(n := Some \<lparr>bf_rid = rid, bf_mem = mem, bf_size = bytes,
         bf_base = 0x1000 + push_bit 40 (ucast (cx_next_buffer_index (b_ctx (fst s)))), bf_index = cx_next_buffer_index (b_ctx (fst s))\<rparr>)\<rparr>,
     snd s)"
  by (simp add: new_buffer_def bindR_def askB_def Let_def thenR_def upd_st_def upd_ctx_def updB_def ret_def)

text \<open>An allocation that fails leaves the view, and one that succeeds is a \<open>new_buffer\<close>.\<close>

lemma alloc_accounted:
  "safe accounted (\<lambda>s. accounted s \<and> b_bufs (fst s) n = None) (buft_alloc_buffer E room n bytes) (accounted :: bstate \<times> 'w \<Rightarrow> bool)"
proof (rule safe_view)
  fix s0 :: "bstate \<times> 'w"
  assume ok: "accounted s0 \<and> b_bufs (fst s0) n = None"
  let ?F = "frozen (view (fst s0)) :: bstate \<times> 'w \<Rightarrow> bool"
  have okF: "bufs_ok (fst t)" "b_bufs (fst t) n = None" if "?F t" for t
    using bufs_ok_view [OF that] ok that by (simp_all add: view_def)
  have done1: "safe accounted ?F (ret x) accounted" for x :: bool
    by (simp add: safe_def ret_def okF)
  have err: "safe accounted ?F (set_error e) ?F" for e by (rule safe_killed [OF frozen_steps(1)]) (simp add: okF)
  have got: "safe accounted ?F (alloc_bytes E room b) ?F" for b by (rule safe_killed [OF frozen_alloc_bytes]) (simp add: okF)
  have fin: "safe accounted ?F (new_buffer n b rid mem) accounted" for b rid mem
    unfolding safe_def new_buffer_result
  proof (intro allI impI)
    fix t
    assume t: "?F t"
    show "case (Some True,
        (fst t)\<lparr>b_ctx := (b_ctx (fst t))\<lparr>cx_next_buffer_index := cx_next_buffer_index (b_ctx (fst t)) + 1,
            cx_st := (cx_st (b_ctx (fst t)))\<lparr>st_buffers_live := st_buffers_live (cx_st (b_ctx (fst t))) + 1,
              st_bytes_live := st_bytes_live (cx_st (b_ctx (fst t))) + int (unat b)\<rparr>\<rparr>,
          b_bufs := (b_bufs (fst t))(n := Some \<lparr>bf_rid = rid, bf_mem = mem, bf_size = b,
            bf_base = 0x1000 + push_bit 40 (ucast (cx_next_buffer_index (b_ctx (fst t)))), bf_index = cx_next_buffer_index (b_ctx (fst t))\<rparr>)\<rparr>,
        snd t) of (None, s') \<Rightarrow> accounted s' | (Some x, s') \<Rightarrow> accounted s'"
      using bufs_ok_add [OF okF [OF t], of _ "\<lparr>bf_rid = rid, bf_mem = mem, bf_size = b,
          bf_base = 0x1000 + push_bit 40 (ucast (cx_next_buffer_index (b_ctx (fst t)))), bf_index = cx_next_buffer_index (b_ctx (fst t))\<rparr>"]
      by simp
  qed
  have "safe accounted ?F (case g of None \<Rightarrow> ret False | Some x \<Rightarrow> new_buffer n b (fst x) (snd x)) accounted" for b g
    by (cases g) (simp_all add: done1 fin)
  then show "safe accounted ?F (buft_alloc_buffer E room n bytes) accounted"
    unfolding buft_alloc_buffer_def Let_def
    by (intro same_askB safe_if safe_then [OF err done1] safe_bind [OF got])
qed

lemma free_accounted:
  "safe accounted (\<lambda>s. accounted s \<and> b_bufs (fst s) n \<noteq> None) (buffer_free E n) (accounted :: bstate \<times> 'w \<Rightarrow> bool)"
proof (rule safe_view)
  fix s0 :: "bstate \<times> 'w"
  assume ok: "accounted s0 \<and> b_bufs (fst s0) n \<noteq> None"
  let ?F = "frozen (view (fst s0)) :: bstate \<times> 'w \<Rightarrow> bool"
  obtain b where b: "b_bufs (fst s0) n = Some b" using ok by blast
  have okF: "bufs_ok (fst t)" "b_bufs (fst t) n = Some b" if "?F t" for t
    using bufs_ok_view [OF that] ok b that by (simp_all add: view_def)
  let ?fin = "thenR (upd_st (\<lambda>t. t\<lparr>st_buffers_live := st_buffers_live t - 1, st_bytes_live := st_bytes_live t - int (unat (bf_size b))\<rparr>))
     (updB (\<lambda>s. s\<lparr>b_bufs := (b_bufs s)(n := None)\<rparr>)) :: ('w, unit) brun"
  have fin: "safe accounted ?F ?fin accounted"
    unfolding safe_def thenR_def bindR_def upd_st_def upd_ctx_def updB_def
    using bufs_ok_del [OF okF] by simp
  have pre: "safe accounted ?F (if d then thenR (ensure_idle E) (thenR (forget_sets_of E r) (dev m)) else ret ()) ?F" for d r m
  proof -
    have "safe ?F ?F (if d then thenR (ensure_idle E) (thenR (forget_sets_of E r) (dev m)) else ret ()) ?F"
      by (intro frozen_rules frozen_steps)
    then show ?thesis by (rule safe_killed) (simp add: okF)
  qed
  show "safe accounted ?F (buffer_free E n) accounted"
    unfolding safe_def
  proof (intro allI impI)
    fix t
    assume t: "?F t"
    then have "buffer_free E n t = thenR (if device_ok (fst t) \<and> bf_rid b \<noteq> 0 then thenR (ensure_idle E)
        (thenR (forget_sets_of E (bf_rid b)) (dev (free_rid (be_host E) (bf_rid b)))) else ret ()) ?fin t"
      using okF(2) [OF t] by (simp add: buffer_free_def bindR_def askB_def buf_def Let_def)
    then show "case buffer_free E n t of (None, s') \<Rightarrow> accounted s' | (Some x, s') \<Rightarrow> accounted s'"
      using safeD [OF safe_then [OF pre fin] t] by simp
  qed
qed

section \<open>Every buffer call\<close>

datatype (plugins only: code size) buf_op =
    B_alloc nat u64 | B_free nat | B_set nat tensor "u8 list" u64 | B_get nat tensor u64 u64
  | B_memset nat tensor u8 u64 u64 | B_copy nat tensor tensor | B_clear nat u8 | B_synchronize

text \<open>A call names a live buffer, and an allocation a number not in use; ggml makes no other.\<close>

fun buf_call :: "'w benv \<Rightarrow> (u64 \<Rightarrow> bool) \<Rightarrow> buf_op \<Rightarrow> ('w, unit) brun" where
  "buf_call E room (B_alloc n bytes) = void (buft_alloc_buffer E room n bytes)"
| "buf_call E room (B_free n) = buffer_free E n"
| "buf_call E room (B_set n t data off) = buffer_set_tensor E n t data off"
| "buf_call E room (B_get n t off bytes) = void (buffer_get_tensor E n t off bytes)"
| "buf_call E room (B_memset n t v off bytes) = buffer_memset_tensor E n t v off bytes"
| "buf_call E room (B_copy n src dst) = void (buffer_cpy_tensor E n src dst)"
| "buf_call E room (B_clear n v) = clear_buffer E n v"
| "buf_call E room B_synchronize = backend_synchronize E"

fun callable :: "bstate \<Rightarrow> buf_op \<Rightarrow> bool" where
  "callable s (B_alloc n bytes) \<longleftrightarrow> b_bufs s n = None"
| "callable s (B_free n) \<longleftrightarrow> b_bufs s n \<noteq> None"
| "callable s op \<longleftrightarrow> True"

definition run_buf_op :: "'w benv \<Rightarrow> (u64 \<Rightarrow> bool) \<Rightarrow> buf_op \<Rightarrow> bstate \<times> 'w \<Rightarrow> bstate \<times> 'w" where
  "run_buf_op E room op s = (if callable (fst s) op then snd (buf_call E room op s) else s)"

lemma put_accounted: "safe accounted accounted (updB (put_mem n m)) accounted"
  by (simp add: safe_def updB_def bufs_ok_put)

lemma upd_st_accounted:
  "(\<And>t. st_buffers_live (f t) = st_buffers_live t \<and> st_bytes_live (f t) = st_bytes_live t) \<Longrightarrow>
   safe accounted accounted (upd_st f) (accounted :: bstate \<times> 'w \<Rightarrow> bool)"
  by (intro frozen_accounted frozen_st)

lemmas accounted_rules = same_askB same_bind same_then same_if same_option safe_ret put_accounted same_void
  frozen_accounted [OF frozen_dev] frozen_accounted [OF frozen_steps(1)] frozen_accounted [OF frozen_steps(2)]
  frozen_accounted [OF frozen_steps(3)] frozen_accounted [OF frozen_steps(4)] frozen_accounted [OF frozen_steps(5)]

lemma calls_accounted:
  "safe accounted accounted (buffer_set_tensor E n t data off) (accounted :: bstate \<times> 'w \<Rightarrow> bool)"
  "safe accounted accounted (buffer_get_tensor E n t off size1) (accounted :: bstate \<times> 'w \<Rightarrow> bool)"
  "safe accounted accounted (buffer_memset_tensor E n t v off size1) (accounted :: bstate \<times> 'w \<Rightarrow> bool)"
  "safe accounted accounted (buffer_cpy_tensor E n src dst) (accounted :: bstate \<times> 'w \<Rightarrow> bool)"
  "safe accounted accounted (clear_buffer E n v) (accounted :: bstate \<times> 'w \<Rightarrow> bool)"
  "safe accounted accounted (backend_synchronize E) (accounted :: bstate \<times> 'w \<Rightarrow> bool)"
  unfolding buffer_set_tensor_def buffer_get_tensor_def buffer_memset_tensor_def buffer_cpy_tensor_def
    clear_buffer_def backend_synchronize_def Let_def
  by (intro accounted_rules upd_st_accounted; simp)+

interpretation buffer_calls: machine "run_buf_op E room" accounted for E :: "'w benv" and room
proof
  fix s :: "bstate \<times> 'w" and op
  assume s: "accounted s"
  show "accounted (run_buf_op E room op s)"
  proof (cases "callable (fst s) op")
    case True
    have "\<exists>P. P s \<and> safe accounted P (buf_call E room op) accounted"
    proof (cases op)
      case (B_alloc n bytes)
      have "safe accounted (\<lambda>s. accounted s \<and> b_bufs (fst s) n = None) (void (buft_alloc_buffer E room n bytes)) accounted"
        unfolding void_def by (rule safe_bind [OF alloc_accounted safe_ret])
      then show ?thesis using s True B_alloc by (intro exI [of _ "\<lambda>s. accounted s \<and> b_bufs (fst s) n = None"]) simp
    next
      case (B_free n)
      then show ?thesis using s True free_accounted by (intro exI [of _ "\<lambda>s. accounted s \<and> b_bufs (fst s) n \<noteq> None"]) simp
    qed (use s in \<open>intro exI [of _ accounted]; simp add: calls_accounted same_void\<close>)+
    then show ?thesis
      using True safeD [of accounted _ "buf_call E room op" accounted s]
      by (fastforce simp: run_buf_op_def split: prod.splits option.splits)
  qed (simp add: run_buf_op_def s)
qed

text \<open>
  C14: whatever buffer calls ggml makes, and wherever the vmcall is killed in one, the context's
  statistics count exactly the live buffers and their bytes, which is what \<open>dev_get_memory\<close>
  subtracts from the device's total, and every live buffer has the fake base of its index.
\<close>

theorem buffers_accounted:
  assumes "bufs_ok s" "fold (run_buf_op E room) ops (s, w) = (s', w')"
  shows "bufs_ok s'"
  using buffer_calls.run_inv [of "(s, w)" E room ops] assms by simp

text \<open>C1: an empty context is accounted, so the theorem speaks of every history of it.\<close>

lemma buffers_accounted_witness:
  "bufs_ok (fst (fold (run_buf_op (demo_benv counting_godot []) (\<lambda>b. True)) [B_alloc 1 100, B_clear 1 0, B_free 1] (demo_bstate, 0)))"
proof -
  obtain s' w' where r: "fold (run_buf_op (demo_benv counting_godot []) (\<lambda>b. True)) [B_alloc 1 100, B_clear 1 0, B_free 1] (demo_bstate, 0) = (s', w')"
    by fastforce
  have "bufs_ok demo_bstate" by (simp add: bufs_ok_def demo_bstate_def fresh_ctx_def no_stats_def)
  from buffers_accounted [OF this r] show ?thesis by (simp only: r fst_conv)
qed

section \<open>Address ranges\<close>

lemma max_buffer_small: "max_buffer_bytes E \<le> 4294967040"
proof (cases "pe_getenv (be_penv E) ''GGML_RD_MAX_BUFFER_MB''")
  case (Some e)
  then show ?thesis by (simp only: max_buffer_bytes_def Let_def option.case min.cobounded2 split: if_split) (simp add: push_bit_eq_mult)
qed (simp add: max_buffer_bytes_def push_bit_eq_mult)

lemma base_unat: "unat (i :: u32) < 2 ^ 24 - 1 \<Longrightarrow> unat (0x1000 + push_bit 40 (ucast i) :: u64) = 4096 + unat i * 2 ^ 40"
proof -
  assume i: "unat i < 2 ^ 24 - 1"
  have u: "unat (ucast i :: u64) = unat i" by (simp add: unsigned_ucast_eq take_bit_nat_eq_self unat_lt32 order_less_le_trans [OF unat_lt32])
  have "unat (push_bit 40 (ucast i :: u64)) = unat i * 2 ^ 40"
    unfolding push_bit_eq_mult
  proof (subst unat_mult_no_wrap)
    show "unat (ucast i :: u64) * unat (2 ^ 40 :: u64) < 2 ^ LENGTH(64)" using i by (simp add: u)
  qed (simp add: u)
  then show ?thesis using i by (subst unat_add_no_wrap) simp_all
qed

text \<open>Distinct indices below the next one, the bases they give, and no buffer over the maximum.\<close>

definition indexed :: "bstate \<Rightarrow> bool" where
  "indexed s \<longleftrightarrow>
     (\<forall>k b. b_bufs s k = Some b \<longrightarrow> bf_base b = 0x1000 + push_bit 40 (ucast (bf_index b)) \<and>
        unat (bf_index b) < unat (cx_next_buffer_index (b_ctx s)) \<and> unat (bf_size b) \<le> 4294967040) \<and>
     (\<forall>k l b c. b_bufs s k = Some b \<longrightarrow> b_bufs s l = Some c \<longrightarrow> k \<noteq> l \<longrightarrow> bf_index b \<noteq> bf_index c)"

definition addresses :: "rd_buffer \<Rightarrow> nat set" where
  "addresses b = {unat (bf_base b) ..< unat (bf_base b) + unat (bf_size b)}"

lemma indexed_disjoint:
  assumes "indexed s" "unat (cx_next_buffer_index (b_ctx s)) < 2 ^ 24" "b_bufs s k = Some b" "b_bufs s l = Some c" "k \<noteq> l"
  shows "addresses b \<inter> addresses c = {}"
proof -
  have i: "unat (bf_index b) < 2 ^ 24 - 1" "unat (bf_index c) < 2 ^ 24 - 1" "unat (bf_size b) < 2 ^ 40" "unat (bf_size c) < 2 ^ 40"
    "unat (bf_index b) \<noteq> unat (bf_index c)"
    using assms unfolding indexed_def by (fastforce simp: word_unat_eq_iff)+
  have "unat (bf_base b) = 4096 + unat (bf_index b) * 2 ^ 40" "unat (bf_base c) = 4096 + unat (bf_index c) * 2 ^ 40"
    using assms base_unat i unfolding indexed_def by metis+
  then show ?thesis using i unfolding addresses_def by (cases "unat (bf_index b) < unat (bf_index c)") auto
qed

text \<open>
  C30: an allocation that succeeds keeps the buffers' indices distinct, so no two live buffers
  share a fake address, until 2^24 of them were made: a tensor's data pointer tells its buffer.
\<close>

theorem alloc_ranges_disjoint:
  assumes "indexed s" "unat (cx_next_buffer_index (b_ctx s)) < 2 ^ 24 - 1" "b_bufs s n = None"
    and "buft_alloc_buffer E room n bytes (s, w) = (Some True, s2, w2)"
  shows "indexed s2 \<and> (\<exists>b. b_bufs s2 = (b_bufs s)(n := Some b)) \<and>
    (\<forall>k l b c. b_bufs s2 k = Some b \<longrightarrow> b_bufs s2 l = Some c \<longrightarrow> k \<noteq> l \<longrightarrow> addresses b \<inter> addresses c = {})"
proof -
  let ?b = "(max bytes 1 + 255) AND NOT 255"
  obtain x t where x: "alloc_bytes E room ?b (s, w) = (Some (Some x), t)" and nb: "new_buffer n ?b (fst x) (snd x) t = (Some True, s2, w2)"
    and le: "\<not> max_buffer_bytes E < ?b"
    using assms(4) by (auto simp: buft_alloc_buffer_def bindR_def askB_def Let_def thenR_def set_error_def upd_ctx_def updB_def ret_def
        split: if_splits option.splits prod.splits)
  have v: "view (fst t) = view s"
    using safeD [OF frozen_alloc_bytes, of "(s, w)" _ E room ?b] x by simp
  define i where "i = cx_next_buffer_index (b_ctx s)"
  have s2: "cx_next_buffer_index (b_ctx s2) = i + 1"
    "b_bufs s2 = (b_bufs s)(n := Some \<lparr>bf_rid = fst x, bf_mem = snd x, bf_size = ?b, bf_base = 0x1000 + push_bit 40 (ucast i), bf_index = i\<rparr>)"
    using nb v unfolding new_buffer_result i_def by (auto simp: view_def)
  have size: "unat ?b \<le> 4294967040" using le max_buffer_small [of E] by (simp add: word_le_nat_alt word_less_nat_alt)
  have next1: "unat (i + 1) = unat i + 1" using assms(2) unfolding i_def by (subst unat_add_no_wrap) simp_all
  have ind: "indexed s2"
    using assms(1) size unfolding indexed_def s2 next1 by (auto simp: i_def less_Suc_eq split: if_splits) (metis less_irrefl)+
  have "unat (cx_next_buffer_index (b_ctx s2)) < 2 ^ 24" using assms(2) next1 s2(1) by (simp add: i_def)
  then show ?thesis using ind indexed_disjoint [OF ind] s2(2) by blast
qed

lemma alloc_ranges_disjoint_witness:
  "\<exists>s2 w2 b c. buft_alloc_buffer (demo_benv counting_godot []) (\<lambda>b. True) 2 100 (demo_with_buffer None, 0) = (Some True, s2, w2) \<and>
     b_bufs s2 1 = Some b \<and> b_bufs s2 2 = Some c \<and> addresses b \<inter> addresses c = {}"
proof -
  let ?E = "demo_benv counting_godot []" and ?s = "demo_with_buffer None"
  have s: "usable ?E ?s" "\<not> max_buffer_bytes ?E < 256"
    by (simp_all add: usable_def device_ok_def cpu_mode_def demo_with_buffer_def demo_bstate_def fresh_ctx_def new_device_def
        max_buffer_bytes_def demo_benv_def demo_penv_def push_bit_eq_mult)
  have "\<exists>t. alloc_bytes ?E (\<lambda>b. True) 256 (?s, 0) = (Some (Some (- 1, None)), t)"
    by (simp add: cpu_mode_def device_ok_def ensure_idle_def alloc_bytes_def bindR_def askB_def thenR_def dev_def storage_buffer_empty_def storage_buffer_uninit_def
        set_step_def upd_def call_def rid_or_fail_def ask_def ret_def RdDevice.buffer_clear_def recover_def as_rid_def as_int_def
        counting_godot_def demo_benv_def demo_with_buffer_def demo_bstate_def fresh_ctx_def new_device_def Let_def)
  then obtain s2 w2 where r: "buft_alloc_buffer ?E (\<lambda>b. True) 2 100 (?s, 0) = (Some True, s2, w2)"
    using s(1,2) by (force simp: buft_alloc_buffer_def bindR_def askB_def new_buffer_result)
  have "indexed ?s" by (simp add: indexed_def demo_with_buffer_def demo_bstate_def fresh_ctx_def)
  from alloc_ranges_disjoint [OF this _ _ r]
  have *: "\<exists>b. b_bufs s2 = (b_bufs ?s)(2 := Some b)"
    "\<forall>k l b c. b_bufs s2 k = Some b \<longrightarrow> b_bufs s2 l = Some c \<longrightarrow> k \<noteq> l \<longrightarrow> addresses b \<inter> addresses c = {}"
    by (simp_all add: demo_with_buffer_def demo_bstate_def fresh_ctx_def)
  then obtain b c where "b_bufs s2 1 = Some b" "b_bufs s2 2 = Some c" by (force simp: demo_with_buffer_def)
  then show ?thesis using r * by (metis num.distinct(1) one_eq_numeral_iff)
qed

end
