(* ===== verification/ClothGrid.thy ===== *)
theory ClothGrid
  imports Prelude
begin

text \<open>
  \<open>guest/avbd/cloth_grid.{h,cpp}\<close>: cloth meshes as flat arrays, how they are put together and
  taken apart: \<open>combine_meshes\<close>, \<open>partition_islands\<close> (a union-find over the constraints) and
  \<open>split_connected_panel\<close>. Vertex and constraint numbers are natural numbers; they stay below
  2^32 for any mesh that fits memory. A float is a value of the type \<open>'f\<close>; what is computed
  with floats is a parameter.
\<close>

section \<open>Meshes\<close>

record 'f cloth_mesh =
  m_nx :: nat
  m_ny :: nat
  m_width :: 'f
  m_height :: 'f
  m_positions :: "'f list"
  m_mass :: "'f list"
  m_triIdx :: "nat list"
  m_triInvUV :: "'f list"
  m_bendIdx :: "nat list"
  m_bendWeight :: "'f list"
  m_bendNTarget :: "'f list"
  m_attachVert :: "nat list"
  m_attachFixed :: "'f list"
  m_faces :: "nat list"

definition nVerts :: "'f cloth_mesh \<Rightarrow> nat" where "nVerts m = length (m_positions m) div 3"
definition nTri :: "'f cloth_mesh \<Rightarrow> nat" where "nTri m = length (m_triInvUV m) div 4"
definition nBend :: "'f cloth_mesh \<Rightarrow> nat" where "nBend m = length (m_bendNTarget m)"
definition nAttach :: "'f cloth_mesh \<Rightarrow> nat" where "nAttach m = length (m_attachVert m)"

text \<open>A new mesh; \<open>z\<close> is \<open>0.0f\<close>.\<close>

definition empty_mesh :: "'f \<Rightarrow> 'f cloth_mesh" where
  "empty_mesh z = \<lparr>m_nx = 0, m_ny = 0, m_width = z, m_height = z, m_positions = [], m_mass = [], m_triIdx = [],
     m_triInvUV = [], m_bendIdx = [], m_bendWeight = [], m_bendNTarget = [], m_attachVert = [], m_attachFixed = [], m_faces = []\<rparr>"

text \<open>Item \<open>i\<close> of a flat array of groups of \<open>k\<close>.\<close>

definition item :: "nat \<Rightarrow> 'b list \<Rightarrow> nat \<Rightarrow> 'b list" where
  "item k xs i = map (\<lambda>r. xs ! (k * i + r)) [0..<k]"

section \<open>Combining meshes\<close>

definition combine_one :: "'f cloth_mesh \<times> nat \<Rightarrow> 'f cloth_mesh \<Rightarrow> 'f cloth_mesh \<times> nat" where
  "combine_one s p = (case s of (m, voff) \<Rightarrow>
     (m\<lparr>m_positions := m_positions m @ m_positions p,
        m_mass := m_mass m @ m_mass p,
        m_triIdx := m_triIdx m @ map (\<lambda>v. v + voff) (m_triIdx p),
        m_triInvUV := m_triInvUV m @ m_triInvUV p,
        m_bendIdx := m_bendIdx m @ map (\<lambda>v. v + voff) (m_bendIdx p),
        m_bendWeight := m_bendWeight m @ m_bendWeight p,
        m_bendNTarget := m_bendNTarget m @ m_bendNTarget p,
        m_attachVert := m_attachVert m @ map (\<lambda>v. v + voff) (m_attachVert p),
        m_attachFixed := m_attachFixed m @ m_attachFixed p,
        m_faces := m_faces m @ map (\<lambda>v. v + voff) (m_faces p)\<rparr>,
      voff + nVerts p))"

definition combine_meshes :: "'f \<Rightarrow> 'f cloth_mesh list \<Rightarrow> 'f cloth_mesh" where
  "combine_meshes z parts = fst (foldl combine_one (empty_mesh z, 0) parts)"

section \<open>Union-find\<close>

text \<open>
  The loop of \<open>uf_find\<close> halves the path it walks. It may run forever on an array with a cycle,
  and then its value is \<open>None\<close>; the array it leaves comes with the root.
\<close>

partial_function (option) uf_find :: "nat list \<Rightarrow> nat \<Rightarrow> (nat list \<times> nat) option" where
  "uf_find parent x =
     (if parent ! x \<noteq> x
      then let parent = parent[x := parent ! (parent ! x)] in uf_find parent (parent ! x)
      else Some (parent, x))"

declare uf_find.simps [code]

text \<open>\<open>parent[uf_find(a)] = uf_find(b)\<close>: since C++17 the right side is evaluated first.\<close>

definition uf_union :: "nat list \<Rightarrow> nat \<Rightarrow> nat \<Rightarrow> nat list option" where
  "uf_union parent a b =
     Option.bind (uf_find parent b) (\<lambda>(p1, rb).
     Option.bind (uf_find p1 a) (\<lambda>(p2, ra). Some (p2[ra := rb])))"

fun unions :: "nat list \<Rightarrow> (nat \<times> nat) list \<Rightarrow> nat list option" where
  "unions p [] = Some p"
| "unions p ((a, b) # es) = Option.bind (uf_union p a b) (\<lambda>p. unions p es)"

subsection \<open>Roots\<close>

text \<open>A rank that grows along the parents shows that an array is a forest.\<close>

definition ranked :: "(nat \<Rightarrow> nat) \<Rightarrow> nat list \<Rightarrow> bool" where
  "ranked rk p \<longleftrightarrow> (\<forall>i<length p. p ! i < length p \<and> (p ! i \<noteq> i \<longrightarrow> rk (p ! i) < rk i))"

inductive root :: "nat list \<Rightarrow> nat \<Rightarrow> nat \<Rightarrow> bool" for p where
  root_self: "p ! i = i \<Longrightarrow> root p i i"
| root_up: "p ! i \<noteq> i \<Longrightarrow> root p (p ! i) r \<Longrightarrow> root p i r"

inductive_cases rootE: "root p i r"

lemma root_top: "root p i r \<Longrightarrow> p ! r = r"
  by (induction rule: root.induct)

lemma root_fun: "root p i r \<Longrightarrow> root p i s \<Longrightarrow> r = s"
  by (induction rule: root.induct) (auto elim: rootE)

lemma root_step: "p ! i \<noteq> i \<Longrightarrow> root p i r = root p (p ! i) r"
  by (auto intro: root_up elim: rootE)

lemma root_at_top: "p ! i = i \<Longrightarrow> root p i r \<longleftrightarrow> r = i"
  by (auto intro: root_self elim: rootE)

lemma rankedD: "ranked rk p \<Longrightarrow> i < length p \<Longrightarrow> p ! i < length p"
  "ranked rk p \<Longrightarrow> i < length p \<Longrightarrow> p ! i \<noteq> i \<Longrightarrow> rk (p ! i) < rk i"
  by (simp_all add: ranked_def)

lemma ranked_root: "ranked rk p \<Longrightarrow> i < length p \<Longrightarrow> \<exists>r<length p. root p i r"
proof (induction "rk i" arbitrary: i rule: less_induct)
  case less
  show ?case
  proof (cases "p ! i = i")
    case False
    then show ?thesis using less rankedD [OF less.prems] root_up by blast
  qed (use less.prems root_self in blast)
qed

subsection \<open>Halving a path keeps every root\<close>

lemma halve_ranked:
  assumes "ranked rk p" "x < length p"
  shows "ranked rk (p[x := p ! (p ! x)])"
  unfolding ranked_def
proof (intro allI impI)
  fix i
  assume "i < length (p[x := p ! (p ! x)])"
  then have i: "i < length p" by simp
  have x: "p ! x < length p" "p ! (p ! x) < length p" using rankedD(1) [OF assms(1)] assms(2) by blast+
  have "p ! (p ! x) \<noteq> x \<longrightarrow> rk (p ! (p ! x)) < rk x"
    using rankedD(2) [OF assms(1,2)] rankedD(2) [OF assms(1) x(1)] by fastforce
  then show "p[x := p ! (p ! x)] ! i < length (p[x := p ! (p ! x)]) \<and>
      (p[x := p ! (p ! x)] ! i \<noteq> i \<longrightarrow> rk (p[x := p ! (p ! x)] ! i) < rk i)"
    using rankedD [OF assms(1) i] x i assms(2) by (cases "i = x") auto
qed

lemma halve_root:
  assumes p: "ranked rk p" and x: "x < length p" "p ! x \<noteq> x"
  shows "root p i r \<Longrightarrow> root (p[x := p ! (p ! x)]) i r"
proof (induction rule: root.induct)
  case (root_self i)
  then have "i \<noteq> x" using x by blast
  then show ?case using root_self by (intro root.root_self) simp
next
  case (root_up i r)
  let ?p = "p[x := p ! (p ! x)]"
  show ?case
  proof (cases "i = x")
    case False
    then have "?p ! i = p ! i" by simp
    then show ?thesis using root_up root.root_up [of ?p i r] by simp
  next
    case True
    have y: "p ! x < length p" "rk (p ! x) < rk x" using rankedD [OF p x(1)] x(2) by blast+
    have z: "p ! (p ! x) \<noteq> x"
    proof
      assume c: "p ! (p ! x) = x"
      then have "rk x < rk (p ! x)" using rankedD(2) [OF p y(1)] x(2) by simp
      then show False using y(2) by simp
    qed
    have px: "?p ! x = p ! (p ! x)" and py: "?p ! (p ! x) = p ! (p ! x)" using x by simp_all
    have "root ?p (p ! (p ! x)) r"
    proof (cases "p ! (p ! x) = p ! x")
      case False
      then show ?thesis using root_up.IH True py root_step [of ?p "p ! x" r] by simp
    qed (use root_up.IH True in simp)
    then show ?thesis using True z px root.root_up [of ?p x r] by simp
  qed
qed

lemma halve_root_iff:
  assumes p: "ranked rk p" and x: "x < length p" "p ! x \<noteq> x" and i: "i < length p"
  shows "root (p[x := p ! (p ! x)]) i r \<longleftrightarrow> root p i r"
  using ranked_root [OF p i] halve_root [OF p x] root_fun by metis

subsection \<open>Find\<close>

lemma uf_find_root:
  "ranked rk p \<Longrightarrow> x < length p \<Longrightarrow>
   \<exists>p2 r. uf_find p x = Some (p2, r) \<and> ranked rk p2 \<and> length p2 = length p \<and> r < length p \<and> root p x r \<and> p2 ! r = r \<and>
     (\<forall>i<length p. \<forall>s. root p2 i s \<longleftrightarrow> root p i s)"
proof (induction "rk x" arbitrary: p x rule: less_induct)
  case less
  show ?case
  proof (cases "p ! x = x")
    case True
    then show ?thesis using less.prems root_self [OF True] by (subst uf_find.simps) simp
  next
    case False
    define q where "q = p[x := p ! (p ! x)]"
    define y where "y = q ! x"
    have q: "ranked rk q" "length q = length p" using halve_ranked [OF less.prems] by (simp_all add: q_def)
    have px: "p ! x < length p" "rk (p ! x) < rk x" using rankedD [OF less.prems] False by blast+
    have y: "y = p ! (p ! x)" "y < length q" using less.prems px rankedD(1) [OF less.prems(1)] by (simp_all add: y_def q_def)
    have le: "rk y \<le> rk (p ! x)" using rankedD(2) [OF less.prems(1) px(1)] y(1) by fastforce
    have same: "root q i s \<longleftrightarrow> root p i s" if "i < length p" for i s
      using halve_root_iff [OF less.prems False that] by (simp add: q_def)
    have "root p x s \<longleftrightarrow> root p y s" for s
      using root_step [OF False, of s] root_step [of p "p ! x" s] y(1) by (cases "p ! (p ! x) = p ! x") auto
    moreover obtain p2 r where r: "uf_find q y = Some (p2, r)" "ranked rk p2" "length p2 = length q" "r < length q"
        "root q y r" "p2 ! r = r" "\<forall>i<length q. \<forall>s. root p2 i s \<longleftrightarrow> root q i s"
      using less.hyps [OF _ q(1) y(2)] le px(2) by fastforce
    moreover have "uf_find p x = uf_find q y" using False by (subst uf_find.simps) (simp add: q_def y_def Let_def)
    ultimately show ?thesis using same q(2) y(2) by fastforce
  qed
qed

subsection \<open>Union\<close>

text \<open>Two vertices are in one tree; a forest and the trees it has.\<close>

definition forest :: "nat list \<Rightarrow> bool" where
  "forest p \<longleftrightarrow> (\<exists>rk. ranked rk p)"

definition same_tree :: "nat list \<Rightarrow> nat \<Rightarrow> nat \<Rightarrow> bool" where
  "same_tree p i j \<longleftrightarrow> (\<exists>r. root p i r \<and> root p j r)"

lemma link_root:
  assumes "p ! a = a" "p ! b = b" "a < length p" "a \<noteq> b"
  shows "root p i r \<Longrightarrow> root (p[a := b]) i (if r = a then b else r)"
proof (induction rule: root.induct)
  case (root_self i)
  have b: "root (p[a := b]) b b" using assms by (intro root.root_self) simp
  show ?case
  proof (cases "i = a")
    case True
    then have "p[a := b] ! i = b" using assms by simp
    then show ?thesis using True b assms(4) root.root_up [of "p[a := b]" i b] by simp
  next
    case False
    then show ?thesis using root_self root.root_self [of "p[a := b]" i] by simp
  qed
next
  case (root_up i r)
  then have "i \<noteq> a" using assms(1) by blast
  then have "p[a := b] ! i = p ! i" by simp
  then show ?case using root_up root.root_up [of "p[a := b]" i] by simp
qed

lemma link_ranked:
  assumes r: "ranked rk p" and ab: "p ! a = a" "p ! b = b" "a < length p" "b < length p" "a \<noteq> b"
  shows "forest (p[a := b])"
proof -
  define rk2 where "rk2 i = (if root p i a then rk i + rk b + 1 else rk i)" for i
  have "ranked rk2 (p[a := b])"
    unfolding ranked_def
  proof (intro allI impI conjI)
    fix i
    assume "i < length (p[a := b])"
    then have i: "i < length p" by simp
    show "p[a := b] ! i < length (p[a := b])" using rankedD(1) [OF r i] ab i by (cases "i = a") auto
    assume n: "p[a := b] ! i \<noteq> i"
    show "rk2 (p[a := b] ! i) < rk2 i"
    proof (cases "i = a")
      case True
      have "\<not> root p b a" using root_at_top [OF ab(2)] ab(5) by simp
      then show ?thesis using True ab root_self [OF ab(1)] by (simp add: rk2_def)
    next
      case False
      then have "p ! i \<noteq> i" using n by simp
      then show ?thesis using rankedD(2) [OF r i] root_step False by (simp add: rk2_def)
    qed
  qed
  then show ?thesis unfolding forest_def by blast
qed

lemma same_tree_roots: "root p i r \<Longrightarrow> root p j s \<Longrightarrow> same_tree p i j \<longleftrightarrow> r = s"
  unfolding same_tree_def by (blast dest: root_fun)

lemma relabel_eq:
  "((if s = ra then rb else s) = (if t = ra then rb else t)) \<longleftrightarrow> s = t \<or> s = ra \<and> rb = t \<or> s = rb \<and> ra = (t :: nat)"
  by auto

lemma uf_union_trees:
  assumes "forest p" "a < length p" "b < length p"
  shows "\<exists>q. uf_union p a b = Some q \<and> forest q \<and> length q = length p \<and>
    (\<forall>i<length p. \<forall>j<length p. same_tree q i j \<longleftrightarrow>
      same_tree p i j \<or> same_tree p i a \<and> same_tree p b j \<or> same_tree p i b \<and> same_tree p a j)"
proof -
  obtain rk where rk: "ranked rk p" using assms(1) unfolding forest_def by blast
  obtain p1 rb where 1: "uf_find p b = Some (p1, rb)" "ranked rk p1" "length p1 = length p" "rb < length p" "root p b rb"
      "\<forall>i<length p. \<forall>s. root p1 i s \<longleftrightarrow> root p i s"
    using uf_find_root [OF rk assms(3)] by blast
  obtain p2 ra where 2: "uf_find p1 a = Some (p2, ra)" "ranked rk p2" "length p2 = length p" "ra < length p" "root p1 a ra"
      "p2 ! ra = ra" "\<forall>i<length p. \<forall>s. root p2 i s \<longleftrightarrow> root p1 i s"
    using uf_find_root [OF 1(2)] assms(2) 1(3) by metis
  have roots: "root p2 i s \<longleftrightarrow> root p i s" if "i < length p" for i s using 1(6) 2(7) that by simp
  have ra: "root p a ra" using 2(5) 1(6) assms(2) by simp
  have rb2: "p2 ! rb = rb" using root_top roots [OF assms(3)] 1(5) by blast
  define q where "q = p2[ra := rb]"
  have u: "uf_union p a b = Some q" by (simp add: uf_union_def 1(1) 2(1) q_def)
  have fq: "forest q"
  proof (cases "ra = rb")
    case True
    then have "q = p2" using 2(6) list_update_id [of p2 ra] by (simp add: q_def)
    then show ?thesis using 2(2) unfolding forest_def by blast
  next
    case False
    then show ?thesis using link_ranked [OF 2(2,6) rb2] 2(3,4) 1(4) by (simp add: q_def)
  qed
  have rq: "root q i (if s = ra then rb else s)" if "root p i s" "i < length p" for i s
  proof (cases "ra = rb")
    case True
    then have "q = p2" using 2(6) list_update_id [of p2 ra] by (simp add: q_def)
    then show ?thesis using that roots True by simp
  next
    case False
    then show ?thesis using link_root [OF 2(6) rb2] 2(3,4) that roots by (simp add: q_def)
  qed
  have "same_tree q i j \<longleftrightarrow> same_tree p i j \<or> same_tree p i a \<and> same_tree p b j \<or> same_tree p i b \<and> same_tree p a j"
    if ij: "i < length p" "j < length p" for i j
  proof -
    obtain s t where st: "root p i s" "root p j t" using ranked_root [OF rk] ij by blast
    have "same_tree q i j \<longleftrightarrow> s = t \<or> s = ra \<and> rb = t \<or> s = rb \<and> ra = t"
      unfolding same_tree_roots [OF rq [OF st(1) ij(1)] rq [OF st(2) ij(2)]] by (rule relabel_eq)
    then show ?thesis
      unfolding same_tree_roots [OF st] same_tree_roots [OF st(1) ra] same_tree_roots [OF 1(5) st(2)]
        same_tree_roots [OF st(1) 1(5)] same_tree_roots [OF ra st(2)] .
  qed
  then show ?thesis using u fq 2(3) by (simp add: q_def)
qed

subsection \<open>What a list of unions connects\<close>

definition linked :: "(nat \<times> nat) list \<Rightarrow> (nat \<times> nat) set" where
  "linked es = (set es \<union> (set es)\<inverse>)\<^sup>*"

lemma linked_sym: "(i, j) \<in> linked es \<Longrightarrow> (j, i) \<in> linked es"
proof -
  have "sym (set es \<union> (set es)\<inverse>)" by (auto simp: sym_def)
  then show "(i, j) \<in> linked es \<Longrightarrow> (j, i) \<in> linked es" unfolding linked_def using sym_rtrancl symD by metis
qed

lemma linked_refl [simp]: "(i, i) \<in> linked es"
  by (simp add: linked_def)

lemma linked_trans: "(i, j) \<in> linked es \<Longrightarrow> (j, k) \<in> linked es \<Longrightarrow> (i, k) \<in> linked es"
  unfolding linked_def by (rule rtrancl_trans)

lemma linked_edge: "(i, j) \<in> set es \<Longrightarrow> (i, j) \<in> linked es"
  by (auto simp: linked_def)

lemma linked_snoc:
  "(i, j) \<in> linked (es @ [(a, b)]) \<longleftrightarrow>
     (i, j) \<in> linked es \<or> (i, a) \<in> linked es \<and> (b, j) \<in> linked es \<or> (i, b) \<in> linked es \<and> (a, j) \<in> linked es"
proof -
  define R where "R = set es \<union> (set es)\<inverse>"
  have "set (es @ [(a, b)]) \<union> (set (es @ [(a, b)]))\<inverse> = insert (a, b) (insert (b, a) R)" by (auto simp: R_def)
  then have "(i, j) \<in> linked (es @ [(a, b)]) \<longleftrightarrow> (i, j) \<in> (insert (b, a) R)\<^sup>* \<or> (i, a) \<in> (insert (b, a) R)\<^sup>* \<and> (b, j) \<in> (insert (b, a) R)\<^sup>*"
    unfolding linked_def by (simp add: rtrancl_insert)
  moreover have "(k, l) \<in> (insert (b, a) R)\<^sup>* \<longleftrightarrow> (k, l) \<in> linked es \<or> (k, b) \<in> linked es \<and> (a, l) \<in> linked es" for k l
    unfolding linked_def R_def [symmetric] by (simp add: rtrancl_insert)
  ultimately show ?thesis using linked_trans linked_refl by metis
qed

lemma unions_connect:
  assumes "forest p" "\<forall>(a, b)\<in>set es. a < length p \<and> b < length p"
    and "\<forall>i<length p. \<forall>j<length p. same_tree p i j \<longleftrightarrow> (i, j) \<in> linked es0"
  shows "\<exists>q. unions p es = Some q \<and> forest q \<and> length q = length p \<and>
    (\<forall>i<length p. \<forall>j<length p. same_tree q i j \<longleftrightarrow> (i, j) \<in> linked (es0 @ es))"
  using assms
proof (induction es arbitrary: p es0)
  case Nil
  then show ?case by simp
next
  case (Cons e es)
  obtain a b where e: "e = (a, b)" by fastforce
  have ab: "a < length p" "b < length p" using Cons.prems(2) e by auto
  obtain q where q: "uf_union p a b = Some q" "forest q" "length q = length p"
    "\<forall>i<length p. \<forall>j<length p. same_tree q i j \<longleftrightarrow> same_tree p i j \<or> same_tree p i a \<and> same_tree p b j \<or> same_tree p i b \<and> same_tree p a j"
    using uf_union_trees [OF Cons.prems(1) ab] by blast
  have "\<forall>i<length q. \<forall>j<length q. same_tree q i j \<longleftrightarrow> (i, j) \<in> linked (es0 @ [(a, b)])"
    using q(3,4) Cons.prems(3) ab by (simp add: linked_snoc)
  then obtain q2 where "unions q es = Some q2" "forest q2" "length q2 = length q"
    "\<forall>i<length q. \<forall>j<length q. same_tree q2 i j \<longleftrightarrow> (i, j) \<in> linked ((es0 @ [(a, b)]) @ es)"
    using Cons.IH [OF q(2), of "es0 @ [(a, b)]"] Cons.prems(2) q(3) by auto
  then show ?case using e q(1,3) by simp
qed

lemma unions_from_start:
  assumes "\<forall>(a, b)\<in>set es. a < n \<and> b < n"
  shows "\<exists>q. unions [0..<n] es = Some q \<and> forest q \<and> length q = n \<and>
    (\<forall>i<n. \<forall>j<n. same_tree q i j \<longleftrightarrow> (i, j) \<in> linked es)"
proof -
  have "forest [0..<n]" unfolding forest_def by (rule exI [of _ id]) (simp add: ranked_def)
  moreover have "same_tree [0..<n] i j \<longleftrightarrow> (i, j) \<in> linked []" if "i < n" "j < n" for i j
    using same_tree_roots [of "[0..<n]" i i j j] root_self [of "[0..<n]" i] root_self [of "[0..<n]" j] that by (auto simp: linked_def)
  ultimately show ?thesis using unions_connect [of "[0..<n]" es "[]"] assms by simp
qed

section \<open>Partitioning into islands\<close>

definition mesh_pairs :: "'f cloth_mesh \<Rightarrow> (nat \<times> nat) list" where
  "mesh_pairs m =
     concat (map (\<lambda>t. [(m_triIdx m ! (3 * t), m_triIdx m ! (3 * t + 1)), (m_triIdx m ! (3 * t), m_triIdx m ! (3 * t + 2))]) [0..<nTri m]) @
     concat (map (\<lambda>b. map (\<lambda>r. (m_bendIdx m ! (4 * b), m_bendIdx m ! (4 * b + r))) [1..<4]) [0..<nBend m])"

text \<open>Dense island numbers: \<open>rootToIsland\<close>, \<open>islandOf\<close> and the count, over the vertices left.\<close>

fun assign_islands :: "nat list \<Rightarrow> nat list \<Rightarrow> (nat \<Rightarrow> nat option) \<Rightarrow> nat \<Rightarrow> nat list \<Rightarrow> (nat list \<times> nat) option" where
  "assign_islands p islandOf rti nIsl [] = Some (islandOf, nIsl)"
| "assign_islands p islandOf rti nIsl (v # vs) =
     Option.bind (uf_find p v) (\<lambda>(p, r).
       case rti r of
         None \<Rightarrow> assign_islands p (islandOf[v := nIsl]) (rti(r := Some nIsl)) (nIsl + 1) vs
       | Some k \<Rightarrow> assign_islands p (islandOf[v := k]) rti nIsl vs)"

definition island_vertex :: "'f cloth_mesh \<Rightarrow> nat list \<Rightarrow> 'f cloth_mesh list \<times> nat list \<Rightarrow> nat \<Rightarrow> 'f cloth_mesh list \<times> nat list" where
  "island_vertex mesh islandOf s v = (case s of (out, localOf) \<Rightarrow>
     let k = islandOf ! v; im = out ! k
     in (out[k := im\<lparr>m_positions := m_positions im @ item 3 (m_positions mesh) v, m_mass := m_mass im @ [m_mass mesh ! v]\<rparr>],
         localOf[v := nVerts im]))"

definition island_tri :: "'f cloth_mesh \<Rightarrow> nat list \<Rightarrow> nat list \<Rightarrow> 'f cloth_mesh list \<Rightarrow> nat \<Rightarrow> 'f cloth_mesh list" where
  "island_tri mesh islandOf localOf out t =
     (let k = islandOf ! (m_triIdx mesh ! (3 * t)); im = out ! k
      in out[k := im\<lparr>m_triIdx := m_triIdx im @ map ((!) localOf) (item 3 (m_triIdx mesh) t),
           m_triInvUV := m_triInvUV im @ item 4 (m_triInvUV mesh) t\<rparr>])"

definition island_bend :: "'f cloth_mesh \<Rightarrow> nat list \<Rightarrow> nat list \<Rightarrow> 'f cloth_mesh list \<Rightarrow> nat \<Rightarrow> 'f cloth_mesh list" where
  "island_bend mesh islandOf localOf out b =
     (let k = islandOf ! (m_bendIdx mesh ! (4 * b)); im = out ! k
      in out[k := im\<lparr>m_bendIdx := m_bendIdx im @ map ((!) localOf) (item 4 (m_bendIdx mesh) b),
           m_bendWeight := m_bendWeight im @ item 4 (m_bendWeight mesh) b,
           m_bendNTarget := m_bendNTarget im @ [m_bendNTarget mesh ! b]\<rparr>])"

definition island_attach :: "'f cloth_mesh \<Rightarrow> nat list \<Rightarrow> nat list \<Rightarrow> 'f cloth_mesh list \<Rightarrow> nat \<Rightarrow> 'f cloth_mesh list" where
  "island_attach mesh islandOf localOf out a =
     (let v = m_attachVert mesh ! a; k = islandOf ! v; im = out ! k
      in out[k := im\<lparr>m_attachVert := m_attachVert im @ [localOf ! v],
           m_attachFixed := m_attachFixed im @ item 3 (m_attachFixed mesh) a\<rparr>])"

definition fill_islands :: "'f \<Rightarrow> 'f cloth_mesh \<Rightarrow> nat list \<Rightarrow> nat \<Rightarrow> 'f cloth_mesh list" where
  "fill_islands z mesh islandOf nIsl =
     (let (out, localOf) = foldl (island_vertex mesh islandOf) (replicate nIsl (empty_mesh z), replicate (nVerts mesh) 0) [0..<nVerts mesh];
          out = foldl (island_tri mesh islandOf localOf) out [0..<nTri mesh];
          out = foldl (island_bend mesh islandOf localOf) out [0..<nBend mesh];
          out = foldl (island_attach mesh islandOf localOf) out [0..<nAttach mesh]
      in map (\<lambda>im. im\<lparr>m_faces := m_triIdx im\<rparr>) out)"

definition partition_islands :: "'f \<Rightarrow> 'f cloth_mesh \<Rightarrow> 'f cloth_mesh list option" where
  "partition_islands z mesh =
     Option.bind (unions [0..<nVerts mesh] (mesh_pairs mesh)) (\<lambda>parent.
     Option.bind (assign_islands parent (replicate (nVerts mesh) 0) (\<lambda>r. None) 0 [0..<nVerts mesh]) (\<lambda>(islandOf, nIsl).
     Some (fill_islands z mesh islandOf nIsl)))"

subsection \<open>The island numbers\<close>

text \<open>
  After the first \<open>m\<close> vertices with the roots \<open>R\<close>: the map knows exactly their roots, each by
  the number its vertices have, and the numbers below \<open>k\<close> were given in order.
\<close>

definition numbering :: "(nat \<Rightarrow> nat) \<Rightarrow> nat \<Rightarrow> nat list \<Rightarrow> (nat \<Rightarrow> nat option) \<Rightarrow> nat \<Rightarrow> bool" where
  "numbering R m nums rti k \<longleftrightarrow>
     (\<forall>w<m. rti (R w) = Some (nums ! w)) \<and>
     (\<forall>r j. rti r = Some j \<longrightarrow> j < k \<and> (\<exists>w<m. R w = r)) \<and>
     (\<forall>r s j. rti r = Some j \<longrightarrow> rti s = Some j \<longrightarrow> r = s) \<and>
     (\<forall>j<k. \<exists>w<m. nums ! w = j) \<and>
     (\<forall>w<m. \<forall>j<nums ! w. \<exists>u<w. nums ! u = j)"

lemma numberingD:
  assumes "numbering R m nums rti k"
  shows "w < m \<Longrightarrow> rti (R w) = Some (nums ! w)"
    and "rti r = Some j \<Longrightarrow> j < k" "rti r = Some j \<Longrightarrow> \<exists>w<m. R w = r"
    and "rti r = Some j \<Longrightarrow> rti s = Some j \<Longrightarrow> r = s"
    and "j < k \<Longrightarrow> \<exists>w<m. nums ! w = j"
    and "w < m \<Longrightarrow> j < nums ! w \<Longrightarrow> \<exists>u<w. nums ! u = j"
  using assms unfolding numbering_def by blast+

lemma numbering_step_new:
  assumes "numbering R m nums rti k" "m < length nums" "rti (R m) = None"
  shows "numbering R (Suc m) (nums[m := k]) (rti(R m := Some k)) (k + 1)"
proof -
  note N = numberingD [OF assms(1)]
  have ne: "R w \<noteq> R m" if "w < m" for w using N(1) [OF that] assms(3) by auto
  have nth: "nums[m := k] ! w = nums ! w" if "w < m" for w using that by simp
  have 1: "(rti(R m := Some k)) (R w) = Some (nums[m := k] ! w)" if "w < Suc m" for w
    using N(1) ne assms(2) that by (cases "w = m") auto
  have 2: "j < k + 1 \<and> (\<exists>w<Suc m. R w = r)" if "(rti(R m := Some k)) r = Some j" for r j
    using N(2) [of r j] N(3) [of r j] that by (auto simp: less_Suc_eq split: if_splits)
  have 3: "r = s" if "(rti(R m := Some k)) r = Some j" "(rti(R m := Some k)) s = Some j" for r s j
    using N(2) [of r j] N(2) [of s j] N(4) [of r j s] that by (auto split: if_splits)
  have 4: "\<exists>w<Suc m. nums[m := k] ! w = j" if "j < k + 1" for j
  proof (cases "j = k")
    case False
    then have "\<exists>w<m. nums ! w = j" using that by (intro N(5)) simp
    then obtain w where "w < m" "nums ! w = j" by blast
    then show ?thesis by (intro exI [of _ w]) simp
  qed (use assms(2) in auto)
  have 5: "\<exists>u<w. nums[m := k] ! u = j" if w: "w < Suc m" "j < nums[m := k] ! w" for w j
  proof (cases "w = m")
    case True
    then have "j < k" using w assms(2) by simp
    then show ?thesis using N(5) [of j] nth True by fastforce
  next
    case False
    then show ?thesis using N(6) [of w j] w nth by (fastforce simp: less_Suc_eq)
  qed
  show ?thesis unfolding numbering_def using 1 2 3 4 5 by blast
qed

lemma numbering_step_old:
  assumes "numbering R m nums rti k" "m < length nums" "rti (R m) = Some i"
  shows "numbering R (Suc m) (nums[m := i]) rti k"
proof -
  note N = numberingD [OF assms(1)]
  obtain v where v: "v < m" "R v = R m" using N(3) [OF assms(3)] by blast
  then have i: "nums ! v = i" using N(1) [OF v(1)] assms(3) by simp
  have nth: "nums[m := i] ! w = nums ! w" if "w < m" for w using that by simp
  have 1: "rti (R w) = Some (nums[m := i] ! w)" if "w < Suc m" for w
    using N(1) assms(2,3) that by (cases "w = m") auto
  have 2: "j < k \<and> (\<exists>w<Suc m. R w = r)" if "rti r = Some j" for r j
    using N(2,3) [OF that] by (auto simp: less_Suc_eq)
  have 4: "\<exists>w<Suc m. nums[m := i] ! w = j" if "j < k" for j
    using N(5) [OF that] nth by (fastforce simp: less_Suc_eq)
  have 5: "\<exists>u<w. nums[m := i] ! u = j" if w: "w < Suc m" "j < nums[m := i] ! w" for w j
  proof (cases "w = m")
    case True
    then have "j < nums ! v" using w assms(2) i by simp
    then obtain u where "u < v" "nums ! u = j" using N(6) [OF v(1)] by blast
    then show ?thesis using True v nth by (intro exI [of _ u]) simp
  next
    case False
    then show ?thesis using N(6) [of w j] w nth by (fastforce simp: less_Suc_eq)
  qed
  show ?thesis unfolding numbering_def using 1 2 N(4) 4 5 by blast
qed

lemma assign_islands_runs:
  assumes "ranked rk p" "length p = n" "\<forall>i<n. root p i (R i)" "m \<le> n" "length nums = n" "numbering R m nums rti k"
  shows "\<exists>nums2 rti2 k2. assign_islands p nums rti k [m..<n] = Some (nums2, k2) \<and> length nums2 = n \<and> numbering R n nums2 rti2 k2"
  using assms
proof (induction "n - m" arbitrary: p m nums rti k)
  case 0
  then show ?case by auto
next
  case (Suc d)
  then have m: "m < n" by simp
  obtain p2 r where r: "uf_find p m = Some (p2, r)" "ranked rk p2" "length p2 = length p" "root p m r"
    "\<forall>i<length p. \<forall>s. root p2 i s \<longleftrightarrow> root p i s"
    using uf_find_root [OF Suc.prems(1), of m] m Suc.prems(2) by blast
  have R: "r = R m" using r(4) Suc.prems(3) m root_fun by blast
  have roots: "\<forall>i<n. root p2 i (R i)" using r(5) Suc.prems(2,3) by simp
  show ?case
  proof (cases "rti r")
    case None
    then have "numbering R (Suc m) (nums[m := k]) (rti(r := Some k)) (k + 1)"
      using numbering_step_new [OF Suc.prems(6)] m Suc.prems(5) R by simp
    then obtain nums2 rti2 k2 where "assign_islands p2 (nums[m := k]) (rti(r := Some k)) (k + 1) [Suc m..<n] = Some (nums2, k2)"
        "length nums2 = n" "numbering R n nums2 rti2 k2"
      using Suc.hyps(1) [OF _ r(2) _ roots, of "Suc m" "nums[m := k]"] Suc.hyps(2) Suc.prems(2,5) m r(3) by force
    then show ?thesis using None r(1) m by (auto simp: upt_conv_Cons)
  next
    case (Some i)
    then have "numbering R (Suc m) (nums[m := i]) rti k"
      using numbering_step_old [OF Suc.prems(6)] m Suc.prems(5) R by simp
    then obtain nums2 rti2 k2 where "assign_islands p2 (nums[m := i]) rti k [Suc m..<n] = Some (nums2, k2)"
        "length nums2 = n" "numbering R n nums2 rti2 k2"
      using Suc.hyps(1) [OF _ r(2) _ roots, of "Suc m" "nums[m := i]"] Suc.hyps(2) Suc.prems(2,5) m r(3) by force
    then show ?thesis using Some r(1) m by (auto simp: upt_conv_Cons)
  qed
qed

subsection \<open>Filling the buckets\<close>

text \<open>
  A loop that appends to the bucket its key names leaves in a bucket what the elements of its
  key put there, in order.
\<close>

lemma length_buckets: "length (foldl (\<lambda>ms x. ms[key x := app x (ms ! key x)]) out xs) = length out"
  by (induction xs arbitrary: out) simp_all

lemma bucket_nth:
  "k < length out \<Longrightarrow>
   foldl (\<lambda>ms x. ms[key x := app x (ms ! key x)]) out xs ! k = foldl (\<lambda>im x. app x im) (out ! k) (filter (\<lambda>x. key x = k) xs)"
proof (induction xs arbitrary: out)
  case (Cons x xs)
  then show ?case by (cases "key x = k") simp_all
qed simp

text \<open>The vertices, triangles and stencils of island \<open>k\<close>, and the number of a vertex in it.\<close>

definition members :: "nat list \<Rightarrow> nat \<Rightarrow> nat list" where
  "members nums k = filter (\<lambda>v. nums ! v = k) [0..<length nums]"

definition local_no :: "nat list \<Rightarrow> nat \<Rightarrow> nat" where
  "local_no nums v = length (filter (\<lambda>w. nums ! w = nums ! v) [0..<v])"

definition pick :: "nat \<Rightarrow> nat list \<Rightarrow> nat list \<Rightarrow> nat \<Rightarrow> nat \<Rightarrow> nat list" where
  "pick g nums idx n k = filter (\<lambda>i. nums ! (idx ! (g * i)) = k) [0..<n]"

definition island_mesh :: "'f \<Rightarrow> 'f cloth_mesh \<Rightarrow> nat list \<Rightarrow> nat \<Rightarrow> 'f cloth_mesh" where
  "island_mesh z m nums k =
     (let ts = pick 3 nums (m_triIdx m) (nTri m) k; bs = pick 4 nums (m_bendIdx m) (nBend m) k;
          as = pick 1 nums (m_attachVert m) (nAttach m) k;
          tri = map (local_no nums) (concat (map (item 3 (m_triIdx m)) ts))
      in (empty_mesh z)\<lparr>m_positions := concat (map (item 3 (m_positions m)) (members nums k)),
           m_mass := map ((!) (m_mass m)) (members nums k),
           m_triIdx := tri,
           m_triInvUV := concat (map (item 4 (m_triInvUV m)) ts),
           m_bendIdx := map (local_no nums) (concat (map (item 4 (m_bendIdx m)) bs)),
           m_bendWeight := concat (map (item 4 (m_bendWeight m)) bs),
           m_bendNTarget := map ((!) (m_bendNTarget m)) bs,
           m_attachVert := map (local_no nums) (map ((!) (m_attachVert m)) as),
           m_attachFixed := concat (map (item 3 (m_attachFixed m)) as),
           m_faces := tri\<rparr>)"

lemma length_item [simp]: "length (item k xs i) = k"
  by (simp add: item_def)

text \<open>The vertex loop: its buckets, and the local number each vertex got.\<close>

lemma add_vertices:
  "foldl (\<lambda>im v. im\<lparr>m_positions := m_positions im @ item 3 P v, m_mass := m_mass im @ [M ! v]\<rparr>) im vs =
   im\<lparr>m_positions := m_positions im @ concat (map (item 3 P) vs), m_mass := m_mass im @ map ((!) M) vs\<rparr>"
  by (induction vs arbitrary: im) simp_all

lemma nVerts_added: "nVerts (im\<lparr>m_positions := m_positions im @ concat (map (item 3 P) vs), m_mass := M\<rparr>) = nVerts im + length vs"
proof -
  have "length (concat (map (item 3 P) vs)) = length vs * 3" by (induction vs) simp_all
  then show ?thesis by (simp add: nVerts_def)
qed

lemma vertex_loop:
  assumes "length nums = nVerts m" "\<forall>v<nVerts m. nums ! v < n" "j \<le> nVerts m"
  shows "foldl (island_vertex m nums) (replicate n (empty_mesh z), replicate (nVerts m) 0) [0..<j] =
    (foldl (\<lambda>ms v. ms[nums ! v := (\<lambda>v im. im\<lparr>m_positions := m_positions im @ item 3 (m_positions m) v, m_mass := m_mass im @ [m_mass m ! v]\<rparr>) v (ms ! (nums ! v))])
        (replicate n (empty_mesh z)) [0..<j],
     map (\<lambda>v. if v < j then local_no nums v else 0) [0..<nVerts m])"
  using assms(3)
proof (induction j)
  case 0
  then show ?case by (simp add: map_replicate_const)
next
  case (Suc j)
  let ?app = "\<lambda>v im. im\<lparr>m_positions := m_positions im @ item 3 (m_positions m) v, m_mass := m_mass im @ [m_mass m ! v]\<rparr>"
  let ?out = "foldl (\<lambda>ms v. ms[nums ! v := ?app v (ms ! (nums ! v))]) (replicate n (empty_mesh z)) [0..<j]"
  have "nums ! j < n" using Suc.prems assms(2) by simp
  then have "?out ! (nums ! j) = foldl (\<lambda>im v. ?app v im) (empty_mesh z) (filter (\<lambda>v. nums ! v = nums ! j) [0..<j])"
    using bucket_nth [of "nums ! j" "replicate n (empty_mesh z)" "(!) nums" ?app "[0..<j]"] by simp
  then have "nVerts (?out ! (nums ! j)) = nVerts (empty_mesh z) + length (filter (\<lambda>v. nums ! v = nums ! j) [0..<j])"
    by (simp only: add_vertices nVerts_added)
  then have "nVerts (?out ! (nums ! j)) = local_no nums j" by (simp add: local_no_def nVerts_def empty_mesh_def)
  moreover have "(map (\<lambda>v. if v < j then local_no nums v else 0) [0..<nVerts m])[j := local_no nums j] =
      map (\<lambda>v. if v < Suc j then local_no nums v else 0) [0..<nVerts m]"
    using Suc.prems by (intro nth_equalityI) (auto simp: nth_list_update less_Suc_eq)
  ultimately show ?case using Suc by (simp add: island_vertex_def Let_def)
qed

text \<open>The other loops, on one bucket.\<close>

lemma add_tris:
  "foldl (\<lambda>im t. im\<lparr>m_triIdx := m_triIdx im @ map L (item 3 T t), m_triInvUV := m_triInvUV im @ item 4 U t\<rparr>) im ts =
   im\<lparr>m_triIdx := m_triIdx im @ map L (concat (map (item 3 T) ts)), m_triInvUV := m_triInvUV im @ concat (map (item 4 U) ts)\<rparr>"
  by (induction ts arbitrary: im) simp_all

lemma add_bends:
  "foldl (\<lambda>im b. im\<lparr>m_bendIdx := m_bendIdx im @ map L (item 4 B b), m_bendWeight := m_bendWeight im @ item 4 W b,
       m_bendNTarget := m_bendNTarget im @ [N ! b]\<rparr>) im bs =
   im\<lparr>m_bendIdx := m_bendIdx im @ map L (concat (map (item 4 B) bs)), m_bendWeight := m_bendWeight im @ concat (map (item 4 W) bs),
     m_bendNTarget := m_bendNTarget im @ map ((!) N) bs\<rparr>"
  by (induction bs arbitrary: im) simp_all

lemma add_attachs:
  "foldl (\<lambda>im a. im\<lparr>m_attachVert := m_attachVert im @ [L (A ! a)], m_attachFixed := m_attachFixed im @ item 3 F a\<rparr>) im as =
   im\<lparr>m_attachVert := m_attachVert im @ map L (map ((!) A) as), m_attachFixed := m_attachFixed im @ concat (map (item 3 F) as)\<rparr>"
  by (induction as arbitrary: im) simp_all

text \<open>A well-formed mesh: the arrays agree in length and every index is a vertex.\<close>

definition valid_mesh :: "'f cloth_mesh \<Rightarrow> bool" where
  "valid_mesh m \<longleftrightarrow>
     length (m_positions m) = 3 * nVerts m \<and> length (m_mass m) = nVerts m \<and>
     length (m_triIdx m) = 3 * nTri m \<and> length (m_triInvUV m) = 4 * nTri m \<and>
     length (m_bendIdx m) = 4 * nBend m \<and> length (m_bendWeight m) = 4 * nBend m \<and>
     length (m_attachFixed m) = 3 * nAttach m \<and>
     list_all (\<lambda>v. v < nVerts m) (m_triIdx m) \<and> list_all (\<lambda>v. v < nVerts m) (m_bendIdx m) \<and>
     list_all (\<lambda>v. v < nVerts m) (m_attachVert m)"

lemma valid_indices:
  assumes "valid_mesh m"
  shows "t < nTri m \<Longrightarrow> r < 3 \<Longrightarrow> m_triIdx m ! (3 * t + r) < nVerts m"
    and "b < nBend m \<Longrightarrow> s < 4 \<Longrightarrow> m_bendIdx m ! (4 * b + s) < nVerts m"
    and "a < nAttach m \<Longrightarrow> m_attachVert m ! a < nVerts m"
  using assms by (auto simp: valid_mesh_def list_all_length nAttach_def)

lemma items_range:
  assumes "valid_mesh m"
  shows "i < nTri m \<Longrightarrow> v \<in> set (item 3 (m_triIdx m) i) \<Longrightarrow> v < nVerts m"
    and "i < nBend m \<Longrightarrow> v \<in> set (item 4 (m_bendIdx m) i) \<Longrightarrow> v < nVerts m"
  using valid_indices(1,2) [OF assms] by (auto simp: item_def)

text \<open>One bucket after the three loops over the constraints.\<close>

lemma local_items:
  assumes "\<forall>v<n. loc ! v = L v" "\<forall>i<c. \<forall>r<g. idx ! (g * i + r) < n" "i < c"
  shows "map ((!) loc) (item g idx i) = map L (item g idx i)"
  using assms by (auto simp: item_def)

lemma bucket_loop:
  assumes "\<And>ms i. i < c \<Longrightarrow> f ms i = ms[key i := app i (ms ! key i)]"
  shows "length (foldl f out [0..<c]) = length out"
    and "k < length out \<Longrightarrow> foldl f out [0..<c] ! k = foldl (\<lambda>im i. app i im) (out ! k) (filter (\<lambda>i. key i = k) [0..<c])"
proof -
  have "foldl f out [0..<c] = foldl (\<lambda>ms i. ms[key i := app i (ms ! key i)]) out [0..<c]"
    by (rule foldl_cong) (use assms in auto)
  then show "length (foldl f out [0..<c]) = length out"
    "k < length out \<Longrightarrow> foldl f out [0..<c] ! k = foldl (\<lambda>im i. app i im) (out ! k) (filter (\<lambda>i. key i = k) [0..<c])"
    using length_buckets [of key app out "[0..<c]"] bucket_nth [of k out key app "[0..<c]"] by simp_all
qed

lemma tri_loop:
  assumes m: "valid_mesh m" and L: "\<forall>v<nVerts m. loc ! v = local_no nums v"
  shows "length (foldl (island_tri m nums loc) out [0..<nTri m]) = length out"
    and "k < length out \<Longrightarrow> foldl (island_tri m nums loc) out [0..<nTri m] ! k = (out ! k)
      \<lparr>m_triIdx := m_triIdx (out ! k) @ map (local_no nums) (concat (map (item 3 (m_triIdx m)) (pick 3 nums (m_triIdx m) (nTri m) k))),
       m_triInvUV := m_triInvUV (out ! k) @ concat (map (item 4 (m_triInvUV m)) (pick 3 nums (m_triIdx m) (nTri m) k))\<rparr>"
proof -
  let ?app = "\<lambda>t im. im\<lparr>m_triIdx := m_triIdx im @ map (local_no nums) (item 3 (m_triIdx m) t), m_triInvUV := m_triInvUV im @ item 4 (m_triInvUV m) t\<rparr>"
  have "map ((!) loc) (item 3 (m_triIdx m) t) = map (local_no nums) (item 3 (m_triIdx m) t)" if "t < nTri m" for t
    using local_items [OF L _ that] valid_indices(1) [OF m] by blast
  then have "island_tri m nums loc ms t = ms[nums ! (m_triIdx m ! (3 * t)) := ?app t (ms ! (nums ! (m_triIdx m ! (3 * t))))]" if "t < nTri m" for ms t
    using that by (simp only: island_tri_def Let_def)
  note loop = bucket_loop [where f = "island_tri m nums loc" and key = "\<lambda>t. nums ! (m_triIdx m ! (3 * t))" and app = ?app, OF this]
  show "length (foldl (island_tri m nums loc) out [0..<nTri m]) = length out"
    "k < length out \<Longrightarrow> foldl (island_tri m nums loc) out [0..<nTri m] ! k = (out ! k)
      \<lparr>m_triIdx := m_triIdx (out ! k) @ map (local_no nums) (concat (map (item 3 (m_triIdx m)) (pick 3 nums (m_triIdx m) (nTri m) k))),
       m_triInvUV := m_triInvUV (out ! k) @ concat (map (item 4 (m_triInvUV m)) (pick 3 nums (m_triIdx m) (nTri m) k))\<rparr>"
    using loop [where out = out] by (simp_all only: add_tris pick_def)
qed

lemma bend_loop:
  assumes m: "valid_mesh m" and L: "\<forall>v<nVerts m. loc ! v = local_no nums v"
  shows "length (foldl (island_bend m nums loc) out [0..<nBend m]) = length out"
    and "k < length out \<Longrightarrow> foldl (island_bend m nums loc) out [0..<nBend m] ! k = (out ! k)
      \<lparr>m_bendIdx := m_bendIdx (out ! k) @ map (local_no nums) (concat (map (item 4 (m_bendIdx m)) (pick 4 nums (m_bendIdx m) (nBend m) k))),
       m_bendWeight := m_bendWeight (out ! k) @ concat (map (item 4 (m_bendWeight m)) (pick 4 nums (m_bendIdx m) (nBend m) k)),
       m_bendNTarget := m_bendNTarget (out ! k) @ map ((!) (m_bendNTarget m)) (pick 4 nums (m_bendIdx m) (nBend m) k)\<rparr>"
proof -
  let ?app = "\<lambda>b im. im\<lparr>m_bendIdx := m_bendIdx im @ map (local_no nums) (item 4 (m_bendIdx m) b),
    m_bendWeight := m_bendWeight im @ item 4 (m_bendWeight m) b, m_bendNTarget := m_bendNTarget im @ [m_bendNTarget m ! b]\<rparr>"
  have "map ((!) loc) (item 4 (m_bendIdx m) t) = map (local_no nums) (item 4 (m_bendIdx m) t)" if "t < nBend m" for t
    using local_items [OF L _ that] valid_indices(2) [OF m] by blast
  then have "island_bend m nums loc ms t = ms[nums ! (m_bendIdx m ! (4 * t)) := ?app t (ms ! (nums ! (m_bendIdx m ! (4 * t))))]" if "t < nBend m" for ms t
    using that by (simp only: island_bend_def Let_def)
  note loop = bucket_loop [where f = "island_bend m nums loc" and key = "\<lambda>t. nums ! (m_bendIdx m ! (4 * t))" and app = ?app, OF this]
  show "length (foldl (island_bend m nums loc) out [0..<nBend m]) = length out"
    "k < length out \<Longrightarrow> foldl (island_bend m nums loc) out [0..<nBend m] ! k = (out ! k)
      \<lparr>m_bendIdx := m_bendIdx (out ! k) @ map (local_no nums) (concat (map (item 4 (m_bendIdx m)) (pick 4 nums (m_bendIdx m) (nBend m) k))),
       m_bendWeight := m_bendWeight (out ! k) @ concat (map (item 4 (m_bendWeight m)) (pick 4 nums (m_bendIdx m) (nBend m) k)),
       m_bendNTarget := m_bendNTarget (out ! k) @ map ((!) (m_bendNTarget m)) (pick 4 nums (m_bendIdx m) (nBend m) k)\<rparr>"
    using loop [where out = out] by (simp_all only: add_bends pick_def)
qed

lemma attach_loop:
  assumes m: "valid_mesh m" and L: "\<forall>v<nVerts m. loc ! v = local_no nums v"
  shows "length (foldl (island_attach m nums loc) out [0..<nAttach m]) = length out"
    and "k < length out \<Longrightarrow> foldl (island_attach m nums loc) out [0..<nAttach m] ! k = (out ! k)
      \<lparr>m_attachVert := m_attachVert (out ! k) @ map (local_no nums) (map ((!) (m_attachVert m)) (pick 1 nums (m_attachVert m) (nAttach m) k)),
       m_attachFixed := m_attachFixed (out ! k) @ concat (map (item 3 (m_attachFixed m)) (pick 1 nums (m_attachVert m) (nAttach m) k))\<rparr>"
proof -
  let ?app = "\<lambda>a im. im\<lparr>m_attachVert := m_attachVert im @ [local_no nums (m_attachVert m ! a)], m_attachFixed := m_attachFixed im @ item 3 (m_attachFixed m) a\<rparr>"
  have "island_attach m nums loc ms t = ms[nums ! (m_attachVert m ! (1 * t)) := ?app t (ms ! (nums ! (m_attachVert m ! (1 * t))))]" if "t < nAttach m" for ms t
    using L valid_indices(3) [OF m that] by (simp add: island_attach_def Let_def)
  note loop = bucket_loop [where f = "island_attach m nums loc" and key = "\<lambda>t. nums ! (m_attachVert m ! (1 * t))" and app = ?app, OF this]
  show "length (foldl (island_attach m nums loc) out [0..<nAttach m]) = length out"
    "k < length out \<Longrightarrow> foldl (island_attach m nums loc) out [0..<nAttach m] ! k = (out ! k)
      \<lparr>m_attachVert := m_attachVert (out ! k) @ map (local_no nums) (map ((!) (m_attachVert m)) (pick 1 nums (m_attachVert m) (nAttach m) k)),
       m_attachFixed := m_attachFixed (out ! k) @ concat (map (item 3 (m_attachFixed m)) (pick 1 nums (m_attachVert m) (nAttach m) k))\<rparr>"
    using loop [where out = out] by (simp_all only: add_attachs pick_def)
qed

lemma fill_islands_meshes:
  assumes m: "valid_mesh m" and nums: "length nums = nVerts m" "\<forall>v<nVerts m. nums ! v < n"
  shows "fill_islands z m nums n = map (island_mesh z m nums) [0..<n]"
proof -
  let ?V = "\<lambda>v im. im\<lparr>m_positions := m_positions im @ item 3 (m_positions m) v, m_mass := m_mass im @ [m_mass m ! v]\<rparr>"
  define out1 where "out1 = foldl (\<lambda>ms v. ms[nums ! v := ?V v (ms ! (nums ! v))]) (replicate n (empty_mesh z)) [0..<nVerts m]"
  define loc where "loc = map (local_no nums) [0..<nVerts m]"
  define out2 where "out2 = foldl (island_tri m nums loc) out1 [0..<nTri m]"
  define out3 where "out3 = foldl (island_bend m nums loc) out2 [0..<nBend m]"
  define out4 where "out4 = foldl (island_attach m nums loc) out3 [0..<nAttach m]"
  have L: "\<forall>v<nVerts m. loc ! v = local_no nums v" by (simp add: loc_def)
  have loop1: "foldl (island_vertex m nums) (replicate n (empty_mesh z), replicate (nVerts m) 0) [0..<nVerts m] = (out1, loc)"
    using vertex_loop [OF nums order_refl, of z] by (simp add: out1_def loc_def cong: map_cong)
  have 1: "length out1 = n" "k < n \<Longrightarrow> out1 ! k = (empty_mesh z)\<lparr>m_positions := concat (map (item 3 (m_positions m)) (members nums k)),
      m_mass := map ((!) (m_mass m)) (members nums k)\<rparr>" for k
    using length_buckets [of "(!) nums" ?V "replicate n (empty_mesh z)" "[0..<nVerts m]"]
      bucket_nth [of k "replicate n (empty_mesh z)" "(!) nums" ?V "[0..<nVerts m]"]
    by (simp_all add: out1_def add_vertices members_def nums(1) empty_mesh_def)
  note t = tri_loop [OF m L, where out = out1, folded out2_def] and b = bend_loop [OF m L, where out = out2, folded out3_def]
    and a = attach_loop [OF m L, where out = out3, folded out4_def]
  have len: "length out2 = n" "length out3 = n" "length out4 = n" using t(1) b(1) a(1) 1(1) by simp_all
  have "(out4 ! k)\<lparr>m_faces := m_triIdx (out4 ! k)\<rparr> = island_mesh z m nums k" if "k < n" for k
    using 1(2) [OF that] t(2) [where k = k] b(2) [where k = k] a(2) [where k = k] len 1(1) that
    by (simp add: island_mesh_def Let_def empty_mesh_def)
  then show ?thesis
    using len loop1 by (intro nth_equalityI)
      (simp_all add: fill_islands_def Let_def out2_def [symmetric] out3_def [symmetric] out4_def [symmetric])
qed

subsection \<open>The islands are the connected components\<close>

lemma mesh_pairs_range:
  assumes "valid_mesh m"
  shows "\<forall>(a, b)\<in>set (mesh_pairs m). a < nVerts m \<and> b < nVerts m"
  using valid_indices(1) [OF assms, of _ 0] valid_indices(1) [OF assms, of _ 1] valid_indices(1) [OF assms, of _ 2]
    valid_indices(2) [OF assms, of _ 0] valid_indices(2) [OF assms] unfolding mesh_pairs_def by auto

lemma tri_linked: "t < nTri m \<Longrightarrow> r < 3 \<Longrightarrow> (m_triIdx m ! (3 * t), m_triIdx m ! (3 * t + r)) \<in> linked (mesh_pairs m)"
proof -
  assume t: "t < nTri m" "r < 3"
  then consider "r = 0" | "(m_triIdx m ! (3 * t), m_triIdx m ! (3 * t + r)) \<in> set (mesh_pairs m)"
    unfolding mesh_pairs_def by (fastforce simp: numeral_3_eq_3 less_Suc_eq)
  then show ?thesis using linked_edge by cases auto
qed

lemma bend_linked:
  assumes "b < nBend m" "r < 4"
  shows "(m_bendIdx m ! (4 * b), m_bendIdx m ! (4 * b + r)) \<in> linked (mesh_pairs m)"
proof (cases "r = 0")
  case False
  then have i: "(m_bendIdx m ! (4 * b), m_bendIdx m ! (4 * b + r)) \<in> (\<lambda>s. (m_bendIdx m ! (4 * b), m_bendIdx m ! (4 * b + s))) ` {Suc 0..<4}"
    using assms by (intro image_eqI [of _ _ r]) auto
  have "(m_bendIdx m ! (4 * b), m_bendIdx m ! (4 * b + r)) \<in> set (mesh_pairs m)"
    unfolding mesh_pairs_def using assms by (simp del: image_iff) (intro disjI2 bexI [of _ b], rule i, simp)
  then show ?thesis by (rule linked_edge)
qed simp

text \<open>What the numbers of \<open>partition_islands\<close> are: the components, counted by their first vertices.\<close>

definition component_numbers :: "'f cloth_mesh \<Rightarrow> nat list \<Rightarrow> nat \<Rightarrow> bool" where
  "component_numbers m nums n \<longleftrightarrow>
     length nums = nVerts m \<and> (\<forall>v<nVerts m. nums ! v < n) \<and> (\<forall>k<n. \<exists>v<nVerts m. nums ! v = k) \<and>
     (\<forall>v<nVerts m. \<forall>w<nVerts m. nums ! v = nums ! w \<longleftrightarrow> (v, w) \<in> linked (mesh_pairs m)) \<and>
     (\<forall>v<nVerts m. \<forall>j<nums ! v. \<exists>u<v. nums ! u = j)"

lemma partition_islands_runs:
  assumes "valid_mesh m"
  shows "\<exists>nums n. component_numbers m nums n \<and> partition_islands z m = Some (map (island_mesh z m nums) [0..<n])"
proof -
  let ?n = "nVerts m"
  obtain q where q: "unions [0..<?n] (mesh_pairs m) = Some q" "forest q" "length q = ?n"
    "\<forall>i<?n. \<forall>j<?n. same_tree q i j \<longleftrightarrow> (i, j) \<in> linked (mesh_pairs m)"
    using unions_from_start [OF mesh_pairs_range [OF assms]] by blast
  obtain rk where rk: "ranked rk q" using q(2) unfolding forest_def by blast
  obtain R where R: "\<forall>i<?n. root q i (R i)" using ranked_root [OF rk] q(3) by metis
  have "numbering R 0 (replicate ?n 0) (\<lambda>r. None) 0" by (simp add: numbering_def)
  from assign_islands_runs [OF rk q(3) R le0 _ this]
  obtain nums rti n where a: "assign_islands q (replicate ?n 0) (\<lambda>r. None) 0 [0..<?n] = Some (nums, n)" "length nums = ?n"
      "numbering R ?n nums rti n" by auto
  note N = numberingD [OF a(3)]
  have "nums ! v = nums ! w \<longleftrightarrow> (v, w) \<in> linked (mesh_pairs m)" if "v < ?n" "w < ?n" for v w
  proof -
    have "nums ! v = nums ! w \<longleftrightarrow> R v = R w" using N(1) [OF that(1)] N(1) [OF that(2)] N(4) [of "R v" "nums ! v" "R w"] by auto
    then show ?thesis using same_tree_roots [of q v "R v" w "R w"] R q(4) that by simp
  qed
  moreover have range: "\<forall>v<?n. nums ! v < n" using N(1,2) by blast
  ultimately have "component_numbers m nums n" using N(5,6) a(2) unfolding component_numbers_def by blast
  moreover have "partition_islands z m = Some (map (island_mesh z m nums) [0..<n])"
    using q(1) a(1) fill_islands_meshes [OF assms a(2) range] by (simp add: partition_islands_def)
  ultimately show ?thesis by blast
qed


subsection \<open>An island is a mesh of its own\<close>

lemma filter_upt_nth:
  "P v \<Longrightarrow> v < n \<Longrightarrow> filter P [0..<n] ! length (filter P [0..<v]) = v"
proof -
  assume v: "P v" "v < n"
  then have "[0..<n] = [0..<v] @ v # [Suc v..<n]" by (metis le0 less_imp_le_nat upt_add_eq_append upt_conv_Cons le_add_diff_inverse add_0)
  then show ?thesis using v(1) by (simp add: nth_append)
qed

lemma filter_upt_less: "P v \<Longrightarrow> v < n \<Longrightarrow> length (filter P [0..<v]) < length (filter P [0..<n])"
proof -
  assume v: "P v" "v < n"
  then have "[0..<n] = [0..<v] @ v # [Suc v..<n]" by (metis le0 less_imp_le_nat upt_add_eq_append upt_conv_Cons le_add_diff_inverse add_0)
  then show ?thesis using v(1) by simp
qed

lemma local_no_member:
  assumes "v < length nums"
  shows "local_no nums v < length (members nums (nums ! v))" "members nums (nums ! v) ! local_no nums v = v"
  using filter_upt_nth [of "\<lambda>w. nums ! w = nums ! v" v] filter_upt_less [of "\<lambda>w. nums ! w = nums ! v" v] assms
  by (simp_all add: local_no_def members_def)

lemma length_concat_item: "length (concat (map (item g xs) is)) = g * length is"
  by (induction "is") simp_all

lemma nth_concat_items:
  assumes "\<forall>i\<in>set is. \<forall>r<g. P (xs ! (g * i + r))"
  shows "list_all P (concat (map (item g xs) is))"
  using assms by (induction "is") (auto simp: item_def list_all_iff)

text \<open>The vertices of a constraint that is put into island \<open>k\<close> are all in island \<open>k\<close>.\<close>

lemma picked_members:
  assumes m: "valid_mesh m" and c: "component_numbers m nums n"
  shows "t \<in> set (pick 3 nums (m_triIdx m) (nTri m) k) \<Longrightarrow> r < 3 \<Longrightarrow> nums ! (m_triIdx m ! (3 * t + r)) = k"
    and "b \<in> set (pick 4 nums (m_bendIdx m) (nBend m) k) \<Longrightarrow> s < 4 \<Longrightarrow> nums ! (m_bendIdx m ! (4 * b + s)) = k"
proof -
  have same: "nums ! v = nums ! w" if "(v, w) \<in> linked (mesh_pairs m)" "v < nVerts m" "w < nVerts m" for v w
    using that c unfolding component_numbers_def by blast
  show "nums ! (m_triIdx m ! (3 * t + r)) = k" if "t \<in> set (pick 3 nums (m_triIdx m) (nTri m) k)" "r < 3"
    using same [OF tri_linked [of t m r]] valid_indices(1) [OF m, of t 0] valid_indices(1) [OF m, of t r] that by (simp add: pick_def)
  show "nums ! (m_bendIdx m ! (4 * b + s)) = k" if "b \<in> set (pick 4 nums (m_bendIdx m) (nBend m) k)" "s < 4"
    using same [OF bend_linked [of b m s]] valid_indices(2) [OF m, of b 0] valid_indices(2) [OF m, of b s] that by (simp add: pick_def)
qed

lemma island_sizes:
  "nVerts (island_mesh z m nums k) = length (members nums k)"
  "nTri (island_mesh z m nums k) = length (pick 3 nums (m_triIdx m) (nTri m) k)"
  "nBend (island_mesh z m nums k) = length (pick 4 nums (m_bendIdx m) (nBend m) k)"
  "nAttach (island_mesh z m nums k) = length (pick 1 nums (m_attachVert m) (nAttach m) k)"
  by (simp_all add: island_mesh_def Let_def nVerts_def nTri_def nBend_def nAttach_def length_concat_item)

lemma local_in_island:
  assumes "list_all (\<lambda>v. v < length nums \<and> nums ! v = k) vs"
  shows "list_all (\<lambda>i. i < length (members nums k)) (map (local_no nums) vs) \<and> map ((!) (members nums k)) (map (local_no nums) vs) = vs"
  using assms local_no_member [of _ nums] by (induction vs) auto

lemma island_valid:
  assumes m: "valid_mesh m" and c: "component_numbers m nums n"
  shows "valid_mesh (island_mesh z m nums k)"
    and "map ((!) (members nums k)) (m_triIdx (island_mesh z m nums k)) = concat (map (item 3 (m_triIdx m)) (pick 3 nums (m_triIdx m) (nTri m) k))"
    and "map ((!) (members nums k)) (m_bendIdx (island_mesh z m nums k)) = concat (map (item 4 (m_bendIdx m)) (pick 4 nums (m_bendIdx m) (nBend m) k))"
    and "map ((!) (members nums k)) (m_attachVert (island_mesh z m nums k)) = map ((!) (m_attachVert m)) (pick 1 nums (m_attachVert m) (nAttach m) k)"
proof -
  let ?N = "length (members nums k)"
  have len: "length nums = nVerts m" using c by (simp add: component_numbers_def)
  have pickD: "i < c" if "i \<in> set (pick g nums idx c k)" for g idx c i using that by (simp add: pick_def)
  have tri: "list_all (\<lambda>v. v < length nums \<and> nums ! v = k) (concat (map (item 3 (m_triIdx m)) (pick 3 nums (m_triIdx m) (nTri m) k)))"
    by (intro nth_concat_items) (use picked_members [OF m c] valid_indices(1) [OF m] pickD len in auto)
  have bend: "list_all (\<lambda>v. v < length nums \<and> nums ! v = k) (concat (map (item 4 (m_bendIdx m)) (pick 4 nums (m_bendIdx m) (nBend m) k)))"
    by (intro nth_concat_items) (use picked_members [OF m c] valid_indices(2) [OF m] pickD len in auto)
  have att: "list_all (\<lambda>v. v < length nums \<and> nums ! v = k) (map ((!) (m_attachVert m)) (pick 1 nums (m_attachVert m) (nAttach m) k))"
    using valid_indices(3) [OF m] len by (auto simp: list_all_iff pick_def)
  show "map ((!) (members nums k)) (m_triIdx (island_mesh z m nums k)) = concat (map (item 3 (m_triIdx m)) (pick 3 nums (m_triIdx m) (nTri m) k))"
    using local_in_island [OF tri] by (simp add: island_mesh_def Let_def)
  show "map ((!) (members nums k)) (m_bendIdx (island_mesh z m nums k)) = concat (map (item 4 (m_bendIdx m)) (pick 4 nums (m_bendIdx m) (nBend m) k))"
    using local_in_island [OF bend] by (simp add: island_mesh_def Let_def)
  show "map ((!) (members nums k)) (m_attachVert (island_mesh z m nums k)) = map ((!) (m_attachVert m)) (pick 1 nums (m_attachVert m) (nAttach m) k)"
    using local_in_island [OF att] by (simp add: island_mesh_def Let_def)
  show "valid_mesh (island_mesh z m nums k)"
    unfolding valid_mesh_def island_sizes using local_in_island [OF tri] local_in_island [OF bend] local_in_island [OF att]
    by (simp add: island_mesh_def Let_def length_concat_item)
qed

text \<open>The part of a mesh on the vertices \<open>vs\<close>: their rows, and the constraints whose first vertex is one of them.\<close>

definition part_on :: "'f cloth_mesh \<Rightarrow> nat list \<Rightarrow> 'f cloth_mesh \<Rightarrow> bool" where
  "part_on m vs im \<longleftrightarrow>
     (let ts = filter (\<lambda>t. m_triIdx m ! (3 * t) \<in> set vs) [0..<nTri m];
          bs = filter (\<lambda>b. m_bendIdx m ! (4 * b) \<in> set vs) [0..<nBend m];
          as = filter (\<lambda>a. m_attachVert m ! a \<in> set vs) [0..<nAttach m]
      in m_positions im = concat (map (item 3 (m_positions m)) vs) \<and> m_mass im = map ((!) (m_mass m)) vs \<and>
         map ((!) vs) (m_triIdx im) = concat (map (item 3 (m_triIdx m)) ts) \<and>
         m_triInvUV im = concat (map (item 4 (m_triInvUV m)) ts) \<and> m_faces im = m_triIdx im \<and>
         map ((!) vs) (m_bendIdx im) = concat (map (item 4 (m_bendIdx m)) bs) \<and>
         m_bendWeight im = concat (map (item 4 (m_bendWeight m)) bs) \<and> m_bendNTarget im = map ((!) (m_bendNTarget m)) bs \<and>
         map ((!) vs) (m_attachVert im) = map ((!) (m_attachVert m)) as \<and>
         m_attachFixed im = concat (map (item 3 (m_attachFixed m)) as))"

lemma island_part_on:
  assumes m: "valid_mesh m" and c: "component_numbers m nums n"
  shows "part_on m (members nums k) (island_mesh z m nums k)"
proof -
  have len: "length nums = nVerts m" using c by (simp add: component_numbers_def)
  have mem: "v \<in> set (members nums k) \<longleftrightarrow> nums ! v = k" if "v < nVerts m" for v using that len by (auto simp: members_def)
  have t: "filter (\<lambda>t. m_triIdx m ! (3 * t) \<in> set (members nums k)) [0..<nTri m] = pick 3 nums (m_triIdx m) (nTri m) k"
    and b: "filter (\<lambda>b. m_bendIdx m ! (4 * b) \<in> set (members nums k)) [0..<nBend m] = pick 4 nums (m_bendIdx m) (nBend m) k"
    and a: "filter (\<lambda>a. m_attachVert m ! a \<in> set (members nums k)) [0..<nAttach m] = pick 1 nums (m_attachVert m) (nAttach m) k"
    unfolding pick_def using mem valid_indices(1) [OF m, of _ 0] valid_indices(2) [OF m, of _ 0] valid_indices(3) [OF m]
    by (auto intro!: filter_cong)
  show ?thesis
    unfolding part_on_def Let_def t b a island_valid(2,3,4) [OF m c] by (simp add: island_mesh_def Let_def)
qed

text \<open>
  C31: the islands split the mesh. Every vertex is in exactly one of them; an island is a
  well-formed mesh of its vertices' rows, in their order, with exactly the triangles, stencils and
  attachments whose first vertex is its own, in their order and with all their data; and each
  index of an island, read among its vertices, is the mesh's index.
\<close>

theorem island_indices:
  assumes m: "valid_mesh m" and out: "partition_islands z m = Some out"
  shows "\<exists>vss. length vss = length out \<and> (\<forall>v<nVerts m. \<exists>!k. k < length vss \<and> v \<in> set (vss ! k)) \<and>
    (\<forall>k<length out. sorted_wrt (<) (vss ! k) \<and> set (vss ! k) \<subseteq> {..<nVerts m} \<and> valid_mesh (out ! k) \<and> part_on m (vss ! k) (out ! k))"
proof -
  obtain nums n where c: "component_numbers m nums n" and o: "out = map (island_mesh z m nums) [0..<n]"
    using partition_islands_runs [OF m, of z] out by auto
  have len: "length nums = nVerts m" and rng: "v < nVerts m \<Longrightarrow> nums ! v < n" for v using c by (simp_all add: component_numbers_def)
  let ?vss = "map (members nums) [0..<n]"
  have one: "\<exists>!k. k < length ?vss \<and> v \<in> set (?vss ! k)" if "v < nVerts m" for v
    using rng [OF that] that len by (intro ex1I [of _ "nums ! v"]) (auto simp: members_def)
  have "sorted_wrt (<) (members nums k)" "set (members nums k) \<subseteq> {..<nVerts m}" for k
    by (auto simp: members_def len sorted_wrt_filter)
  then show ?thesis using one island_valid(1) [OF m c] island_part_on [OF m c] by (intro exI [of _ ?vss]) (simp add: o)
qed

text \<open>Four vertices, one triangle that leaves out the third.\<close>

definition demo_mesh :: "int cloth_mesh" where
  "demo_mesh = (empty_mesh 0)\<lparr>m_positions := [0, 1, 2, 3, 4, 5, 6, 7, 8, 9, 10, 11], m_mass := [1, 1, 1, 1], m_triIdx := [0, 1, 3],
     m_triInvUV := [1, 0, 0, 1], m_attachVert := [2], m_attachFixed := [6, 7, 8]\<rparr>"

lemma demo_mesh_valid: "valid_mesh demo_mesh"
  by (simp add: valid_mesh_def demo_mesh_def nVerts_def nTri_def nBend_def nAttach_def empty_mesh_def)


definition demo_out :: "int cloth_mesh list" where
  "demo_out =
     [(empty_mesh 0)\<lparr>m_positions := [0, 1, 2, 3, 4, 5, 9, 10, 11], m_mass := [1, 1, 1], m_triIdx := [0, 1, 2],
       m_triInvUV := [1, 0, 0, 1], m_faces := [0, 1, 2]\<rparr>,
      (empty_mesh 0)\<lparr>m_positions := [6, 7, 8], m_mass := [1], m_attachVert := [0], m_attachFixed := [6, 7, 8]\<rparr>]"

lemma demo_islands: "partition_islands 0 demo_mesh = Some demo_out"
  by code_simp

lemma island_indices_witness:
  "length demo_out = 2 \<and> (\<exists>vss. length vss = 2 \<and> (\<forall>k<length demo_out. part_on demo_mesh (vss ! k) (demo_out ! k)))"
proof -
  have "length demo_out = 2" by (simp add: demo_out_def)
  then show ?thesis using island_indices [OF demo_mesh_valid demo_islands] by metis
qed

end
