(* ===== verification/ClothBuild.thy ===== *)
theory ClothBuild
  imports ClothGrid "HOL-Library.Multiset"
begin

text \<open>
  \<open>build_cloth_mesh\<close> of \<open>guest/avbd/cloth_grid.cpp\<close>: a rectangular panel, two triangles to a
  cell, a bending stencil for each edge two triangles share, pinned along its far edge.
  Arithmetic on \<open>double\<close> and \<open>float\<close> is a parameter.
\<close>

section \<open>Float geometry\<close>

record ('d, 'f) fp =
  d_add :: "'d \<Rightarrow> 'd \<Rightarrow> 'd"
  d_sub :: "'d \<Rightarrow> 'd \<Rightarrow> 'd"
  d_mul :: "'d \<Rightarrow> 'd \<Rightarrow> 'd"
  d_div :: "'d \<Rightarrow> 'd \<Rightarrow> 'd"
  d_neg :: "'d \<Rightarrow> 'd"
  d_sqrt :: "'d \<Rightarrow> 'd"
  d_less :: "'d \<Rightarrow> 'd \<Rightarrow> bool"
  d_le :: "'d \<Rightarrow> 'd \<Rightarrow> bool"
  d_zero :: 'd
  d_half :: 'd
  d_one :: 'd
  d_four :: 'd
  d_of_nat :: "nat \<Rightarrow> 'd"
  d_of_f :: "'f \<Rightarrow> 'd"
  f_of_d :: "'d \<Rightarrow> 'f"
  f_div :: "'f \<Rightarrow> 'f \<Rightarrow> 'f"
  f_of_nat :: "nat \<Rightarrow> 'f"
  f_zero :: 'f

type_synonym 'd v3 = "'d \<times> 'd \<times> 'd"

definition sub :: "('d, 'f) fp \<Rightarrow> 'd v3 \<Rightarrow> 'd v3 \<Rightarrow> 'd v3" where
  "sub F a b = (case a of (a0, a1, a2) \<Rightarrow> case b of (b0, b1, b2) \<Rightarrow> (d_sub F a0 b0, d_sub F a1 b1, d_sub F a2 b2))"

definition dot :: "('d, 'f) fp \<Rightarrow> 'd v3 \<Rightarrow> 'd v3 \<Rightarrow> 'd" where
  "dot F a b = (case a of (a0, a1, a2) \<Rightarrow> case b of (b0, b1, b2) \<Rightarrow>
     d_add F (d_add F (d_mul F a0 b0) (d_mul F a1 b1)) (d_mul F a2 b2))"

definition norm3 :: "('d, 'f) fp \<Rightarrow> 'd v3 \<Rightarrow> 'd" where
  "norm3 F a = d_sqrt F (dot F a a)"

definition scale :: "('d, 'f) fp \<Rightarrow> 'd v3 \<Rightarrow> 'd \<Rightarrow> 'd v3" where
  "scale F a s = (case a of (a0, a1, a2) \<Rightarrow> (d_mul F a0 s, d_mul F a1 s, d_mul F a2 s))"

definition triangle_inv_uv :: "('d, 'f) fp \<Rightarrow> 'd v3 \<Rightarrow> 'd v3 \<Rightarrow> 'd v3 \<Rightarrow> 'f list" where
  "triangle_inv_uv F p0 p1 p2 =
     (let e0 = sub F p1 p0; e1 = sub F p2 p0; n0 = norm3 F e0; P0 = scale F e0 (d_div F (d_one F) n0);
          t = sub F e1 (scale F P0 (dot F e1 P0)); P1 = scale F t (d_div F (d_one F) (norm3 F t));
          d00 = dot F P0 e0; d01 = dot F P0 e1; d10 = dot F P1 e0; d11 = dot F P1 e1;
          det = d_sub F (d_mul F d00 d11) (d_mul F d01 d10)
      in [f_of_d F (d_div F d11 det), f_of_d F (d_div F (d_neg F d01) det),
          f_of_d F (d_div F (d_neg F d10) det), f_of_d F (d_div F d00 det)])"

definition heron :: "('d, 'f) fp \<Rightarrow> 'd \<Rightarrow> 'd \<Rightarrow> 'd \<Rightarrow> 'd" where
  "heron F a b c =
     (let r = d_mul F (d_half F) (d_add F (d_add F a b) c);
          s = d_mul F (d_mul F (d_mul F r (d_sub F r a)) (d_sub F r b)) (d_sub F r c)
      in if d_less F (d_zero F) s then d_sqrt F s else d_zero F)"

section \<open>The grid\<close>

definition vid :: "nat \<Rightarrow> nat \<Rightarrow> nat \<Rightarrow> nat" where
  "vid ny ix iy = ix * ny + iy"

definition cells :: "nat \<Rightarrow> nat \<Rightarrow> (nat \<times> nat) list" where
  "cells nx ny = concat (map (\<lambda>ix. map (\<lambda>iy. (ix, iy)) [0..<ny]) [0..<nx])"

text \<open>The rest position of each vertex, in the order of the vertices.\<close>

definition rest_of :: "('d, 'f) fp \<Rightarrow> nat \<Rightarrow> nat \<Rightarrow> 'f \<Rightarrow> 'f \<Rightarrow> 'f \<Rightarrow> 'd v3 list" where
  "rest_of F nx ny width height panelTop =
     (let sx = d_div F (d_of_f F width) (d_of_nat F (nx - 1)); sz = d_div F (d_of_f F height) (d_of_nat F (ny - 1))
      in map (\<lambda>(ix, iy). (d_sub F (d_mul F (d_of_nat F ix) sx) (d_mul F (d_of_f F width) (d_half F)), d_of_f F panelTop,
               d_mul F (d_of_nat F iy) sz)) (cells nx ny))"

definition grid_tris :: "nat \<Rightarrow> nat \<Rightarrow> (nat \<times> nat \<times> nat) list" where
  "grid_tris nx ny = concat (map (\<lambda>(ix, iy).
     let v00 = vid ny ix iy; v10 = vid ny (ix + 1) iy; v01 = vid ny ix (iy + 1); v11 = vid ny (ix + 1) (iy + 1)
     in [(v00, v10, v11), (v00, v11, v01)]) (cells (nx - 1) (ny - 1)))"

definition add_tri :: "('d, 'f) fp \<Rightarrow> 'd v3 list \<Rightarrow> 'f cloth_mesh \<Rightarrow> nat \<times> nat \<times> nat \<Rightarrow> 'f cloth_mesh" where
  "add_tri F rest m abc = (case abc of (a, b, c) \<Rightarrow>
     m\<lparr>m_triIdx := m_triIdx m @ [a, b, c], m_triInvUV := m_triInvUV m @ triangle_inv_uv F (rest ! a) (rest ! b) (rest ! c)\<rparr>)"

section \<open>Bending stencils\<close>

text \<open>\<open>edgeMap[{lo, hi}].push_back(other)\<close>, the map as the list of its pairs in order.\<close>

fun edge_push :: "nat \<times> nat \<Rightarrow> nat \<Rightarrow> ((nat \<times> nat) \<times> nat list) list \<Rightarrow> ((nat \<times> nat) \<times> nat list) list" where
  "edge_push e x [] = [(e, [x])]"
| "edge_push e x ((k, xs) # m) =
     (if e = k then (k, xs @ [x]) # m
      else if fst e < fst k \<or> fst e = fst k \<and> snd e < snd k then (e, [x]) # (k, xs) # m
      else (k, xs) # edge_push e x m)"

text \<open>The three edges of a triangle, each with the corner opposite to it.\<close>

definition tri_edges :: "nat list \<Rightarrow> ((nat \<times> nat) \<times> nat) list" where
  "tri_edges tri = map (\<lambda>(i, j). ((min (tri ! i) (tri ! j), max (tri ! i) (tri ! j)),
     tri ! 0 + tri ! 1 + tri ! 2 - tri ! i - tri ! j)) [(0, 1), (0, 2), (1, 2)]"

definition edge_map :: "'f cloth_mesh \<Rightarrow> ((nat \<times> nat) \<times> nat list) list" where
  "edge_map m = foldl (\<lambda>em (e, x). edge_push e x em) [] (concat (map (\<lambda>ti. tri_edges (item 3 (m_triIdx m) ti)) [0..<nTri m]))"

text \<open>The cotangent weights and the rest norm of a stencil, unless one triangle has no area.\<close>

definition bend_weights :: "('d, 'f) fp \<Rightarrow> 'd v3 \<Rightarrow> 'd v3 \<Rightarrow> 'd v3 \<Rightarrow> 'd v3 \<Rightarrow> ('d list \<times> 'd) option" where
  "bend_weights F x0 x1 x2 x3 =
     (let l01 = norm3 F (sub F x1 x0); l02 = norm3 F (sub F x2 x0); l03 = norm3 F (sub F x3 x0);
          l12 = norm3 F (sub F x1 x2); l13 = norm3 F (sub F x1 x3);
          A0 = heron F l01 l02 l12; A1 = heron F l01 l03 l13
      in if d_le F A0 (d_zero F) \<or> d_le F A1 (d_zero F) then None
      else let sq = (\<lambda>l. d_mul F l l);
          cot02 = d_div F (d_add F (d_sub F (sq l01) (sq l02)) (sq l12)) (d_mul F (d_four F) A0);
          cot12 = d_div F (d_sub F (d_add F (sq l01) (sq l02)) (sq l12)) (d_mul F (d_four F) A0);
          cot03 = d_div F (d_add F (d_sub F (sq l01) (sq l03)) (sq l13)) (d_mul F (d_four F) A1);
          cot13 = d_div F (d_sub F (d_add F (sq l01) (sq l03)) (sq l13)) (d_mul F (d_four F) A1);
          w = [d_add F cot02 cot03, d_add F cot12 cot13, d_neg F (d_add F cot02 cot12), d_neg F (d_add F cot03 cot13)];
          s = foldl (\<lambda>s i. case s of (s0, s1, s2) \<Rightarrow> case [x0, x1, x2, x3] ! i of (y0, y1, y2) \<Rightarrow>
                (d_add F s0 (d_mul F (w ! i) y0), d_add F s1 (d_mul F (w ! i) y1), d_add F s2 (d_mul F (w ! i) y2)))
              (d_zero F, d_zero F, d_zero F) [0..<4]
      in Some (w, norm3 F s))"

definition add_bend :: "('d, 'f) fp \<Rightarrow> 'd v3 list \<Rightarrow> 'f cloth_mesh \<Rightarrow> (nat \<times> nat) \<times> nat list \<Rightarrow> 'f cloth_mesh" where
  "add_bend F rest m kv =
     (if length (snd kv) \<noteq> 2 then m
      else let p0 = fst (fst kv); p1 = snd (fst kv); p2 = snd kv ! 0; p3 = snd kv ! 1
           in case bend_weights F (rest ! p0) (rest ! p1) (rest ! p2) (rest ! p3) of
                None \<Rightarrow> m
              | Some (w, n) \<Rightarrow> m\<lparr>m_bendIdx := m_bendIdx m @ [p0, p1, p2, p3], m_bendWeight := m_bendWeight m @ map (f_of_d F) w,
                  m_bendNTarget := m_bendNTarget m @ [f_of_d F n]\<rparr>)"

section \<open>The whole panel\<close>

definition add_pin :: "nat \<Rightarrow> 'f cloth_mesh \<Rightarrow> nat \<Rightarrow> 'f cloth_mesh" where
  "add_pin ny m ix =
     (let v = vid ny ix (ny - 1)
      in m\<lparr>m_attachVert := m_attachVert m @ [v], m_attachFixed := m_attachFixed m @ item 3 (m_positions m) v\<rparr>)"

definition build_cloth_mesh :: "('d, 'f) fp \<Rightarrow> nat \<Rightarrow> nat \<Rightarrow> 'f \<Rightarrow> 'f \<Rightarrow> 'f \<Rightarrow> 'f \<Rightarrow> 'f cloth_mesh" where
  "build_cloth_mesh F nx ny width height panelTop clothMass =
     (let nV = nx * ny; rest = rest_of F nx ny width height panelTop;
          m = (empty_mesh (f_zero F))\<lparr>m_nx := nx, m_ny := ny, m_width := width, m_height := height,
            m_positions := concat (map (\<lambda>(x, y, z). [f_of_d F x, f_of_d F y, f_of_d F z]) rest),
            m_mass := replicate nV (f_div F clothMass (f_of_nat F nV))\<rparr>;
          m = foldl (add_tri F rest) m (grid_tris nx ny);
          m = m\<lparr>m_faces := m_triIdx m\<rparr>;
          m = foldl (add_bend F rest) m (edge_map m)
      in foldl (add_pin ny) m [0..<nx])"

section \<open>The panel is well-formed\<close>

text \<open>The grid: how many cells, and the corners of its triangles.\<close>

lemma length_cells: "length (cells nx ny) = nx * ny"
  by (simp add: cells_def length_concat comp_def sum_list_triv)

lemma vid_less: "ix < nx \<Longrightarrow> iy < ny \<Longrightarrow> vid ny ix iy < nx * ny"
proof -
  assume "ix < nx" "iy < ny"
  then have "ix * ny + iy < Suc ix * ny" "Suc ix * ny \<le> nx * ny" by (simp, intro mult_le_mono1) simp
  then show ?thesis by (simp add: vid_def)
qed

lemma grid_tris_range: "(a, b, c) \<in> set (grid_tris nx ny) \<Longrightarrow> a < nx * ny \<and> b < nx * ny \<and> c < nx * ny"
  by (auto simp: grid_tris_def cells_def Let_def intro!: vid_less)

lemma length_concat_pairs: "(\<And>x. length (f x) = k) \<Longrightarrow> length (concat (map f xs)) = k * length xs"
  by (induction xs) simp_all

lemma length_grid_tris: "length (grid_tris nx ny) = 2 * ((nx - 1) * (ny - 1))"
proof -
  have "length (grid_tris nx ny) = 2 * length (cells (nx - 1) (ny - 1))"
    unfolding grid_tris_def by (rule length_concat_pairs) (auto simp: Let_def)
  then show ?thesis by (simp add: length_cells)
qed

lemma length_inv_uv: "length (triangle_inv_uv F a b c) = 4"
  by (simp add: triangle_inv_uv_def Let_def)

lemma add_tris_fold:
  "foldl (add_tri F rest) m ts = m\<lparr>m_triIdx := m_triIdx m @ concat (map (\<lambda>(a, b, c). [a, b, c]) ts),
     m_triInvUV := m_triInvUV m @ concat (map (\<lambda>(a, b, c). triangle_inv_uv F (rest ! a) (rest ! b) (rest ! c)) ts)\<rparr>"
  by (induction ts arbitrary: m) (auto simp: add_tri_def)

text \<open>An entry of the edge map comes from triangles with just these corners.\<close>

definition corners :: "'f cloth_mesh \<Rightarrow> nat \<Rightarrow> nat \<Rightarrow> nat \<Rightarrow> bool" where
  "corners m a b c \<longleftrightarrow> (\<exists>t<nTri m. mset (item 3 (m_triIdx m) t) = {#a, b, c#})"

lemma corners_less: "valid_mesh m \<Longrightarrow> corners m a b c \<Longrightarrow> a < nVerts m \<and> b < nVerts m \<and> c < nVerts m"
proof -
  assume m: "valid_mesh m" "corners m a b c"
  then obtain t where t: "t < nTri m" "mset (item 3 (m_triIdx m) t) = {#a, b, c#}" unfolding corners_def by blast
  then have "set (item 3 (m_triIdx m) t) = {a, b, c}" by (metis set_mset_mset set_mset_add_mset_insert set_mset_empty)
  then have "\<forall>v\<in>{a, b, c}. v < nVerts m" using items_range(1) [OF m(1) t(1)] by blast
  then show ?thesis by simp
qed

subsection \<open>The edge map\<close>

definition edge_less :: "nat \<times> nat \<Rightarrow> nat \<times> nat \<Rightarrow> bool" where
  "edge_less e k \<longleftrightarrow> fst e < fst k \<or> fst e = fst k \<and> snd e < snd k"

abbreviation edges_sorted :: "((nat \<times> nat) \<times> nat list) list \<Rightarrow> bool" where
  "edges_sorted em \<equiv> sorted_wrt edge_less (map fst em)"

lemma edge_push_keys: "set (map fst (edge_push e x em)) = insert e (set (map fst em))"
  by (induction e x em rule: edge_push.induct) auto

lemma edge_push_sorted: "edges_sorted em \<Longrightarrow> edges_sorted (edge_push e x em)"
proof (induction e x em rule: edge_push.induct)
  case (2 e x k xs m)
  have trans: "edge_less e k \<Longrightarrow> edge_less k l \<Longrightarrow> edge_less e l" for l by (auto simp: edge_less_def)
  have "edge_less k e" if "e \<noteq> k" "\<not> edge_less e k" using that by (cases e; cases k) (auto simp: edge_less_def)
  then show ?case using 2 edge_push_keys [of e x m] trans
    by (auto simp: edge_less_def [of e k, symmetric])
qed simp

lemma edge_push_lookup:
  "edges_sorted em \<Longrightarrow> map_of (edge_push e x em) k =
    (if k = e then Some (case map_of em e of None \<Rightarrow> [x] | Some xs \<Rightarrow> xs @ [x]) else map_of em k)"
proof (induction e x em rule: edge_push.induct)
  case (2 e x l xs m)
  have "map_of ((l, xs) # m) e = None" if "edge_less e l"
  proof -
    have "\<not> edge_less l e" "e \<noteq> l" using that by (auto simp: edge_less_def)
    moreover have "e \<notin> set (map fst m)" using "2.prems" that by (auto simp: edge_less_def)
    ultimately show ?thesis by (simp add: map_of_eq_None_iff)
  qed
  then show ?case using 2 by (auto simp: edge_less_def [of e l, symmetric])
qed simp

definition some_list :: "'b list \<Rightarrow> 'b list option" where
  "some_list xs = (if xs = [] then None else Some xs)"

lemma edge_fold_sorted: "edges_sorted em \<Longrightarrow> edges_sorted (foldl (\<lambda>em (e, x). edge_push e x em) em es)"
  by (induction es arbitrary: em) (auto intro: edge_push_sorted)

lemma edge_fold:
  assumes "edges_sorted em" "map_of em k \<noteq> Some []"
  shows "map_of (foldl (\<lambda>em (e, x). edge_push e x em) em es) k =
    some_list ((case map_of em k of None \<Rightarrow> [] | Some xs \<Rightarrow> xs) @ map snd (filter (\<lambda>e. fst e = k) es))"
  using assms
proof (induction es arbitrary: em)
  case Nil
  then show ?case by (auto simp: some_list_def split: option.split)
next
  case (Cons ex es)
  obtain e x where ex: "ex = (e, x)" by fastforce
  have l: "map_of (edge_push e x em) k = (if k = e then Some (case map_of em e of None \<Rightarrow> [x] | Some xs \<Rightarrow> xs @ [x]) else map_of em k)"
    by (rule edge_push_lookup [OF Cons.prems(1)])
  then have "map_of (edge_push e x em) k \<noteq> Some []" using Cons.prems(2) by (auto split: option.split)
  from Cons.IH [OF edge_push_sorted [OF Cons.prems(1)] this] show ?case
    by (auto simp: ex l split: option.split)
qed

definition mesh_tri_edges :: "'f cloth_mesh \<Rightarrow> nat \<Rightarrow> ((nat \<times> nat) \<times> nat) list" where
  "mesh_tri_edges m t = tri_edges (item 3 (m_triIdx m) t)"

lemma edge_map_lookup:
  "edges_sorted (edge_map m)"
  "map_of (edge_map m) k = some_list (concat (map (\<lambda>t. map snd (filter (\<lambda>e. fst e = k) (mesh_tri_edges m t))) [0..<nTri m]))"
  using edge_fold [of "[]" k "concat (map (mesh_tri_edges m) [0..<nTri m])"]
    edge_fold_sorted [of "[]" "concat (map (mesh_tri_edges m) [0..<nTri m])"]
  unfolding edge_map_def mesh_tri_edges_def by (simp_all add: filter_concat map_concat comp_def)

lemma edge_map_member: "(k, xs) \<in> set (edge_map m) \<longleftrightarrow> map_of (edge_map m) k = Some xs"
proof -
  have "distinct (map fst em)" if "edges_sorted em" for em
    using that by (induction em) (auto simp: edge_less_def)
  then show ?thesis using edge_map_lookup(1) [of m] by simp
qed

text \<open>The triangles have three corners; those that have an edge.\<close>

definition proper_tris :: "'f cloth_mesh \<Rightarrow> bool" where
  "proper_tris m \<longleftrightarrow> (\<forall>t<nTri m. distinct (item 3 (m_triIdx m) t))"

definition has_edge :: "'f cloth_mesh \<Rightarrow> nat \<Rightarrow> nat \<Rightarrow> nat \<Rightarrow> bool" where
  "has_edge m p q t \<longleftrightarrow> {p, q} \<subseteq> set (item 3 (m_triIdx m) t)"

lemma tri_edges_list:
  "tri_edges [a, b, c] = [((min a b, max a b), c), ((min a c, max a c), b), ((min b c, max b c), a)]"
  by (simp add: tri_edges_def)

lemma min_max_key: "a \<noteq> b \<Longrightarrow> (min a b, max a b) = (p, q) \<longleftrightarrow> p < q \<and> {p, q} = {a, b :: nat}"
  by (auto simp: min_def max_def doubleton_eq_iff)

lemma tri_edges_key:
  assumes "distinct [a, b, c]"
  shows "p < q \<and> {p, q} \<subseteq> {a, b, c} \<Longrightarrow>
      \<exists>x. map snd (filter (\<lambda>e. fst e = (p, q)) (tri_edges [a, b, c])) = [x] \<and> mset [a, b, c] = {#p, q, x#}"
    and "\<not> (p < q \<and> {p, q} \<subseteq> {a, b, c}) \<Longrightarrow> map snd (filter (\<lambda>e. fst e = (p, q)) (tri_edges [a, b, c])) = []"
proof -
  have k: "(min a b, max a b) = (p, q) \<longleftrightarrow> p < q \<and> {p, q} = {a, b}" "(min a c, max a c) = (p, q) \<longleftrightarrow> p < q \<and> {p, q} = {a, c}"
    "(min b c, max b c) = (p, q) \<longleftrightarrow> p < q \<and> {p, q} = {b, c}"
    by (rule min_max_key, use assms in simp)+
  show "map snd (filter (\<lambda>e. fst e = (p, q)) (tri_edges [a, b, c])) = []" if "\<not> (p < q \<and> {p, q} \<subseteq> {a, b, c})"
    using that unfolding tri_edges_list by (simp only: filter.simps fst_conv k) auto
  show "\<exists>x. map snd (filter (\<lambda>e. fst e = (p, q)) (tri_edges [a, b, c])) = [x] \<and> mset [a, b, c] = {#p, q, x#}"
    if pq: "p < q \<and> {p, q} \<subseteq> {a, b, c}"
  proof -
    have "{p, q} = {a, b} \<or> {p, q} = {a, c} \<or> {p, q} = {b, c}" using pq by auto
    then show ?thesis
    proof (elim disjE)
      assume s: "{p, q} = {a, b}"
      then have "{p, q} \<noteq> {a, c}" "{p, q} \<noteq> {b, c}" using assms by (auto simp: doubleton_eq_iff)
      then show ?thesis using s pq unfolding tri_edges_list
        by (simp only: filter.simps fst_conv k simp_thms if_True if_False) (auto simp: doubleton_eq_iff)
    next
      assume s: "{p, q} = {a, c}"
      then have "{p, q} \<noteq> {a, b}" "{p, q} \<noteq> {b, c}" using assms by (auto simp: doubleton_eq_iff)
      then show ?thesis using s pq unfolding tri_edges_list
        by (simp only: filter.simps fst_conv k simp_thms if_True if_False) (auto simp: doubleton_eq_iff)
    next
      assume s: "{p, q} = {b, c}"
      then have "{p, q} \<noteq> {a, b}" "{p, q} \<noteq> {a, c}" using assms by (auto simp: doubleton_eq_iff)
      then show ?thesis using s pq unfolding tri_edges_list
        by (simp only: filter.simps fst_conv k simp_thms if_True if_False) (auto simp: doubleton_eq_iff)
    qed
  qed
qed

lemma item3: "item 3 xs t = [xs ! (3 * t), xs ! (3 * t + 1), xs ! (3 * t + 2)]"
  by (simp add: item_def upt_rec numeral_3_eq_3)

lemma mesh_edges_key:
  assumes "proper_tris m" "t < nTri m"
  shows "p < q \<and> has_edge m p q t \<Longrightarrow>
      \<exists>x. map snd (filter (\<lambda>e. fst e = (p, q)) (mesh_tri_edges m t)) = [x] \<and> mset (item 3 (m_triIdx m) t) = {#p, q, x#}"
    and "\<not> (p < q \<and> has_edge m p q t) \<Longrightarrow> map snd (filter (\<lambda>e. fst e = (p, q)) (mesh_tri_edges m t)) = []"
proof -
  let ?a = "m_triIdx m ! (3 * t)" and ?b = "m_triIdx m ! (3 * t + 1)" and ?c = "m_triIdx m ! (3 * t + 2)"
  have d: "distinct [?a, ?b, ?c]" using assms unfolding proper_tris_def item3 by blast
  show "p < q \<and> has_edge m p q t \<Longrightarrow>
      \<exists>x. map snd (filter (\<lambda>e. fst e = (p, q)) (mesh_tri_edges m t)) = [x] \<and> mset (item 3 (m_triIdx m) t) = {#p, q, x#}"
    "\<not> (p < q \<and> has_edge m p q t) \<Longrightarrow> map snd (filter (\<lambda>e. fst e = (p, q)) (mesh_tri_edges m t)) = []"
    using tri_edges_key [OF d, of p q] unfolding mesh_tri_edges_def has_edge_def item3 set_simps by blast+
qed

definition opposite :: "'f cloth_mesh \<Rightarrow> nat \<Rightarrow> nat \<Rightarrow> nat \<Rightarrow> nat" where
  "opposite m p q t = hd (map snd (filter (\<lambda>e. fst e = (p, q)) (mesh_tri_edges m t)))"

lemma concat_if: "concat (map (\<lambda>t. if P t then [g t] else []) ts) = map g (filter P ts)"
  by (induction ts) simp_all

lemma edge_map_opposites:
  assumes "proper_tris m" "p < q"
  shows "map_of (edge_map m) (p, q) = some_list (map (opposite m p q) (filter (has_edge m p q) [0..<nTri m]))"
    and "t < nTri m \<Longrightarrow> has_edge m p q t \<Longrightarrow> mset (item 3 (m_triIdx m) t) = {#p, q, opposite m p q t#}"
proof -
  show o: "mset (item 3 (m_triIdx m) t) = {#p, q, opposite m p q t#}" if "t < nTri m" "has_edge m p q t" for t
    using mesh_edges_key(1) [OF assms(1) that(1), of p q] assms(2) that(2) by (auto simp: opposite_def)
  have "map snd (filter (\<lambda>e. fst e = (p, q)) (mesh_tri_edges m t)) = (if has_edge m p q t then [opposite m p q t] else [])"
    if "t < nTri m" for t
    using mesh_edges_key [OF assms(1) that, of p q] assms(2) by (auto simp: opposite_def)
  then have "concat (map (\<lambda>t. map snd (filter (\<lambda>e. fst e = (p, q)) (mesh_tri_edges m t))) [0..<nTri m]) =
      concat (map (\<lambda>t. if has_edge m p q t then [opposite m p q t] else []) [0..<nTri m])"
    by (intro arg_cong [of _ _ concat] map_cong) auto
  then show "map_of (edge_map m) (p, q) = some_list (map (opposite m p q) (filter (has_edge m p q) [0..<nTri m]))"
    by (simp only: edge_map_lookup(2) concat_if)
qed

lemma edge_map_key_less:
  assumes "proper_tris m" "((p, q), xs) \<in> set (edge_map m)"
  shows "p < q"
proof (rule ccontr)
  assume "\<not> p < q"
  then have "map snd (filter (\<lambda>e. fst e = (p, q)) (mesh_tri_edges m t)) = []" if "t < nTri m" for t
    using mesh_edges_key(2) [OF assms(1) that, of p q] by simp
  then have "map_of (edge_map m) (p, q) = None" by (simp add: edge_map_lookup(2) some_list_def)
  then show False using assms(2) by (simp add: edge_map_member)
qed

subsection \<open>Stencils\<close>

text \<open>An edge that exactly two triangles have, and the corners of these opposite to it.\<close>

definition hinge :: "'f cloth_mesh \<Rightarrow> nat \<Rightarrow> nat \<Rightarrow> nat \<Rightarrow> nat \<Rightarrow> bool" where
  "hinge m p0 p1 p2 p3 \<longleftrightarrow> p0 < p1 \<and>
     (\<exists>t1 t2. t1 < t2 \<and> t2 < nTri m \<and> mset (item 3 (m_triIdx m) t1) = {#p0, p1, p2#} \<and>
        mset (item 3 (m_triIdx m) t2) = {#p0, p1, p3#} \<and> {t. t < nTri m \<and> has_edge m p0 p1 t} = {t1, t2})"

lemma filter_two:
  "filter P [0..<n] = [a, b] \<longleftrightarrow> a < b \<and> b < n \<and> {t. t < n \<and> P t} = {a, b}"
proof
  assume f: "filter P [0..<n] = [a, b]"
  have "sorted_wrt (<) (filter P [0..<n])" by (simp add: sorted_wrt_filter)
  moreover have "set (filter P [0..<n]) = {t. t < n \<and> P t}" by auto
  ultimately show "a < b \<and> b < n \<and> {t. t < n \<and> P t} = {a, b}" unfolding f by auto
next
  assume ab: "a < b \<and> b < n \<and> {t. t < n \<and> P t} = {a, b}"
  have "sorted_wrt (<) (filter P [0..<n])" "sorted_wrt (<) [a, b]" using ab by (simp_all add: sorted_wrt_filter)
  moreover have "set (filter P [0..<n]) = set [a, b]" using ab by auto
  ultimately show "filter P [0..<n] = [a, b]" by (intro sorted_distinct_set_unique) (auto simp: strict_sorted_iff)
qed

lemma edge_map_hinge:
  assumes "proper_tris m"
  shows "((p0, p1), [p2, p3]) \<in> set (edge_map m) \<longleftrightarrow> hinge m p0 p1 p2 p3"
proof
  assume kv: "((p0, p1), [p2, p3]) \<in> set (edge_map m)"
  then have less: "p0 < p1" by (rule edge_map_key_less [OF assms])
  note o = edge_map_opposites [OF assms less]
  have "map (opposite m p0 p1) (filter (has_edge m p0 p1) [0..<nTri m]) = [p2, p3]"
    using kv o(1) by (simp add: edge_map_member some_list_def split: if_splits)
  then obtain t1 t2 where t: "filter (has_edge m p0 p1) [0..<nTri m] = [t1, t2]" "opposite m p0 p1 t1 = p2" "opposite m p0 p1 t2 = p3"
    by (auto simp: map_eq_Cons_conv)
  then have f: "t1 < t2" "t2 < nTri m" "{t. t < nTri m \<and> has_edge m p0 p1 t} = {t1, t2}" unfolding filter_two by simp_all
  then have "t1 < nTri m" "has_edge m p0 p1 t1" "has_edge m p0 p1 t2" by auto
  then show "hinge m p0 p1 p2 p3" unfolding hinge_def using less f t(2,3) o(2) by blast
next
  assume h: "hinge m p0 p1 p2 p3"
  then obtain t1 t2 where t: "p0 < p1" "t1 < t2" "t2 < nTri m" "mset (item 3 (m_triIdx m) t1) = {#p0, p1, p2#}"
    "mset (item 3 (m_triIdx m) t2) = {#p0, p1, p3#}" "{t. t < nTri m \<and> has_edge m p0 p1 t} = {t1, t2}"
    unfolding hinge_def by blast
  note o = edge_map_opposites [OF assms t(1)]
  have "has_edge m p0 p1 t1" "has_edge m p0 p1 t2" "t1 < nTri m" using t by auto
  then have "opposite m p0 p1 t1 = p2" "opposite m p0 p1 t2 = p3" using o(2) [of t1] o(2) [of t2] t(3-5) by simp_all
  moreover have "filter (has_edge m p0 p1) [0..<nTri m] = [t1, t2]" unfolding filter_two using t by simp
  ultimately show "((p0, p1), [p2, p3]) \<in> set (edge_map m)" using o(1) by (simp add: edge_map_member some_list_def)
qed

lemma hinge_corners: "hinge m p0 p1 p2 p3 \<Longrightarrow> corners m p0 p1 p2 \<and> corners m p0 p1 p3"
  unfolding hinge_def corners_def by (meson less_trans)

definition stencils_ok :: "'f cloth_mesh \<Rightarrow> bool" where
  "stencils_ok m \<longleftrightarrow> (\<forall>b<nBend m. \<exists>p0 p1 p2 p3. item 4 (m_bendIdx m) b = [p0, p1, p2, p3] \<and> hinge m p0 p1 p2 p3)"

definition has_stencil :: "'f cloth_mesh \<Rightarrow> nat list \<Rightarrow> bool" where
  "has_stencil m ps \<longleftrightarrow> (\<exists>b<nBend m. item 4 (m_bendIdx m) b = ps)"

text \<open>Only the bending arrays differ.\<close>

definition same_but_bends :: "'f cloth_mesh \<Rightarrow> 'f cloth_mesh \<Rightarrow> bool" where
  "same_but_bends m m2 \<longleftrightarrow> (\<exists>bi bw bn. m2 = m\<lparr>m_bendIdx := bi, m_bendWeight := bw, m_bendNTarget := bn\<rparr>)"

lemma same_but_bendsD:
  assumes "same_but_bends m m2"
  shows "nVerts m2 = nVerts m" "nTri m2 = nTri m" "hinge m2 p0 p1 p2 p3 = hinge m p0 p1 p2 p3" "m_positions m2 = m_positions m"
    "nAttach m2 = nAttach m"
proof -
  obtain bi bw bn where m2: "m2 = m\<lparr>m_bendIdx := bi, m_bendWeight := bw, m_bendNTarget := bn\<rparr>"
    using assms unfolding same_but_bends_def by blast
  show n: "nVerts m2 = nVerts m" "nTri m2 = nTri m" "m_positions m2 = m_positions m" "nAttach m2 = nAttach m"
    by (simp_all add: m2 nVerts_def nTri_def nAttach_def)
  have "m_triIdx m2 = m_triIdx m" by (simp add: m2)
  then show "hinge m2 p0 p1 p2 p3 = hinge m p0 p1 p2 p3" unfolding hinge_def has_edge_def n(2) by simp
qed

lemma item_append: "length xs = g * n \<Longrightarrow> i < n \<Longrightarrow> item g (xs @ ys) i = item g xs i"
proof -
  assume "length xs = g * n" "i < n"
  then have "g * i + r < length xs" if "r < g" for r
    using that mult_le_mono2 [of "Suc i" n g] by simp
  then show ?thesis by (auto simp: item_def nth_append)
qed

lemma item_last: "length xs = g * n \<Longrightarrow> length ys = g \<Longrightarrow> item g (xs @ ys) n = ys"
  by (intro nth_equalityI) (auto simp: item_def nth_append)

lemma push_bend_ok:
  fixes s :: 'f
  assumes m: "valid_mesh (m :: 'f cloth_mesh)" "stencils_ok m" and p: "hinge m p0 p1 p2 p3" and w: "length w = 4"
  defines "m2 \<equiv> m\<lparr>m_bendIdx := m_bendIdx m @ [p0, p1, p2, p3], m_bendWeight := m_bendWeight m @ w, m_bendNTarget := m_bendNTarget m @ [s]\<rparr>"
  shows "valid_mesh m2 \<and> stencils_ok m2 \<and> same_but_bends m m2 \<and> has_stencil m2 [p0, p1, p2, p3] \<and> (\<forall>ps. has_stencil m ps \<longrightarrow> has_stencil m2 ps)"
proof -
  have s: "same_but_bends m m2" unfolding same_but_bends_def m2_def by (intro exI) (rule refl)
  have n: "nBend m2 = Suc (nBend m)" by (simp add: m2_def nBend_def)
  have l: "length (m_bendIdx m) = 4 * nBend m" using m(1) by (simp add: valid_mesh_def)
  have c: "corners m p0 p1 p2" "corners m p0 p1 p3" using hinge_corners [OF p] by blast+
  have "valid_mesh m2"
    using m(1) corners_less [OF m(1) c(1)] corners_less [OF m(1) c(2)] w unfolding valid_mesh_def same_but_bendsD [OF s] n
    by (simp add: m2_def)
  moreover have last: "item 4 (m_bendIdx m2) (nBend m) = [p0, p1, p2, p3]" using item_last [OF l] by (simp add: m2_def)
  moreover have old: "item 4 (m_bendIdx m2) b = item 4 (m_bendIdx m) b" if "b < nBend m" for b using item_append [OF l that] by (simp add: m2_def)
  moreover have "\<exists>q0 q1 q2 q3. item 4 (m_bendIdx m2) b = [q0, q1, q2, q3] \<and> hinge m2 q0 q1 q2 q3" if b: "b < nBend m2" for b
  proof (cases "b = nBend m")
    case True
    then show ?thesis using p last same_but_bendsD(3) [OF s] by blast
  next
    case False
    then have "b < nBend m" using b n by simp
    then show ?thesis using m(2) old same_but_bendsD(3) [OF s] unfolding stencils_ok_def by metis
  qed
  ultimately show ?thesis using s n unfolding stencils_ok_def has_stencil_def by (metis less_Suc_eq)
qed

lemma same_but_bends_refl: "same_but_bends m m"
  unfolding same_but_bends_def
  by (rule exI [of _ "m_bendIdx m"], rule exI [of _ "m_bendWeight m"], rule exI [of _ "m_bendNTarget m"]) simp

lemma same_but_bends_trans:
  assumes "same_but_bends a b" "same_but_bends b c"
  shows "same_but_bends a c"
proof -
  obtain bi bw bn where "b = a\<lparr>m_bendIdx := bi, m_bendWeight := bw, m_bendNTarget := bn\<rparr>" using assms(1) unfolding same_but_bends_def by blast
  moreover obtain ci cw cn where "c = b\<lparr>m_bendIdx := ci, m_bendWeight := cw, m_bendNTarget := cn\<rparr>" using assms(2) unfolding same_but_bends_def by blast
  ultimately have "c = a\<lparr>m_bendIdx := ci, m_bendWeight := cw, m_bendNTarget := cn\<rparr>" by simp
  then show ?thesis unfolding same_but_bends_def by blast
qed

lemma length_bend_weights: "bend_weights F x0 x1 x2 x3 = Some (w, n) \<Longrightarrow> length w = 4"
  unfolding bend_weights_def Let_def by (simp split: if_splits) force

text \<open>What adding a stencil for an entry of the edge map keeps, and what it adds.\<close>

definition has_area :: "('d, 'f) fp \<Rightarrow> 'd v3 list \<Rightarrow> nat list \<Rightarrow> bool" where
  "has_area F rest ps \<longleftrightarrow> bend_weights F (rest ! (ps ! 0)) (rest ! (ps ! 1)) (rest ! (ps ! 2)) (rest ! (ps ! 3)) \<noteq> None"

definition entry_stencil :: "(nat \<times> nat) \<times> nat list \<Rightarrow> nat list" where
  "entry_stencil kv = [fst (fst kv), snd (fst kv)] @ snd kv"

lemma add_bend_ok:
  assumes m: "valid_mesh m" "stencils_ok m"
    and kv: "\<forall>x y. snd kv = [x, y] \<longrightarrow> hinge m (fst (fst kv)) (snd (fst kv)) x y"
  shows "valid_mesh (add_bend F rest m kv) \<and> stencils_ok (add_bend F rest m kv) \<and> same_but_bends m (add_bend F rest m kv) \<and>
    (length (snd kv) = 2 \<and> has_area F rest (entry_stencil kv) \<longrightarrow> has_stencil (add_bend F rest m kv) (entry_stencil kv)) \<and>
    (\<forall>ps. has_stencil m ps \<longrightarrow> has_stencil (add_bend F rest m kv) ps)"
proof (cases "length (snd kv) = 2")
  case True
  then obtain x y where xy: "snd kv = [x, y]" by (auto simp: numeral_2_eq_2 length_Suc_conv)
  then have c: "hinge m (fst (fst kv)) (snd (fst kv)) x y" using kv by simp
  show ?thesis
  proof (cases "bend_weights F (rest ! fst (fst kv)) (rest ! snd (fst kv)) (rest ! x) (rest ! y)")
    case None
    then show ?thesis using m xy by (simp add: add_bend_def same_but_bends_refl has_area_def entry_stencil_def)
  next
    case (Some wn)
    obtain w n where wn: "wn = (w, n)" by fastforce
    have "length (map (f_of_d F) w) = 4" using length_bend_weights [OF Some [unfolded wn]] by simp
    from push_bend_ok [OF m c this, of "f_of_d F n"] show ?thesis
      using Some wn xy by (simp add: add_bend_def Let_def entry_stencil_def)
  qed
qed (use m in \<open>simp add: add_bend_def same_but_bends_refl\<close>)

lemma add_bends_ok:
  assumes "valid_mesh m" "stencils_ok m"
    and "\<forall>kv\<in>set kvs. \<forall>x y. snd kv = [x, y] \<longrightarrow> hinge m (fst (fst kv)) (snd (fst kv)) x y"
  shows "valid_mesh (foldl (add_bend F rest) m kvs) \<and> stencils_ok (foldl (add_bend F rest) m kvs) \<and>
    same_but_bends m (foldl (add_bend F rest) m kvs) \<and>
    (\<forall>kv\<in>set kvs. length (snd kv) = 2 \<and> has_area F rest (entry_stencil kv) \<longrightarrow>
       has_stencil (foldl (add_bend F rest) m kvs) (entry_stencil kv))"
  using assms
proof (induction kvs rule: rev_induct)
  case Nil
  then show ?case by (simp add: same_but_bends_refl)
next
  case (snoc kv kvs)
  let ?m = "foldl (add_bend F rest) m kvs"
  have IH: "valid_mesh ?m" "stencils_ok ?m" "same_but_bends m ?m"
    "\<forall>kv\<in>set kvs. length (snd kv) = 2 \<and> has_area F rest (entry_stencil kv) \<longrightarrow> has_stencil ?m (entry_stencil kv)"
    using snoc by simp_all
  have "\<forall>x y. snd kv = [x, y] \<longrightarrow> hinge ?m (fst (fst kv)) (snd (fst kv)) x y"
    using snoc.prems(3) same_but_bendsD(3) [OF IH(3)] by simp
  from add_bend_ok [OF IH(1,2) this, of F rest] show ?case
    using IH(4) same_but_bends_trans [OF IH(3)] by (auto simp: ball_Un)
qed

lemma add_pins_fold:
  "foldl (add_pin ny) m ixs = m\<lparr>m_attachVert := m_attachVert m @ map (\<lambda>ix. vid ny ix (ny - 1)) ixs,
     m_attachFixed := m_attachFixed m @ concat (map (\<lambda>ix. item 3 (m_positions m) (vid ny ix (ny - 1))) ixs)\<rparr>"
  by (induction ixs arbitrary: m) (simp_all add: add_pin_def Let_def)

lemma grid_tris_distinct: "(a, b, c) \<in> set (grid_tris nx ny) \<Longrightarrow> distinct [a, b, c]"
  by (auto simp: grid_tris_def cells_def Let_def vid_def)

lemma item_triples:
  assumes "t < length ts" "\<And>a b c. (a, b, c) \<in> set ts \<Longrightarrow> distinct [a, b, c]"
  shows "distinct (item 3 (concat (map (\<lambda>(a, b, c). [a, b, c]) ts)) t)"
  using assms
proof (induction ts arbitrary: t)
  case (Cons abc ts)
  obtain a b c where abc: "abc = (a, b, c)" by (cases abc)
  show ?case
  proof (cases t)
    case 0
    then show ?thesis using Cons.prems(2) [of a b c] by (simp add: abc item3)
  next
    case (Suc s)
    then have "item 3 (concat (map (\<lambda>(a, b, c). [a, b, c]) (abc # ts))) t = item 3 (concat (map (\<lambda>(a, b, c). [a, b, c]) ts)) s"
      by (simp add: abc item3 nth_Cons')
    moreover have "distinct (item 3 (concat (map (\<lambda>(a, b, c). [a, b, c]) ts)) s)"
      using Cons.prems Suc by (intro Cons.IH) auto
    ultimately show ?thesis by (simp only:)
  qed
qed simp

definition panel_tris :: "('d, 'f) fp \<Rightarrow> nat \<Rightarrow> nat \<Rightarrow> 'f \<Rightarrow> 'f \<Rightarrow> 'f \<Rightarrow> 'f \<Rightarrow> 'f cloth_mesh" where
  "panel_tris F nx ny width height panelTop clothMass =
     (let nV = nx * ny; rest = rest_of F nx ny width height panelTop;
          m = foldl (add_tri F rest) ((empty_mesh (f_zero F))\<lparr>m_nx := nx, m_ny := ny, m_width := width, m_height := height,
            m_positions := concat (map (\<lambda>(x, y, z). [f_of_d F x, f_of_d F y, f_of_d F z]) rest),
            m_mass := replicate nV (f_div F clothMass (f_of_nat F nV))\<rparr>) (grid_tris nx ny)
      in m\<lparr>m_faces := m_triIdx m\<rparr>)"

lemma panel_tris_ok:
  "nVerts (panel_tris F nx ny width height panelTop mass) = nx * ny"
  "nTri (panel_tris F nx ny width height panelTop mass) = 2 * ((nx - 1) * (ny - 1))"
  "nAttach (panel_tris F nx ny width height panelTop mass) = 0" "m_attachFixed (panel_tris F nx ny width height panelTop mass) = []"
  "valid_mesh (panel_tris F nx ny width height panelTop mass)" "stencils_ok (panel_tris F nx ny width height panelTop mass)"
  "proper_tris (panel_tris F nx ny width height panelTop mass)"
proof -
  let ?m = "panel_tris F nx ny width height panelTop mass"
  have three: "length (concat (map (\<lambda>(x, y, z). [g x, h y, i z]) xs)) = 3 * length xs" for g h i and xs :: "('g \<times> 'h \<times> 'i) list"
    by (rule length_concat_pairs) auto
  have "length (concat (map (\<lambda>(a, b, c). triangle_inv_uv F (r ! a) (r ! b) (r ! c)) ts)) = 4 * length ts" for r ts
    by (rule length_concat_pairs) (auto simp: length_inv_uv)
  moreover have rest: "length (rest_of F nx ny width height panelTop) = nx * ny" by (simp add: rest_of_def Let_def length_cells)
  ultimately have l: "length (m_positions ?m) = 3 * (nx * ny)" "length (m_triInvUV ?m) = 4 * (2 * ((nx - 1) * (ny - 1)))"
    "length (m_triIdx ?m) = 3 * (2 * ((nx - 1) * (ny - 1)))" "length (m_mass ?m) = nx * ny"
    "m_bendIdx ?m = []" "m_bendWeight ?m = []" "m_bendNTarget ?m = []" "m_attachVert ?m = []" "m_attachFixed ?m = []"
    unfolding panel_tris_def Let_def add_tris_fold
    by (simp_all add: rest length_grid_tris three empty_mesh_def)
  then show s: "nVerts ?m = nx * ny" "nTri ?m = 2 * ((nx - 1) * (ny - 1))" "nAttach ?m = 0" "m_attachFixed ?m = []"
    by (simp_all only: nVerts_def nTri_def nAttach_def) simp_all
  have "list_all (\<lambda>v. v < nx * ny) (m_triIdx ?m)"
    unfolding panel_tris_def Let_def add_tris_fold using grid_tris_range by (fastforce simp: list_all_iff empty_mesh_def)
  then show "valid_mesh ?m" unfolding valid_mesh_def s nBend_def using l by simp
  show "stencils_ok ?m" by (simp add: stencils_ok_def nBend_def l)
  have idx: "m_triIdx ?m = concat (map (\<lambda>(a, b, c). [a, b, c]) (grid_tris nx ny))"
    by (simp add: panel_tris_def Let_def add_tris_fold empty_mesh_def)
  have "distinct (item 3 (m_triIdx ?m) t)" if "t < nTri ?m" for t
    unfolding idx using that s(2) grid_tris_distinct by (intro item_triples) (simp_all add: length_grid_tris)
  then show "proper_tris ?m" by (simp add: proper_tris_def)
qed

text \<open>
  C17: a panel of at least one vertex each way is a well-formed mesh, whatever the float
  arithmetic: two triangles a cell, a pin for each column, every index a vertex. Each bending
  stencil is an edge that exactly two triangles have, with the corner of the first and then of
  the second that is opposite to it; and every such edge has its stencil, unless one of the two
  triangles has no area.
\<close>

theorem built_panel_ok:
  assumes "1 \<le> nx" "1 \<le> ny" "3 * nx * ny < 2 ^ 32"
  shows "valid_mesh (build_cloth_mesh F nx ny width height panelTop mass) \<and>
    stencils_ok (build_cloth_mesh F nx ny width height panelTop mass) \<and>
    (\<forall>p0 p1 p2 p3. hinge (build_cloth_mesh F nx ny width height panelTop mass) p0 p1 p2 p3 \<and>
       has_area F (rest_of F nx ny width height panelTop) [p0, p1, p2, p3] \<longrightarrow>
       has_stencil (build_cloth_mesh F nx ny width height panelTop mass) [p0, p1, p2, p3]) \<and>
    nVerts (build_cloth_mesh F nx ny width height panelTop mass) = nx * ny \<and>
    nTri (build_cloth_mesh F nx ny width height panelTop mass) = 2 * ((nx - 1) * (ny - 1)) \<and>
    m_attachVert (build_cloth_mesh F nx ny width height panelTop mass) = map (\<lambda>ix. vid ny ix (ny - 1)) [0..<nx]"
proof -
  define m where "m = build_cloth_mesh F nx ny width height panelTop mass"
  let ?t = "panel_tris F nx ny width height panelTop mass" and ?rest = "rest_of F nx ny width height panelTop"
  let ?b = "foldl (add_bend F ?rest) ?t (edge_map ?t)"
  note hinges = edge_map_hinge [OF panel_tris_ok(7) [of F nx ny width height panelTop mass]]
  have "\<forall>kv\<in>set (edge_map ?t). \<forall>x y. snd kv = [x, y] \<longrightarrow> hinge ?t (fst (fst kv)) (snd (fst kv)) x y"
  proof (intro ballI allI impI)
    fix kv x y
    assume "kv \<in> set (edge_map ?t)" "snd kv = [x, y]"
    then show "hinge ?t (fst (fst kv)) (snd (fst kv)) x y" using hinges by (metis prod.collapse)
  qed
  from add_bends_ok [OF panel_tris_ok(5,6) this]
  have b: "valid_mesh ?b" "stencils_ok ?b" "same_but_bends ?t ?b"
    "\<forall>kv\<in>set (edge_map ?t). length (snd kv) = 2 \<and> has_area F ?rest (entry_stencil kv) \<longrightarrow> has_stencil ?b (entry_stencil kv)" by blast+
  have m: "m = foldl (add_pin ny) ?b [0..<nx]" by (simp add: m_def build_cloth_mesh_def panel_tris_def Let_def)
  have a: "m_attachVert ?b = []" "m_attachFixed ?b = []"
    using b(3) panel_tris_ok(3,4) [of F nx ny width height panelTop mass] by (auto simp: same_but_bends_def nAttach_def)
  have pins: "\<forall>ix<nx. vid ny ix (ny - 1) < nx * ny" using vid_less assms(2) by simp
  have "length (concat (map (\<lambda>ix. item 3 (m_positions ?b) (vid ny ix (ny - 1))) [0..<nx])) = 3 * length [0..<nx]"
    by (rule length_concat_pairs) simp
  then have "valid_mesh m" using b(1) a pins same_but_bendsD(1) [OF b(3)] panel_tris_ok(1) [of F nx ny width height panelTop mass]
    unfolding m add_pins_fold valid_mesh_def nVerts_def nTri_def nBend_def nAttach_def by (simp add: list_all_iff)
  moreover have same: "nTri m = nTri ?b" "m_triIdx m = m_triIdx ?b" "nBend m = nBend ?b" "m_bendIdx m = m_bendIdx ?b"
    unfolding m add_pins_fold nTri_def nBend_def by simp_all
  then have h: "hinge m p0 p1 p2 p3 = hinge ?b p0 p1 p2 p3" "has_stencil m ps = has_stencil ?b ps" for p0 p1 p2 p3 ps
    by (simp_all add: hinge_def has_edge_def has_stencil_def)
  have "stencils_ok m" using b(2) unfolding stencils_ok_def h same .
  moreover have "has_stencil m [p0, p1, p2, p3]" if "hinge m p0 p1 p2 p3" "has_area F ?rest [p0, p1, p2, p3]" for p0 p1 p2 p3
  proof -
    have "((p0, p1), [p2, p3]) \<in> set (edge_map ?t)" using that(1) unfolding h same_but_bendsD(3) [OF b(3)] hinges .
    then show ?thesis using b(4) that(2) unfolding h by (auto simp: entry_stencil_def)
  qed
  moreover have "nVerts m = nx * ny" "nTri m = 2 * ((nx - 1) * (ny - 1))"
    using same_but_bendsD(1,2) [OF b(3)] panel_tris_ok(1,2) [of F nx ny width height panelTop mass]
    unfolding m add_pins_fold nVerts_def nTri_def by simp_all
  moreover have "m_attachVert m = map (\<lambda>ix. vid ny ix (ny - 1)) [0..<nx]" unfolding m add_pins_fold using a by simp
  ultimately show ?thesis unfolding m_def by blast
qed

text \<open>Integers in the place of floats.\<close>

definition demo_fp :: "(int, int) fp" where
  "demo_fp = \<lparr>d_add = (+), d_sub = (-), d_mul = (*), d_div = (div), d_neg = uminus, d_sqrt = id, d_less = (<), d_le = (\<le>),
     d_zero = 0, d_half = 1, d_one = 1, d_four = 4, d_of_nat = int, d_of_f = id, f_of_d = id, f_div = (div), f_of_nat = int, f_zero = 0\<rparr>"

lemma built_panel_ok_witness:
  "valid_mesh (build_cloth_mesh demo_fp 2 3 4 6 0 1) \<and> nTri (build_cloth_mesh demo_fp 2 3 4 6 0 1) = 4 \<and>
   m_attachVert (build_cloth_mesh demo_fp 2 3 4 6 0 1) = [2, 5]"
  using built_panel_ok [of 2 3 demo_fp 4 6 0 1] by (simp add: vid_def upt_rec)

end
