(* ===== verification/ClothTiles.thy ===== *)
theory ClothTiles
  imports ClothGrid
begin

text \<open>
  \<open>split_connected_panel\<close> of \<open>guest/avbd/cloth_grid.cpp\<close>: a panel is cut into bands, and a tile
  holds the vertices of its band with the ghosts its constraints need.
\<close>

section \<open>Splitting a panel into tiles\<close>

text \<open>
  The float operations the bands need: \<open>less\<close> is \<open>a < b\<close>, and \<open>band\<close> the whole expression
  \<open>uint32_t((x - xmin) / span * float(nTiles))\<close>.
\<close>

record 'f panel_floats =
  pf_less :: "'f \<Rightarrow> 'f \<Rightarrow> bool"
  pf_sub :: "'f \<Rightarrow> 'f \<Rightarrow> 'f"
  pf_one :: 'f
  pf_band :: "'f \<Rightarrow> 'f \<Rightarrow> 'f \<Rightarrow> nat \<Rightarrow> nat"

record 'f panel_tile =
  pt_mesh :: "'f cloth_mesh"
  pt_nOwned :: nat
  pt_globalId :: "nat list"

definition x_range :: "'f panel_floats \<Rightarrow> 'f cloth_mesh \<Rightarrow> 'f \<times> 'f" where
  "x_range F m =
     foldl (\<lambda>(xmin, xmax) v. let x = m_positions m ! (3 * v) in
         (if pf_less F x xmin then x else xmin, if pf_less F xmax x then x else xmax))
       (m_positions m ! 0, m_positions m ! 0) [0..<nVerts m]"

definition tile_of :: "'f panel_floats \<Rightarrow> 'f cloth_mesh \<Rightarrow> nat \<Rightarrow> nat list" where
  "tile_of F m nTiles =
     (let (xmin, xmax) = x_range F m;
          span = if pf_less F xmin xmax then pf_sub F xmax xmin else pf_one F
      in map (\<lambda>v. let t = pf_band F (m_positions m ! (3 * v)) xmin span nTiles in if nTiles \<le> t then nTiles - 1 else t) [0..<nVerts m])"

text \<open>\<open>seen\<close>, \<open>owned\<close> and \<open>ghost\<close>, each a list over the tiles.\<close>

type_synonym touched = "bool list list \<times> nat list list \<times> nat list list"

definition touch :: "nat list \<Rightarrow> touched \<Rightarrow> nat \<times> nat \<Rightarrow> touched" where
  "touch tileOf s tv = (case s of (seen, owned, ghost) \<Rightarrow> case tv of (t, v) \<Rightarrow>
     if seen ! t ! v then s
     else let seen = seen[t := (seen ! t)[v := True]] in
       if tileOf ! v = t then (seen, owned[t := owned ! t @ [v]], ghost)
       else (seen, owned, ghost[t := ghost ! t @ [v]]))"

text \<open>The bands a constraint's vertices are in, each once, in the order of the vertices.\<close>

definition bands_of :: "nat list \<Rightarrow> nat list \<Rightarrow> nat list" where
  "bands_of tileOf ids = foldl (\<lambda>bands i. if tileOf ! i \<in> set bands then bands else bands @ [tileOf ! i]) [] ids"

definition touch_constraint :: "nat list \<Rightarrow> touched \<Rightarrow> nat list \<Rightarrow> touched" where
  "touch_constraint tileOf s ids =
     foldl (touch tileOf) s (concat (map (\<lambda>t. map (\<lambda>i. (t, i)) ids) (bands_of tileOf ids)))"

definition touch_all :: "'f cloth_mesh \<Rightarrow> nat list \<Rightarrow> nat \<Rightarrow> touched" where
  "touch_all m tileOf nTiles =
     (let nV = nVerts m;
          s = (replicate nTiles (replicate nV False), replicate nTiles [], replicate nTiles []);
          s = foldl (touch tileOf) s (map (\<lambda>v. (tileOf ! v, v)) [0..<nV]);
          s = foldl (touch_constraint tileOf) s (map (item 3 (m_triIdx m)) [0..<nTri m])
      in foldl (touch_constraint tileOf) s (map (item 4 (m_bendIdx m)) [0..<nBend m]))"

definition in_tile :: "nat list \<Rightarrow> nat \<Rightarrow> nat list \<Rightarrow> bool" where
  "in_tile tileOf t ids = list_ex (\<lambda>i. tileOf ! i = t) ids"

text \<open>A vertex goes to the end of the tile; \<open>localOf\<close> starts as -1 everywhere.\<close>

definition tile_add :: "'f cloth_mesh \<Rightarrow> 'f panel_tile \<times> int list \<Rightarrow> nat \<Rightarrow> 'f panel_tile \<times> int list" where
  "tile_add m s g = (case s of (pt, localOf) \<Rightarrow>
     (pt\<lparr>pt_globalId := pt_globalId pt @ [g],
         pt_mesh := (pt_mesh pt)\<lparr>m_positions := m_positions (pt_mesh pt) @ item 3 (m_positions m) g,
           m_mass := m_mass (pt_mesh pt) @ [m_mass m ! g]\<rparr>\<rparr>,
      localOf[g := int (length (pt_globalId pt))]))"

text \<open>\<open>uint32_t(localOf[g])\<close>: a vertex the tile does not have would become 2^32 - 1.\<close>

definition local_id :: "int list \<Rightarrow> nat \<Rightarrow> nat" where
  "local_id localOf g = nat (localOf ! g mod 2 ^ 32)"

definition tile_tri :: "'f cloth_mesh \<Rightarrow> nat list \<Rightarrow> nat \<Rightarrow> int list \<Rightarrow> 'f cloth_mesh \<Rightarrow> nat \<Rightarrow> 'f cloth_mesh" where
  "tile_tri m tileOf t localOf pm ti =
     (if \<not> in_tile tileOf t (item 3 (m_triIdx m) ti) then pm
      else pm\<lparr>m_triIdx := m_triIdx pm @ map (local_id localOf) (item 3 (m_triIdx m) ti),
              m_triInvUV := m_triInvUV pm @ item 4 (m_triInvUV m) ti\<rparr>)"

definition tile_bend :: "'f cloth_mesh \<Rightarrow> nat list \<Rightarrow> nat \<Rightarrow> int list \<Rightarrow> 'f cloth_mesh \<Rightarrow> nat \<Rightarrow> 'f cloth_mesh" where
  "tile_bend m tileOf t localOf pm b =
     (if \<not> in_tile tileOf t (item 4 (m_bendIdx m) b) then pm
      else pm\<lparr>m_bendIdx := m_bendIdx pm @ map (local_id localOf) (item 4 (m_bendIdx m) b),
              m_bendWeight := m_bendWeight pm @ item 4 (m_bendWeight m) b,
              m_bendNTarget := m_bendNTarget pm @ [m_bendNTarget m ! b]\<rparr>)"

definition tile_attach :: "'f cloth_mesh \<Rightarrow> nat list \<Rightarrow> nat \<Rightarrow> int list \<Rightarrow> 'f cloth_mesh \<Rightarrow> nat \<Rightarrow> 'f cloth_mesh" where
  "tile_attach m tileOf t localOf pm a =
     (let g = m_attachVert m ! a in
      if tileOf ! g \<noteq> t then pm
      else pm\<lparr>m_attachVert := m_attachVert pm @ [local_id localOf g],
              m_attachFixed := m_attachFixed pm @ item 3 (m_attachFixed m) a\<rparr>)"

definition build_tile :: "'f \<Rightarrow> 'f cloth_mesh \<Rightarrow> nat list \<Rightarrow> nat list \<Rightarrow> nat list \<Rightarrow> nat \<Rightarrow> 'f panel_tile" where
  "build_tile z m tileOf owned ghost t =
     (let (pt, localOf) = foldl (tile_add m) (\<lparr>pt_mesh = empty_mesh z, pt_nOwned = length owned, pt_globalId = []\<rparr>,
            replicate (nVerts m) (- 1)) (owned @ ghost);
          pm = foldl (tile_tri m tileOf t localOf) (pt_mesh pt) [0..<nTri m];
          pm = foldl (tile_bend m tileOf t localOf) pm [0..<nBend m];
          pm = foldl (tile_attach m tileOf t localOf) pm [0..<nAttach m]
      in pt\<lparr>pt_mesh := pm\<lparr>m_faces := m_triIdx pm\<rparr>\<rparr>)"

definition split_connected_panel :: "'f panel_floats \<Rightarrow> 'f \<Rightarrow> 'f cloth_mesh \<Rightarrow> nat \<Rightarrow> 'f panel_tile list" where
  "split_connected_panel F z m nTiles =
     (let tileOf = tile_of F m nTiles; (seen, owned, ghost) = touch_all m tileOf nTiles
      in map (\<lambda>t. build_tile z m tileOf (owned ! t) (ghost ! t) t) [0..<nTiles])"

subsection \<open>What is touched\<close>

lemma foldl_concat_map: "foldl (\<lambda>s x. foldl f s (g x)) s xs = foldl f s (concat (map g xs))"
  by (induction xs arbitrary: s) simp_all

definition constraint_pairs :: "nat list \<Rightarrow> nat list \<Rightarrow> (nat \<times> nat) list" where
  "constraint_pairs tileOf ids = concat (map (\<lambda>t. map (\<lambda>i. (t, i)) ids) (bands_of tileOf ids))"

lemma set_bands_of: "set (bands_of tileOf ids) = (!) tileOf ` set ids"
proof -
  have "set (foldl (\<lambda>bands i. if tileOf ! i \<in> set bands then bands else bands @ [tileOf ! i]) bs ids) = set bs \<union> (!) tileOf ` set ids" for bs
    by (induction ids arbitrary: bs) auto
  then show ?thesis by (simp add: bands_of_def)
qed

lemma set_constraint_pairs: "set (constraint_pairs tileOf ids) = {(t, i). in_tile tileOf t ids \<and> i \<in> set ids}"
  by (auto simp: constraint_pairs_def set_bands_of in_tile_def list_ex_iff)

text \<open>The state after the pairs of \<open>S\<close> were touched, \<open>T\<close> tiles and \<open>n\<close> vertices.\<close>

definition touched_inv :: "nat list \<Rightarrow> nat \<Rightarrow> nat \<Rightarrow> (nat \<times> nat) set \<Rightarrow> touched \<Rightarrow> bool" where
  "touched_inv tileOf T n S s \<longleftrightarrow> (case s of (seen, owned, ghost) \<Rightarrow>
     length seen = T \<and> length owned = T \<and> length ghost = T \<and>
     (\<forall>t<T. length (seen ! t) = n \<and> (\<forall>v<n. seen ! t ! v = ((t, v) \<in> S)) \<and>
        distinct (owned ! t) \<and> distinct (ghost ! t) \<and>
        set (owned ! t) = {v. v < n \<and> (t, v) \<in> S \<and> tileOf ! v = t} \<and>
        set (ghost ! t) = {v. v < n \<and> (t, v) \<in> S \<and> tileOf ! v \<noteq> t}))"

lemma touch_inv:
  assumes "touched_inv tileOf T n S s" "t < T" "v < n"
  shows "touched_inv tileOf T n (insert (t, v) S) (touch tileOf s (t, v))"
proof -
  obtain seen owned ghost where s: "s = (seen, owned, ghost)" by (metis prod_cases3)
  have I: "length seen = T" "length owned = T" "length ghost = T" using assms(1) by (simp_all add: touched_inv_def s)
  have J: "length (seen ! u) = n" "w < n \<Longrightarrow> seen ! u ! w = ((u, w) \<in> S)" "distinct (owned ! u)" "distinct (ghost ! u)"
    "set (owned ! u) = {v. v < n \<and> (u, v) \<in> S \<and> tileOf ! v = u}" "set (ghost ! u) = {v. v < n \<and> (u, v) \<in> S \<and> tileOf ! v \<noteq> u}"
    if "u < T" for u w using assms(1) that by (simp_all add: touched_inv_def s)
  show ?thesis
  proof (cases "(t, v) \<in> S")
    case True
    then show ?thesis using assms J(2) [of t v] by (simp add: touch_def s insert_absorb)
  next
    case False
    let ?seen = "seen[t := (seen ! t)[v := True]]"
    have seen: "length (?seen ! u) = n" "w < n \<Longrightarrow> ?seen ! u ! w = ((u, w) \<in> insert (t, v) S)" if "u < T" for u w
      using J(1,2) [OF that] that I assms(2,3) by (cases "u = t"; cases "w = v"; simp)+
    show ?thesis
    proof (cases "tileOf ! v = t")
      case own: True
      then have "touch tileOf s (t, v) = (?seen, owned[t := owned ! t @ [v]], ghost)"
        using False J(2) [OF assms(2), of v] assms(3) by (simp add: touch_def s)
      moreover have "distinct (owned[t := owned ! t @ [v]] ! u) \<and> set (owned[t := owned ! t @ [v]] ! u) = {w. w < n \<and> (u, w) \<in> insert (t, v) S \<and> tileOf ! w = u}"
        if "u < T" for u using J(3,5) [OF that] that I False own assms(3) by (cases "u = t") auto
      moreover have "set (ghost ! u) = {w. w < n \<and> (u, w) \<in> insert (t, v) S \<and> tileOf ! w \<noteq> u}" if "u < T" for u
        using J(6) [OF that] own by auto
      ultimately show ?thesis using I J(4) seen by (simp add: touched_inv_def)
    next
      case other: False
      then have "touch tileOf s (t, v) = (?seen, owned, ghost[t := ghost ! t @ [v]])"
        using False J(2) [OF assms(2), of v] assms(3) by (simp add: touch_def s)
      moreover have "distinct (ghost[t := ghost ! t @ [v]] ! u) \<and> set (ghost[t := ghost ! t @ [v]] ! u) = {w. w < n \<and> (u, w) \<in> insert (t, v) S \<and> tileOf ! w \<noteq> u}"
        if "u < T" for u using J(4,6) [OF that] that I False other assms(3) by (cases "u = t") auto
      moreover have "set (owned ! u) = {w. w < n \<and> (u, w) \<in> insert (t, v) S \<and> tileOf ! w = u}" if "u < T" for u
        using J(5) [OF that] other by auto
      ultimately show ?thesis using I J(3) seen by (simp add: touched_inv_def)
    qed
  qed
qed

lemma touch_fold_inv:
  "touched_inv tileOf T n S s \<Longrightarrow> \<forall>(t, v)\<in>set tvs. t < T \<and> v < n \<Longrightarrow>
   touched_inv tileOf T n (S \<union> set tvs) (foldl (touch tileOf) s tvs)"
proof (induction tvs arbitrary: S s)
  case (Cons tv tvs)
  obtain t v where tv: "tv = (t, v)" by fastforce
  have "touched_inv tileOf T n (insert (t, v) S \<union> set tvs) (foldl (touch tileOf) (touch tileOf s (t, v)) tvs)"
    using Cons.prems tv by (intro Cons.IH touch_inv) auto
  then show ?case by (simp add: tv)
qed simp

lemma touch_all_inv:
  assumes m: "valid_mesh m" and tileOf: "\<forall>v<nVerts m. tileOf ! v < T"
  shows "touched_inv tileOf T (nVerts m)
    ({(t, v). v < nVerts m \<and> t = tileOf ! v} \<union>
     {(t, v). \<exists>i<nTri m. in_tile tileOf t (item 3 (m_triIdx m) i) \<and> v \<in> set (item 3 (m_triIdx m) i)} \<union>
     {(t, v). \<exists>i<nBend m. in_tile tileOf t (item 4 (m_bendIdx m) i) \<and> v \<in> set (item 4 (m_bendIdx m) i)}) (touch_all m tileOf T)"
proof -
  let ?pairs = "map (\<lambda>v. (tileOf ! v, v)) [0..<nVerts m] @ concat (map (constraint_pairs tileOf) (map (item 3 (m_triIdx m)) [0..<nTri m])) @
    concat (map (constraint_pairs tileOf) (map (item 4 (m_bendIdx m)) [0..<nBend m]))"
  let ?init = "(replicate T (replicate (nVerts m) False), replicate T [], replicate T []) :: touched"
  have "touch_all m tileOf T = foldl (touch tileOf) ?init ?pairs"
    unfolding touch_all_def touch_constraint_def constraint_pairs_def [symmetric] foldl_concat_map Let_def by simp
  moreover have "touched_inv tileOf T (nVerts m) {} ?init" by (simp add: touched_inv_def)
  moreover have "\<forall>(t, v)\<in>set ?pairs. t < T \<and> v < nVerts m"
    using tileOf valid_indices(1,2) [OF m] by (fastforce simp: set_constraint_pairs in_tile_def list_ex_iff item_def)
  moreover have "set ?pairs = {(t, v). v < nVerts m \<and> t = tileOf ! v} \<union>
     {(t, v). \<exists>i<nTri m. in_tile tileOf t (item 3 (m_triIdx m) i) \<and> v \<in> set (item 3 (m_triIdx m) i)} \<union>
     {(t, v). \<exists>i<nBend m. in_tile tileOf t (item 4 (m_bendIdx m) i) \<and> v \<in> set (item 4 (m_bendIdx m) i)}"
    by (auto simp: set_constraint_pairs image_iff)
  ultimately show ?thesis using touch_fold_inv [of tileOf T "nVerts m" "{}" ?init ?pairs] by (simp only: Un_empty_left)
qed

subsection \<open>A tile from its vertices\<close>

lemma tile_vertices:
  assumes "distinct gs" "\<forall>g\<in>set gs. g < n"
  shows "\<exists>loc. foldl (tile_add m) (\<lparr>pt_mesh = pm, pt_nOwned = k, pt_globalId = []\<rparr>, replicate n (- 1)) gs =
      (\<lparr>pt_mesh = pm\<lparr>m_positions := m_positions pm @ concat (map (item 3 (m_positions m)) gs), m_mass := m_mass pm @ map ((!) (m_mass m)) gs\<rparr>,
        pt_nOwned = k, pt_globalId = gs\<rparr>, loc) \<and> length loc = n \<and> (\<forall>i<length gs. loc ! (gs ! i) = int i)"
  using assms
proof (induction gs rule: rev_induct)
  case (snoc g gs)
  then obtain loc where l: "foldl (tile_add m) (\<lparr>pt_mesh = pm, pt_nOwned = k, pt_globalId = []\<rparr>, replicate n (- 1)) gs =
      (\<lparr>pt_mesh = pm\<lparr>m_positions := m_positions pm @ concat (map (item 3 (m_positions m)) gs), m_mass := m_mass pm @ map ((!) (m_mass m)) gs\<rparr>,
        pt_nOwned = k, pt_globalId = gs\<rparr>, loc)" "length loc = n" "\<forall>i<length gs. loc ! (gs ! i) = int i"
    by auto
  have "loc[g := int (length gs)] ! ((gs @ [g]) ! i) = int i" if "i < length (gs @ [g])" for i
  proof (cases "i = length gs")
    case False
    then have "i < length gs" using that by simp
    moreover have "gs ! i \<noteq> g" using snoc.prems(1) nth_mem [OF \<open>i < length gs\<close>] by auto
    ultimately show ?thesis using l(3) by (simp add: nth_append)
  qed (use l(2) snoc.prems(2) in simp)
  moreover have "foldl (tile_add m) (\<lparr>pt_mesh = pm, pt_nOwned = k, pt_globalId = []\<rparr>, replicate n (- 1)) (gs @ [g]) =
      tile_add m (\<lparr>pt_mesh = pm\<lparr>m_positions := m_positions pm @ concat (map (item 3 (m_positions m)) gs), m_mass := m_mass pm @ map ((!) (m_mass m)) gs\<rparr>,
        pt_nOwned = k, pt_globalId = gs\<rparr>, loc) g"
    by (simp only: foldl_append foldl_Cons foldl_Nil l(1))
  ultimately show ?case using l(2) by (simp only:) (simp add: tile_add_def)
qed simp

lemma tile_constraints:
  "foldl (tile_tri m tileOf t loc) pm is = pm\<lparr>
     m_triIdx := m_triIdx pm @ map (local_id loc) (concat (map (item 3 (m_triIdx m)) (filter (\<lambda>i. in_tile tileOf t (item 3 (m_triIdx m) i)) is))),
     m_triInvUV := m_triInvUV pm @ concat (map (item 4 (m_triInvUV m)) (filter (\<lambda>i. in_tile tileOf t (item 3 (m_triIdx m) i)) is))\<rparr>"
  "foldl (tile_bend m tileOf t loc) pm is = pm\<lparr>
     m_bendIdx := m_bendIdx pm @ map (local_id loc) (concat (map (item 4 (m_bendIdx m)) (filter (\<lambda>i. in_tile tileOf t (item 4 (m_bendIdx m) i)) is))),
     m_bendWeight := m_bendWeight pm @ concat (map (item 4 (m_bendWeight m)) (filter (\<lambda>i. in_tile tileOf t (item 4 (m_bendIdx m) i)) is)),
     m_bendNTarget := m_bendNTarget pm @ map ((!) (m_bendNTarget m)) (filter (\<lambda>i. in_tile tileOf t (item 4 (m_bendIdx m) i)) is)\<rparr>"
  "foldl (tile_attach m tileOf t loc) pm is = pm\<lparr>
     m_attachVert := m_attachVert pm @ map (local_id loc) (map ((!) (m_attachVert m)) (filter (\<lambda>a. tileOf ! (m_attachVert m ! a) = t) is)),
     m_attachFixed := m_attachFixed pm @ concat (map (item 3 (m_attachFixed m)) (filter (\<lambda>a. tileOf ! (m_attachVert m ! a) = t) is))\<rparr>"
  by (induction "is" arbitrary: pm) (simp_all add: tile_tri_def tile_bend_def tile_attach_def Let_def)

text \<open>Indices that are in the tile become its own numbers, which the tile maps back.\<close>

lemma local_ids:
  assumes loc: "\<forall>i<length gs. loc ! (gs ! i) = int i" and small: "length gs < 2 ^ 32" and vs: "set vs \<subseteq> set gs"
  shows "list_all (\<lambda>i. i < length gs) (map (local_id loc) vs) \<and> map ((!) gs) (map (local_id loc) vs) = vs"
proof -
  have one: "local_id loc v < length gs \<and> gs ! local_id loc v = v" if v: "v \<in> set gs" for v
  proof -
    obtain i where i: "i < length gs" "gs ! i = v" using v by (metis in_set_conv_nth)
    then have "local_id loc v = i" using loc small by (auto simp: local_id_def)
    then show ?thesis using i by simp
  qed
  show ?thesis using vs by (induction vs) (auto simp: one)
qed

lemma build_tile_consistent:
  fixes z :: 'f
  assumes m: "valid_mesh (m :: 'f cloth_mesh)" "nVerts m < 2 ^ 32" and gs: "distinct (owned @ ghost)" "set (owned @ ghost) \<subseteq> {..<nVerts m}"
    and tri: "\<forall>i<nTri m. in_tile tileOf t (item 3 (m_triIdx m) i) \<longrightarrow> set (item 3 (m_triIdx m) i) \<subseteq> set (owned @ ghost)"
    and bend: "\<forall>i<nBend m. in_tile tileOf t (item 4 (m_bendIdx m) i) \<longrightarrow> set (item 4 (m_bendIdx m) i) \<subseteq> set (owned @ ghost)"
    and att: "\<forall>a<nAttach m. tileOf ! (m_attachVert m ! a) = t \<longrightarrow> m_attachVert m ! a \<in> set (owned @ ghost)"
  defines "pt \<equiv> build_tile z m tileOf owned ghost t"
  shows "pt_globalId pt = owned @ ghost \<and> pt_nOwned pt = length owned \<and> valid_mesh (pt_mesh pt) \<and>
    m_positions (pt_mesh pt) = concat (map (item 3 (m_positions m)) (owned @ ghost)) \<and>
    map ((!) (owned @ ghost)) (m_triIdx (pt_mesh pt)) = concat (map (item 3 (m_triIdx m)) (filter (\<lambda>i. in_tile tileOf t (item 3 (m_triIdx m) i)) [0..<nTri m])) \<and>
    map ((!) (owned @ ghost)) (m_bendIdx (pt_mesh pt)) = concat (map (item 4 (m_bendIdx m)) (filter (\<lambda>i. in_tile tileOf t (item 4 (m_bendIdx m) i)) [0..<nBend m]))"
proof -
  let ?gs = "owned @ ghost"
  let ?ts = "filter (\<lambda>i. in_tile tileOf t (item 3 (m_triIdx m) i)) [0..<nTri m]"
    and ?bs = "filter (\<lambda>i. in_tile tileOf t (item 4 (m_bendIdx m) i)) [0..<nBend m]"
    and ?as = "filter (\<lambda>a. tileOf ! (m_attachVert m ! a) = t) [0..<nAttach m]"
  obtain loc where l: "foldl (tile_add m) (\<lparr>pt_mesh = empty_mesh z, pt_nOwned = length owned, pt_globalId = []\<rparr>, replicate (nVerts m) (- 1)) ?gs =
      (\<lparr>pt_mesh = (empty_mesh z)\<lparr>m_positions := concat (map (item 3 (m_positions m)) ?gs), m_mass := map ((!) (m_mass m)) ?gs\<rparr>,
        pt_nOwned = length owned, pt_globalId = ?gs\<rparr>, loc)" "\<forall>i<length ?gs. loc ! (?gs ! i) = int i"
    using tile_vertices [OF gs(1), of "nVerts m" m "empty_mesh z" "length owned"] gs(2) by (auto simp: empty_mesh_def)
  have "length ?gs \<le> nVerts m" using gs card_mono [of "{..<nVerts m}" "set ?gs"] distinct_card [OF gs(1)] by simp
  then have small: "length ?gs < 2 ^ 32" using m(2) by linarith
  have T: "set (concat (map (item 3 (m_triIdx m)) ?ts)) \<subseteq> set ?gs" using tri by fastforce
  have B: "set (concat (map (item 4 (m_bendIdx m)) ?bs)) \<subseteq> set ?gs" using bend by fastforce
  have A: "set (map ((!) (m_attachVert m)) ?as) \<subseteq> set ?gs" using att by auto
  note ids = local_ids [OF l(2) small T] local_ids [OF l(2) small B] local_ids [OF l(2) small A]
  have pt: "pt = \<lparr>pt_mesh = (empty_mesh z)\<lparr>m_positions := concat (map (item 3 (m_positions m)) ?gs), m_mass := map ((!) (m_mass m)) ?gs,
        m_triIdx := map (local_id loc) (concat (map (item 3 (m_triIdx m)) ?ts)), m_triInvUV := concat (map (item 4 (m_triInvUV m)) ?ts),
        m_bendIdx := map (local_id loc) (concat (map (item 4 (m_bendIdx m)) ?bs)), m_bendWeight := concat (map (item 4 (m_bendWeight m)) ?bs),
        m_bendNTarget := map ((!) (m_bendNTarget m)) ?bs, m_attachVert := map (local_id loc) (map ((!) (m_attachVert m)) ?as),
        m_attachFixed := concat (map (item 3 (m_attachFixed m)) ?as), m_faces := map (local_id loc) (concat (map (item 3 (m_triIdx m)) ?ts))\<rparr>,
      pt_nOwned = length owned, pt_globalId = ?gs\<rparr>"
    unfolding pt_def build_tile_def l(1) Let_def prod.case tile_constraints by (simp add: empty_mesh_def)
  have "nVerts (pt_mesh pt) = length ?gs" unfolding pt nVerts_def by (simp add: length_concat_item flip: map_append concat_append)
  then have "valid_mesh (pt_mesh pt)" unfolding valid_mesh_def using ids
    by (simp add: pt nTri_def nBend_def nAttach_def length_concat_item)
  then show ?thesis using ids by (simp add: pt)
qed

subsection \<open>The tiles cover the panel\<close>

lemma tile_of_range: "0 < nTiles \<Longrightarrow> v < nVerts m \<Longrightarrow> tile_of F m nTiles ! v < nTiles"
  by (auto simp: tile_of_def Let_def split: prod.split)

text \<open>What tile \<open>t\<close> must hold: its numbers resolve to the panel's, and it has every constraint with a vertex it owns.\<close>

definition tile_ok :: "'f cloth_mesh \<Rightarrow> nat list \<Rightarrow> nat \<Rightarrow> 'f panel_tile \<Rightarrow> bool" where
  "tile_ok m tileOf t pt \<longleftrightarrow>
     distinct (pt_globalId pt) \<and> set (pt_globalId pt) \<subseteq> {..<nVerts m} \<and>
     set (take (pt_nOwned pt) (pt_globalId pt)) = {v. v < nVerts m \<and> tileOf ! v = t} \<and>
     valid_mesh (pt_mesh pt) \<and>
     m_positions (pt_mesh pt) = concat (map (item 3 (m_positions m)) (pt_globalId pt)) \<and>
     map ((!) (pt_globalId pt)) (m_triIdx (pt_mesh pt)) =
       concat (map (item 3 (m_triIdx m)) (filter (\<lambda>i. in_tile tileOf t (item 3 (m_triIdx m) i)) [0..<nTri m])) \<and>
     map ((!) (pt_globalId pt)) (m_bendIdx (pt_mesh pt)) =
       concat (map (item 4 (m_bendIdx m)) (filter (\<lambda>i. in_tile tileOf t (item 4 (m_bendIdx m) i)) [0..<nBend m]))"

text \<open>
  C15: on a well-formed panel every tile is a well-formed mesh whose numbers, read through
  \<open>globalId\<close>, are the panel's: it has every triangle and stencil with a vertex in its band,
  and so every neighbour its own vertices need. The tiles own each vertex once, and a tile's
  own vertices come first.
\<close>

theorem panel_tiles_cover:
  assumes "valid_mesh m" "nVerts m < 2 ^ 32" "0 < nTiles" "0 < nVerts m"
  shows "length (split_connected_panel F z m nTiles) = nTiles \<and>
    (\<forall>v<nVerts m. tile_of F m nTiles ! v < nTiles) \<and>
    (\<forall>t<nTiles. tile_ok m (tile_of F m nTiles) t (split_connected_panel F z m nTiles ! t))"
proof (intro conjI allI impI)
  let ?tileOf = "tile_of F m nTiles"
  obtain seen owned ghost where s: "touch_all m ?tileOf nTiles = (seen, owned, ghost)" by (metis prod_cases3)
  then have split: "split_connected_panel F z m nTiles = map (\<lambda>t. build_tile z m ?tileOf (owned ! t) (ghost ! t) t) [0..<nTiles]"
    by (simp add: split_connected_panel_def)
  then show "length (split_connected_panel F z m nTiles) = nTiles" by simp
  show rng: "?tileOf ! v < nTiles" if "v < nVerts m" for v using tile_of_range [OF assms(3) that] .
  fix t
  assume t: "t < nTiles"
  note inv = touch_all_inv [OF assms(1), of ?tileOf nTiles, unfolded s touched_inv_def prod.case]
  have own: "set (owned ! t) = {v. v < nVerts m \<and> ?tileOf ! v = t}" and gh: "distinct (owned ! t)" "distinct (ghost ! t)"
      "set (ghost ! t) \<subseteq> {v. v < nVerts m \<and> ?tileOf ! v \<noteq> t}"
    and all: "\<And>v. v < nVerts m \<Longrightarrow> (\<exists>i<nTri m. in_tile ?tileOf t (item 3 (m_triIdx m) i) \<and> v \<in> set (item 3 (m_triIdx m) i)) \<or>
        (\<exists>i<nBend m. in_tile ?tileOf t (item 4 (m_bendIdx m) i) \<and> v \<in> set (item 4 (m_bendIdx m) i)) \<Longrightarrow> v \<in> set (owned ! t @ ghost ! t)"
    using inv rng t by auto
  have "tile_ok m ?tileOf t (build_tile z m ?tileOf (owned ! t) (ghost ! t) t)"
  proof -
    have "distinct (owned ! t @ ghost ! t)" "set (owned ! t @ ghost ! t) \<subseteq> {..<nVerts m}" using own gh by auto
    moreover have "\<forall>i<nTri m. in_tile ?tileOf t (item 3 (m_triIdx m) i) \<longrightarrow> set (item 3 (m_triIdx m) i) \<subseteq> set (owned ! t @ ghost ! t)"
      using all items_range(1) [OF assms(1)] by blast
    moreover have "\<forall>i<nBend m. in_tile ?tileOf t (item 4 (m_bendIdx m) i) \<longrightarrow> set (item 4 (m_bendIdx m) i) \<subseteq> set (owned ! t @ ghost ! t)"
      using all items_range(2) [OF assms(1)] by blast
    moreover have "\<forall>a<nAttach m. ?tileOf ! (m_attachVert m ! a) = t \<longrightarrow> m_attachVert m ! a \<in> set (owned ! t @ ghost ! t)"
      using own valid_indices(3) [OF assms(1)] by auto
    ultimately show ?thesis
      using build_tile_consistent [OF assms(1,2), of "owned ! t" "ghost ! t" ?tileOf t z] own by (simp add: tile_ok_def)
  qed
  then show "tile_ok m ?tileOf t (split_connected_panel F z m nTiles ! t)" using split t by simp
qed

text \<open>Bands of integers.\<close>

definition demo_floats :: "int panel_floats" where
  "demo_floats = \<lparr>pf_less = (<), pf_sub = (-), pf_one = 1, pf_band = (\<lambda>x lo span n. nat ((x - lo) * int n div span))\<rparr>"

lemma panel_tiles_cover_witness:
  "length (split_connected_panel demo_floats 0 demo_mesh 2) = 2 \<and>
   tile_ok demo_mesh (tile_of demo_floats demo_mesh 2) 1 (split_connected_panel demo_floats 0 demo_mesh 2 ! 1)"
proof -
  have "nVerts demo_mesh < 2 ^ 32" "0 < nVerts demo_mesh" by (simp_all add: nVerts_def demo_mesh_def)
  from panel_tiles_cover [OF demo_mesh_valid this(1) _ this(2), of 2] show ?thesis by simp
qed

end
