(* ===== verification/ClothCombine.thy ===== *)
theory ClothCombine
  imports ClothGrid
begin

text \<open>
  \<open>combine_meshes\<close> and \<open>partition_islands\<close> of \<open>guest/avbd/cloth_grid.cpp\<close> undo each other:
  connected parts put together come unshift as they were, in their order.
\<close>

section \<open>Island numbers are unique\<close>

lemma component_numbersD:
  assumes "component_numbers m nums n"
  shows "length nums = nVerts m" "v < nVerts m \<Longrightarrow> nums ! v < n" "k < n \<Longrightarrow> \<exists>v<nVerts m. nums ! v = k"
    and "v < nVerts m \<Longrightarrow> w < nVerts m \<Longrightarrow> nums ! v = nums ! w \<longleftrightarrow> (v, w) \<in> linked (mesh_pairs m)"
    and "v < nVerts m \<Longrightarrow> j < nums ! v \<Longrightarrow> \<exists>u<v. nums ! u = j"
  using assms unfolding component_numbers_def by simp_all

text \<open>If two numberings agree below \<open>v\<close>, neither gives \<open>v\<close> a smaller number.\<close>

lemma numbers_not_less:
  assumes a: "component_numbers m nums n" and b: "component_numbers m nums2 n2" and v: "v < nVerts m"
    and prev: "\<And>u. u < v \<Longrightarrow> nums ! u = nums2 ! u"
  shows "\<not> nums ! v < nums2 ! v"
proof
  assume less: "nums ! v < nums2 ! v"
  then obtain u where u: "u < v" "nums2 ! u = nums ! v" using component_numbersD(5) [OF b v] by blast
  then have "nums ! u = nums ! v" using prev by simp
  moreover have "u < nVerts m" using u v by simp
  ultimately have "nums2 ! u = nums2 ! v" using component_numbersD(4) [OF a _ v] component_numbersD(4) [OF b _ v] by simp
  then show False using u less by simp
qed

lemma component_numbers_unique:
  assumes a: "component_numbers m nums n" and b: "component_numbers m nums2 n2"
  shows "nums = nums2" "n = n2"
proof -
  have "v < nVerts m \<Longrightarrow> nums ! v = nums2 ! v" for v
  proof (induction v rule: less_induct)
    case (less v)
    then have prev: "nums ! u = nums2 ! u" if "u < v" for u using that by simp
    show ?case using numbers_not_less [OF a b less.prems prev] numbers_not_less [OF b a less.prems prev [symmetric]] by simp
  qed
  then show eq: "nums = nums2" using component_numbersD(1) [OF a] component_numbersD(1) [OF b] by (intro nth_equalityI) simp_all
  have "\<not> n < n2" using component_numbersD(3) [OF b, of n] component_numbersD(2) [OF a] eq by auto
  moreover have "\<not> n2 < n" using component_numbersD(3) [OF a, of n2] component_numbersD(2) [OF b] eq by auto
  ultimately show "n = n2" by simp
qed

section \<open>Blocks\<close>

text \<open>Where part \<open>k\<close> starts when parts of the sizes \<open>c\<close> are laid one after another.\<close>

definition start :: "('b \<Rightarrow> nat) \<Rightarrow> 'b list \<Rightarrow> nat \<Rightarrow> nat" where
  "start c ps k = sum_list (map c (take k ps))"

lemma start_Suc: "k < length ps \<Longrightarrow> start c ps (Suc k) = start c ps k + c (ps ! k)"
  by (simp add: start_def take_Suc_conv_app_nth)

lemma start_0 [simp]: "start c ps 0 = 0"
  by (simp add: start_def)

lemma start_mono: "j \<le> k \<Longrightarrow> start c ps j \<le> start c ps k"
proof -
  assume "j \<le> k"
  then have "take k ps = take j ps @ take (k - j) (drop j ps)" by (metis le_add_diff_inverse take_add)
  then show ?thesis by (simp add: start_def)
qed

lemma in_block:
  "v < start c ps (length ps) \<Longrightarrow> \<exists>k<length ps. \<exists>i<c (ps ! k). v = start c ps k + i"
proof (induction ps arbitrary: v)
  case (Cons p ps)
  show ?case
  proof (cases "v < c p")
    case True
    then show ?thesis by (intro exI [of _ 0]) simp
  next
    case False
    then have "v - c p < start c ps (length ps)" using Cons.prems by (simp add: start_def)
    then obtain k i where "k < length ps" "i < c (ps ! k)" "v - c p = start c ps k + i" using Cons.IH by blast
    then show ?thesis using False by (intro exI [of _ "Suc k"] conjI exI [of _ i]) (auto simp: start_def)
  qed
qed (simp add: start_def)

lemma block_less: "k < length ps \<Longrightarrow> i < c (ps ! k) \<Longrightarrow> start c ps k + i < start c ps (length ps)"
  using start_Suc [of k ps c] start_mono [of "Suc k" "length ps" c ps] by simp

lemma block_unique:
  assumes "k < length ps" "i < c (ps ! k)" "l < length ps" "j < c (ps ! l)" "start c ps k + i = start c ps l + j"
  shows "k = l \<and> i = j"
proof -
  have "\<not> k < l" using assms start_Suc [of k ps c] start_mono [of "Suc k" l c ps] by auto
  moreover have "\<not> l < k" using assms start_Suc [of l ps c] start_mono [of "Suc l" k c ps] by auto
  ultimately show ?thesis using assms(5) by (metis add_left_cancel linorder_neqE_nat)
qed

lemma concat_nth_block:
  "\<forall>p\<in>set ps. length (f p) = g * c p \<Longrightarrow> k < length ps \<Longrightarrow> i < g * c (ps ! k) \<Longrightarrow> concat (map f ps) ! (g * start c ps k + i) = f (ps ! k) ! i"
proof (induction ps arbitrary: k)
  case (Cons p ps)
  show ?case
  proof (cases k)
    case 0
    then show ?thesis using Cons.prems by (simp add: nth_append)
  next
    case (Suc l)
    then have "start c (p # ps) k = c p + start c ps l" by (simp add: start_def)
    then show ?thesis using Cons Suc by (simp add: nth_append algebra_simps)
  qed
qed simp

lemma length_concat_blocks: "\<forall>p\<in>set ps. length (f p) = g * c p \<Longrightarrow> length (concat (map f ps)) = g * start c ps (length ps)"
  by (induction ps) (simp_all add: start_def algebra_simps)

lemma filter_interval:
  "(\<And>v. v < n \<Longrightarrow> P v \<longleftrightarrow> a \<le> v \<and> v < b) \<Longrightarrow> b \<le> n \<Longrightarrow> a \<le> b \<Longrightarrow> filter P [0..<n] = [a..<b]"
proof -
  assume P: "\<And>v. v < n \<Longrightarrow> P v \<longleftrightarrow> a \<le> v \<and> v < b" and b: "b \<le> n" "a \<le> b"
  have "[0..<n] = [0..<a] @ [a..<b] @ [b..<n]"
    using b upt_add_eq_append [of 0 a "n - a"] upt_add_eq_append [of a b "n - b"] by simp
  moreover have "filter P [0..<a] = []" "filter P [b..<n] = []" "filter P [a..<b] = [a..<b]"
    using P b by (auto simp: filter_empty_conv filter_id_conv)
  ultimately show ?thesis by simp
qed

lemma item_bound: "i < c \<Longrightarrow> r < g \<Longrightarrow> g * i + r < g * (c :: nat)"
proof -
  assume "i < c" "r < g"
  then have "g * i + r < g * Suc i" "g * Suc i \<le> g * c" by (simp, intro mult_le_mono2) simp
  then show ?thesis by simp
qed

lemma concat_items:
  "length ys = g * c \<Longrightarrow> (\<And>i r. i < c \<Longrightarrow> r < g \<Longrightarrow> xs ! (g * (a + i) + r) = f (ys ! (g * i + r))) \<Longrightarrow>
   concat (map (item g xs) [a..<a + c]) = map f ys"
proof (induction c arbitrary: ys)
  case (Suc c)
  let ?zs = "take (g * c) ys" and ?last = "drop (g * c) ys"
  have "concat (map (item g xs) [a..<a + c]) = map f ?zs"
    using Suc.prems by (intro Suc.IH) (simp_all add: item_bound)
  moreover have "item g xs (a + c) = map f ?last"
    using Suc.prems by (intro nth_equalityI) (simp_all add: item_def)
  moreover have "map f ys = map f ?zs @ map f ?last" by (metis append_take_drop_id map_append)
  ultimately show ?case by simp
qed simp

section \<open>The combined arrays\<close>

fun shifted :: "('f cloth_mesh \<Rightarrow> nat list) \<Rightarrow> nat \<Rightarrow> 'f cloth_mesh list \<Rightarrow> nat list" where
  "shifted f v [] = []"
| "shifted f v (p # ps) = map (\<lambda>x. x + v) (f p) @ shifted f (v + nVerts p) ps"

lemma length_shifted: "\<forall>p\<in>set ps. length (f p) = g * c p \<Longrightarrow> length (shifted f v ps) = g * start c ps (length ps)"
  by (induction ps arbitrary: v) (simp_all add: start_def algebra_simps)

lemma shifted_nth:
  "\<forall>p\<in>set ps. length (f p) = g * c p \<Longrightarrow> k < length ps \<Longrightarrow> i < g * c (ps ! k) \<Longrightarrow>
   shifted f v ps ! (g * start c ps k + i) = f (ps ! k) ! i + (v + start nVerts ps k)"
proof (induction ps arbitrary: k v)
  case (Cons p ps)
  show ?case
  proof (cases k)
    case 0
    then show ?thesis using Cons.prems by (simp add: nth_append start_def)
  next
    case (Suc l)
    then have "start c (p # ps) k = c p + start c ps l" "start nVerts (p # ps) k = nVerts p + start nVerts ps l"
      by (simp_all add: start_def)
    then show ?thesis using Cons Suc by (simp add: nth_append algebra_simps)
  qed
qed simp

lemma combine_fold:
  "foldl combine_one (m, v) ps =
    (m\<lparr>m_positions := m_positions m @ concat (map m_positions ps), m_mass := m_mass m @ concat (map m_mass ps),
       m_triIdx := m_triIdx m @ shifted m_triIdx v ps, m_triInvUV := m_triInvUV m @ concat (map m_triInvUV ps),
       m_bendIdx := m_bendIdx m @ shifted m_bendIdx v ps, m_bendWeight := m_bendWeight m @ concat (map m_bendWeight ps),
       m_bendNTarget := m_bendNTarget m @ concat (map m_bendNTarget ps), m_attachVert := m_attachVert m @ shifted m_attachVert v ps,
       m_attachFixed := m_attachFixed m @ concat (map m_attachFixed ps), m_faces := m_faces m @ shifted m_faces v ps\<rparr>,
     v + start nVerts ps (length ps))"
  by (induction ps arbitrary: m v) (simp_all add: combine_one_def start_def)

lemma combine_arrays:
  "combine_meshes z ps = (empty_mesh z)\<lparr>m_positions := concat (map m_positions ps), m_mass := concat (map m_mass ps),
     m_triIdx := shifted m_triIdx 0 ps, m_triInvUV := concat (map m_triInvUV ps),
     m_bendIdx := shifted m_bendIdx 0 ps, m_bendWeight := concat (map m_bendWeight ps),
     m_bendNTarget := concat (map m_bendNTarget ps), m_attachVert := shifted m_attachVert 0 ps,
     m_attachFixed := concat (map m_attachFixed ps), m_faces := shifted m_faces 0 ps\<rparr>"
  by (simp add: combine_meshes_def combine_fold empty_mesh_def)

text \<open>Sizes and entries of the combined mesh, for well-formed parts.\<close>

lemma combine_sizes:
  assumes "\<forall>p\<in>set ps. valid_mesh p"
  shows "nVerts (combine_meshes z ps) = start nVerts ps (length ps)"
    and "nTri (combine_meshes z ps) = start nTri ps (length ps)"
    and "nBend (combine_meshes z ps) = start nBend ps (length ps)"
    and "nAttach (combine_meshes z ps) = start nAttach ps (length ps)"
proof -
  have l: "\<forall>p\<in>set ps. length (m_positions p) = 3 * nVerts p" "\<forall>p\<in>set ps. length (m_triInvUV p) = 4 * nTri p"
    "\<forall>p\<in>set ps. length (m_bendNTarget p) = 1 * nBend p" "\<forall>p\<in>set ps. length (m_attachVert p) = 1 * nAttach p"
    using assms by (simp_all add: valid_mesh_def nBend_def nAttach_def)
  have "length (m_positions (combine_meshes z ps)) = 3 * start nVerts ps (length ps)"
    "length (m_triInvUV (combine_meshes z ps)) = 4 * start nTri ps (length ps)"
    "length (m_bendNTarget (combine_meshes z ps)) = start nBend ps (length ps)"
    "length (m_attachVert (combine_meshes z ps)) = start nAttach ps (length ps)"
    using length_concat_blocks [OF l(1)] length_concat_blocks [OF l(2)] length_concat_blocks [OF l(3)] length_shifted [OF l(4), of 0]
    by (simp_all add: combine_arrays)
  then show "nVerts (combine_meshes z ps) = start nVerts ps (length ps)" "nTri (combine_meshes z ps) = start nTri ps (length ps)"
    "nBend (combine_meshes z ps) = start nBend ps (length ps)" "nAttach (combine_meshes z ps) = start nAttach ps (length ps)"
    by (simp_all add: nVerts_def [of "combine_meshes z ps"] nTri_def [of "combine_meshes z ps"] nBend_def [of "combine_meshes z ps"]
        nAttach_def [of "combine_meshes z ps"])
qed

lemma combine_entries:
  fixes z :: 'f and ps :: "'f cloth_mesh list"
  assumes v: "\<forall>p\<in>set ps. valid_mesh p" and k: "k < length ps"
  defines "C \<equiv> combine_meshes z ps"
  shows "i < nVerts (ps ! k) \<Longrightarrow> r < 3 \<Longrightarrow> m_positions C ! (3 * (start nVerts ps k + i) + r) = m_positions (ps ! k) ! (3 * i + r)"
    and "i < nVerts (ps ! k) \<Longrightarrow> m_mass C ! (start nVerts ps k + i) = m_mass (ps ! k) ! i"
    and "t < nTri (ps ! k) \<Longrightarrow> r < 3 \<Longrightarrow> m_triIdx C ! (3 * (start nTri ps k + t) + r) = m_triIdx (ps ! k) ! (3 * t + r) + start nVerts ps k"
    and "t < nTri (ps ! k) \<Longrightarrow> s < 4 \<Longrightarrow> m_triInvUV C ! (4 * (start nTri ps k + t) + s) = m_triInvUV (ps ! k) ! (4 * t + s)"
    and "b < nBend (ps ! k) \<Longrightarrow> s < 4 \<Longrightarrow> m_bendIdx C ! (4 * (start nBend ps k + b) + s) = m_bendIdx (ps ! k) ! (4 * b + s) + start nVerts ps k"
    and "b < nBend (ps ! k) \<Longrightarrow> s < 4 \<Longrightarrow> m_bendWeight C ! (4 * (start nBend ps k + b) + s) = m_bendWeight (ps ! k) ! (4 * b + s)"
    and "b < nBend (ps ! k) \<Longrightarrow> m_bendNTarget C ! (start nBend ps k + b) = m_bendNTarget (ps ! k) ! b"
    and "a < nAttach (ps ! k) \<Longrightarrow> m_attachVert C ! (start nAttach ps k + a) = m_attachVert (ps ! k) ! a + start nVerts ps k"
    and "a < nAttach (ps ! k) \<Longrightarrow> r < 3 \<Longrightarrow> m_attachFixed C ! (3 * (start nAttach ps k + a) + r) = m_attachFixed (ps ! k) ! (3 * a + r)"
proof -
  have l: "\<forall>p\<in>set ps. length (m_positions p) = 3 * nVerts p" "\<forall>p\<in>set ps. length (m_mass p) = 1 * nVerts p"
    "\<forall>p\<in>set ps. length (m_triIdx p) = 3 * nTri p" "\<forall>p\<in>set ps. length (m_triInvUV p) = 4 * nTri p"
    "\<forall>p\<in>set ps. length (m_bendIdx p) = 4 * nBend p" "\<forall>p\<in>set ps. length (m_bendWeight p) = 4 * nBend p"
    "\<forall>p\<in>set ps. length (m_bendNTarget p) = 1 * nBend p" "\<forall>p\<in>set ps. length (m_attachVert p) = 1 * nAttach p"
    "\<forall>p\<in>set ps. length (m_attachFixed p) = 3 * nAttach p"
    using v by (simp_all add: valid_mesh_def nBend_def nAttach_def)
  have c: "concat (map f ps) ! (g * (start c ps k + i) + r) = f (ps ! k) ! (g * i + r)"
    if "\<forall>p\<in>set ps. length (f p) = g * c p" "i < c (ps ! k)" "r < g" for f :: "'f cloth_mesh \<Rightarrow> 'f list" and g c i r
    using concat_nth_block [OF that(1) k item_bound [OF that(2,3)]] by (simp add: algebra_simps)
  have s: "shifted f 0 ps ! (g * (start c ps k + i) + r) = f (ps ! k) ! (g * i + r) + start nVerts ps k"
    if "\<forall>p\<in>set ps. length (f p) = g * c p" "i < c (ps ! k)" "r < g" for f :: "'f cloth_mesh \<Rightarrow> nat list" and g c i r
    using shifted_nth [OF that(1) k item_bound [OF that(2,3)], of 0] by (simp add: algebra_simps)
  note C = C_def combine_arrays
  show "i < nVerts (ps ! k) \<Longrightarrow> r < 3 \<Longrightarrow> m_positions C ! (3 * (start nVerts ps k + i) + r) = m_positions (ps ! k) ! (3 * i + r)"
    using c [OF l(1)] by (simp add: C)
  show "i < nVerts (ps ! k) \<Longrightarrow> m_mass C ! (start nVerts ps k + i) = m_mass (ps ! k) ! i"
    using c [OF l(2), of i 0] by (simp add: C)
  show "t < nTri (ps ! k) \<Longrightarrow> r < 3 \<Longrightarrow> m_triIdx C ! (3 * (start nTri ps k + t) + r) = m_triIdx (ps ! k) ! (3 * t + r) + start nVerts ps k"
    using s [OF l(3)] by (simp add: C)
  show "t < nTri (ps ! k) \<Longrightarrow> s < 4 \<Longrightarrow> m_triInvUV C ! (4 * (start nTri ps k + t) + s) = m_triInvUV (ps ! k) ! (4 * t + s)"
    using c [OF l(4)] by (simp add: C)
  show "b < nBend (ps ! k) \<Longrightarrow> s < 4 \<Longrightarrow> m_bendIdx C ! (4 * (start nBend ps k + b) + s) = m_bendIdx (ps ! k) ! (4 * b + s) + start nVerts ps k"
    using s [OF l(5)] by (simp add: C)
  show "b < nBend (ps ! k) \<Longrightarrow> s < 4 \<Longrightarrow> m_bendWeight C ! (4 * (start nBend ps k + b) + s) = m_bendWeight (ps ! k) ! (4 * b + s)"
    using c [OF l(6)] by (simp add: C)
  show "b < nBend (ps ! k) \<Longrightarrow> m_bendNTarget C ! (start nBend ps k + b) = m_bendNTarget (ps ! k) ! b"
    using c [OF l(7), of b 0] by (simp add: C)
  show "a < nAttach (ps ! k) \<Longrightarrow> m_attachVert C ! (start nAttach ps k + a) = m_attachVert (ps ! k) ! a + start nVerts ps k"
    using s [OF l(8), of a 0] by (simp add: C)
  show "a < nAttach (ps ! k) \<Longrightarrow> r < 3 \<Longrightarrow> m_attachFixed C ! (3 * (start nAttach ps k + a) + r) = m_attachFixed (ps ! k) ! (3 * a + r)"
    using c [OF l(9)] by (simp add: C)
qed

section \<open>The parts are the islands\<close>

lemma list_all_blocks:
  assumes "length xs = g * start c ps (length ps)" "0 < g"
    and "\<And>k i r. k < length ps \<Longrightarrow> i < c (ps ! k) \<Longrightarrow> r < g \<Longrightarrow> P (xs ! (g * (start c ps k + i) + r))"
  shows "list_all P xs"
  unfolding list_all_length
proof (intro allI impI)
  fix n
  assume n: "n < length xs"
  then have "n div g < start c ps (length ps)" using assms(1,2) by (simp add: div_less_iff_less_mult mult.commute)
  then obtain k i where k: "k < length ps" "i < c (ps ! k)" "n div g = start c ps k + i" using in_block by blast
  then have "n = g * (start c ps k + i) + n mod g" by (metis mult_div_mod_eq)
  then show "P (xs ! n)" using assms(3) [OF k(1,2), of "n mod g"] assms(2) by simp
qed

lemma combine_valid:
  fixes z :: 'f
  assumes v: "\<forall>p\<in>set ps. valid_mesh (p :: 'f cloth_mesh)"
  shows "valid_mesh (combine_meshes z ps)"
proof -
  let ?C = "combine_meshes z ps"
  note sizes = combine_sizes [OF v, of z] and e = combine_entries [OF v, where z = z]
  have l: "\<forall>p\<in>set ps. length (m_positions p) = 3 * nVerts p" "\<forall>p\<in>set ps. length (m_mass p) = 1 * nVerts p"
    "\<forall>p\<in>set ps. length (m_triIdx p) = 3 * nTri p" "\<forall>p\<in>set ps. length (m_triInvUV p) = 4 * nTri p"
    "\<forall>p\<in>set ps. length (m_bendIdx p) = 4 * nBend p" "\<forall>p\<in>set ps. length (m_bendWeight p) = 4 * nBend p"
    "\<forall>p\<in>set ps. length (m_attachVert p) = 1 * nAttach p" "\<forall>p\<in>set ps. length (m_attachFixed p) = 3 * nAttach p"
    using v by (simp_all add: valid_mesh_def nAttach_def)
  have len: "length (m_positions ?C) = 3 * nVerts ?C" "length (m_mass ?C) = nVerts ?C" "length (m_triIdx ?C) = 3 * nTri ?C"
    "length (m_triInvUV ?C) = 4 * nTri ?C" "length (m_bendIdx ?C) = 4 * nBend ?C" "length (m_bendWeight ?C) = 4 * nBend ?C"
    "length (m_attachVert ?C) = 1 * nAttach ?C" "length (m_attachFixed ?C) = 3 * nAttach ?C"
    unfolding sizes using length_concat_blocks [OF l(1)] length_concat_blocks [OF l(2)] length_shifted [OF l(3)] length_concat_blocks [OF l(4)]
      length_shifted [OF l(5)] length_concat_blocks [OF l(6)] length_shifted [OF l(7)] length_concat_blocks [OF l(8)]
    by (simp_all add: combine_arrays)
  have valid: "valid_mesh (ps ! k)" if "k < length ps" for k using v that by simp
  have up: "i + start nVerts ps k < nVerts ?C" if "k < length ps" "i < nVerts (ps ! k)" for k i
    using block_less [OF that(1), of i nVerts] that(2) by (simp add: sizes)
  have "list_all (\<lambda>i. i < nVerts ?C) (m_triIdx ?C)"
    using list_all_blocks [OF len(3) [unfolded sizes]] e(3) up valid_indices(1) [OF valid] by simp
  moreover have "list_all (\<lambda>i. i < nVerts ?C) (m_bendIdx ?C)"
    using list_all_blocks [OF len(5) [unfolded sizes]] e(5) up valid_indices(2) [OF valid] by simp
  moreover have "list_all (\<lambda>i. i < nVerts ?C) (m_attachVert ?C)"
    using list_all_blocks [OF len(7) [unfolded sizes]] e(8) up valid_indices(3) [OF valid] by simp
  ultimately show ?thesis unfolding valid_mesh_def using len by simp
qed

text \<open>Pairs of constraint vertices: of the parts, moved to where the part is.\<close>

lemma mesh_pairs_iff:
  "(a, b) \<in> set (mesh_pairs m) \<longleftrightarrow>
     (\<exists>t<nTri m. \<exists>r. (r = 1 \<or> r = 2) \<and> a = m_triIdx m ! (3 * t) \<and> b = m_triIdx m ! (3 * t + r)) \<or>
     (\<exists>t<nBend m. \<exists>r. 1 \<le> r \<and> r < 4 \<and> a = m_bendIdx m ! (4 * t) \<and> b = m_bendIdx m ! (4 * t + r))"
  by (fastforce simp: mesh_pairs_def image_iff)

lemma combine_pairs_from:
  assumes v: "\<forall>p\<in>set ps. valid_mesh p" and ab: "(a, b) \<in> set (mesh_pairs (combine_meshes z ps))"
  shows "\<exists>k<length ps. \<exists>(c, d)\<in>set (mesh_pairs (ps ! k)). a = c + start nVerts ps k \<and> b = d + start nVerts ps k"
proof -
  note sizes = combine_sizes [OF v, of z] and e = combine_entries [OF v, where z = z]
  from ab consider (tri) t r where "t < nTri (combine_meshes z ps)" "r = 1 \<or> r = 2" "a = m_triIdx (combine_meshes z ps) ! (3 * t + 0)" "b = m_triIdx (combine_meshes z ps) ! (3 * t + r)"
    | (bend) t r where "t < nBend (combine_meshes z ps)" "1 \<le> r" "r < 4" "a = m_bendIdx (combine_meshes z ps) ! (4 * t + 0)" "b = m_bendIdx (combine_meshes z ps) ! (4 * t + r)"
    unfolding mesh_pairs_iff by force
  then show ?thesis
  proof cases
    case tri
    then obtain k i where k: "k < length ps" "i < nTri (ps ! k)" "t = start nTri ps k + i" using in_block sizes(2) by metis
    moreover have "(m_triIdx (ps ! k) ! (3 * i), m_triIdx (ps ! k) ! (3 * i + r)) \<in> set (mesh_pairs (ps ! k))"
      unfolding mesh_pairs_iff using k tri(2) by blast
    ultimately show ?thesis using tri e(3) [OF k(1,2), of 0] e(3) [OF k(1,2), of r] by force
  next
    case bend
    then obtain k i where k: "k < length ps" "i < nBend (ps ! k)" "t = start nBend ps k + i" using in_block sizes(3) by metis
    moreover have "(m_bendIdx (ps ! k) ! (4 * i), m_bendIdx (ps ! k) ! (4 * i + r)) \<in> set (mesh_pairs (ps ! k))"
      unfolding mesh_pairs_iff using k bend(2,3) by blast
    ultimately show ?thesis using bend e(5) [OF k(1,2), of 0] e(5) [OF k(1,2), of r] by force
  qed
qed

lemma combine_pairs_to:
  assumes v: "\<forall>p\<in>set ps. valid_mesh p" and k: "k < length ps" and cd: "(c, d) \<in> set (mesh_pairs (ps ! k))"
  shows "(c + start nVerts ps k, d + start nVerts ps k) \<in> set (mesh_pairs (combine_meshes z ps))"
proof -
  note sizes = combine_sizes [OF v, of z] and e = combine_entries [OF v k, where z = z]
  from cd consider (tri) t r where "t < nTri (ps ! k)" "r = 1 \<or> r = 2" "c = m_triIdx (ps ! k) ! (3 * t + 0)" "d = m_triIdx (ps ! k) ! (3 * t + r)"
    | (bend) t r where "t < nBend (ps ! k)" "1 \<le> r" "r < 4" "c = m_bendIdx (ps ! k) ! (4 * t + 0)" "d = m_bendIdx (ps ! k) ! (4 * t + r)"
    unfolding mesh_pairs_iff by force
  then show ?thesis
  proof cases
    case tri
    have "c + start nVerts ps k = m_triIdx (combine_meshes z ps) ! (3 * (start nTri ps k + t))"
      "d + start nVerts ps k = m_triIdx (combine_meshes z ps) ! (3 * (start nTri ps k + t) + r)"
      using e(3) [OF tri(1), of 0] e(3) [OF tri(1), of r] tri(2-4) by auto
    moreover have "start nTri ps k + t < nTri (combine_meshes z ps)" using block_less [OF k, of t nTri] tri(1) sizes(2) by simp
    ultimately show ?thesis unfolding mesh_pairs_iff using tri(2) by blast
  next
    case bend
    have "c + start nVerts ps k = m_bendIdx (combine_meshes z ps) ! (4 * (start nBend ps k + t))"
      "d + start nVerts ps k = m_bendIdx (combine_meshes z ps) ! (4 * (start nBend ps k + t) + r)"
      using e(5) [OF bend(1), of 0] e(5) [OF bend(1), of r] bend(2-5) by auto
    moreover have "start nBend ps k + t < nBend (combine_meshes z ps)" using block_less [OF k, of t nBend] bend(1) sizes(3) by simp
    ultimately show ?thesis unfolding mesh_pairs_iff using bend(2,3) by blast
  qed
qed

text \<open>The part a vertex of the combined mesh comes from numbers its component.\<close>

lemma linked_map:
  "(i, j) \<in> linked es \<Longrightarrow> (\<And>a b. (a, b) \<in> set es \<Longrightarrow> (f a, f b) \<in> set es2) \<Longrightarrow> (f i, f j) \<in> linked es2"
  unfolding linked_def
proof (induction rule: rtrancl_induct)
  case (step y z)
  then have "(f y, f z) \<in> set es2 \<union> (set es2)\<inverse>" by blast
  then show ?case using step by (meson rtrancl.rtrancl_into_rtrancl)
qed simp

lemma linked_same:
  "(i, j) \<in> linked es \<Longrightarrow> (\<And>a b. (a, b) \<in> set es \<Longrightarrow> f a = f b) \<Longrightarrow> f i = f j"
  unfolding linked_def by (induction rule: rtrancl_induct) auto

definition connected :: "'f cloth_mesh \<Rightarrow> bool" where
  "connected p \<longleftrightarrow> 0 < nVerts p \<and> (\<forall>v<nVerts p. \<forall>w<nVerts p. (v, w) \<in> linked (mesh_pairs p))"

lemma part_of_vertex:
  assumes v: "\<forall>p\<in>set ps. valid_mesh p"
  shows "\<exists>K. (\<forall>x<nVerts (combine_meshes z ps). K x < length ps \<and> (\<exists>i<nVerts (ps ! K x). x = i + start nVerts ps (K x))) \<and>
    (\<forall>k<length ps. \<forall>i<nVerts (ps ! k). start nVerts ps k + i < nVerts (combine_meshes z ps) \<and> K (start nVerts ps k + i) = k)"
proof -
  let ?V = "start nVerts ps"
  have N: "nVerts (combine_meshes z ps) = ?V (length ps)" by (rule combine_sizes(1) [OF v])
  have "\<forall>x. \<exists>k. x < ?V (length ps) \<longrightarrow> k < length ps \<and> (\<exists>i<nVerts (ps ! k). x = i + ?V k)"
    using in_block [of _ nVerts ps] by (metis add.commute)
  then obtain K where K: "\<And>x. x < ?V (length ps) \<Longrightarrow> K x < length ps \<and> (\<exists>i<nVerts (ps ! K x). x = i + ?V (K x))" by metis
  have "?V k + i < ?V (length ps) \<and> K (?V k + i) = k" if k: "k < length ps" "i < nVerts (ps ! k)" for k i
  proof -
    have less: "?V k + i < ?V (length ps)" by (rule block_less [where c = nVerts, OF k])
    then obtain j where j: "K (?V k + i) < length ps" "j < nVerts (ps ! K (?V k + i))" "?V k + i = ?V (K (?V k + i)) + j"
      using K by (metis add.commute)
    have "k = K (?V k + i)" using block_unique [where c = nVerts, OF k j] by (rule conjunct1)
    then show ?thesis using less by (intro conjI) (assumption, rule sym)
  qed
  then show ?thesis unfolding N using K by blast
qed

lemma part_numbers:
  assumes v: "\<forall>p\<in>set ps. valid_mesh p" and c: "\<forall>p\<in>set ps. connected p"
  shows "\<exists>nums. component_numbers (combine_meshes z ps) nums (length ps) \<and>
    (\<forall>k<length ps. \<forall>i<nVerts (ps ! k). nums ! (start nVerts ps k + i) = k)"
proof -
  let ?C = "combine_meshes z ps" and ?V = "start nVerts ps"
  obtain K where K: "(\<forall>x<nVerts ?C. K x < length ps \<and> (\<exists>i<nVerts (ps ! K x). x = i + ?V (K x))) \<and>
    (\<forall>k<length ps. \<forall>i<nVerts (ps ! k). ?V k + i < nVerts ?C \<and> K (?V k + i) = k)"
    using part_of_vertex [OF v, of z] by (rule exE)
  have KB: "K x < length ps" and KE: "\<exists>i<nVerts (ps ! K x). x = i + ?V (K x)" if "x < nVerts ?C" for x
    using conjunct1 [OF K, rule_format, OF that] by (rule conjunct1, rule conjunct2)
  have KV: "?V k + i < nVerts ?C" "K (?V k + i) = k" if "k < length ps" "i < nVerts (ps ! k)" for k i
    using conjunct2 [OF K, rule_format, OF that] by (rule conjunct1, rule conjunct2)
  have pos: "0 < nVerts (ps ! k)" if "k < length ps" for k using c that by (simp add: connected_def)
  define nums where "nums = map K [0..<nVerts ?C]"
  have nth: "nums ! x = K x" if "x < nVerts ?C" for x using that by (simp add: nums_def)
  have edge: "K a = K b" if ab: "(a, b) \<in> set (mesh_pairs ?C)" for a b
  proof -
    obtain k c d where k: "k < length ps" "(c, d) \<in> set (mesh_pairs (ps ! k))" "a = c + ?V k" "b = d + ?V k"
      using combine_pairs_from [OF v ab] by blast
    have "valid_mesh (ps ! k)" using v k(1) by simp
    from mesh_pairs_range [OF this] have "c < nVerts (ps ! k)" "d < nVerts (ps ! k)" using k(2) by blast+
    then have "K (?V k + c) = k" "K (?V k + d) = k" using KV(2) [OF k(1)] by blast+
    then show ?thesis using k(3,4) by (simp only: add.commute)
  qed
  have link: "(x, y) \<in> linked (mesh_pairs ?C)" if xy: "x < nVerts ?C" "y < nVerts ?C" "K x = K y" for x y
  proof -
    obtain i where i: "i < nVerts (ps ! K x)" "x = i + ?V (K x)" using KE [OF xy(1)] by blast
    obtain j where j: "j < nVerts (ps ! K x)" "y = j + ?V (K x)" using KE [OF xy(2)] unfolding xy(3) [symmetric] by blast
    have "connected (ps ! K x)" using c KB [OF xy(1)] by simp
    then have "(i, j) \<in> linked (mesh_pairs (ps ! K x))" using i(1) j(1) by (simp add: connected_def)
    then have "(i + ?V (K x), j + ?V (K x)) \<in> linked (mesh_pairs ?C)"
      by (rule linked_map [where f = "\<lambda>i. i + ?V (K x)"]) (rule combine_pairs_to [OF v KB [OF xy(1)]])
    then show ?thesis by (simp only: i(2) [symmetric] j(2) [symmetric])
  qed
  have growth: "\<exists>u<x. nums ! u = j" if x: "x < nVerts ?C" "j < nums ! x" for x j
  proof -
    have j: "j < K x" "K x < length ps" using x(2) nth [OF x(1)] KB [OF x(1)] by simp_all
    have "?V j + 0 < ?V (Suc j)" using start_Suc [of j ps nVerts] pos [of j] j by simp
    also have "\<dots> \<le> ?V (K x)" using j by (intro start_mono) simp
    also have "\<dots> \<le> x"
    proof -
      obtain i where "x = i + ?V (K x)" using KE [OF x(1)] by blast
      then show ?thesis by linarith
    qed
    finally have "?V j < x" by simp
    moreover have "nums ! ?V j = j" using nth [of "?V j"] KV(2) [of j 0] pos [of j] j x(1) \<open>?V j < x\<close> by (simp del: nth_map)
    ultimately show ?thesis by blast
  qed
  have all: "\<exists>x<nVerts ?C. nums ! x = k" if "k < length ps" for k
    using KV [OF that pos [OF that]] nth [OF KV(1) [OF that pos [OF that]]] by (intro exI [of _ "?V k + 0"]) (simp only:)
  have same: "nums ! x = nums ! y \<longleftrightarrow> (x, y) \<in> linked (mesh_pairs ?C)" if xy: "x < nVerts ?C" "y < nVerts ?C" for x y
  proof
    assume "nums ! x = nums ! y"
    then show "(x, y) \<in> linked (mesh_pairs ?C)" using link [OF xy] nth [OF xy(1)] nth [OF xy(2)] by simp
  next
    assume "(x, y) \<in> linked (mesh_pairs ?C)"
    from linked_same [OF this edge] show "nums ! x = nums ! y" using nth [OF xy(1)] nth [OF xy(2)] by simp
  qed
  have bound: "nums ! x < length ps" if "x < nVerts ?C" for x using KB [OF that] nth [OF that] by simp
  have len: "length nums = nVerts ?C" by (simp add: nums_def)
  have "component_numbers ?C nums (length ps)"
    unfolding component_numbers_def by (intro conjI allI impI len bound all same growth)
  moreover have "nums ! (?V k + i) = k" if "k < length ps" "i < nVerts (ps ! k)" for k i
    using nth [OF KV(1) [OF that]] KV(2) [OF that] by (simp only:)
  ultimately show ?thesis by blast
qed

text \<open>Everything of part \<open>k\<close> in the combined mesh is an interval.\<close>

lemma block_interval:
  assumes "\<And>l i. l < length ps \<Longrightarrow> i < c (ps ! l) \<Longrightarrow> P (start c ps l + i) = (l = k)" "k < length ps"
  shows "filter P [0..<start c ps (length ps)] = [start c ps k..<start c ps k + c (ps ! k)]"
proof (rule filter_interval)
  fix v
  assume "v < start c ps (length ps)"
  then obtain l i where l: "l < length ps" "i < c (ps ! l)" "v = start c ps l + i" using in_block by blast
  have "l = k \<longleftrightarrow> start c ps k \<le> v \<and> v < start c ps k + c (ps ! k)"
  proof
    assume r: "start c ps k \<le> v \<and> v < start c ps k + c (ps ! k)"
    have "v - start c ps k < c (ps ! k)" "start c ps l + i = start c ps k + (v - start c ps k)" using r l(3) by linarith+
    then show "l = k" using block_unique [where c = c, OF l(1,2) assms(2)] by blast
  qed (use l in simp)
  then show "P v \<longleftrightarrow> start c ps k \<le> v \<and> v < start c ps k + c (ps ! k)" using assms(1) [OF l(1,2)] l(3) by simp
next
  show "start c ps k + c (ps ! k) \<le> start c ps (length ps)"
    using start_Suc [OF assms(2), of c] start_mono [of "Suc k" "length ps" c ps] assms(2) by simp
qed simp

text \<open>A part as \<open>partition_islands\<close> gives it back: only its arrays are kept.\<close>

definition as_island :: "'f \<Rightarrow> 'f cloth_mesh \<Rightarrow> 'f cloth_mesh" where
  "as_island z p = p\<lparr>m_nx := 0, m_ny := 0, m_width := z, m_height := z, m_faces := m_triIdx p\<rparr>"

lemma part_intervals:
  fixes z :: 'f
  assumes v: "\<forall>p\<in>set ps. valid_mesh (p :: 'f cloth_mesh)" and k: "k < length ps"
    and c: "component_numbers (combine_meshes z ps) nums (length ps)"
    and nums0: "\<forall>l<length ps. \<forall>i<nVerts (ps ! l). nums ! (start nVerts ps l + i) = l"
  shows "members nums k = [start nVerts ps k..<start nVerts ps k + nVerts (ps ! k)]"
    and "i < nVerts (ps ! k) \<Longrightarrow> local_no nums (i + start nVerts ps k) = i"
    and "pick 3 nums (m_triIdx (combine_meshes z ps)) (nTri (combine_meshes z ps)) k = [start nTri ps k..<start nTri ps k + nTri (ps ! k)]"
    and "pick 4 nums (m_bendIdx (combine_meshes z ps)) (nBend (combine_meshes z ps)) k = [start nBend ps k..<start nBend ps k + nBend (ps ! k)]"
    and "pick 1 nums (m_attachVert (combine_meshes z ps)) (nAttach (combine_meshes z ps)) k = [start nAttach ps k..<start nAttach ps k + nAttach (ps ! k)]"
proof -
  have nums: "nums ! (start nVerts ps l + i) = l" if "l < length ps" "i < nVerts (ps ! l)" for l i using nums0 that by blast
  let ?C = "combine_meshes z ps" and ?p = "ps ! k"
  note sizes = combine_sizes [OF v, of z]
  have valid: "valid_mesh (ps ! l)" if "l < length ps" for l using v that by simp
  have len: "length nums = start nVerts ps (length ps)" using component_numbersD(1) [OF c] sizes(1) by simp
  show M: "members nums k = [start nVerts ps k..<start nVerts ps k + nVerts ?p]"
    unfolding members_def len by (rule block_interval) (use nums k in simp_all)
  show "local_no nums (i + start nVerts ps k) = i" if i: "i < nVerts ?p" for i
  proof -
    have "filter (\<lambda>w. nums ! w = k) [0..<start nVerts ps k + i] = [start nVerts ps k..<start nVerts ps k + i]"
    proof (rule filter_interval)
      fix w
      assume w: "w < start nVerts ps k + i"
      then have "w < length nums" using block_less [where c = nVerts, OF k i] len by simp
      then have "nums ! w = k \<longleftrightarrow> w \<in> set (members nums k)" by (simp add: members_def)
      then show "nums ! w = k \<longleftrightarrow> start nVerts ps k \<le> w \<and> w < start nVerts ps k + i" using w i by (auto simp: M)
    qed simp_all
    then show ?thesis using nums [OF k i] by (simp add: local_no_def add.commute)
  qed
  show "pick 3 nums (m_triIdx ?C) (nTri ?C) k = [start nTri ps k..<start nTri ps k + nTri ?p]"
    unfolding pick_def sizes
  proof (rule block_interval)
    fix l i
    assume l: "l < length ps" "i < nTri (ps ! l)"
    show "(nums ! (m_triIdx ?C ! (3 * (start nTri ps l + i))) = k) = (l = k)"
      using combine_entries(3) [OF v l(1) l(2), of 0 z] nums [OF l(1) valid_indices(1) [OF valid [OF l(1)] l(2), of 0]] by (simp add: add.commute)
  qed (rule k)
  show "pick 4 nums (m_bendIdx ?C) (nBend ?C) k = [start nBend ps k..<start nBend ps k + nBend ?p]"
    unfolding pick_def sizes
  proof (rule block_interval)
    fix l i
    assume l: "l < length ps" "i < nBend (ps ! l)"
    show "(nums ! (m_bendIdx ?C ! (4 * (start nBend ps l + i))) = k) = (l = k)"
      using combine_entries(5) [OF v l(1) l(2), of 0 z] nums [OF l(1) valid_indices(2) [OF valid [OF l(1)] l(2), of 0]] by (simp add: add.commute)
  qed (rule k)
  show "pick 1 nums (m_attachVert ?C) (nAttach ?C) k = [start nAttach ps k..<start nAttach ps k + nAttach ?p]"
    unfolding pick_def sizes
  proof (rule block_interval)
    fix l i
    assume l: "l < length ps" "i < nAttach (ps ! l)"
    show "(nums ! (m_attachVert ?C ! (1 * (start nAttach ps l + i))) = k) = (l = k)"
      using combine_entries(8) [OF v l(1) l(2), of z] nums [OF l(1) valid_indices(3) [OF valid [OF l(1)] l(2)]] by (simp add: add.commute)
  qed (rule k)
qed

lemma island_is_part:
  fixes z :: 'f
  assumes v: "\<forall>p\<in>set ps. valid_mesh (p :: 'f cloth_mesh)" and k: "k < length ps"
    and c: "component_numbers (combine_meshes z ps) nums (length ps)"
    and nums0: "\<forall>l<length ps. \<forall>i<nVerts (ps ! l). nums ! (start nVerts ps l + i) = l"
  shows "island_mesh z (combine_meshes z ps) nums k = as_island z (ps ! k)"
proof -
  let ?C = "combine_meshes z ps" and ?p = "ps ! k"
  note e = combine_entries [OF v k, where z = z]
  note M = part_intervals(1) [OF v k c nums0] and loc = part_intervals(2) [OF v k c nums0] and
    T = part_intervals(3) [OF v k c nums0] and B = part_intervals(4) [OF v k c nums0] and A = part_intervals(5) [OF v k c nums0]
  have vp: "valid_mesh ?p" using v k by simp
  have lens: "length (m_positions ?p) = 3 * nVerts ?p" "length (m_mass ?p) = nVerts ?p" "length (m_triIdx ?p) = 3 * nTri ?p"
    "length (m_triInvUV ?p) = 4 * nTri ?p" "length (m_bendIdx ?p) = 4 * nBend ?p" "length (m_bendWeight ?p) = 4 * nBend ?p"
    "length (m_bendNTarget ?p) = nBend ?p" "length (m_attachVert ?p) = nAttach ?p" "length (m_attachFixed ?p) = 3 * nAttach ?p"
    "list_all (\<lambda>i. i < nVerts ?p) (m_triIdx ?p)" "list_all (\<lambda>i. i < nVerts ?p) (m_bendIdx ?p)" "list_all (\<lambda>i. i < nVerts ?p) (m_attachVert ?p)"
    using vp by (simp_all add: valid_mesh_def nBend_def nAttach_def)
  have unshift: "map (local_no nums) (map (\<lambda>i. i + start nVerts ps k) xs) = xs" if "list_all (\<lambda>i. i < nVerts ?p) xs" for xs
    using that loc by (induction xs) simp_all
  have one: "map ((!) xs) [a..<a + c] = ys" if "length ys = c" "\<And>i. i < c \<Longrightarrow> xs ! (a + i) = ys ! i" for xs ys :: "'g list" and a c
    using that by (intro nth_equalityI) simp_all
  have arrays: "concat (map (item 3 (m_positions ?C)) (members nums k)) = m_positions ?p"
    "concat (map (item 4 (m_triInvUV ?C)) [start nTri ps k..<start nTri ps k + nTri ?p]) = m_triInvUV ?p"
    "concat (map (item 4 (m_bendWeight ?C)) [start nBend ps k..<start nBend ps k + nBend ?p]) = m_bendWeight ?p"
    "concat (map (item 3 (m_attachFixed ?C)) [start nAttach ps k..<start nAttach ps k + nAttach ?p]) = m_attachFixed ?p"
    using concat_items [OF lens(1), of "m_positions ?C" _ id] concat_items [OF lens(4), of "m_triInvUV ?C" _ id]
      concat_items [OF lens(6), of "m_bendWeight ?C" _ id] concat_items [OF lens(9), of "m_attachFixed ?C" _ id] e(1,4,6,9) by (simp_all add: M)
  have single: "map ((!) (m_mass ?C)) (members nums k) = m_mass ?p"
    "map ((!) (m_bendNTarget ?C)) [start nBend ps k..<start nBend ps k + nBend ?p] = m_bendNTarget ?p"
    unfolding M by (rule one, use lens e(2,7) in simp_all)+
  have idx: "map (local_no nums) (concat (map (item 3 (m_triIdx ?C)) [start nTri ps k..<start nTri ps k + nTri ?p])) = m_triIdx ?p"
    "map (local_no nums) (concat (map (item 4 (m_bendIdx ?C)) [start nBend ps k..<start nBend ps k + nBend ?p])) = m_bendIdx ?p"
    using concat_items [OF lens(3), of "m_triIdx ?C" "start nTri ps k" "\<lambda>i. i + start nVerts ps k"] unshift [OF lens(10)] e(3)
      concat_items [OF lens(5), of "m_bendIdx ?C" "start nBend ps k" "\<lambda>i. i + start nVerts ps k"] unshift [OF lens(11)] e(5) by simp_all
  have att: "map (local_no nums) (map ((!) (m_attachVert ?C)) [start nAttach ps k..<start nAttach ps k + nAttach ?p]) = m_attachVert ?p"
    using one [of "map (\<lambda>i. i + start nVerts ps k) (m_attachVert ?p)" "nAttach ?p" "m_attachVert ?C" "start nAttach ps k"] lens(8) e(8) unshift [OF lens(12)] by simp
  show ?thesis
    unfolding island_mesh_def Let_def T B A arrays single idx att by (simp add: as_island_def empty_mesh_def)
qed


text \<open>One triangle of a grid of its own.\<close>

definition demo_part :: "int cloth_mesh" where
  "demo_part = (empty_mesh 0)\<lparr>m_nx := 2, m_positions := [0, 1, 2, 3, 4, 5, 6, 7, 8], m_mass := [1, 1, 1], m_triIdx := [0, 1, 2],
     m_triInvUV := [1, 0, 0, 1], m_faces := [0, 1, 2]\<rparr>"

lemma demo_part_facts: "valid_mesh demo_part" "connected demo_part"
proof -
  have s: "nVerts demo_part = 3" "set (mesh_pairs demo_part) = {(0, 1), (0, 2)}"
    by (simp_all add: demo_part_def nVerts_def mesh_pairs_def nTri_def nBend_def empty_mesh_def)
  show "valid_mesh demo_part"
    by (simp_all add: valid_mesh_def demo_part_def nVerts_def nTri_def nBend_def nAttach_def empty_mesh_def)
  have zero: "(0, v) \<in> linked (mesh_pairs demo_part)" if "v < 3" for v
  proof -
    have "v = 0 \<or> (0, v) \<in> set (mesh_pairs demo_part)" using that unfolding s(2) by auto
    then show ?thesis by (elim disjE) (simp, rule linked_edge)
  qed
  have "(v, w) \<in> linked (mesh_pairs demo_part)" if "v < 3" "w < 3" for v w
    using linked_trans [OF linked_sym [OF zero [OF that(1)]] zero [OF that(2)]] .
  then show "connected demo_part" unfolding connected_def s(1) by simp
qed


end
