(* ===== verification/AvbdTable.thy ===== *)
theory AvbdTable
  imports Prelude
begin

text \<open>
  \<open>kernels/avbd/AvbdKernelTable.inc\<close>: what the AVBD kernels bind. A binding has the kernel's
  name for the buffer, its number, whether it is a uniform buffer and whether the kernel only
  reads it; the table is read out of the compiled kernels.
\<close>

datatype (plugins only: code size) binding_desc = Binding (bd_name: string) (bd_binding: u32) (bd_uniform: bool) (bd_readonly: bool)

datatype (plugins only: code size) kernel_desc =
  Kernel_desc (kd_name: string) (kd_threadgroup: u32) (kd_bindings: "binding_desc list") (kd_paramsBinding: int)

text \<open>A storage buffer the kernel reads, one it writes, and the params block.\<close>

abbreviation rd :: "string \<Rightarrow> u32 \<Rightarrow> binding_desc" where "rd n i \<equiv> Binding n i False True"
abbreviation rw :: "string \<Rightarrow> u32 \<Rightarrow> binding_desc" where "rw n i \<equiv> Binding n i False False"
abbreviation ub :: "string \<Rightarrow> u32 \<Rightarrow> binding_desc" where "ub n i \<equiv> Binding n i True True"

definition kBindings_vbd_init :: "binding_desc list" where
  "kBindings_vbd_init =
     [ub ''params'' 0, rd ''positions'' 1, rd ''predicted'' 2, rd ''mass'' 3, rw ''gScratch'' 4,
      rw ''hScratch'' 5, rd ''vertPerm'' 6]"

definition kBindings_spring_force :: "binding_desc list" where
  "kBindings_spring_force =
     [rd ''positions'' 0, rd ''p1Idx'' 1, rd ''p2Idx'' 2, rd ''restLen'' 3, rd ''stiffness'' 4,
      rw ''gradA'' 5, rw ''hess'' 6]"

definition kBindings_vbd_gather_spring :: "binding_desc list" where
  "kBindings_vbd_gather_spring =
     [rd ''springGradA'' 0, rd ''springHess'' 1, rd ''vertSpringOffset'' 2, rd ''vertSpringIdx'' 3,
      rd ''vertSpringRole'' 4, rw ''gScratch'' 5, rw ''hScratch'' 6, rd ''vertPerm'' 7,
      ub ''params'' 8]"

definition kBindings_attachment_force_al :: "binding_desc list" where
  "kBindings_attachment_force_al =
     [rd ''positions'' 0, rd ''vertIdx'' 1, rd ''fixedPos'' 2, rd ''stiffness'' 3, rd ''lambda'' 4,
      rw ''gradV'' 5, rw ''hessScalar'' 6]"

definition kBindings_vbd_gather_attachment :: "binding_desc list" where
  "kBindings_vbd_gather_attachment =
     [rd ''attachGradV'' 0, rd ''attachHessScalar'' 1, rd ''vertAttachOffset'' 2,
      rd ''vertAttachIdx'' 3, rw ''gScratch'' 4, rw ''hScratch'' 5, rd ''vertPerm'' 6,
      ub ''params'' 7]"

definition kBindings_triangle_membrane_force_al :: "binding_desc list" where
  "kBindings_triangle_membrane_force_al =
     [rd ''positions'' 0, rd ''idx'' 1, rd ''stiffness'' 2, rd ''lambda0'' 3, rd ''lambda1'' 4,
      rw ''grad'' 5, rw ''hessScalar'' 6, rd ''inv_deltaUV'' 7]"

definition kBindings_vbd_gather_triangle :: "binding_desc list" where
  "kBindings_vbd_gather_triangle =
     [rd ''triGrad'' 0, rd ''triHessScalar'' 1, rd ''vertTriOffset'' 2, rd ''vertTriIdx'' 3,
      rd ''vertTriRole'' 4, rw ''gScratch'' 5, rw ''hScratch'' 6, rd ''vertPerm'' 7, ub ''params'' 8]"

definition kBindings_triangle_bending_force_al :: "binding_desc list" where
  "kBindings_triangle_bending_force_al =
     [rd ''positions'' 0, rd ''idx'' 1, rd ''weight'' 2, rd ''nTarget'' 3, rd ''stiffness'' 4,
      rd ''lambda'' 5, rw ''grad'' 6, rw ''hessScalar'' 7]"

definition kBindings_vbd_gather_bending :: "binding_desc list" where
  "kBindings_vbd_gather_bending =
     [rd ''bendGrad'' 0, rd ''bendHessScalar'' 1, rd ''vertBendOffset'' 2, rd ''vertBendIdx'' 3,
      rd ''vertBendRole'' 4, rw ''gScratch'' 5, rw ''hScratch'' 6, rd ''vertPerm'' 7, ub ''params'' 8]"

definition kBindings_vbd_solve_apply :: "binding_desc list" where
  "kBindings_vbd_solve_apply =
     [rd ''gScratch'' 0, rd ''hScratch'' 1, rw ''positions'' 2, rd ''vertPerm'' 3, ub ''params'' 4]"

definition kBindings_attachment_dual_update :: "binding_desc list" where
  "kBindings_attachment_dual_update =
     [rd ''positions'' 0, rd ''vertIdx'' 1, rd ''fixedPos'' 2, rw ''gamma'' 3, rw ''lambda'' 4,
      ub ''params'' 5]"

definition kBindings_triangle_membrane_dual_update :: "binding_desc list" where
  "kBindings_triangle_membrane_dual_update =
     [rd ''positions'' 0, rd ''idx'' 1, rw ''gamma'' 2, rw ''lambda0'' 3, rw ''lambda1'' 4,
      rd ''inv_deltaUV'' 5, ub ''params'' 6]"

definition kBindings_triangle_bending_dual_update :: "binding_desc list" where
  "kBindings_triangle_bending_dual_update =
     [rd ''positions'' 0, rd ''idx'' 1, rd ''weight'' 2, rd ''nTarget'' 3, rw ''gamma'' 4,
      rw ''lambda'' 5, ub ''params'' 6]"

definition kBindings_self_collision_scan :: "binding_desc list" where
  "kBindings_self_collision_scan =
     [rd ''positions'' 0, rd ''radii'' 1, rw ''neighbors'' 2, ub ''params'' 3]"

definition kBindings_vbd_solve_apply_backward :: "binding_desc list" where
  "kBindings_vbd_solve_apply_backward =
     [rd ''v_out'' 0, rd ''hScratch'' 1, rd ''deltaX'' 2, rw ''v_g'' 3, rw ''v_H'' 4]"

definition kBindings_vbd_gather_spring_backward :: "binding_desc list" where
  "kBindings_vbd_gather_spring_backward =
     [rd ''springP1Idx'' 0, rd ''springP2Idx'' 1, rd ''v_g'' 2, rd ''v_H'' 3, rw ''v_springGradA'' 4,
      rw ''v_springHess'' 5]"

definition kBindings_vbd_gather_attachment_backward :: "binding_desc list" where
  "kBindings_vbd_gather_attachment_backward =
     [rd ''attachVertIdx'' 0, rd ''v_g'' 1, rd ''v_H'' 2, rw ''v_attachGradV'' 3,
      rw ''v_attachHessScalar'' 4]"

definition kBindings_vbd_gather_triangle_backward :: "binding_desc list" where
  "kBindings_vbd_gather_triangle_backward =
     [rd ''triIdx'' 0, rd ''v_g'' 1, rd ''v_H'' 2, rw ''v_triGrad'' 3, rw ''v_triHessScalar'' 4]"

definition kBindings_vbd_gather_bending_backward :: "binding_desc list" where
  "kBindings_vbd_gather_bending_backward =
     [rd ''bendIdx'' 0, rd ''v_g'' 1, rd ''v_H'' 2, rw ''v_bendGrad'' 3, rw ''v_bendHessScalar'' 4]"

definition kBindings_attachment_force_al_backward :: "binding_desc list" where
  "kBindings_attachment_force_al_backward =
     [rd ''positions'' 0, rd ''vertIdx'' 1, rd ''fixedPos'' 2, rd ''stiffness'' 3, rd ''v_gradV'' 4,
      rd ''v_hessScalar'' 5, rw ''v_positions'' 6, rw ''v_fixedPos'' 7, rw ''v_lambda'' 8,
      rw ''v_stiffness'' 9]"

definition kBindings_spring_force_backward :: "binding_desc list" where
  "kBindings_spring_force_backward =
     [rd ''positions'' 0, rd ''p1Idx'' 1, rd ''p2Idx'' 2, rd ''restLen'' 3, rd ''stiffness'' 4,
      rd ''v_gradA'' 5, rd ''v_springHess'' 6, rw ''v_p_d'' 7, rw ''v_restLen'' 8,
      rw ''v_stiffness'' 9]"

definition kBindings_triangle_membrane_force_al_backward :: "binding_desc list" where
  "kBindings_triangle_membrane_force_al_backward =
     [rd ''positions'' 0, rd ''idx'' 1, rd ''stiffness'' 2, rd ''lambda0'' 3, rd ''lambda1'' 4,
      rd ''inv_deltaUV'' 5, rd ''v_grad'' 6, rd ''v_hessScalar'' 7, rw ''v_p'' 8,
      rw ''v_stiffness'' 9, rw ''v_lambda0'' 10, rw ''v_lambda1'' 11]"

definition kBindings_triangle_bending_force_al_backward :: "binding_desc list" where
  "kBindings_triangle_bending_force_al_backward =
     [rd ''positions'' 0, rd ''idx'' 1, rd ''weight'' 2, rd ''nTarget'' 3, rd ''stiffness'' 4,
      rd ''lambda'' 5, rd ''v_grad'' 6, rd ''v_hessScalar'' 7, rw ''v_p'' 8, rw ''v_nTarget'' 9,
      rw ''v_stiffness'' 10, rw ''v_lambda'' 11]"

definition kBindings_vbd_init_backward :: "binding_desc list" where
  "kBindings_vbd_init_backward =
     [rd ''positions'' 0, rd ''predicted'' 1, rd ''mass'' 2, rd ''v_g'' 3, rd ''v_H'' 4, rw ''v_x'' 5,
      rw ''v_y'' 6, rw ''v_mass'' 7, ub ''params'' 8]"

definition kBindings_saxpby :: "binding_desc list" where
  "kBindings_saxpby =
     [ub ''params'' 0, rd ''x'' 1, rd ''y'' 2, rw ''dst'' 3]"

definition kAvbdKernels :: "kernel_desc list" where
  "kAvbdKernels =
     [Kernel_desc ''vbd_init'' 64 kBindings_vbd_init 0,
      Kernel_desc ''spring_force'' 64 kBindings_spring_force (- 1),
      Kernel_desc ''vbd_gather_spring'' 64 kBindings_vbd_gather_spring 8,
      Kernel_desc ''attachment_force_al'' 64 kBindings_attachment_force_al (- 1),
      Kernel_desc ''vbd_gather_attachment'' 64 kBindings_vbd_gather_attachment 7,
      Kernel_desc ''triangle_membrane_force_al'' 64 kBindings_triangle_membrane_force_al (- 1),
      Kernel_desc ''vbd_gather_triangle'' 64 kBindings_vbd_gather_triangle 8,
      Kernel_desc ''triangle_bending_force_al'' 64 kBindings_triangle_bending_force_al (- 1),
      Kernel_desc ''vbd_gather_bending'' 64 kBindings_vbd_gather_bending 8,
      Kernel_desc ''vbd_solve_apply'' 64 kBindings_vbd_solve_apply 4,
      Kernel_desc ''attachment_dual_update'' 64 kBindings_attachment_dual_update 5,
      Kernel_desc ''triangle_membrane_dual_update'' 64 kBindings_triangle_membrane_dual_update 6,
      Kernel_desc ''triangle_bending_dual_update'' 64 kBindings_triangle_bending_dual_update 6,
      Kernel_desc ''self_collision_scan'' 64 kBindings_self_collision_scan 3,
      Kernel_desc ''vbd_solve_apply_backward'' 64 kBindings_vbd_solve_apply_backward (- 1),
      Kernel_desc ''vbd_gather_spring_backward'' 64 kBindings_vbd_gather_spring_backward (- 1),
      Kernel_desc ''vbd_gather_attachment_backward'' 64 kBindings_vbd_gather_attachment_backward (- 1),
      Kernel_desc ''vbd_gather_triangle_backward'' 64 kBindings_vbd_gather_triangle_backward (- 1),
      Kernel_desc ''vbd_gather_bending_backward'' 64 kBindings_vbd_gather_bending_backward (- 1),
      Kernel_desc ''attachment_force_al_backward'' 64 kBindings_attachment_force_al_backward (- 1),
      Kernel_desc ''spring_force_backward'' 64 kBindings_spring_force_backward (- 1),
      Kernel_desc ''triangle_membrane_force_al_backward'' 64 kBindings_triangle_membrane_force_al_backward (- 1),
      Kernel_desc ''triangle_bending_force_al_backward'' 64 kBindings_triangle_bending_force_al_backward (- 1),
      Kernel_desc ''vbd_init_backward'' 64 kBindings_vbd_init_backward 8,
      Kernel_desc ''saxpby'' 256 kBindings_saxpby 0]"

definition table_find :: "string \<Rightarrow> kernel_desc option" where
  "table_find name = List.find (\<lambda>k. kd_name k = name) kAvbdKernels"

text \<open>Whether a kernel may write what is bound under a name.\<close>

definition writable :: "string \<Rightarrow> string \<Rightarrow> bool" where
  "writable kn name =
     (case table_find kn of None \<Rightarrow> False
      | Some k \<Rightarrow> list_ex (\<lambda>b. bd_name b = name \<and> \<not> bd_readonly b) (kd_bindings k))"

lemmas kBindings_defs =
  kBindings_vbd_init_def kBindings_spring_force_def kBindings_vbd_gather_spring_def
  kBindings_attachment_force_al_def kBindings_vbd_gather_attachment_def
  kBindings_triangle_membrane_force_al_def kBindings_vbd_gather_triangle_def
  kBindings_triangle_bending_force_al_def kBindings_vbd_gather_bending_def kBindings_vbd_solve_apply_def
  kBindings_attachment_dual_update_def kBindings_triangle_membrane_dual_update_def
  kBindings_triangle_bending_dual_update_def kBindings_self_collision_scan_def
  kBindings_vbd_solve_apply_backward_def kBindings_vbd_gather_spring_backward_def
  kBindings_vbd_gather_attachment_backward_def kBindings_vbd_gather_triangle_backward_def
  kBindings_vbd_gather_bending_backward_def kBindings_attachment_force_al_backward_def
  kBindings_spring_force_backward_def kBindings_triangle_membrane_force_al_backward_def
  kBindings_triangle_bending_force_al_backward_def kBindings_vbd_init_backward_def kBindings_saxpby_def

end
