(* ===== verification/AvbdSolver.thy ===== *)
theory AvbdSolver
  imports AvbdTable
begin

text \<open>
  What the two AVBD cloth solvers of \<open>guest/avbd\<close> share: \<open>AvbdCpu\<close> (\<open>avbd_cpu.{h,cpp}\<close>) and
  \<open>AvbdRd\<close> (\<open>avbd_rd.{h,cpp}\<close>) have one public surface, the same buffers and the same kernels.
  A float is its 32 bits; multiplying two of them and what a kernel computes are parameters.
\<close>

section \<open>Buffers\<close>

text \<open>
  The arrays of both solvers, by the members of \<open>AvbdRd\<close> that hold them, family by family. The
  abbreviations name a member as the code does.
\<close>

datatype (plugins only: code size) mesh_field =
    M_positions | M_predicted | M_mass | M_gScratch | M_hScratch | M_vertPerm | M_identPerm
  | M_positionsPre | M_radii | M_neighbors

datatype (plugins only: code size) spring_field =
    S_sp_p1 | S_sp_p2 | S_sp_rest | S_sp_k | S_sp_gradA | S_sp_hess | S_sp_off | S_sp_idx | S_sp_role

datatype (plugins only: code size) attach_field =
    A_at_vert | A_at_fixed | A_at_k | A_at_lambda | A_at_gamma | A_at_gradV | A_at_hess | A_at_off
  | A_at_idx

datatype (plugins only: code size) tri_field =
    T_tri_idx | T_tri_k | T_tri_l0 | T_tri_l1 | T_tri_gamma | T_tri_grad | T_tri_hess | T_tri_invuv
  | T_tri_off | T_tri_idxc | T_tri_role | T_tri_l0Pre | T_tri_l1Pre

datatype (plugins only: code size) bend_field =
    B_bd_idx | B_bd_w | B_bd_n | B_bd_k | B_bd_lambda | B_bd_gamma | B_bd_grad | B_bd_hess | B_bd_off
  | B_bd_idxc | B_bd_role | B_bd_lambdaPre

datatype (plugins only: code size) back_field =
    V_vOut | V_vG | V_vH | V_deltaX | V_vPosGrad | V_vPosInit | V_vPred | V_vMass | V_hJunk | V_vPosSum
  | V_vPosGradOut

datatype (plugins only: code size) back_con_field =
    W_vSpringGradA | W_vSpringHess | W_vSpringPd | W_vSpringRest | W_vSpringStiff | W_vAttachGradV
  | W_vAttachHess | W_vAttachFixed | W_vAttachStiff | W_vAttachLambda

datatype (plugins only: code size) back_face_field =
    X_vTriGrad | X_vTriHess | X_vTriP | X_vTriStiff | X_vTriL0 | X_vTriL1 | X_vBendGrad | X_vBendHess
  | X_vBendP | X_vBendN | X_vBendStiff | X_vBendLambda

datatype (plugins only: code size) field =
    Mesh mesh_field | Sp spring_field | At attach_field | Tri tri_field | Bd bend_field | Back back_field | BackCon back_con_field | BackFace back_face_field

abbreviation F_positions :: field where "F_positions \<equiv> Mesh M_positions"
abbreviation F_predicted :: field where "F_predicted \<equiv> Mesh M_predicted"
abbreviation F_mass :: field where "F_mass \<equiv> Mesh M_mass"
abbreviation F_gScratch :: field where "F_gScratch \<equiv> Mesh M_gScratch"
abbreviation F_hScratch :: field where "F_hScratch \<equiv> Mesh M_hScratch"
abbreviation F_vertPerm :: field where "F_vertPerm \<equiv> Mesh M_vertPerm"
abbreviation F_identPerm :: field where "F_identPerm \<equiv> Mesh M_identPerm"
abbreviation F_positionsPre :: field where "F_positionsPre \<equiv> Mesh M_positionsPre"
abbreviation F_radii :: field where "F_radii \<equiv> Mesh M_radii"
abbreviation F_neighbors :: field where "F_neighbors \<equiv> Mesh M_neighbors"

abbreviation F_sp_p1 :: field where "F_sp_p1 \<equiv> Sp S_sp_p1"
abbreviation F_sp_p2 :: field where "F_sp_p2 \<equiv> Sp S_sp_p2"
abbreviation F_sp_rest :: field where "F_sp_rest \<equiv> Sp S_sp_rest"
abbreviation F_sp_k :: field where "F_sp_k \<equiv> Sp S_sp_k"
abbreviation F_sp_gradA :: field where "F_sp_gradA \<equiv> Sp S_sp_gradA"
abbreviation F_sp_hess :: field where "F_sp_hess \<equiv> Sp S_sp_hess"
abbreviation F_sp_off :: field where "F_sp_off \<equiv> Sp S_sp_off"
abbreviation F_sp_idx :: field where "F_sp_idx \<equiv> Sp S_sp_idx"
abbreviation F_sp_role :: field where "F_sp_role \<equiv> Sp S_sp_role"

abbreviation F_at_vert :: field where "F_at_vert \<equiv> At A_at_vert"
abbreviation F_at_fixed :: field where "F_at_fixed \<equiv> At A_at_fixed"
abbreviation F_at_k :: field where "F_at_k \<equiv> At A_at_k"
abbreviation F_at_lambda :: field where "F_at_lambda \<equiv> At A_at_lambda"
abbreviation F_at_gamma :: field where "F_at_gamma \<equiv> At A_at_gamma"
abbreviation F_at_gradV :: field where "F_at_gradV \<equiv> At A_at_gradV"
abbreviation F_at_hess :: field where "F_at_hess \<equiv> At A_at_hess"
abbreviation F_at_off :: field where "F_at_off \<equiv> At A_at_off"
abbreviation F_at_idx :: field where "F_at_idx \<equiv> At A_at_idx"

abbreviation F_tri_idx :: field where "F_tri_idx \<equiv> Tri T_tri_idx"
abbreviation F_tri_k :: field where "F_tri_k \<equiv> Tri T_tri_k"
abbreviation F_tri_l0 :: field where "F_tri_l0 \<equiv> Tri T_tri_l0"
abbreviation F_tri_l1 :: field where "F_tri_l1 \<equiv> Tri T_tri_l1"
abbreviation F_tri_gamma :: field where "F_tri_gamma \<equiv> Tri T_tri_gamma"
abbreviation F_tri_grad :: field where "F_tri_grad \<equiv> Tri T_tri_grad"
abbreviation F_tri_hess :: field where "F_tri_hess \<equiv> Tri T_tri_hess"
abbreviation F_tri_invuv :: field where "F_tri_invuv \<equiv> Tri T_tri_invuv"
abbreviation F_tri_off :: field where "F_tri_off \<equiv> Tri T_tri_off"
abbreviation F_tri_idxc :: field where "F_tri_idxc \<equiv> Tri T_tri_idxc"
abbreviation F_tri_role :: field where "F_tri_role \<equiv> Tri T_tri_role"
abbreviation F_tri_l0Pre :: field where "F_tri_l0Pre \<equiv> Tri T_tri_l0Pre"
abbreviation F_tri_l1Pre :: field where "F_tri_l1Pre \<equiv> Tri T_tri_l1Pre"

abbreviation F_bd_idx :: field where "F_bd_idx \<equiv> Bd B_bd_idx"
abbreviation F_bd_w :: field where "F_bd_w \<equiv> Bd B_bd_w"
abbreviation F_bd_n :: field where "F_bd_n \<equiv> Bd B_bd_n"
abbreviation F_bd_k :: field where "F_bd_k \<equiv> Bd B_bd_k"
abbreviation F_bd_lambda :: field where "F_bd_lambda \<equiv> Bd B_bd_lambda"
abbreviation F_bd_gamma :: field where "F_bd_gamma \<equiv> Bd B_bd_gamma"
abbreviation F_bd_grad :: field where "F_bd_grad \<equiv> Bd B_bd_grad"
abbreviation F_bd_hess :: field where "F_bd_hess \<equiv> Bd B_bd_hess"
abbreviation F_bd_off :: field where "F_bd_off \<equiv> Bd B_bd_off"
abbreviation F_bd_idxc :: field where "F_bd_idxc \<equiv> Bd B_bd_idxc"
abbreviation F_bd_role :: field where "F_bd_role \<equiv> Bd B_bd_role"
abbreviation F_bd_lambdaPre :: field where "F_bd_lambdaPre \<equiv> Bd B_bd_lambdaPre"

abbreviation F_vOut :: field where "F_vOut \<equiv> Back V_vOut"
abbreviation F_vG :: field where "F_vG \<equiv> Back V_vG"
abbreviation F_vH :: field where "F_vH \<equiv> Back V_vH"
abbreviation F_deltaX :: field where "F_deltaX \<equiv> Back V_deltaX"
abbreviation F_vPosGrad :: field where "F_vPosGrad \<equiv> Back V_vPosGrad"
abbreviation F_vPosInit :: field where "F_vPosInit \<equiv> Back V_vPosInit"
abbreviation F_vPred :: field where "F_vPred \<equiv> Back V_vPred"
abbreviation F_vMass :: field where "F_vMass \<equiv> Back V_vMass"
abbreviation F_hJunk :: field where "F_hJunk \<equiv> Back V_hJunk"
abbreviation F_vPosSum :: field where "F_vPosSum \<equiv> Back V_vPosSum"
abbreviation F_vPosGradOut :: field where "F_vPosGradOut \<equiv> Back V_vPosGradOut"

abbreviation F_vSpringGradA :: field where "F_vSpringGradA \<equiv> BackCon W_vSpringGradA"
abbreviation F_vSpringHess :: field where "F_vSpringHess \<equiv> BackCon W_vSpringHess"
abbreviation F_vSpringPd :: field where "F_vSpringPd \<equiv> BackCon W_vSpringPd"
abbreviation F_vSpringRest :: field where "F_vSpringRest \<equiv> BackCon W_vSpringRest"
abbreviation F_vSpringStiff :: field where "F_vSpringStiff \<equiv> BackCon W_vSpringStiff"
abbreviation F_vAttachGradV :: field where "F_vAttachGradV \<equiv> BackCon W_vAttachGradV"
abbreviation F_vAttachHess :: field where "F_vAttachHess \<equiv> BackCon W_vAttachHess"
abbreviation F_vAttachFixed :: field where "F_vAttachFixed \<equiv> BackCon W_vAttachFixed"
abbreviation F_vAttachStiff :: field where "F_vAttachStiff \<equiv> BackCon W_vAttachStiff"
abbreviation F_vAttachLambda :: field where "F_vAttachLambda \<equiv> BackCon W_vAttachLambda"

abbreviation F_vTriGrad :: field where "F_vTriGrad \<equiv> BackFace X_vTriGrad"
abbreviation F_vTriHess :: field where "F_vTriHess \<equiv> BackFace X_vTriHess"
abbreviation F_vTriP :: field where "F_vTriP \<equiv> BackFace X_vTriP"
abbreviation F_vTriStiff :: field where "F_vTriStiff \<equiv> BackFace X_vTriStiff"
abbreviation F_vTriL0 :: field where "F_vTriL0 \<equiv> BackFace X_vTriL0"
abbreviation F_vTriL1 :: field where "F_vTriL1 \<equiv> BackFace X_vTriL1"
abbreviation F_vBendGrad :: field where "F_vBendGrad \<equiv> BackFace X_vBendGrad"
abbreviation F_vBendHess :: field where "F_vBendHess \<equiv> BackFace X_vBendHess"
abbreviation F_vBendP :: field where "F_vBendP \<equiv> BackFace X_vBendP"
abbreviation F_vBendN :: field where "F_vBendN \<equiv> BackFace X_vBendN"
abbreviation F_vBendStiff :: field where "F_vBendStiff \<equiv> BackFace X_vBendStiff"
abbreviation F_vBendLambda :: field where "F_vBendLambda \<equiv> BackFace X_vBendLambda"

text \<open>The members both solvers have; \<open>vertPerm_\<close> is a buffer.\<close>

record solver =
  sv_nVerts :: u32
  sv_nSprings :: u32
  sv_nAttach :: u32
  sv_nTri :: u32
  sv_nBend :: u32
  sv_invHSq :: u32
  sv_beta :: u32
  sv_penaltyMax :: u32
  sv_gammaScale :: u32
  sv_meshReady :: bool
  sv_backwardReady :: bool
  sv_useLambdaSnapshot :: bool
  sv_colorOffsets :: "u32 list"
  sv_dbgColor :: int
  sv_dbgStage :: int
  sv_selfK :: u32

definition f_one :: u32 where "f_one = 0x3F800000"
definition f_minus_one :: u32 where "f_minus_one = 0xBF800000"

definition new_solver :: solver where
  "new_solver = \<lparr>sv_nVerts = 0, sv_nSprings = 0, sv_nAttach = 0, sv_nTri = 0, sv_nBend = 0, sv_invHSq = 0, sv_beta = 0,
     sv_penaltyMax = 0x501502F9, sv_gammaScale = f_one, sv_meshReady = False, sv_backwardReady = False,
     sv_useLambdaSnapshot = True, sv_colorOffsets = [0, 0], sv_dbgColor = - 1, sv_dbgStage = - 1, sv_selfK = 0\<rparr>"

definition numColors :: "'a solver_scheme \<Rightarrow> nat" where
  "numColors s = length (sv_colorOffsets s) - 1"

text \<open>The first vertex of a colour in \<open>vertPerm_\<close>, and how many it has.\<close>

definition colour_offset :: "'a solver_scheme \<Rightarrow> nat \<Rightarrow> u32" where
  "colour_offset s k = sv_colorOffsets s ! k"

definition colour_count :: "'a solver_scheme \<Rightarrow> nat \<Rightarrow> u32" where
  "colour_count s k = sv_colorOffsets s ! Suc k - sv_colorOffsets s ! k"

section \<open>Running a kernel\<close>

text \<open>
  A kernel's thread \<open>lane\<close> gets the words of its params block and what is bound under each name,
  and gives what is there after it; a name it only reads keeps its contents.
\<close>

type_synonym mem = "field \<Rightarrow> u32 list"
type_synonym binds = "(string \<times> field) list"
type_synonym kernels = "string \<Rightarrow> (nat \<Rightarrow> u32) \<Rightarrow> nat \<Rightarrow> (string \<Rightarrow> u32 list) \<Rightarrow> string \<Rightarrow> u32 list"

definition params_word :: "u32 list \<Rightarrow> nat \<Rightarrow> u32" where
  "params_word ps i = (if i < length ps then ps ! i else 0)"

definition bound :: "binds \<Rightarrow> mem \<Rightarrow> string \<Rightarrow> u32 list" where
  "bound bs m name = (case map_of bs name of None \<Rightarrow> [] | Some f \<Rightarrow> m f)"

definition run_lane :: "kernels \<Rightarrow> string \<Rightarrow> u32 list \<Rightarrow> binds \<Rightarrow> nat \<Rightarrow> mem \<Rightarrow> mem" where
  "run_lane K kn ps bs lane m =
     (let after = K kn (params_word ps) lane (bound bs m)
      in fold (\<lambda>(name, f) m. if writable kn name then m(f := after name) else m) bs m)"

text \<open>\<open>dispatch\<close> of \<open>avbd_cpu.cpp\<close>: the threads one after the other.\<close>

definition run_kernel :: "kernels \<Rightarrow> string \<Rightarrow> u32 \<Rightarrow> u32 list \<Rightarrow> binds \<Rightarrow> mem \<Rightarrow> mem" where
  "run_kernel K kn count ps bs m = fold (run_lane K kn ps bs) [0..<unat count] m"

end
