(* ===== verification/AvbdCpu.thy ===== *)
theory AvbdCpu
  imports AvbdSolver Topology
begin

text \<open>
  \<open>guest/avbd/avbd_cpu.{h,cpp}\<close>: the AVBD solver on the CPU, which runs each kernel one thread
  at a time. Its vectors are a memory over the buffers of the solvers.
\<close>

record cpu = solver +
  cp_mem :: mem

definition new_cpu :: cpu where
  "new_cpu = solver.extend new_solver \<lparr>cp_mem = (\<lambda>f. [])\<rparr>"

abbreviation put_mem :: "field \<Rightarrow> u32 list \<Rightarrow> cpu \<Rightarrow> cpu" where
  "put_mem f xs s \<equiv> s\<lparr>cp_mem := (cp_mem s)(f := xs)\<rparr>"

text \<open>\<open>v.assign(p, p + n)\<close> and \<open>v.assign(n, 0)\<close>.\<close>

definition assign :: "field \<Rightarrow> nat \<Rightarrow> u32 list \<Rightarrow> cpu \<Rightarrow> cpu" where
  "assign f n p s = put_mem f (take n p) s"

definition zeros :: "field \<Rightarrow> nat \<Rightarrow> cpu \<Rightarrow> cpu" where
  "zeros f n s = put_mem f (replicate n 0) s"

text \<open>\<open>avbd::build_csr\<close> into three vectors.\<close>

definition csr_of :: "u32 \<Rightarrow> u32 \<Rightarrow> nat \<Rightarrow> u32 list \<Rightarrow> u32 list \<times> u32 list \<times> u32 list" where
  "csr_of nV n k idx =
     (case build_csr (unat nV) (unat n) k (map unat idx) of (off, ix, role) \<Rightarrow>
        (map word_of_nat off, map word_of_nat ix, map word_of_nat role))"

section \<open>Uploads\<close>

definition cpu_setupMesh :: "u32 \<Rightarrow> u32 list \<Rightarrow> u32 list \<Rightarrow> u32 list \<Rightarrow> u32 \<Rightarrow> cpu \<Rightarrow> cpu" where
  "cpu_setupMesh nVerts positions predicted mass invHSquared s =
     (let n = unat nVerts; perm = map word_of_nat [0..<n];
          s = s\<lparr>sv_nVerts := nVerts, sv_invHSq := invHSquared\<rparr>;
          s = assign F_positions (unat (3 * nVerts)) positions s;
          s = assign F_predicted (unat (3 * nVerts)) predicted s;
          s = assign F_mass n mass s;
          s = zeros F_gScratch (unat (3 * nVerts)) s;
          s = zeros F_hScratch (unat (6 * nVerts)) s;
          s = put_mem F_vertPerm perm s;
          s = put_mem F_identPerm perm s;
          s = s\<lparr>sv_colorOffsets := [0, nVerts]\<rparr>;
          s = put_mem F_positionsPre [] s;
          s = s\<lparr>sv_backwardReady := False\<rparr>;
          s = put_mem F_radii [] s;
          s = put_mem F_neighbors [] s
      in s\<lparr>sv_selfK := 0, sv_meshReady := True\<rparr>)"

definition spring_ends :: "nat \<Rightarrow> u32 list \<Rightarrow> u32 list \<Rightarrow> u32 list" where
  "spring_ends n p1 p2 = concat (map (\<lambda>i. [p1 ! i, p2 ! i]) [0..<n])"

definition cpu_uploadSprings :: "u32 \<Rightarrow> u32 list \<Rightarrow> u32 list \<Rightarrow> u32 list \<Rightarrow> u32 list \<Rightarrow> cpu \<Rightarrow> cpu" where
  "cpu_uploadSprings nSprings p1Idx p2Idx restLen stiffness s =
     (let n = unat nSprings;
          s = s\<lparr>sv_nSprings := nSprings\<rparr>;
          s = assign F_sp_p1 n p1Idx s;
          s = assign F_sp_p2 n p2Idx s;
          s = assign F_sp_rest n restLen s;
          s = assign F_sp_k n stiffness s;
          s = zeros F_sp_gradA (unat (3 * nSprings)) s;
          s = zeros F_sp_hess (unat (6 * nSprings)) s;
          (off, idx, role) = csr_of (sv_nVerts s) nSprings 2 (spring_ends n p1Idx p2Idx)
      in put_mem F_sp_role role (put_mem F_sp_idx idx (put_mem F_sp_off off s)))"

definition cpu_uploadAttachments :: "u32 \<Rightarrow> u32 list \<Rightarrow> u32 list \<Rightarrow> u32 list \<Rightarrow> cpu \<Rightarrow> cpu" where
  "cpu_uploadAttachments nAttach vertIdx fixedPos stiffness s =
     (let n = unat nAttach;
          s = s\<lparr>sv_nAttach := nAttach\<rparr>;
          s = assign F_at_vert n vertIdx s;
          s = assign F_at_fixed (unat (3 * nAttach)) fixedPos s;
          s = assign F_at_k n stiffness s;
          s = assign F_at_gamma n stiffness s;
          s = zeros F_at_lambda (unat (3 * nAttach)) s;
          s = zeros F_at_gradV (unat (3 * nAttach)) s;
          s = zeros F_at_hess n s;
          (off, idx, role) = csr_of (sv_nVerts s) nAttach 1 vertIdx
      in put_mem F_at_idx idx (put_mem F_at_off off s))"

definition cpu_uploadTriangles :: "u32 \<Rightarrow> u32 list \<Rightarrow> u32 list \<Rightarrow> u32 list \<Rightarrow> cpu \<Rightarrow> cpu" where
  "cpu_uploadTriangles nTri triIdx invUV stiffness s =
     (let n = unat nTri;
          s = s\<lparr>sv_nTri := nTri\<rparr>;
          s = assign F_tri_idx (unat (3 * nTri)) triIdx s;
          s = assign F_tri_invuv (unat (4 * nTri)) invUV s;
          s = assign F_tri_k n stiffness s;
          s = assign F_tri_gamma n stiffness s;
          s = zeros F_tri_l0 (unat (3 * nTri)) s;
          s = zeros F_tri_l1 (unat (3 * nTri)) s;
          s = put_mem F_tri_l0Pre (cp_mem s F_tri_l0) s;
          s = put_mem F_tri_l1Pre (cp_mem s F_tri_l1) s;
          s = zeros F_tri_grad (unat (3 * 3 * nTri)) s;
          s = zeros F_tri_hess (unat (3 * nTri)) s;
          (off, idx, role) = csr_of (sv_nVerts s) nTri 3 triIdx
      in put_mem F_tri_role role (put_mem F_tri_idxc idx (put_mem F_tri_off off s)))"

definition cpu_uploadBendings :: "u32 \<Rightarrow> u32 list \<Rightarrow> u32 list \<Rightarrow> u32 list \<Rightarrow> u32 list \<Rightarrow> cpu \<Rightarrow> cpu" where
  "cpu_uploadBendings nBend bendIdx weight nTarget stiffness s =
     (let n = unat nBend;
          s = s\<lparr>sv_nBend := nBend\<rparr>;
          s = assign F_bd_idx (unat (4 * nBend)) bendIdx s;
          s = assign F_bd_w (unat (4 * nBend)) weight s;
          s = assign F_bd_n n nTarget s;
          s = assign F_bd_k n stiffness s;
          s = assign F_bd_gamma n stiffness s;
          s = zeros F_bd_lambda (unat (3 * nBend)) s;
          s = put_mem F_bd_lambdaPre (cp_mem s F_bd_lambda) s;
          s = zeros F_bd_grad (unat (3 * 4 * nBend)) s;
          s = zeros F_bd_hess (unat (4 * nBend)) s;
          (off, idx, role) = csr_of (sv_nVerts s) nBend 4 bendIdx
      in put_mem F_bd_role role (put_mem F_bd_idxc idx (put_mem F_bd_off off s)))"

definition cpu_buildColoring :: "cpu \<Rightarrow> cpu" where
  "cpu_buildColoring s =
     (let ix = (\<lambda>f. map unat (cp_mem s f));
          (perm, offsets) = greedy_coloring (unat (sv_nVerts s)) (unat (sv_nSprings s)) (ix F_sp_p1) (ix F_sp_p2)
            (unat (sv_nTri s)) (ix F_tri_idx) (unat (sv_nBend s)) (ix F_bd_idx)
      in put_mem F_vertPerm (map word_of_nat perm) (s\<lparr>sv_colorOffsets := map word_of_nat offsets\<rparr>))"

section \<open>Updates\<close>

text \<open>\<open>mul\<close> is the product of two floats.\<close>

definition scale_gamma :: "(u32 \<Rightarrow> u32 \<Rightarrow> u32) \<Rightarrow> u32 \<Rightarrow> field \<Rightarrow> cpu \<Rightarrow> cpu" where
  "scale_gamma mul c f s = put_mem f (map (\<lambda>g. mul g c) (cp_mem s f)) s"

definition cpu_setGammaScale :: "(u32 \<Rightarrow> u32 \<Rightarrow> u32) \<Rightarrow> u32 \<Rightarrow> cpu \<Rightarrow> cpu" where
  "cpu_setGammaScale mul c s =
     scale_gamma mul c F_bd_gamma (scale_gamma mul c F_tri_gamma (scale_gamma mul c F_at_gamma
       (s\<lparr>sv_gammaScale := mul (sv_gammaScale s) c\<rparr>)))"

definition cpu_setPenaltyRamp :: "u32 \<Rightarrow> u32 \<Rightarrow> cpu \<Rightarrow> cpu" where
  "cpu_setPenaltyRamp b pmax s = s\<lparr>sv_beta := b, sv_penaltyMax := pmax\<rparr>"

definition cpu_updateTriangleRest :: "(u32 \<Rightarrow> u32 \<Rightarrow> u32) \<Rightarrow> u32 list \<Rightarrow> u32 list \<Rightarrow> cpu \<Rightarrow> cpu" where
  "cpu_updateTriangleRest mul invUV stiffness s =
     (if sv_nTri s = 0 then s
      else let n = unat (sv_nTri s);
          s = assign F_tri_invuv (4 * n) invUV s;
          s = assign F_tri_k n stiffness s;
          s = assign F_tri_gamma n stiffness s
      in scale_gamma mul (sv_gammaScale s) F_tri_gamma s)"

definition cpu_updateBendingRest :: "(u32 \<Rightarrow> u32 \<Rightarrow> u32) \<Rightarrow> u32 list \<Rightarrow> u32 list \<Rightarrow> u32 list \<Rightarrow> cpu \<Rightarrow> cpu" where
  "cpu_updateBendingRest mul weight nTarget stiffness s =
     (if sv_nBend s = 0 then s
      else let n = unat (sv_nBend s);
          s = assign F_bd_w (4 * n) weight s;
          s = assign F_bd_n n nTarget s;
          s = assign F_bd_k n stiffness s;
          s = assign F_bd_gamma n stiffness s
      in scale_gamma mul (sv_gammaScale s) F_bd_gamma s)"

definition cpu_updateAttachmentStiffness :: "(u32 \<Rightarrow> u32 \<Rightarrow> u32) \<Rightarrow> u32 list \<Rightarrow> cpu \<Rightarrow> cpu" where
  "cpu_updateAttachmentStiffness mul stiffness s =
     (if sv_nAttach s = 0 then s
      else let n = unat (sv_nAttach s);
          s = assign F_at_k n stiffness s;
          s = assign F_at_gamma n stiffness s
      in scale_gamma mul (sv_gammaScale s) F_at_gamma s)"

definition cpu_updateSelfCollisionRadii :: "u32 list \<Rightarrow> cpu \<Rightarrow> cpu" where
  "cpu_updateSelfCollisionRadii radii s =
     (if \<not> sv_meshReady s \<or> length (cp_mem s F_radii) \<noteq> unat (sv_nVerts s) then s
      else assign F_radii (unat (sv_nVerts s)) radii s)"

definition cpu_updateState :: "u32 list \<Rightarrow> u32 list \<Rightarrow> cpu \<Rightarrow> cpu" where
  "cpu_updateState positions predicted s =
     (let n = unat (3 * sv_nVerts s) in assign F_predicted n predicted (assign F_positions n positions s))"

definition cpu_updateAttachmentFixedPos :: "u32 list \<Rightarrow> cpu \<Rightarrow> cpu" where
  "cpu_updateAttachmentFixedPos fixedPos s =
     (if sv_nAttach s = 0 then s else assign F_at_fixed (unat (3 * sv_nAttach s)) fixedPos s)"

definition cpu_restrictToOwned :: "u32 \<Rightarrow> cpu \<Rightarrow> cpu" where
  "cpu_restrictToOwned nOwned s =
     (let nOwned = (if sv_nVerts s < nOwned then sv_nVerts s else nOwned)
      in (put_mem F_vertPerm (map word_of_nat [0..<unat nOwned]) s)\<lparr>sv_colorOffsets := [0, nOwned]\<rparr>)"

definition cpu_setPositions :: "u32 list \<Rightarrow> cpu \<Rightarrow> cpu" where
  "cpu_setPositions positions s = assign F_positions (unat (3 * sv_nVerts s)) positions s"

definition cpu_readPositions :: "cpu \<Rightarrow> u32 list" where
  "cpu_readPositions s = cp_mem s F_positions"

section \<open>An iteration\<close>

text \<open>The part of colour \<open>k\<close> before the first stop: its scratch rows and the forces.\<close>

definition cpu_forces :: "kernels \<Rightarrow> 'a solver_scheme \<Rightarrow> nat \<Rightarrow> mem \<Rightarrow> mem" where
  "cpu_forces K s k m =
     (let m = run_kernel K ''vbd_init'' (colour_count s k) [sv_invHSq s, colour_offset s k, colour_count s k]
          [(''positions'', F_positions), (''predicted'', F_predicted), (''mass'', F_mass),
           (''gScratch'', F_gScratch), (''hScratch'', F_hScratch), (''vertPerm'', F_vertPerm)] m;
          m = (if 0 < sv_nSprings s then run_kernel K ''spring_force'' (sv_nSprings s) []
            [(''positions'', F_positions), (''p1Idx'', F_sp_p1), (''p2Idx'', F_sp_p2), (''restLen'', F_sp_rest),
             (''stiffness'', F_sp_k), (''gradA'', F_sp_gradA), (''hess'', F_sp_hess)] m
          else m);
          m = (if 0 < sv_nAttach s then run_kernel K ''attachment_force_al'' (sv_nAttach s) []
            [(''positions'', F_positions), (''vertIdx'', F_at_vert), (''fixedPos'', F_at_fixed),
             (''stiffness'', F_at_k), (''lambda'', F_at_lambda), (''gradV'', F_at_gradV),
             (''hessScalar'', F_at_hess)] m
          else m);
          m = (if 0 < sv_nTri s then run_kernel K ''triangle_membrane_force_al'' (sv_nTri s) []
            [(''positions'', F_positions), (''idx'', F_tri_idx), (''stiffness'', F_tri_k),
             (''lambda0'', F_tri_l0), (''lambda1'', F_tri_l1), (''grad'', F_tri_grad),
             (''hessScalar'', F_tri_hess), (''inv_deltaUV'', F_tri_invuv)] m
          else m)
      in (if 0 < sv_nBend s then run_kernel K ''triangle_bending_force_al'' (sv_nBend s) []
            [(''positions'', F_positions), (''idx'', F_bd_idx), (''weight'', F_bd_w), (''nTarget'', F_bd_n),
             (''stiffness'', F_bd_k), (''lambda'', F_bd_lambda), (''grad'', F_bd_grad),
             (''hessScalar'', F_bd_hess)] m
          else m))"

definition cpu_gather_spring :: "kernels \<Rightarrow> 'a solver_scheme \<Rightarrow> nat \<Rightarrow> mem \<Rightarrow> mem" where
  "cpu_gather_spring K s k m =
     (if 0 < sv_nSprings s then run_kernel K ''vbd_gather_spring'' (colour_count s k) [colour_offset s k, colour_count s k]
       [(''springGradA'', F_sp_gradA), (''springHess'', F_sp_hess), (''vertSpringOffset'', F_sp_off),
        (''vertSpringIdx'', F_sp_idx), (''vertSpringRole'', F_sp_role), (''gScratch'', F_gScratch),
        (''hScratch'', F_hScratch), (''vertPerm'', F_vertPerm)] m
      else m)"

definition cpu_gather_attachment :: "kernels \<Rightarrow> 'a solver_scheme \<Rightarrow> nat \<Rightarrow> mem \<Rightarrow> mem" where
  "cpu_gather_attachment K s k m =
     (if 0 < sv_nAttach s then run_kernel K ''vbd_gather_attachment'' (colour_count s k) [colour_offset s k, colour_count s k]
       [(''attachGradV'', F_at_gradV), (''attachHessScalar'', F_at_hess), (''vertAttachOffset'', F_at_off),
        (''vertAttachIdx'', F_at_idx), (''gScratch'', F_gScratch), (''hScratch'', F_hScratch),
        (''vertPerm'', F_vertPerm)] m
      else m)"

definition cpu_gather_triangle :: "kernels \<Rightarrow> 'a solver_scheme \<Rightarrow> nat \<Rightarrow> mem \<Rightarrow> mem" where
  "cpu_gather_triangle K s k m =
     (if 0 < sv_nTri s then run_kernel K ''vbd_gather_triangle'' (colour_count s k) [colour_offset s k, colour_count s k]
       [(''triGrad'', F_tri_grad), (''triHessScalar'', F_tri_hess), (''vertTriOffset'', F_tri_off),
        (''vertTriIdx'', F_tri_idxc), (''vertTriRole'', F_tri_role), (''gScratch'', F_gScratch),
        (''hScratch'', F_hScratch), (''vertPerm'', F_vertPerm)] m
      else m)"

definition cpu_gather_bending :: "kernels \<Rightarrow> 'a solver_scheme \<Rightarrow> nat \<Rightarrow> mem \<Rightarrow> mem" where
  "cpu_gather_bending K s k m =
     (if 0 < sv_nBend s then run_kernel K ''vbd_gather_bending'' (colour_count s k) [colour_offset s k, colour_count s k]
       [(''bendGrad'', F_bd_grad), (''bendHessScalar'', F_bd_hess), (''vertBendOffset'', F_bd_off),
        (''vertBendIdx'', F_bd_idxc), (''vertBendRole'', F_bd_role), (''gScratch'', F_gScratch),
        (''hScratch'', F_hScratch), (''vertPerm'', F_vertPerm)] m
      else m)"

definition cpu_solve :: "kernels \<Rightarrow> 'a solver_scheme \<Rightarrow> nat \<Rightarrow> mem \<Rightarrow> mem" where
  "cpu_solve K s k m =
     run_kernel K ''vbd_solve_apply'' (colour_count s k) [colour_offset s k, colour_count s k]
       [(''gScratch'', F_gScratch), (''hScratch'', F_hScratch), (''positions'', F_positions),
        (''vertPerm'', F_vertPerm)] m"

text \<open>Colour \<open>k\<close>, up to stage \<open>upTo\<close>.\<close>

definition cpu_colour :: "kernels \<Rightarrow> 'a solver_scheme \<Rightarrow> nat \<Rightarrow> int \<Rightarrow> mem \<Rightarrow> mem" where
  "cpu_colour K s k upTo m =
     (let m = cpu_forces K s k m in
      if upTo < 1 then m else let m = cpu_gather_spring K s k m in
      if upTo < 2 then m else let m = cpu_gather_attachment K s k m in
      if upTo < 3 then m else let m = cpu_gather_triangle K s k m in
      if upTo < 4 then m else let m = cpu_gather_bending K s k m in
      if upTo < 5 then m else cpu_solve K s k m)"

text \<open>The colours left; a colour stopped early ends the loop.\<close>

primrec cpu_colours :: "kernels \<Rightarrow> 'a solver_scheme \<Rightarrow> int \<Rightarrow> int \<Rightarrow> nat list \<Rightarrow> mem \<Rightarrow> mem" where
  "cpu_colours K s stopColor stopStage [] m = m"
| "cpu_colours K s stopColor stopStage (k # ks) m =
     (if 0 \<le> stopColor \<and> stopColor < int k then m
      else let upTo = (if int k = stopColor then stopStage else 5) in
        if colour_count s k = 0 then cpu_colours K s stopColor stopStage ks m
        else let m = cpu_colour K s k upTo m in
          if upTo < 5 then m else cpu_colours K s stopColor stopStage ks m)"

definition keep_pre :: "mem \<Rightarrow> mem" where
  "keep_pre m = m(F_positionsPre := m F_positions, F_tri_l0Pre := m F_tri_l0, F_tri_l1Pre := m F_tri_l1, F_bd_lambdaPre := m F_bd_lambda)"

definition cpu_step_impl :: "kernels \<Rightarrow> int \<Rightarrow> int \<Rightarrow> cpu \<Rightarrow> int \<times> cpu" where
  "cpu_step_impl K stopColor stopStage s =
     (if \<not> sv_meshReady s then (- 1, s)
      else (0, s\<lparr>cp_mem := cpu_colours K s stopColor stopStage [0..<numColors s] (keep_pre (cp_mem s))\<rparr>))"

definition cpu_step :: "kernels \<Rightarrow> cpu \<Rightarrow> int \<times> cpu" where
  "cpu_step K s = cpu_step_impl K (- 1) 5 s"

definition cpu_stepDualAttachments :: "kernels \<Rightarrow> cpu \<Rightarrow> int \<times> cpu" where
  "cpu_stepDualAttachments K s =
     (if \<not> sv_meshReady s then (- 1, s)
      else if sv_nAttach s = 0 then (0, s)
      else (0, s\<lparr>cp_mem := run_kernel K ''attachment_dual_update'' (sv_nAttach s) [sv_beta s, sv_penaltyMax s, sv_nAttach s]
          [(''positions'', F_positions), (''vertIdx'', F_at_vert), (''fixedPos'', F_at_fixed),
           (''gamma'', F_at_gamma), (''lambda'', F_at_lambda)] (cp_mem s)\<rparr>))"

definition cpu_stepDualMembrane :: "kernels \<Rightarrow> cpu \<Rightarrow> int \<times> cpu" where
  "cpu_stepDualMembrane K s =
     (if \<not> sv_meshReady s then (- 1, s)
      else if sv_nTri s = 0 then (0, s)
      else (0, s\<lparr>cp_mem := run_kernel K ''triangle_membrane_dual_update'' (sv_nTri s) [sv_beta s, sv_penaltyMax s, sv_nTri s]
          [(''positions'', F_positions), (''idx'', F_tri_idx), (''gamma'', F_tri_gamma),
           (''lambda0'', F_tri_l0), (''lambda1'', F_tri_l1), (''inv_deltaUV'', F_tri_invuv)] (cp_mem s)\<rparr>))"

definition cpu_stepDualBending :: "kernels \<Rightarrow> cpu \<Rightarrow> int \<times> cpu" where
  "cpu_stepDualBending K s =
     (if \<not> sv_meshReady s then (- 1, s)
      else if sv_nBend s = 0 then (0, s)
      else (0, s\<lparr>cp_mem := run_kernel K ''triangle_bending_dual_update'' (sv_nBend s) [sv_beta s, sv_penaltyMax s, sv_nBend s]
          [(''positions'', F_positions), (''idx'', F_bd_idx), (''weight'', F_bd_w), (''nTarget'', F_bd_n),
           (''gamma'', F_bd_gamma), (''lambda'', F_bd_lambda)] (cp_mem s)\<rparr>))"

text \<open>The turns left of \<open>run\<close>; the last one may be stopped in a colour, and then ends it.\<close>

primrec cpu_run_from :: "kernels \<Rightarrow> bool \<Rightarrow> nat \<Rightarrow> cpu \<Rightarrow> int \<times> cpu" where
  "cpu_run_from K duals 0 s = (0, s)"
| "cpu_run_from K duals (Suc n) s =
     (let last = (n = 0 \<and> 0 \<le> sv_dbgColor s);
          (r, s) = cpu_step_impl K (if last then sv_dbgColor s else - 1) (if last then sv_dbgStage s else 5) s
      in if r \<noteq> 0 then (- 1, s)
         else if last then (0, s)
         else if duals
              then let (r, s) = cpu_stepDualAttachments K s; (r, s) = cpu_stepDualMembrane K s; (r, s) = cpu_stepDualBending K s
                   in cpu_run_from K duals n s
              else cpu_run_from K duals n s)"

definition cpu_solver_run :: "kernels \<Rightarrow> int \<Rightarrow> bool \<Rightarrow> cpu \<Rightarrow> int \<times> cpu" where
  "cpu_solver_run K iters duals s = cpu_run_from K duals (nat iters) s"

end
