(* ===== verification/AvbdCpuBack.thy ===== *)
theory AvbdCpuBack
  imports AvbdCpu
begin

text \<open>
  \<open>guest/avbd/avbd_cpu_backward.cpp\<close>: the reverse pass of \<open>AvbdCpu\<close>, its gradients and its
  self-collision scan. \<open>vPosGradOut\<close> is \<open>AvbdRd\<close>'s alone: here the sum goes into \<open>vPosGrad\<close>.
\<close>

section \<open>The reverse pass\<close>

text \<open>\<open>saxpby(dst, x, y, n, alpha, beta)\<close>.\<close>

definition cpu_saxpby :: "kernels \<Rightarrow> field \<Rightarrow> field \<Rightarrow> field \<Rightarrow> u32 \<Rightarrow> u32 \<Rightarrow> u32 \<Rightarrow> mem \<Rightarrow> mem" where
  "cpu_saxpby K dst x y n alpha beta = run_kernel K ''saxpby'' n [n, alpha, beta] [(''x'', x), (''y'', y), (''dst'', dst)]"

text \<open>\<open>v.resize(n)\<close>.\<close>

definition resized :: "nat \<Rightarrow> u32 list \<Rightarrow> u32 list" where
  "resized n v = take n v @ replicate (n - length v) 0"

text \<open>The cotangents that start from zero, with their sizes.\<close>

definition zeroed :: "'a solver_scheme \<Rightarrow> (field \<times> u32) list" where
  "zeroed s =
     (let nV = sv_nVerts s; nS = sv_nSprings s; nA = sv_nAttach s; nT = sv_nTri s; nB = sv_nBend s in
      [(F_vG, 3 * nV), (F_vH, 6 * nV), (F_vPosGrad, 3 * nV), (F_vPosInit, 3 * nV), (F_vPred, 3 * nV), (F_vMass, nV), (F_hJunk, 6 * nV),
       (F_vSpringGradA, 3 * nS), (F_vSpringHess, 6 * nS), (F_vSpringPd, 3 * nS), (F_vSpringRest, nS), (F_vSpringStiff, nS),
       (F_vAttachGradV, 3 * nA), (F_vAttachHess, nA), (F_vAttachFixed, 3 * nA), (F_vAttachStiff, nA), (F_vAttachLambda, 3 * nA),
       (F_vTriGrad, 3 * 3 * nT), (F_vTriHess, 3 * nT), (F_vTriP, 3 * 3 * nT), (F_vTriStiff, nT), (F_vTriL0, 3 * nT), (F_vTriL1, 3 * nT),
       (F_vBendGrad, 3 * 4 * nB), (F_vBendHess, 4 * nB), (F_vBendP, 3 * 4 * nB), (F_vBendN, nB), (F_vBendStiff, nB),
       (F_vBendLambda, 3 * nB)])"

definition zero_fields :: "(field \<times> u32) list \<Rightarrow> mem \<Rightarrow> mem" where
  "zero_fields zs m = fold (\<lambda>(f, n) m. m(f := replicate (unat n) 0)) zs m"

definition cpu_back_solve :: "kernels \<Rightarrow> 'a solver_scheme \<Rightarrow> mem \<Rightarrow> mem" where
  "cpu_back_solve K s m =
     run_kernel K ''vbd_solve_apply_backward'' (sv_nVerts s) []
       [(''v_out'', F_vOut), (''hScratch'', F_hScratch), (''deltaX'', F_deltaX), (''v_g'', F_vG), (''v_H'', F_vH)] m"

definition cpu_back_gathers :: "kernels \<Rightarrow> 'a solver_scheme \<Rightarrow> mem \<Rightarrow> mem" where
  "cpu_back_gathers K s m =
     (let m = (if sv_nSprings s \<noteq> 0 then run_kernel K ''vbd_gather_spring_backward'' (sv_nSprings s) []
            [(''springP1Idx'', F_sp_p1), (''springP2Idx'', F_sp_p2), (''v_g'', F_vG), (''v_H'', F_vH),
             (''v_springGradA'', F_vSpringGradA), (''v_springHess'', F_vSpringHess)] m
          else m);
          m = (if sv_nAttach s \<noteq> 0 then run_kernel K ''vbd_gather_attachment_backward'' (sv_nAttach s) []
            [(''attachVertIdx'', F_at_vert), (''v_g'', F_vG), (''v_H'', F_vH),
             (''v_attachGradV'', F_vAttachGradV), (''v_attachHessScalar'', F_vAttachHess)] m
          else m);
          m = (if sv_nTri s \<noteq> 0 then run_kernel K ''vbd_gather_triangle_backward'' (3 * sv_nTri s) []
            [(''triIdx'', F_tri_idx), (''v_g'', F_vG), (''v_H'', F_vH), (''v_triGrad'', F_vTriGrad),
             (''v_triHessScalar'', F_vTriHess)] m
          else m)
      in (if sv_nBend s \<noteq> 0 then run_kernel K ''vbd_gather_bending_backward'' (4 * sv_nBend s) []
            [(''bendIdx'', F_bd_idx), (''v_g'', F_vG), (''v_H'', F_vH), (''v_bendGrad'', F_vBendGrad),
             (''v_bendHessScalar'', F_vBendHess)] m
          else m))"

definition cpu_back_forces :: "kernels \<Rightarrow> 'a solver_scheme \<Rightarrow> mem \<Rightarrow> mem" where
  "cpu_back_forces K s m =
     (let m = (if sv_nAttach s \<noteq> 0 then run_kernel K ''attachment_force_al_backward'' (sv_nAttach s) []
            [(''positions'', F_positionsPre), (''vertIdx'', F_at_vert), (''fixedPos'', F_at_fixed),
             (''stiffness'', F_at_k), (''v_gradV'', F_vAttachGradV), (''v_hessScalar'', F_vAttachHess),
             (''v_positions'', F_vPosGrad), (''v_fixedPos'', F_vAttachFixed), (''v_lambda'', F_vAttachLambda),
             (''v_stiffness'', F_vAttachStiff)] m
          else m);
          m = (if sv_nSprings s \<noteq> 0 then run_kernel K ''spring_force_backward'' (sv_nSprings s) []
            [(''positions'', F_positionsPre), (''p1Idx'', F_sp_p1), (''p2Idx'', F_sp_p2),
             (''restLen'', F_sp_rest), (''stiffness'', F_sp_k), (''v_gradA'', F_vSpringGradA),
             (''v_springHess'', F_vSpringHess), (''v_p_d'', F_vSpringPd), (''v_restLen'', F_vSpringRest),
             (''v_stiffness'', F_vSpringStiff)] m
          else m);
          m = (if sv_nTri s \<noteq> 0 then run_kernel K ''triangle_membrane_force_al_backward'' (sv_nTri s) []
            [(''positions'', F_positionsPre), (''idx'', F_tri_idx), (''stiffness'', F_tri_k),
             (''lambda0'', (if sv_useLambdaSnapshot s then F_tri_l0Pre else F_tri_l0)),
             (''lambda1'', (if sv_useLambdaSnapshot s then F_tri_l1Pre else F_tri_l1)),
             (''inv_deltaUV'', F_tri_invuv), (''v_grad'', F_vTriGrad), (''v_hessScalar'', F_vTriHess),
             (''v_p'', F_vTriP), (''v_stiffness'', F_vTriStiff), (''v_lambda0'', F_vTriL0),
             (''v_lambda1'', F_vTriL1)] m
          else m);
          m = (if sv_nBend s \<noteq> 0 then run_kernel K ''triangle_bending_force_al_backward'' (sv_nBend s) []
            [(''positions'', F_positionsPre), (''idx'', F_bd_idx), (''weight'', F_bd_w), (''nTarget'', F_bd_n),
             (''stiffness'', F_bd_k),
             (''lambda'', (if sv_useLambdaSnapshot s then F_bd_lambdaPre else F_bd_lambda)),
             (''v_grad'', F_vBendGrad), (''v_hessScalar'', F_vBendHess), (''v_p'', F_vBendP),
             (''v_nTarget'', F_vBendN), (''v_stiffness'', F_vBendStiff), (''v_lambda'', F_vBendLambda)] m
          else m)
      in run_kernel K ''vbd_init_backward'' (sv_nVerts s) [sv_invHSq s]
           [(''positions'', F_positionsPre), (''predicted'', F_predicted), (''mass'', F_mass), (''v_g'', F_vG),
            (''v_H'', F_vH), (''v_x'', F_vPosInit), (''v_y'', F_vPred), (''v_mass'', F_vMass)] m)"

text \<open>The forward gathers over the whole mesh, through the identity permutation.\<close>

definition cpu_back_scatter :: "kernels \<Rightarrow> 'a solver_scheme \<Rightarrow> mem \<Rightarrow> mem" where
  "cpu_back_scatter K s m =
     (let nV = sv_nVerts s;
          m = (if sv_nSprings s \<noteq> 0 then run_kernel K ''vbd_gather_spring'' nV [0, nV]
            [(''springGradA'', F_vSpringPd), (''springHess'', F_vSpringHess), (''vertSpringOffset'', F_sp_off),
             (''vertSpringIdx'', F_sp_idx), (''vertSpringRole'', F_sp_role), (''gScratch'', F_vPosGrad),
             (''hScratch'', F_hJunk), (''vertPerm'', F_identPerm)] m
          else m);
          m = (if sv_nTri s \<noteq> 0 then run_kernel K ''vbd_gather_triangle'' nV [0, nV]
            [(''triGrad'', F_vTriP), (''triHessScalar'', F_vTriHess), (''vertTriOffset'', F_tri_off),
             (''vertTriIdx'', F_tri_idxc), (''vertTriRole'', F_tri_role), (''gScratch'', F_vPosGrad),
             (''hScratch'', F_hJunk), (''vertPerm'', F_identPerm)] m
          else m)
      in (if sv_nBend s \<noteq> 0 then run_kernel K ''vbd_gather_bending'' nV [0, nV]
            [(''bendGrad'', F_vBendP), (''bendHessScalar'', F_vBendHess), (''vertBendOffset'', F_bd_off),
             (''vertBendIdx'', F_bd_idxc), (''vertBendRole'', F_bd_role), (''gScratch'', F_vPosGrad),
             (''hScratch'', F_hJunk), (''vertPerm'', F_identPerm)] m
          else m))"

definition cpu_back_mem :: "kernels \<Rightarrow> 'a solver_scheme \<Rightarrow> u32 list \<Rightarrow> mem \<Rightarrow> mem" where
  "cpu_back_mem K s loss m =
     (let nV = sv_nVerts s; n = unat (3 * nV);
          m = m(F_vOut := take n loss);
          m = m(F_deltaX := resized n (m F_deltaX));
          m = cpu_saxpby K F_deltaX F_positions F_positionsPre (3 * nV) f_one f_minus_one m;
          m = zero_fields (zeroed s) m;
          m = cpu_back_scatter K s (cpu_back_forces K s (cpu_back_gathers K s (cpu_back_solve K s m)));
          m = m(F_vPosSum := resized n (m F_vPosSum));
          m = cpu_saxpby K F_vPosSum F_vPosInit F_vOut (3 * nV) f_one f_one m
      in cpu_saxpby K F_vPosGrad F_vPosGrad F_vPosSum (3 * nV) f_one f_one m)"

definition cpu_stepBackward :: "kernels \<Rightarrow> u32 list \<Rightarrow> cpu \<Rightarrow> int \<times> cpu" where
  "cpu_stepBackward K loss s =
     (if \<not> sv_meshReady s \<or> length (cp_mem s F_positionsPre) \<noteq> length (cp_mem s F_positions) then (- 1, s)
      else (0, s\<lparr>cp_mem := cpu_back_mem K s loss (cp_mem s), sv_backwardReady := True\<rparr>))"

definition cpu_runWithBackward :: "kernels \<Rightarrow> int \<Rightarrow> bool \<Rightarrow> u32 list \<Rightarrow> cpu \<Rightarrow> int \<times> cpu" where
  "cpu_runWithBackward K iters duals loss s =
     (case cpu_solver_run K iters duals s of (r, s) \<Rightarrow> if r \<noteq> 0 then (- 1, s) else cpu_stepBackward K loss s)"

section \<open>Gradients\<close>

definition cpu_readPositionsGrad :: "cpu \<Rightarrow> u32 list" where "cpu_readPositionsGrad s = cp_mem s F_vPosGrad"
definition cpu_readMassGrad :: "cpu \<Rightarrow> u32 list" where "cpu_readMassGrad s = cp_mem s F_vMass"
definition cpu_readPredictedGrad :: "cpu \<Rightarrow> u32 list" where "cpu_readPredictedGrad s = cp_mem s F_vPred"

definition cpu_readSpringGrad :: "cpu \<Rightarrow> u32 list list" where
  "cpu_readSpringGrad s = map (cp_mem s) [F_vSpringRest, F_vSpringStiff]"
definition cpu_readAttachGrad :: "cpu \<Rightarrow> u32 list list" where
  "cpu_readAttachGrad s = map (cp_mem s) [F_vAttachFixed, F_vAttachStiff, F_vAttachLambda]"
definition cpu_readTriGrad :: "cpu \<Rightarrow> u32 list list" where
  "cpu_readTriGrad s = map (cp_mem s) [F_vTriStiff, F_vTriL0, F_vTriL1]"
definition cpu_readBendGrad :: "cpu \<Rightarrow> u32 list list" where
  "cpu_readBendGrad s = map (cp_mem s) [F_vBendN, F_vBendStiff, F_vBendLambda]"

section \<open>Self-collision scan\<close>

abbreviation kSentinel :: u32 where "kSentinel \<equiv> 0xFFFFFFFF"

definition cpu_uploadSelfCollisionRadii :: "u32 list \<Rightarrow> u32 \<Rightarrow> cpu \<Rightarrow> cpu" where
  "cpu_uploadSelfCollisionRadii radii maxNeighbors s =
     (if \<not> sv_meshReady s then s
      else let s = assign F_radii (unat (sv_nVerts s)) radii s; s = s\<lparr>sv_selfK := maxNeighbors\<rparr>
           in put_mem F_neighbors (replicate (unat (sv_nVerts s) * unat maxNeighbors) kSentinel) s)"

definition cpu_submitSelfCollisionScan :: "kernels \<Rightarrow> cpu \<Rightarrow> int \<times> cpu" where
  "cpu_submitSelfCollisionScan K s =
     (if \<not> sv_meshReady s \<or> length (cp_mem s F_radii) \<noteq> unat (sv_nVerts s) \<or> sv_selfK s = 0 then (- 1, s)
      else (0, s\<lparr>cp_mem := run_kernel K ''self_collision_scan'' (sv_nVerts s) [sv_nVerts s, sv_selfK s]
          [(''positions'', F_positions), (''radii'', F_radii), (''neighbors'', F_neighbors)] (cp_mem s)\<rparr>))"

text \<open>The neighbours of vertex \<open>i\<close> up to the sentinel, each pair from its lower vertex.\<close>

definition row_pairs :: "(nat \<Rightarrow> u32) \<Rightarrow> nat \<Rightarrow> nat \<Rightarrow> (u32 \<times> u32) list" where
  "row_pairs nb k i =
     map (\<lambda>j. (word_of_nat i, j)) (filter (\<lambda>j. word_of_nat i < j) (takeWhile (\<lambda>j. j \<noteq> kSentinel) (map (\<lambda>r. nb (i * k + r)) [0..<k])))"

definition all_pairs :: "(nat \<Rightarrow> u32) \<Rightarrow> u32 \<Rightarrow> u32 \<Rightarrow> (u32 \<times> u32) list" where
  "all_pairs nb nV k = concat (map (row_pairs nb (unat k)) [0..<unat nV])"

definition cpu_collectSelfCollisions :: "cpu \<Rightarrow> int \<times> (u32 \<times> u32) list" where
  "cpu_collectSelfCollisions s =
     (if \<not> sv_meshReady s \<or> length (cp_mem s F_radii) \<noteq> unat (sv_nVerts s) \<or> sv_selfK s = 0 then (- 1, [])
      else (0, all_pairs (\<lambda>i. cp_mem s F_neighbors ! i) (sv_nVerts s) (sv_selfK s)))"

definition cpu_detectSelfCollisions :: "kernels \<Rightarrow> cpu \<Rightarrow> (int \<times> (u32 \<times> u32) list) \<times> cpu" where
  "cpu_detectSelfCollisions K s =
     (case cpu_submitSelfCollisionScan K s of (r, s) \<Rightarrow> (if r \<noteq> 0 then (- 1, []) else cpu_collectSelfCollisions s, s))"

section \<open>Hooks of the tests\<close>

definition cpu_setLambdaSnapshotForTest :: "bool \<Rightarrow> cpu \<Rightarrow> cpu" where
  "cpu_setLambdaSnapshotForTest use s = s\<lparr>sv_useLambdaSnapshot := use\<rparr>"

definition cpu_setDebugStopForTest :: "int \<Rightarrow> int \<Rightarrow> cpu \<Rightarrow> cpu" where
  "cpu_setDebugStopForTest color stage s = s\<lparr>sv_dbgColor := color, sv_dbgStage := stage\<rparr>"

definition debug_field :: "string \<Rightarrow> field option" where
  "debug_field name =
     map_of [(''positions'', F_positions), (''gScratch'', F_gScratch), (''hScratch'', F_hScratch), (''attachGradV'', F_at_gradV),
       (''attachHess'', F_at_hess), (''triGrad'', F_tri_grad), (''triHess'', F_tri_hess), (''bendGrad'', F_bd_grad),
       (''bendHess'', F_bd_hess)] name"

definition cpu_readDebugForTest :: "string \<Rightarrow> cpu \<Rightarrow> u32 list" where
  "cpu_readDebugForTest name s = (case debug_field name of None \<Rightarrow> [] | Some f \<Rightarrow> cp_mem s f)"

end
