(* ===== verification/AvbdRd.thy ===== *)
theory AvbdRd
  imports AvbdCpu RdKernels "HOL-Library.List_Lexorder" "HOL-Library.Char_ord"
begin

text \<open>
  \<open>guest/avbd/avbd_rd.{h,cpp}\<close>: the AVBD solver on the GPU, through \<open>rdc::Device\<close>. What it
  records is a list of dispatches and barriers; a dispatch makes its uniform set on first use
  and caches it by kernel and colour. The embedded kernels and the product of floats are
  parameters, as is the host.
\<close>

section \<open>State\<close>

datatype (plugins only: code size) gbuf = Gbuf (gb_rid: int) (gb_bytes: u64)

abbreviation no_buf :: gbuf where "no_buf \<equiv> Gbuf 0 0"

abbreviation gb_valid :: "gbuf \<Rightarrow> bool" where "gb_valid b \<equiv> gb_rid b \<noteq> 0"

datatype (plugins only: code size) rd_kernel = Rd_kernel (rk_shader: int) (rk_pipeline: int) (rk_desc: kernel_desc)

text \<open>The uniform buffers that are members of their own.\<close>

datatype (plugins only: code size) par =
    U_dualAttach | U_dualTri | U_dualBend | U_scatter | U_initBwd | U_sxDelta | U_sxSum | U_sxOut | U_self

text \<open>
  A cached uniform set. \<open>se_made\<close> is for the specification only: what the set was made of. No
  operation reads it.
\<close>

datatype (plugins only: code size) set_entry = Set_entry (se_rid: int) (se_made: "(u32 \<times> int \<times> int) list")

record avbd = solver +
  av_ok :: bool
  av_err :: string
  av_kernels :: "(string \<times> rd_kernel) list"
  av_sets :: "(string \<times> set_entry) list"
  av_pending :: bool
  av_paramsReady :: bool
  av_padOverride :: bool
  av_padFill :: u32
  av_vertPerm :: "u32 list"
  av_springP1 :: "u32 list"
  av_springP2 :: "u32 list"
  av_triIdx :: "u32 list"
  av_bendIdx :: "u32 list"
  av_attachGamma :: "u32 list"
  av_triGamma :: "u32 list"
  av_bendGamma :: "u32 list"
  av_buf :: "field \<Rightarrow> gbuf"
  av_par :: "par \<Rightarrow> gbuf"
  av_initParams :: "gbuf list"
  av_colorParams :: "gbuf list"
  av_hasStep :: bool
  av_lambdasDirty :: bool
  av_dev :: device

definition new_avbd :: "device \<Rightarrow> avbd" where
  "new_avbd d = solver.extend new_solver
     \<lparr>av_ok = False, av_err = [], av_kernels = [], av_sets = [], av_pending = False, av_paramsReady = False,
      av_padOverride = False, av_padFill = 0, av_vertPerm = [], av_springP1 = [], av_springP2 = [], av_triIdx = [],
      av_bendIdx = [], av_attachGamma = [], av_triGamma = [], av_bendGamma = [], av_buf = (\<lambda>f. no_buf),
      av_par = (\<lambda>p. no_buf), av_initParams = [], av_colorParams = [], av_hasStep = False, av_lambdasDirty = False, av_dev = d\<rparr>"

record 'w aenv =
  ae_host :: "'w host"
  ae_embedded :: "string \<Rightarrow> u8 list option"
  ae_mul :: "u32 \<Rightarrow> u32 \<Rightarrow> u32"

type_synonym ('w, 'a) arun = "(avbd \<times> 'w, 'a) prog"

definition dv :: "('w, 'a) run \<Rightarrow> ('w, 'a) arun" where
  "dv m s = (case m (av_dev (fst s), snd s) of (r, d, w) \<Rightarrow> (r, (fst s)\<lparr>av_dev := d\<rparr>, w))"

definition askA :: "('w, avbd) arun" where "askA s = (Some (fst s), s)"
definition updA :: "(avbd \<Rightarrow> avbd) \<Rightarrow> ('w, unit) arun" where "updA f s = (Some (), f (fst s), snd s)"

definition steps :: "('s, unit) prog list \<Rightarrow> ('s, unit) prog" where
  "steps ms = foldr thenR ms (ret ())"

definition put_buf :: "field \<Rightarrow> gbuf \<Rightarrow> ('w, unit) arun" where
  "put_buf f b = updA (\<lambda>s. s\<lparr>av_buf := (av_buf s)(f := b)\<rparr>)"

definition put_par :: "par \<Rightarrow> gbuf \<Rightarrow> ('w, unit) arun" where
  "put_par p b = updA (\<lambda>s. s\<lparr>av_par := (av_par s)(p := b)\<rparr>)"

text \<open>\<open>map[k] = v\<close>, the map as the list of its pairs in the order of the keys.\<close>

fun map_put :: "'k::linorder \<Rightarrow> 'v \<Rightarrow> ('k \<times> 'v) list \<Rightarrow> ('k \<times> 'v) list" where
  "map_put k v [] = [(k, v)]"
| "map_put k v ((l, x) # m) = (if k < l then (k, v) # (l, x) # m else if k = l then (k, v) # m else (l, x) # map_put k v m)"

section \<open>The kernels\<close>

definition kForwardKernels :: "string list" where
  "kForwardKernels =
     [''vbd_init'', ''spring_force'', ''vbd_gather_spring'', ''attachment_force_al'', ''vbd_gather_attachment'',
      ''triangle_membrane_force_al'', ''vbd_gather_triangle'', ''triangle_bending_force_al'',
      ''vbd_gather_bending'', ''vbd_solve_apply'', ''attachment_dual_update'',
      ''triangle_membrane_dual_update'', ''triangle_bending_dual_update'', ''self_collision_scan'',
      ''vbd_solve_apply_backward'', ''vbd_gather_spring_backward'', ''vbd_gather_attachment_backward'',
      ''vbd_gather_triangle_backward'', ''vbd_gather_bending_backward'', ''attachment_force_al_backward'',
      ''spring_force_backward'', ''triangle_membrane_force_al_backward'', ''triangle_bending_force_al_backward'',
      ''vbd_init_backward'', ''saxpby'']"

definition set_err :: "string \<Rightarrow> ('w, unit) arun" where
  "set_err e = updA (\<lambda>s. s\<lparr>av_err := e\<rparr>)"

definition fail_kernel :: "string \<Rightarrow> ('w, bool) arun" where
  "fail_kernel name = bindR askA (\<lambda>s. thenR (set_err (name @ '': '' @ dv_err (av_dev s))) (ret False))"

definition load_kernel :: "'w aenv \<Rightarrow> string \<Rightarrow> ('w, bool) arun" where
  "load_kernel E name =
     (case (table_find name, ae_embedded E name) of
        (Some desc, Some bytes) \<Rightarrow>
          bindR (dv (shader_from_spirv (ae_host E) bytes)) (\<lambda>sh.
          if sh = 0 then fail_kernel name
          else bindR (dv (compute_pipeline (ae_host E) sh)) (\<lambda>p.
            if p = 0 then fail_kernel name
            else thenR (updA (\<lambda>s. s\<lparr>av_kernels := map_put name (Rd_kernel sh p desc) (av_kernels s)\<rparr>)) (ret True)))
      | _ \<Rightarrow> thenR (set_err (''kernel missing from table or embed: '' @ name)) (ret False))"

primrec load_from :: "'w aenv \<Rightarrow> string list \<Rightarrow> ('w, bool) arun" where
  "load_from E [] = ret True"
| "load_from E (n # ns) = bindR (load_kernel E n) (\<lambda>ok. if ok then load_from E ns else ret False)"

definition load_kernels :: "'w aenv \<Rightarrow> ('w, bool) arun" where
  "load_kernels E =
     bindR askA (\<lambda>s.
     if dv_rd (av_dev s) = 0 then thenR (set_err ''no RenderingDevice'') (ret False)
     else load_from E kForwardKernels)"

definition construct :: "'w aenv \<Rightarrow> ('w, unit) arun" where
  "construct E = bindR (load_kernels E) (\<lambda>ok. updA (\<lambda>s. s\<lparr>av_ok := ok\<rparr>))"

section \<open>Buffers\<close>

definition word_bytes :: "u32 list \<Rightarrow> u8 list" where
  "word_bytes v = concat (map le_bytes v)"

definition byte_count :: "u32 list \<Rightarrow> u64" where
  "byte_count v = word_of_nat (length v) * 4"

definition make_f32 :: "'w aenv \<Rightarrow> u32 list \<Rightarrow> ('w, gbuf) arun" where
  "make_f32 E v =
     (if v = [] then ret no_buf
      else bindR (dv (storage_buffer (ae_host E) (byte_count v) (Some (word_bytes v)))) (\<lambda>r. ret (Gbuf r (byte_count v))))"

definition make_u32 :: "'w aenv \<Rightarrow> u32 list \<Rightarrow> ('w, gbuf) arun" where
  "make_u32 E v =
     (if v = [] then ret no_buf
      else bindR (dv (storage_buffer (ae_host E) (byte_count v) (Some (word_bytes v)))) (\<lambda>r. ret (Gbuf r (byte_count v))))"

definition make_zero :: "'w aenv \<Rightarrow> u64 \<Rightarrow> ('w, gbuf) arun" where
  "make_zero E bytes =
     (if bytes = 0 then ret no_buf
      else bindR (dv (storage_buffer (ae_host E) bytes None)) (\<lambda>r. ret (Gbuf r bytes)))"

text \<open>The first \<open>n\<close> elements, then \<open>fill\<close> up to \<open>cap\<close>.\<close>

definition padded :: "u32 list \<Rightarrow> u32 \<Rightarrow> u32 \<Rightarrow> u32 \<Rightarrow> u32 list" where
  "padded v n cap fill = map (\<lambda>i. if i < unat n then v ! i else fill) [0..<unat cap]"

definition make_f32_cap :: "'w aenv \<Rightarrow> u32 list \<Rightarrow> u32 \<Rightarrow> u32 \<Rightarrow> ('w, gbuf) arun" where
  "make_f32_cap E v n cap = make_f32 E (padded v n cap 0)"

definition make_u32_cap :: "'w aenv \<Rightarrow> u32 list \<Rightarrow> u32 \<Rightarrow> u32 \<Rightarrow> u32 \<Rightarrow> ('w, gbuf) arun" where
  "make_u32_cap E v n cap fill = make_u32 E (padded v n cap fill)"

text \<open>Rows of three floats in 16 bytes.\<close>

definition row_of :: "u32 list \<Rightarrow> nat \<Rightarrow> u32 list" where
  "row_of xyz i = [xyz ! (3 * i), xyz ! (3 * i + 1), xyz ! (3 * i + 2), 0]"

definition pad_v3 :: "u32 list \<Rightarrow> u32 \<Rightarrow> u32 list" where
  "pad_v3 xyz n = concat (map (row_of xyz) [0..<unat n])"

definition make_v3_cap :: "'w aenv \<Rightarrow> u32 list \<Rightarrow> u32 \<Rightarrow> u32 \<Rightarrow> ('w, gbuf) arun" where
  "make_v3_cap E xyz n cap =
     make_f32 E (concat (map (\<lambda>i. if i < unat n then row_of xyz i else [0, 0, 0, 0]) [0..<unat cap]))"

definition cap_for :: "u32 \<Rightarrow> u32" where
  "cap_for n = ((n + 1 + 63) div 64) * 64"

definition pad_index :: "avbd \<Rightarrow> u32" where
  "pad_index s = (if av_padOverride s then av_padFill s else sv_nVerts s)"

definition free_gbuf :: "'w aenv \<Rightarrow> gbuf \<Rightarrow> ('w, unit) arun" where
  "free_gbuf E b = (if gb_valid b then dv (free_rid (ae_host E) (gb_rid b)) else ret ())"

definition free_buf :: "'w aenv \<Rightarrow> field \<Rightarrow> ('w, unit) arun" where
  "free_buf E f = bindR askA (\<lambda>s. thenR (free_gbuf E (av_buf s f)) (put_buf f no_buf))"

definition free_par :: "'w aenv \<Rightarrow> par \<Rightarrow> ('w, unit) arun" where
  "free_par E p = bindR askA (\<lambda>s. thenR (free_gbuf E (av_par s p)) (put_par p no_buf))"

text \<open>\<open>b = make...\<close>.\<close>

definition make_at :: "field \<Rightarrow> ('w, gbuf) arun \<Rightarrow> ('w, unit) arun" where
  "make_at f m = bindR m (put_buf f)"

definition avbd_sync :: "'w aenv \<Rightarrow> ('w, unit) arun" where
  "avbd_sync E =
     bindR askA (\<lambda>s.
     if \<not> av_pending s then ret ()
     else thenR (dv (sync (ae_host E))) (updA (\<lambda>s. s\<lparr>av_pending := False\<rparr>)))"

definition wait_pending :: "'w aenv \<Rightarrow> ('w, unit) arun" where
  "wait_pending E = bindR askA (\<lambda>s. if av_pending s then avbd_sync E else ret ())"

definition update_v3 :: "'w aenv \<Rightarrow> field \<Rightarrow> u32 list \<Rightarrow> u32 \<Rightarrow> ('w, unit) arun" where
  "update_v3 E f xyz n =
     bindR askA (\<lambda>s. let b = av_buf s f; p = pad_v3 xyz n in
     if \<not> gb_valid b then ret ()
     else thenR (wait_pending E) (void (dv (buffer_update (ae_host E) (gb_rid b) 0 (byte_count p) (word_bytes p)))))"

definition update_f32 :: "'w aenv \<Rightarrow> field \<Rightarrow> u32 list \<Rightarrow> ('w, unit) arun" where
  "update_f32 E f v =
     bindR askA (\<lambda>s. let b = av_buf s f in
     if \<not> gb_valid b \<or> v = [] then ret ()
     else thenR (wait_pending E) (void (dv (buffer_update (ae_host E) (gb_rid b) 0 (byte_count v) (word_bytes v)))))"

definition drop_set :: "'w aenv \<Rightarrow> int \<Rightarrow> ('w, unit) arun" where
  "drop_set E r =
     bindR (dv (uniform_set_valid (ae_host E) r)) (\<lambda>live.
     if live then dv (free_rid (ae_host E) r) else dv (forget (ae_host E) r))"

definition invalidate_sets :: "'w aenv \<Rightarrow> ('w, unit) arun" where
  "invalidate_sets E =
     bindR askA (\<lambda>s.
     thenR (steps (map (\<lambda>kv. drop_set E (se_rid (snd kv))) (av_sets s))) (updA (\<lambda>s. s\<lparr>av_sets := []\<rparr>)))"

section \<open>Uploads\<close>

definition free_all :: "'w aenv \<Rightarrow> field list \<Rightarrow> ('w, unit) arun" where
  "free_all E fs = steps (map (free_buf E) fs)"

text \<open>The pad rows of \<open>hScratch\<close> are the identity.\<close>

definition h_rows :: "u32 \<Rightarrow> u32 \<Rightarrow> u32 list" where
  "h_rows n cap = concat (map (\<lambda>i. if i < unat n then [0, 0, 0, 0, 0, 0] else [f_one, 0, 0, f_one, 0, f_one]) [0..<unat cap])"

definition rd_setupMesh :: "'w aenv \<Rightarrow> u32 \<Rightarrow> u32 list \<Rightarrow> u32 list \<Rightarrow> u32 list \<Rightarrow> u32 \<Rightarrow> ('w, unit) arun" where
  "rd_setupMesh E nVerts positions predicted mass invHSquared =
     (let vcap = cap_for nVerts; perm = map word_of_nat [0..<unat nVerts] in steps
       [wait_pending E,
        updA (\<lambda>s. s\<lparr>sv_nVerts := nVerts, sv_invHSq := invHSquared\<rparr>),
        free_all E [F_positions, F_predicted, F_mass, F_gScratch, F_hScratch, F_vertPerm],
        make_at F_positions (make_v3_cap E positions nVerts vcap),
        make_at F_predicted (make_v3_cap E predicted nVerts vcap),
        make_at F_mass (make_f32_cap E mass nVerts vcap),
        make_at F_gScratch (make_zero E (16 * ucast vcap)),
        make_at F_hScratch (make_f32 E (h_rows nVerts vcap)),
        updA (\<lambda>s. s\<lparr>av_vertPerm := perm\<rparr>),
        make_at F_vertPerm (make_u32 E perm),
        free_buf E F_positionsPre,
        make_at F_positionsPre (make_v3_cap E positions nVerts vcap),
        updA (\<lambda>s. s\<lparr>sv_backwardReady := False, av_hasStep := False\<rparr>),
        free_all E [F_radii, F_neighbors],
        free_par E U_self,
        updA (\<lambda>s. s\<lparr>sv_selfK := 0, sv_colorOffsets := [0, nVerts],
          sv_meshReady := list_all (\<lambda>f. gb_valid (av_buf s f))
            [F_positions, F_predicted, F_mass, F_gScratch, F_hScratch, F_vertPerm],
          av_paramsReady := False\<rparr>),
        invalidate_sets E])"

text \<open>\<open>build_csr\<close> on the solver's vertices, into the fields that want its parts.\<close>

definition make_csr :: "'w aenv \<Rightarrow> u32 \<Rightarrow> nat \<Rightarrow> u32 list \<Rightarrow> field \<Rightarrow> field \<Rightarrow> field option \<Rightarrow> ('w, unit) arun" where
  "make_csr E n k idx f_off f_idx f_role =
     bindR askA (\<lambda>s. case csr_of (sv_nVerts s) n k idx of (off, ix, role) \<Rightarrow>
       steps [make_at f_off (make_u32 E off), make_at f_idx (make_u32 E ix),
              (case f_role of None \<Rightarrow> ret () | Some f \<Rightarrow> make_at f (make_u32 E role))])"

definition rd_uploadSprings :: "'w aenv \<Rightarrow> u32 \<Rightarrow> u32 list \<Rightarrow> u32 list \<Rightarrow> u32 list \<Rightarrow> u32 list \<Rightarrow> ('w, unit) arun" where
  "rd_uploadSprings E nSprings p1Idx p2Idx restLen stiffness =
     (let n = unat nSprings; ccap = cap_for nSprings in steps
       [wait_pending E,
        updA (\<lambda>s. s\<lparr>sv_nSprings := nSprings, sv_backwardReady := False, av_springP1 := take n p1Idx, av_springP2 := take n p2Idx\<rparr>),
        free_all E [F_sp_p1, F_sp_p2, F_sp_rest, F_sp_k, F_sp_gradA, F_sp_hess, F_sp_off, F_sp_idx, F_sp_role],
        (if nSprings = 0 then invalidate_sets E
         else bindR askA (\<lambda>s. steps
          [make_at F_sp_p1 (make_u32_cap E p1Idx nSprings ccap (pad_index s)),
           make_at F_sp_p2 (make_u32_cap E p2Idx nSprings ccap (pad_index s)),
           make_at F_sp_rest (make_f32_cap E restLen nSprings ccap),
           make_at F_sp_k (make_f32_cap E stiffness nSprings ccap),
           make_at F_sp_gradA (make_zero E (16 * ucast ccap)),
           make_at F_sp_hess (make_zero E (24 * ucast ccap)),
           make_csr E nSprings 2 (spring_ends n p1Idx p2Idx) F_sp_off F_sp_idx (Some F_sp_role),
           invalidate_sets E]))])"

definition rd_uploadAttachments :: "'w aenv \<Rightarrow> u32 \<Rightarrow> u32 list \<Rightarrow> u32 list \<Rightarrow> u32 list \<Rightarrow> ('w, unit) arun" where
  "rd_uploadAttachments E nAttach vertIdx fixedPos stiffness =
     (let n = unat nAttach; ccap = cap_for nAttach in steps
       [wait_pending E,
        updA (\<lambda>s. s\<lparr>sv_nAttach := nAttach\<rparr>),
        free_all E [F_at_vert, F_at_fixed, F_at_k, F_at_lambda, F_at_gamma, F_at_gradV, F_at_hess, F_at_off, F_at_idx],
        updA (\<lambda>s. s\<lparr>av_paramsReady := False, sv_backwardReady := False\<rparr>),
        (if nAttach = 0 then steps [updA (\<lambda>s. s\<lparr>av_attachGamma := []\<rparr>), invalidate_sets E]
         else bindR askA (\<lambda>s. let gamma = map (\<lambda>g. ae_mul E g (sv_gammaScale s)) (take n stiffness) in steps
          [make_at F_at_vert (make_u32_cap E vertIdx nAttach ccap (pad_index s)),
           make_at F_at_fixed (make_v3_cap E fixedPos nAttach ccap),
           make_at F_at_k (make_f32_cap E stiffness nAttach ccap),
           updA (\<lambda>s. s\<lparr>av_attachGamma := gamma\<rparr>),
           make_at F_at_gamma (make_f32_cap E gamma nAttach ccap),
           make_at F_at_lambda (make_zero E (16 * ucast ccap)),
           make_at F_at_gradV (make_zero E (16 * ucast ccap)),
           make_at F_at_hess (make_zero E (4 * ucast ccap)),
           make_csr E nAttach 1 vertIdx F_at_off F_at_idx None,
           invalidate_sets E]))])"

definition rd_uploadTriangles :: "'w aenv \<Rightarrow> u32 \<Rightarrow> u32 list \<Rightarrow> u32 list \<Rightarrow> u32 list \<Rightarrow> ('w, unit) arun" where
  "rd_uploadTriangles E nTri triIdx invUV stiffness =
     (let n = unat nTri; ccap = cap_for nTri in steps
       [wait_pending E,
        updA (\<lambda>s. s\<lparr>sv_nTri := nTri, sv_backwardReady := False, av_triIdx := take (unat (3 * nTri)) triIdx\<rparr>),
        free_all E [F_tri_idx, F_tri_k, F_tri_l0, F_tri_l1, F_tri_gamma, F_tri_grad, F_tri_hess, F_tri_invuv,
          F_tri_off, F_tri_idxc, F_tri_role, F_tri_l0Pre, F_tri_l1Pre],
        updA (\<lambda>s. s\<lparr>av_paramsReady := False\<rparr>),
        (if nTri = 0 then steps [updA (\<lambda>s. s\<lparr>av_triGamma := []\<rparr>), invalidate_sets E]
         else bindR askA (\<lambda>s. let gamma = map (\<lambda>g. ae_mul E g (sv_gammaScale s)) (take n stiffness) in steps
          [make_at F_tri_idx (make_u32_cap E triIdx (3 * nTri) (3 * ccap) (pad_index s)),
           make_at F_tri_k (make_f32_cap E stiffness nTri ccap),
           updA (\<lambda>s. s\<lparr>av_triGamma := gamma\<rparr>),
           make_at F_tri_gamma (make_f32_cap E gamma nTri ccap),
           make_at F_tri_l0 (make_zero E (16 * ucast ccap)),
           make_at F_tri_l1 (make_zero E (16 * ucast ccap)),
           make_at F_tri_l0Pre (make_zero E (16 * ucast ccap)),
           make_at F_tri_l1Pre (make_zero E (16 * ucast ccap)),
           make_at F_tri_grad (make_zero E (16 * 3 * ucast ccap)),
           make_at F_tri_hess (make_zero E (4 * 3 * ucast ccap)),
           make_at F_tri_invuv (make_f32_cap E invUV (4 * nTri) (4 * ccap)),
           make_csr E nTri 3 triIdx F_tri_off F_tri_idxc (Some F_tri_role),
           invalidate_sets E]))])"

definition rd_uploadBendings :: "'w aenv \<Rightarrow> u32 \<Rightarrow> u32 list \<Rightarrow> u32 list \<Rightarrow> u32 list \<Rightarrow> u32 list \<Rightarrow> ('w, unit) arun" where
  "rd_uploadBendings E nBend bendIdx weight nTarget stiffness =
     (let n = unat nBend; ccap = cap_for nBend in steps
       [wait_pending E,
        updA (\<lambda>s. s\<lparr>sv_nBend := nBend, sv_backwardReady := False, av_bendIdx := take (unat (4 * nBend)) bendIdx\<rparr>),
        free_all E [F_bd_idx, F_bd_w, F_bd_n, F_bd_k, F_bd_lambda, F_bd_gamma, F_bd_grad, F_bd_hess, F_bd_off,
          F_bd_idxc, F_bd_role, F_bd_lambdaPre],
        updA (\<lambda>s. s\<lparr>av_paramsReady := False\<rparr>),
        (if nBend = 0 then steps [updA (\<lambda>s. s\<lparr>av_bendGamma := []\<rparr>), invalidate_sets E]
         else bindR askA (\<lambda>s. let gamma = map (\<lambda>g. ae_mul E g (sv_gammaScale s)) (take n stiffness) in steps
          [make_at F_bd_idx (make_u32_cap E bendIdx (4 * nBend) (4 * ccap) (pad_index s)),
           make_at F_bd_w (make_f32_cap E weight (4 * nBend) (4 * ccap)),
           make_at F_bd_n (make_f32_cap E nTarget nBend ccap),
           make_at F_bd_k (make_f32_cap E stiffness nBend ccap),
           updA (\<lambda>s. s\<lparr>av_bendGamma := gamma\<rparr>),
           make_at F_bd_gamma (make_f32_cap E gamma nBend ccap),
           make_at F_bd_lambda (make_zero E (16 * ucast ccap)),
           make_at F_bd_lambdaPre (make_zero E (16 * ucast ccap)),
           make_at F_bd_grad (make_zero E (16 * 4 * ucast ccap)),
           make_at F_bd_hess (make_zero E (4 * 4 * ucast ccap)),
           make_csr E nBend 4 bendIdx F_bd_off F_bd_idxc (Some F_bd_role),
           invalidate_sets E]))])"

definition rd_buildColoring :: "'w aenv \<Rightarrow> ('w, unit) arun" where
  "rd_buildColoring E =
     bindR askA (\<lambda>s.
     if \<not> sv_meshReady s then ret ()
     else case greedy_coloring (unat (sv_nVerts s)) (unat (sv_nSprings s)) (map unat (av_springP1 s)) (map unat (av_springP2 s))
            (unat (sv_nTri s)) (map unat (av_triIdx s)) (unat (sv_nBend s)) (map unat (av_bendIdx s)) of (perm, offsets) \<Rightarrow>
       let perm = map word_of_nat perm in steps
       [wait_pending E,
        updA (\<lambda>s. s\<lparr>av_vertPerm := perm, sv_colorOffsets := map word_of_nat offsets\<rparr>),
        void (dv (buffer_update (ae_host E) (gb_rid (av_buf s F_vertPerm)) 0 (byte_count perm) (word_bytes perm))),
        updA (\<lambda>s. s\<lparr>av_paramsReady := False\<rparr>),
        invalidate_sets E])"

section \<open>Updates\<close>

definition rd_setGammaScale :: "'w aenv \<Rightarrow> u32 \<Rightarrow> ('w, unit) arun" where
  "rd_setGammaScale E c =
     (let scaled = map (\<lambda>g. ae_mul E g c) in steps
       [updA (\<lambda>s. s\<lparr>sv_gammaScale := ae_mul E (sv_gammaScale s) c, av_attachGamma := scaled (av_attachGamma s),
          av_triGamma := scaled (av_triGamma s), av_bendGamma := scaled (av_bendGamma s)\<rparr>),
        bindR askA (\<lambda>s. steps [update_f32 E F_at_gamma (av_attachGamma s), update_f32 E F_tri_gamma (av_triGamma s),
          update_f32 E F_bd_gamma (av_bendGamma s)])])"

definition rd_setPenaltyRamp :: "u32 \<Rightarrow> u32 \<Rightarrow> ('w, unit) arun" where
  "rd_setPenaltyRamp b pmax = updA (\<lambda>s. s\<lparr>sv_beta := b, sv_penaltyMax := pmax, av_paramsReady := False\<rparr>)"

definition rd_updateState :: "'w aenv \<Rightarrow> u32 list \<Rightarrow> u32 list \<Rightarrow> ('w, unit) arun" where
  "rd_updateState E positions predicted =
     bindR askA (\<lambda>s. thenR (update_v3 E F_positions positions (sv_nVerts s)) (update_v3 E F_predicted predicted (sv_nVerts s)))"

definition rd_updateAttachmentFixedPos :: "'w aenv \<Rightarrow> u32 list \<Rightarrow> ('w, unit) arun" where
  "rd_updateAttachmentFixedPos E fixedPos =
     bindR askA (\<lambda>s. if sv_nAttach s = 0 then ret () else update_v3 E F_at_fixed fixedPos (sv_nAttach s))"

definition rd_updateTriangleRest :: "'w aenv \<Rightarrow> u32 list \<Rightarrow> u32 list \<Rightarrow> ('w, unit) arun" where
  "rd_updateTriangleRest E invUV stiffness =
     bindR askA (\<lambda>s.
     if sv_nTri s = 0 \<or> \<not> gb_valid (av_buf s F_tri_invuv) then ret ()
     else let n = unat (sv_nTri s); gamma = map (\<lambda>g. ae_mul E g (sv_gammaScale s)) (take n stiffness) in steps
       [update_f32 E F_tri_invuv (take (4 * n) invUV),
        update_f32 E F_tri_k (take n stiffness),
        updA (\<lambda>s. s\<lparr>av_triGamma := gamma\<rparr>),
        update_f32 E F_tri_gamma gamma])"

definition rd_updateBendingRest :: "'w aenv \<Rightarrow> u32 list \<Rightarrow> u32 list \<Rightarrow> u32 list \<Rightarrow> ('w, unit) arun" where
  "rd_updateBendingRest E weight nTarget stiffness =
     bindR askA (\<lambda>s.
     if sv_nBend s = 0 \<or> \<not> gb_valid (av_buf s F_bd_w) then ret ()
     else let n = unat (sv_nBend s); gamma = map (\<lambda>g. ae_mul E g (sv_gammaScale s)) (take n stiffness) in steps
       [update_f32 E F_bd_w (take (4 * n) weight),
        update_f32 E F_bd_n (take n nTarget),
        update_f32 E F_bd_k (take n stiffness),
        updA (\<lambda>s. s\<lparr>av_bendGamma := gamma\<rparr>),
        update_f32 E F_bd_gamma gamma])"

definition rd_updateAttachmentStiffness :: "'w aenv \<Rightarrow> u32 list \<Rightarrow> ('w, unit) arun" where
  "rd_updateAttachmentStiffness E stiffness =
     bindR askA (\<lambda>s.
     if sv_nAttach s = 0 \<or> \<not> gb_valid (av_buf s F_at_k) then ret ()
     else let n = unat (sv_nAttach s); gamma = map (\<lambda>g. ae_mul E g (sv_gammaScale s)) (take n stiffness) in steps
       [update_f32 E F_at_k (take n stiffness),
        updA (\<lambda>s. s\<lparr>av_attachGamma := gamma\<rparr>),
        update_f32 E F_at_gamma gamma])"

definition rd_updateSelfCollisionRadii :: "'w aenv \<Rightarrow> u32 list \<Rightarrow> ('w, unit) arun" where
  "rd_updateSelfCollisionRadii E radii =
     bindR askA (\<lambda>s. if \<not> sv_meshReady s \<or> \<not> gb_valid (av_buf s F_radii) then ret ()
       else update_f32 E F_radii (take (unat (sv_nVerts s)) radii))"

section \<open>Params and uniform sets\<close>

text \<open>The words of a colour's two params blocks, of a dual update's and of the backward's.\<close>

definition init_words :: "'a solver_scheme \<Rightarrow> nat \<Rightarrow> u32 list" where
  "init_words s c = [sv_invHSq s, colour_offset s c, colour_count s c, 0]"

definition colour_words :: "'a solver_scheme \<Rightarrow> nat \<Rightarrow> u32 list" where
  "colour_words s c = [colour_offset s c, colour_count s c, 0, 0]"

definition dual_words :: "'a solver_scheme \<Rightarrow> u32 \<Rightarrow> u32 list" where
  "dual_words s n = [sv_beta s, sv_penaltyMax s, n, 0]"

definition make_uniform :: "'w aenv \<Rightarrow> u32 list \<Rightarrow> ('w, gbuf) arun" where
  "make_uniform E v =
     bindR (dv (uniform_buffer (ae_host E) (byte_count v) (Some (word_bytes v)))) (\<lambda>r. ret (Gbuf r (byte_count v)))"

definition make_par :: "'w aenv \<Rightarrow> par \<Rightarrow> u32 list \<Rightarrow> ('w, unit) arun" where
  "make_par E p v = bindR (make_uniform E v) (put_par p)"

definition colour_params :: "'w aenv \<Rightarrow> nat \<Rightarrow> ('w, unit) arun" where
  "colour_params E c =
     bindR askA (\<lambda>s. steps
       [bindR (make_uniform E (init_words s c)) (\<lambda>b. updA (\<lambda>s. s\<lparr>av_initParams := (av_initParams s)[c := b]\<rparr>)),
        bindR (make_uniform E (colour_words s c)) (\<lambda>b. updA (\<lambda>s. s\<lparr>av_colorParams := (av_colorParams s)[c := b]\<rparr>))])"

definition ensure_params :: "'w aenv \<Rightarrow> ('w, unit) arun" where
  "ensure_params E =
     bindR askA (\<lambda>s.
     if av_paramsReady s then ret ()
     else let nc = numColors s in steps
       ([wait_pending E] @ map (free_gbuf E) (av_initParams s) @ map (free_gbuf E) (av_colorParams s) @
        [free_par E U_dualAttach, free_par E U_dualTri, free_par E U_dualBend,
         updA (\<lambda>s. s\<lparr>av_initParams := replicate nc no_buf, av_colorParams := replicate nc no_buf\<rparr>)] @
        map (colour_params E) [0..<nc] @
        [if sv_nAttach s \<noteq> 0 then make_par E U_dualAttach (dual_words s (sv_nAttach s)) else ret (),
         if sv_nTri s \<noteq> 0 then make_par E U_dualTri (dual_words s (sv_nTri s)) else ret (),
         if sv_nBend s \<noteq> 0 then make_par E U_dualBend (dual_words s (sv_nBend s)) else ret (),
         updA (\<lambda>s. s\<lparr>av_paramsReady := True\<rparr>),
         invalidate_sets E]))"

abbreviation kScatterColor :: int where "kScatterColor \<equiv> - 2"
abbreviation kSaxDelta :: int where "kSaxDelta \<equiv> - 10"
abbreviation kSaxSum :: int where "kSaxSum \<equiv> - 11"
abbreviation kSaxOut :: int where "kSaxOut \<equiv> - 12"

text \<open>The params block a kernel gets for a colour.\<close>

definition params_for :: "avbd \<Rightarrow> string \<Rightarrow> int \<Rightarrow> gbuf" where
  "params_for s kn color =
     (if kn = ''vbd_init'' then av_initParams s ! nat color
      else if kn = ''attachment_dual_update'' then av_par s U_dualAttach
      else if kn = ''triangle_membrane_dual_update'' then av_par s U_dualTri
      else if kn = ''triangle_bending_dual_update'' then av_par s U_dualBend
      else if kn = ''self_collision_scan'' then av_par s U_self
      else if kn = ''vbd_init_backward'' then av_par s U_initBwd
      else if kn = ''saxpby'' then
        av_par s (if color = kSaxDelta then U_sxDelta else if color = kSaxSum then U_sxSum else U_sxOut)
      else if color = kScatterColor then av_par s U_scatter
      else av_colorParams s ! nat color)"

definition binding_rid :: "avbd \<Rightarrow> string \<Rightarrow> int \<Rightarrow> binds \<Rightarrow> int \<Rightarrow> binding_desc \<Rightarrow> int" where
  "binding_rid s kn color bs paramsBinding bd =
     (if int (unat (bd_binding bd)) = paramsBinding then gb_rid (params_for s kn color)
      else case map_of bs (bd_name bd) of None \<Rightarrow> 0 | Some f \<Rightarrow> gb_rid (av_buf s f))"

definition uniform_type :: "binding_desc \<Rightarrow> int" where
  "uniform_type bd = (if bd_uniform bd then UNIFORM_TYPE_UNIFORM_BUFFER else UNIFORM_TYPE_STORAGE_BUFFER)"

text \<open>The bindings of a set, or the name of the first that is unbound.\<close>

primrec set_bindings :: "avbd \<Rightarrow> string \<Rightarrow> int \<Rightarrow> binds \<Rightarrow> int \<Rightarrow> binding_desc list \<Rightarrow> string + (u32 \<times> int \<times> int) list" where
  "set_bindings s kn color bs pb [] = Inr []"
| "set_bindings s kn color bs pb (bd # bds) =
     (let r = binding_rid s kn color bs pb bd in
      if r = 0 then Inl (bd_name bd)
      else case set_bindings s kn color bs pb bds of
             Inl e \<Rightarrow> Inl e
           | Inr rest \<Rightarrow> Inr ((bd_binding bd, uniform_type bd, r) # rest))"

definition set_key_of :: "string \<Rightarrow> int \<Rightarrow> string" where
  "set_key_of kn color = kn @ ''#'' @ to_string color"

text \<open>A kernel that is not loaded has a null \<open>desc\<close>, which the code follows.\<close>

definition set_for :: "'w aenv \<Rightarrow> string \<Rightarrow> int \<Rightarrow> binds \<Rightarrow> ('w, int) arun" where
  "set_for E kn color bs =
     bindR askA (\<lambda>s.
     let key = set_key_of kn color in
     case map_of (av_sets s) key of
       Some e \<Rightarrow> ret (se_rid e)
     | None \<Rightarrow>
         (case map_of (av_kernels s) kn of
            None \<Rightarrow> never
          | Some k \<Rightarrow>
              (case set_bindings s kn color bs (kd_paramsBinding (rk_desc k)) (kd_bindings (rk_desc k)) of
                 Inl name \<Rightarrow> thenR (set_err (kn @ '': unbound '' @ [CHR 0x27] @ name @ [CHR 0x27])) (ret 0)
               | Inr rb \<Rightarrow>
                   bindR (dv (uniform_set (ae_host E) (rk_shader k) rb 0)) (\<lambda>r.
                   if r = 0 then bindR askA (\<lambda>s. thenR (set_err (kn @ '': '' @ dv_err (av_dev s))) (ret r))
                   else thenR (updA (\<lambda>s. s\<lparr>av_sets := map_put key (Set_entry r rb) (av_sets s)\<rparr>)) (ret r)))))"

definition av_dispatch :: "'w aenv \<Rightarrow> string \<Rightarrow> int \<Rightarrow> u32 \<Rightarrow> binds \<Rightarrow> ('w, bool) arun" where
  "av_dispatch E kn color threads bs =
     (if threads = 0 then ret True
      else bindR (set_for E kn color bs) (\<lambda>r.
        if r = 0 then ret False
        else bindR askA (\<lambda>s.
          case map_of (av_kernels s) kn of
            None \<Rightarrow> never
          | Some k \<Rightarrow> thenR (steps
              [dv (bind_pipeline (ae_host E) (rk_pipeline k)),
               dv (bind_uniform_set (ae_host E) r 0),
               dv (dispatch (ae_host E) (groups_for threads (kd_threadgroup (rk_desc k))) 1 1)]) (ret True))))"

section \<open>Recording\<close>

text \<open>
  What a recording function does is a list of these in order: a call of \<open>dispatch\<close> with a
  kernel, a colour, the threads and the buffers by name, or a barrier. No recording function
  looks at what \<open>dispatch\<close> returns.
\<close>

datatype (plugins only: code size) cmd = Dispatch string int u32 binds | Barrier

fun perform :: "'w aenv \<Rightarrow> cmd \<Rightarrow> ('w, unit) arun" where
  "perform E (Dispatch kn color threads bs) = void (av_dispatch E kn color threads bs)"
| "perform E Barrier = dv (barrier (ae_host E))"

definition performs :: "'w aenv \<Rightarrow> cmd list \<Rightarrow> ('w, unit) arun" where
  "performs E cs = steps (map (perform E) cs)"

text \<open>One command when a count is not zero.\<close>

definition when_some :: "u32 \<Rightarrow> cmd list \<Rightarrow> cmd list" where
  "when_some n cs = (if n \<noteq> 0 then cs else [])"

text \<open>Colour \<open>k\<close> of an iteration: no barrier among its first five kernels, one after every other.\<close>

definition force_cmds :: "'a solver_scheme \<Rightarrow> nat \<Rightarrow> cmd list" where
  "force_cmds s k =
     [Dispatch ''vbd_init'' (int k) (colour_count s k)
        [(''positions'', F_positions), (''predicted'', F_predicted), (''mass'', F_mass),
         (''gScratch'', F_gScratch), (''hScratch'', F_hScratch), (''vertPerm'', F_vertPerm)]] @
     when_some (sv_nSprings s)
      [Dispatch ''spring_force'' (- 1) (sv_nSprings s)
         [(''positions'', F_positions), (''p1Idx'', F_sp_p1), (''p2Idx'', F_sp_p2), (''restLen'', F_sp_rest),
          (''stiffness'', F_sp_k), (''gradA'', F_sp_gradA), (''hess'', F_sp_hess)]] @
     when_some (sv_nAttach s)
      [Dispatch ''attachment_force_al'' (- 1) (sv_nAttach s)
         [(''positions'', F_positions), (''vertIdx'', F_at_vert), (''fixedPos'', F_at_fixed),
          (''stiffness'', F_at_k), (''lambda'', F_at_lambda), (''gradV'', F_at_gradV),
          (''hessScalar'', F_at_hess)]] @
     when_some (sv_nTri s)
      [Dispatch ''triangle_membrane_force_al'' (- 1) (sv_nTri s)
         [(''positions'', F_positions), (''idx'', F_tri_idx), (''stiffness'', F_tri_k),
          (''lambda0'', F_tri_l0), (''lambda1'', F_tri_l1), (''grad'', F_tri_grad),
          (''hessScalar'', F_tri_hess), (''inv_deltaUV'', F_tri_invuv)]] @
     when_some (sv_nBend s)
      [Dispatch ''triangle_bending_force_al'' (- 1) (sv_nBend s)
         [(''positions'', F_positions), (''idx'', F_bd_idx), (''weight'', F_bd_w), (''nTarget'', F_bd_n),
          (''stiffness'', F_bd_k), (''lambda'', F_bd_lambda), (''grad'', F_bd_grad),
          (''hessScalar'', F_bd_hess)]] @
     [Barrier]"

definition gather_spring_cmds :: "'a solver_scheme \<Rightarrow> nat \<Rightarrow> cmd list" where
  "gather_spring_cmds s k =
     when_some (sv_nSprings s)
      [Dispatch ''vbd_gather_spring'' (int k) (colour_count s k)
         [(''springGradA'', F_sp_gradA), (''springHess'', F_sp_hess), (''vertSpringOffset'', F_sp_off),
          (''vertSpringIdx'', F_sp_idx), (''vertSpringRole'', F_sp_role), (''gScratch'', F_gScratch),
          (''hScratch'', F_hScratch), (''vertPerm'', F_vertPerm)],
       Barrier]"

definition gather_attachment_cmds :: "'a solver_scheme \<Rightarrow> nat \<Rightarrow> cmd list" where
  "gather_attachment_cmds s k =
     when_some (sv_nAttach s)
      [Dispatch ''vbd_gather_attachment'' (int k) (colour_count s k)
         [(''attachGradV'', F_at_gradV), (''attachHessScalar'', F_at_hess), (''vertAttachOffset'', F_at_off),
          (''vertAttachIdx'', F_at_idx), (''gScratch'', F_gScratch), (''hScratch'', F_hScratch),
          (''vertPerm'', F_vertPerm)],
       Barrier]"

definition gather_triangle_cmds :: "'a solver_scheme \<Rightarrow> nat \<Rightarrow> cmd list" where
  "gather_triangle_cmds s k =
     when_some (sv_nTri s)
      [Dispatch ''vbd_gather_triangle'' (int k) (colour_count s k)
         [(''triGrad'', F_tri_grad), (''triHessScalar'', F_tri_hess), (''vertTriOffset'', F_tri_off),
          (''vertTriIdx'', F_tri_idxc), (''vertTriRole'', F_tri_role), (''gScratch'', F_gScratch),
          (''hScratch'', F_hScratch), (''vertPerm'', F_vertPerm)],
       Barrier]"

definition gather_bending_cmds :: "'a solver_scheme \<Rightarrow> nat \<Rightarrow> cmd list" where
  "gather_bending_cmds s k =
     when_some (sv_nBend s)
      [Dispatch ''vbd_gather_bending'' (int k) (colour_count s k)
         [(''bendGrad'', F_bd_grad), (''bendHessScalar'', F_bd_hess), (''vertBendOffset'', F_bd_off),
          (''vertBendIdx'', F_bd_idxc), (''vertBendRole'', F_bd_role), (''gScratch'', F_gScratch),
          (''hScratch'', F_hScratch), (''vertPerm'', F_vertPerm)],
       Barrier]"

definition solve_cmds :: "'a solver_scheme \<Rightarrow> nat \<Rightarrow> cmd list" where
  "solve_cmds s k =
     [Dispatch ''vbd_solve_apply'' (int k) (colour_count s k)
        [(''gScratch'', F_gScratch), (''hScratch'', F_hScratch), (''positions'', F_positions),
         (''vertPerm'', F_vertPerm)],
      Barrier]"

definition colour_cmds :: "'a solver_scheme \<Rightarrow> nat \<Rightarrow> int \<Rightarrow> cmd list" where
  "colour_cmds s k upTo =
     force_cmds s k @
     (if upTo < 1 then [] else gather_spring_cmds s k @
     (if upTo < 2 then [] else gather_attachment_cmds s k @
     (if upTo < 3 then [] else gather_triangle_cmds s k @
     (if upTo < 4 then [] else gather_bending_cmds s k @
     (if upTo < 5 then [] else solve_cmds s k)))))"

text \<open>The colours left; a colour stopped early ends the loop.\<close>

primrec colours_cmds :: "'a solver_scheme \<Rightarrow> bool \<Rightarrow> nat list \<Rightarrow> cmd list" where
  "colours_cmds s dbg [] = []"
| "colours_cmds s dbg (k # ks) =
     (if dbg \<and> sv_dbgColor s < int k then []
      else let upTo = (if dbg \<and> int k = sv_dbgColor s then sv_dbgStage s else 5) in
        if colour_count s k = 0 then colours_cmds s dbg ks
        else colour_cmds s k upTo @ (if upTo < 5 then [] else colours_cmds s dbg ks))"

definition iteration_cmds :: "'a solver_scheme \<Rightarrow> bool \<Rightarrow> cmd list" where
  "iteration_cmds s fin = colours_cmds s (fin \<and> 0 \<le> sv_dbgColor s) [0..<numColors s]"

definition record_iteration :: "'w aenv \<Rightarrow> bool \<Rightarrow> ('w, unit) arun" where
  "record_iteration E fin = bindR askA (\<lambda>s. performs E (iteration_cmds s fin))"

definition dual_attachment_cmd :: "'a solver_scheme \<Rightarrow> cmd" where
  "dual_attachment_cmd s =
     Dispatch ''attachment_dual_update'' (- 1) (sv_nAttach s)
       [(''positions'', F_positions), (''vertIdx'', F_at_vert), (''fixedPos'', F_at_fixed),
        (''gamma'', F_at_gamma), (''lambda'', F_at_lambda)]"

definition dual_membrane_cmd :: "'a solver_scheme \<Rightarrow> cmd" where
  "dual_membrane_cmd s =
     Dispatch ''triangle_membrane_dual_update'' (- 1) (sv_nTri s)
       [(''positions'', F_positions), (''idx'', F_tri_idx), (''gamma'', F_tri_gamma),
        (''lambda0'', F_tri_l0), (''lambda1'', F_tri_l1), (''inv_deltaUV'', F_tri_invuv)]"

definition dual_bending_cmd :: "'a solver_scheme \<Rightarrow> cmd" where
  "dual_bending_cmd s =
     Dispatch ''triangle_bending_dual_update'' (- 1) (sv_nBend s)
       [(''positions'', F_positions), (''idx'', F_bd_idx), (''weight'', F_bd_w), (''nTarget'', F_bd_n),
        (''gamma'', F_bd_gamma), (''lambda'', F_bd_lambda)]"

definition duals_cmds :: "'a solver_scheme \<Rightarrow> cmd list" where
  "duals_cmds s =
     when_some (sv_nAttach s) [dual_attachment_cmd s] @ when_some (sv_nTri s) [dual_membrane_cmd s] @
     when_some (sv_nBend s) [dual_bending_cmd s] @ [Barrier]"

definition mark_lambdas_dirty :: "('w, unit) arun" where
  "mark_lambdas_dirty = updA (\<lambda>s. s\<lparr>av_lambdasDirty := True\<rparr>)"

definition record_duals :: "'w aenv \<Rightarrow> ('w, unit) arun" where
  "record_duals E = thenR mark_lambdas_dirty (bindR askA (\<lambda>s. performs E (duals_cmds s)))"

definition copy_buf :: "'w aenv \<Rightarrow> field \<Rightarrow> field \<Rightarrow> ('w, unit) arun" where
  "copy_buf E f g =
     bindR askA (\<lambda>s. void (dv (buffer_copy (ae_host E) (gb_rid (av_buf s f)) (gb_rid (av_buf s g)) (gb_bytes (av_buf s f)) 0 0)))"

text \<open>The copies that keep what the last iteration starts from.\<close>

definition snapshot_copies :: "avbd \<Rightarrow> (field \<times> field) list" where
  "snapshot_copies s =
     (F_positions, F_positionsPre) #
     (if av_lambdasDirty s
      then (if sv_nTri s \<noteq> 0 then [(F_tri_l0, F_tri_l0Pre), (F_tri_l1, F_tri_l1Pre)] else []) @
           (if sv_nBend s \<noteq> 0 then [(F_bd_lambda, F_bd_lambdaPre)] else [])
      else [])"

definition snapshot_pre_step :: "'w aenv \<Rightarrow> ('w, unit) arun" where
  "snapshot_pre_step E =
     bindR askA (\<lambda>s. steps (map (\<lambda>(f, g). copy_buf E f g) (snapshot_copies s) @
       [updA (\<lambda>s. s\<lparr>av_lambdasDirty := False, av_hasStep := True\<rparr>)]))"

definition prologue :: "'w aenv \<Rightarrow> ('w, bool) arun" where
  "prologue E =
     bindR askA (\<lambda>s.
     if \<not> av_ok s \<or> \<not> sv_meshReady s then ret False
     else thenR (steps [ensure_params E, wait_pending E, set_err []]) (ret True))"

definition begin_record :: "'w aenv \<Rightarrow> ('w, bool) arun" where
  "begin_record E = bindR (prologue E) (\<lambda>ok. if ok then thenR (dv (list_begin (ae_host E))) (ret True) else ret False)"

definition end_record_and_submit :: "'w aenv \<Rightarrow> ('w, unit) arun" where
  "end_record_and_submit E =
     steps [dv (list_end (ae_host E)), dv (submit (ae_host E)), updA (\<lambda>s. s\<lparr>av_pending := True\<rparr>)]"

definition run_result :: "('w, int) arun" where
  "run_result = bindR askA (\<lambda>s. ret (if av_err s = [] then 0 else - 1))"

text \<open>\<open>iters\<close> iterations, the last after the snapshot and in a list left open.\<close>

definition record_run :: "'w aenv \<Rightarrow> int \<Rightarrow> bool \<Rightarrow> ('w, unit) arun" where
  "record_run E iters duals = steps
     [if 1 < iters
      then steps [void (dv (list_begin (ae_host E))),
             steps (map (\<lambda>it. thenR (record_iteration E False) (if duals then record_duals E else ret ())) [0..<nat (iters - 1)]),
             dv (list_end (ae_host E))]
      else ret (),
      snapshot_pre_step E,
      void (dv (list_begin (ae_host E))),
      record_iteration E True,
      bindR askA (\<lambda>s. if duals \<and> sv_dbgColor s < 0 then record_duals E else ret ())]"

definition avbd_step :: "'w aenv \<Rightarrow> ('w, int) arun" where
  "avbd_step E =
     bindR (prologue E) (\<lambda>ok. if \<not> ok then ret (- 1)
       else thenR (steps [record_run E 1 False, end_record_and_submit E]) run_result)"

definition avbd_run :: "'w aenv \<Rightarrow> int \<Rightarrow> bool \<Rightarrow> ('w, int) arun" where
  "avbd_run E iters duals =
     (if iters < 1 then bindR askA (\<lambda>s. ret (if sv_meshReady s then 0 else - 1))
      else bindR (prologue E) (\<lambda>ok. if \<not> ok then ret (- 1)
        else thenR (steps [record_run E iters duals, end_record_and_submit E]) run_result))"

text \<open>The three dual updates on their own differ in the count they ask for and in what they mark.\<close>

definition step_dual :: "'w aenv \<Rightarrow> (avbd \<Rightarrow> u32) \<Rightarrow> bool \<Rightarrow> (avbd \<Rightarrow> cmd) \<Rightarrow> ('w, int) arun" where
  "step_dual E cnt marks c =
     bindR askA (\<lambda>s.
     if cnt s = 0 then ret (if sv_meshReady s then 0 else - 1)
     else bindR (begin_record E) (\<lambda>ok. if \<not> ok then ret (- 1)
       else thenR (steps [if marks then mark_lambdas_dirty else ret (), bindR askA (\<lambda>s. perform E (c s)),
              end_record_and_submit E]) run_result))"

definition avbd_stepDualAttachments :: "'w aenv \<Rightarrow> ('w, int) arun" where
  "avbd_stepDualAttachments E = step_dual E sv_nAttach False dual_attachment_cmd"

definition avbd_stepDualMembrane :: "'w aenv \<Rightarrow> ('w, int) arun" where
  "avbd_stepDualMembrane E = step_dual E sv_nTri True dual_membrane_cmd"

definition avbd_stepDualBending :: "'w aenv \<Rightarrow> ('w, int) arun" where
  "avbd_stepDualBending E = step_dual E sv_nBend True dual_bending_cmd"

end
