(* ===== verification/AvbdRdBack.thy ===== *)
theory AvbdRdBack
  imports AvbdRd AvbdCpuBack
begin

text \<open>
  \<open>guest/avbd/avbd_rd_backward.cpp\<close>: the reverse pass of \<open>AvbdRd\<close>, what is read back, the
  self-collision scan, and the destructor of \<open>avbd_rd.cpp\<close>.
\<close>

section \<open>Buffers of the reverse pass\<close>

definition zero_at :: "'w aenv \<Rightarrow> field \<Rightarrow> u64 \<Rightarrow> ('w, unit) arun" where
  "zero_at E f bytes = make_at f (make_zero E bytes)"

definition back_vertex_fields :: "field list" where
  "back_vertex_fields = [F_vOut, F_vG, F_deltaX, F_vPosGrad, F_vPosInit, F_vPred, F_vPosSum, F_vPosGradOut]"

definition back_springs :: "'w aenv \<Rightarrow> u32 \<Rightarrow> ('w, unit) arun" where
  "back_springs E n =
     (let c = ucast (cap_for n) in steps
       [free_all E [F_vSpringGradA, F_vSpringHess, F_vSpringPd, F_vSpringRest, F_vSpringStiff],
        if n = 0 then ret ()
        else steps [zero_at E F_vSpringGradA (16 * c), zero_at E F_vSpringHess (24 * c), zero_at E F_vSpringPd (16 * c),
          zero_at E F_vSpringRest (4 * c), zero_at E F_vSpringStiff (4 * c)]])"

definition back_attachments :: "'w aenv \<Rightarrow> u32 \<Rightarrow> ('w, unit) arun" where
  "back_attachments E n =
     (let c = ucast (cap_for n) in steps
       [free_all E [F_vAttachGradV, F_vAttachHess, F_vAttachFixed, F_vAttachStiff, F_vAttachLambda],
        if n = 0 then ret ()
        else steps [zero_at E F_vAttachGradV (16 * c), zero_at E F_vAttachHess (4 * c), zero_at E F_vAttachFixed (16 * c),
          zero_at E F_vAttachStiff (4 * c), zero_at E F_vAttachLambda (16 * c)]])"

definition back_triangles :: "'w aenv \<Rightarrow> u32 \<Rightarrow> ('w, unit) arun" where
  "back_triangles E n =
     (let c = ucast (cap_for n) in steps
       [free_all E [F_vTriGrad, F_vTriHess, F_vTriP, F_vTriStiff, F_vTriL0, F_vTriL1],
        if n = 0 then ret ()
        else steps [zero_at E F_vTriGrad (16 * 3 * c), zero_at E F_vTriHess (4 * 3 * c), zero_at E F_vTriP (16 * 3 * c),
          zero_at E F_vTriStiff (4 * c), zero_at E F_vTriL0 (16 * c), zero_at E F_vTriL1 (16 * c)]])"

definition back_bendings :: "'w aenv \<Rightarrow> u32 \<Rightarrow> ('w, unit) arun" where
  "back_bendings E n =
     (let c = ucast (cap_for n) in steps
       [free_all E [F_vBendGrad, F_vBendHess, F_vBendP, F_vBendN, F_vBendStiff, F_vBendLambda],
        if n = 0 then ret ()
        else steps [zero_at E F_vBendGrad (16 * 4 * c), zero_at E F_vBendHess (4 * 4 * c), zero_at E F_vBendP (16 * 4 * c),
          zero_at E F_vBendN (4 * c), zero_at E F_vBendStiff (4 * c), zero_at E F_vBendLambda (16 * c)]])"

text \<open>A params block is freed and made again.\<close>

definition renew_par :: "'w aenv \<Rightarrow> par \<Rightarrow> u32 list \<Rightarrow> ('w, unit) arun" where
  "renew_par E p v = thenR (free_par E p) (make_par E p v)"

text \<open>\<open>saxpby\<close> counts floats, four to a row.\<close>

definition sax_words :: "u32 \<Rightarrow> u32 \<Rightarrow> u32 list" where
  "sax_words nV beta = [4 * nV, f_one, beta, 0]"

definition ensure_backward_buffers :: "'w aenv \<Rightarrow> ('w, bool) arun" where
  "ensure_backward_buffers E =
     bindR askA (\<lambda>s.
     if sv_backwardReady s then ret True
     else let nV = sv_nVerts s; vcap = ucast (cap_for nV) in thenR (steps
       (map (\<lambda>f. thenR (free_buf E f) (zero_at E f (16 * vcap))) back_vertex_fields @
        [free_buf E F_vH, zero_at E F_vH (24 * vcap),
         free_buf E F_hJunk, zero_at E F_hJunk (24 * vcap),
         free_buf E F_vMass, zero_at E F_vMass (4 * vcap),
         back_springs E (sv_nSprings s), back_attachments E (sv_nAttach s),
         back_triangles E (sv_nTri s), back_bendings E (sv_nBend s),
         renew_par E U_scatter [0, nV, 0, 0],
         renew_par E U_initBwd [sv_invHSq s, 0, 0, 0],
         renew_par E U_sxDelta (sax_words nV f_minus_one),
         renew_par E U_sxSum (sax_words nV f_one),
         renew_par E U_sxOut (sax_words nV f_one),
         updA (\<lambda>s. s\<lparr>sv_backwardReady := list_all (\<lambda>f. gb_valid (av_buf s f)) [F_vOut, F_vH, F_vPosGradOut] \<and>
           list_all (\<lambda>p. gb_valid (av_par s p)) [U_scatter, U_initBwd, U_sxOut]\<rparr>),
         invalidate_sets E]))
       (bindR askA (\<lambda>s. thenR (if sv_backwardReady s then ret () else set_err (''backward buffers: '' @ dv_err (av_dev s)))
          (ret (sv_backwardReady s)))))"

definition clear_buf :: "'w aenv \<Rightarrow> field \<Rightarrow> ('w, unit) arun" where
  "clear_buf E f = bindR askA (\<lambda>s. void (dv (buffer_clear (ae_host E) (gb_rid (av_buf s f)) 0 (gb_bytes (av_buf s f)))))"

definition prepare_backward :: "'w aenv \<Rightarrow> u32 list \<Rightarrow> ('w, bool) arun" where
  "prepare_backward E loss =
     bindR askA (\<lambda>s.
     if \<not> av_hasStep s then ret False
     else bindR (ensure_backward_buffers E) (\<lambda>ok. if \<not> ok then ret False
       else thenR (steps [update_v3 E F_vOut loss (sv_nVerts s), clear_buf E F_vPosGrad, clear_buf E F_hJunk]) (ret True)))"

section \<open>The dispatches\<close>

definition back_gather_cmds :: "'a solver_scheme \<Rightarrow> cmd list" where
  "back_gather_cmds s =
     when_some (sv_nSprings s)
      [Dispatch ''vbd_gather_spring_backward'' (- 1) (sv_nSprings s)
         [(''springP1Idx'', F_sp_p1), (''springP2Idx'', F_sp_p2), (''v_g'', F_vG), (''v_H'', F_vH),
          (''v_springGradA'', F_vSpringGradA), (''v_springHess'', F_vSpringHess)]] @
     when_some (sv_nAttach s)
      [Dispatch ''vbd_gather_attachment_backward'' (- 1) (sv_nAttach s)
         [(''attachVertIdx'', F_at_vert), (''v_g'', F_vG), (''v_H'', F_vH),
          (''v_attachGradV'', F_vAttachGradV), (''v_attachHessScalar'', F_vAttachHess)]] @
     when_some (sv_nTri s)
      [Dispatch ''vbd_gather_triangle_backward'' (- 1) (3 * sv_nTri s)
         [(''triIdx'', F_tri_idx), (''v_g'', F_vG), (''v_H'', F_vH), (''v_triGrad'', F_vTriGrad),
          (''v_triHessScalar'', F_vTriHess)]] @
     when_some (sv_nBend s)
      [Dispatch ''vbd_gather_bending_backward'' (- 1) (4 * sv_nBend s)
         [(''bendIdx'', F_bd_idx), (''v_g'', F_vG), (''v_H'', F_vH), (''v_bendGrad'', F_vBendGrad),
          (''v_bendHessScalar'', F_vBendHess)]] @
     [Barrier]"

text \<open>The force backwards read the copies made before the last iteration.\<close>

definition back_force_cmds :: "'a solver_scheme \<Rightarrow> cmd list" where
  "back_force_cmds s =
     when_some (sv_nAttach s)
      [Dispatch ''attachment_force_al_backward'' (- 1) (sv_nAttach s)
         [(''positions'', F_positionsPre), (''vertIdx'', F_at_vert), (''fixedPos'', F_at_fixed),
          (''stiffness'', F_at_k), (''v_gradV'', F_vAttachGradV), (''v_hessScalar'', F_vAttachHess),
          (''v_positions'', F_vPosGrad), (''v_fixedPos'', F_vAttachFixed), (''v_lambda'', F_vAttachLambda),
          (''v_stiffness'', F_vAttachStiff)]] @
     when_some (sv_nSprings s)
      [Dispatch ''spring_force_backward'' (- 1) (sv_nSprings s)
         [(''positions'', F_positionsPre), (''p1Idx'', F_sp_p1), (''p2Idx'', F_sp_p2),
          (''restLen'', F_sp_rest), (''stiffness'', F_sp_k), (''v_gradA'', F_vSpringGradA),
          (''v_springHess'', F_vSpringHess), (''v_p_d'', F_vSpringPd), (''v_restLen'', F_vSpringRest),
          (''v_stiffness'', F_vSpringStiff)]] @
     when_some (sv_nTri s)
      [Dispatch ''triangle_membrane_force_al_backward'' (- 1) (sv_nTri s)
         [(''positions'', F_positionsPre), (''idx'', F_tri_idx), (''stiffness'', F_tri_k),
          (''lambda0'', (if sv_useLambdaSnapshot s then F_tri_l0Pre else F_tri_l0)),
          (''lambda1'', (if sv_useLambdaSnapshot s then F_tri_l1Pre else F_tri_l1)),
          (''inv_deltaUV'', F_tri_invuv), (''v_grad'', F_vTriGrad), (''v_hessScalar'', F_vTriHess),
          (''v_p'', F_vTriP), (''v_stiffness'', F_vTriStiff), (''v_lambda0'', F_vTriL0),
          (''v_lambda1'', F_vTriL1)]] @
     when_some (sv_nBend s)
      [Dispatch ''triangle_bending_force_al_backward'' (- 1) (sv_nBend s)
         [(''positions'', F_positionsPre), (''idx'', F_bd_idx), (''weight'', F_bd_w), (''nTarget'', F_bd_n),
          (''stiffness'', F_bd_k),
          (''lambda'', (if sv_useLambdaSnapshot s then F_bd_lambdaPre else F_bd_lambda)),
          (''v_grad'', F_vBendGrad), (''v_hessScalar'', F_vBendHess), (''v_p'', F_vBendP),
          (''v_nTarget'', F_vBendN), (''v_stiffness'', F_vBendStiff), (''v_lambda'', F_vBendLambda)]] @
     [Dispatch ''vbd_init_backward'' (- 1) (sv_nVerts s)
        [(''positions'', F_positionsPre), (''predicted'', F_predicted), (''mass'', F_mass), (''v_g'', F_vG),
         (''v_H'', F_vH), (''v_x'', F_vPosInit), (''v_y'', F_vPred), (''v_mass'', F_vMass)],
      Barrier]"

text \<open>The forward gathers over the whole mesh, into the position gradient.\<close>

definition scatter_cmds :: "'a solver_scheme \<Rightarrow> cmd list" where
  "scatter_cmds s =
     when_some (sv_nSprings s)
      [Dispatch ''vbd_gather_spring'' kScatterColor (sv_nVerts s)
         [(''springGradA'', F_vSpringPd), (''springHess'', F_vSpringHess), (''vertSpringOffset'', F_sp_off),
          (''vertSpringIdx'', F_sp_idx), (''vertSpringRole'', F_sp_role), (''gScratch'', F_vPosGrad),
          (''hScratch'', F_hJunk), (''vertPerm'', F_vertPerm)],
       Barrier] @
     when_some (sv_nTri s)
      [Dispatch ''vbd_gather_triangle'' kScatterColor (sv_nVerts s)
         [(''triGrad'', F_vTriP), (''triHessScalar'', F_vTriHess), (''vertTriOffset'', F_tri_off),
          (''vertTriIdx'', F_tri_idxc), (''vertTriRole'', F_tri_role), (''gScratch'', F_vPosGrad),
          (''hScratch'', F_hJunk), (''vertPerm'', F_vertPerm)],
       Barrier] @
     when_some (sv_nBend s)
      [Dispatch ''vbd_gather_bending'' kScatterColor (sv_nVerts s)
         [(''bendGrad'', F_vBendP), (''bendHessScalar'', F_vBendHess), (''vertBendOffset'', F_bd_off),
          (''vertBendIdx'', F_bd_idxc), (''vertBendRole'', F_bd_role), (''gScratch'', F_vPosGrad),
          (''hScratch'', F_hJunk), (''vertPerm'', F_vertPerm)],
       Barrier] @
     (if sv_nSprings s = 0 \<and> sv_nTri s = 0 \<and> sv_nBend s = 0 then [Barrier] else [])"

definition backward_cmds :: "'a solver_scheme \<Rightarrow> cmd list" where
  "backward_cmds s =
     [Dispatch ''saxpby'' kSaxDelta (4 * sv_nVerts s)
        [(''x'', F_positions), (''y'', F_positionsPre), (''dst'', F_deltaX)],
      Barrier,
      Dispatch ''vbd_solve_apply_backward'' (- 1) (sv_nVerts s)
        [(''v_out'', F_vOut), (''hScratch'', F_hScratch), (''deltaX'', F_deltaX), (''v_g'', F_vG),
         (''v_H'', F_vH)],
      Barrier] @
     back_gather_cmds s @ back_force_cmds s @
     [Dispatch ''saxpby'' kSaxSum (4 * sv_nVerts s)
        [(''x'', F_vPosInit), (''y'', F_vOut), (''dst'', F_vPosSum)]] @
     scatter_cmds s @
     [Dispatch ''saxpby'' kSaxOut (4 * sv_nVerts s)
        [(''x'', F_vPosGrad), (''y'', F_vPosSum), (''dst'', F_vPosGradOut)]]"

definition record_backward :: "'w aenv \<Rightarrow> ('w, unit) arun" where
  "record_backward E = bindR askA (\<lambda>s. performs E (backward_cmds s))"

definition avbd_stepBackward :: "'w aenv \<Rightarrow> u32 list \<Rightarrow> ('w, int) arun" where
  "avbd_stepBackward E loss =
     bindR (prologue E) (\<lambda>ok. if \<not> ok then ret (- 1)
     else bindR (prepare_backward E loss) (\<lambda>ok. if \<not> ok then ret (- 1)
       else thenR (steps [void (dv (list_begin (ae_host E))), record_backward E, end_record_and_submit E]) run_result))"

definition avbd_runWithBackward :: "'w aenv \<Rightarrow> int \<Rightarrow> bool \<Rightarrow> u32 list \<Rightarrow> ('w, int) arun" where
  "avbd_runWithBackward E iters duals loss =
     (if iters < 1 then ret (- 1)
      else bindR (prologue E) (\<lambda>ok. if \<not> ok then ret (- 1)
      else thenR (updA (\<lambda>s. s\<lparr>av_hasStep := True\<rparr>))
       (bindR (prepare_backward E loss) (\<lambda>ok. if \<not> ok then ret (- 1)
        else thenR (steps [record_run E iters duals, record_backward E, end_record_and_submit E]) run_result))))"

section \<open>Reading back\<close>

text \<open>Word \<open>i\<close> of bytes, little-endian.\<close>

definition word_at :: "u8 list \<Rightarrow> nat \<Rightarrow> u32" where
  "word_at b i = fold (\<lambda>j w. w + push_bit (8 * j) (ucast (b ! (4 * i + j)))) [0..<4] 0"

definition buffer_bytes :: "'w aenv \<Rightarrow> gbuf \<Rightarrow> ('w, u8 list) arun" where
  "buffer_bytes E b = thenR (wait_pending E) (dv (buffer_get (ae_host E) (gb_rid b) 0 0))"

definition compact_v3 :: "u8 list \<Rightarrow> nat \<Rightarrow> u32 list" where
  "compact_v3 b n = concat (map (\<lambda>i. [word_at b (4 * i), word_at b (4 * i + 1), word_at b (4 * i + 2)]) [0..<n])"

definition read_v3 :: "'w aenv \<Rightarrow> field \<Rightarrow> u32 \<Rightarrow> ('w, u32 list) arun" where
  "read_v3 E f n =
     bindR askA (\<lambda>s. let zeros = replicate (3 * unat n) 0 in
     if \<not> gb_valid (av_buf s f) then ret zeros
     else bindR (buffer_bytes E (av_buf s f)) (\<lambda>b.
       ret (if length b < 16 * unat n then zeros else compact_v3 b (unat n))))"

definition read_f32 :: "'w aenv \<Rightarrow> field \<Rightarrow> u32 \<Rightarrow> ('w, u32 list) arun" where
  "read_f32 E f n =
     bindR askA (\<lambda>s. let zeros = replicate (unat n) 0 in
     if \<not> gb_valid (av_buf s f) \<or> n = 0 then ret zeros
     else bindR (buffer_bytes E (av_buf s f)) (\<lambda>b.
       ret (if length b < 4 * unat n then zeros else map (word_at b) [0..<unat n])))"

definition avbd_readPositions :: "'w aenv \<Rightarrow> ('w, u32 list) arun" where
  "avbd_readPositions E =
     bindR askA (\<lambda>s.
     if \<not> sv_meshReady s then ret []
     else bindR (buffer_bytes E (av_buf s F_positions)) (\<lambda>b.
       ret (if length b < 16 * unat (sv_nVerts s) then [] else compact_v3 b (unat (sv_nVerts s)))))"

text \<open>The gradients: which buffers, with how many rows of three floats or floats.\<close>

datatype (plugins only: code size) grad = Rows field u32 | Floats field u32

fun read_grad :: "'w aenv \<Rightarrow> grad \<Rightarrow> ('w, u32 list) arun" where
  "read_grad E (Rows f n) = read_v3 E f n"
| "read_grad E (Floats f n) = read_f32 E f n"

definition grads_positions :: "'a solver_scheme \<Rightarrow> grad list" where
  "grads_positions s = [Rows F_vPosGradOut (sv_nVerts s)]"
definition grads_mass :: "'a solver_scheme \<Rightarrow> grad list" where
  "grads_mass s = [Floats F_vMass (sv_nVerts s)]"
definition grads_predicted :: "'a solver_scheme \<Rightarrow> grad list" where
  "grads_predicted s = [Rows F_vPred (sv_nVerts s)]"
definition grads_spring :: "'a solver_scheme \<Rightarrow> grad list" where
  "grads_spring s = [Floats F_vSpringRest (sv_nSprings s), Floats F_vSpringStiff (sv_nSprings s)]"
definition grads_attach :: "'a solver_scheme \<Rightarrow> grad list" where
  "grads_attach s = [Rows F_vAttachFixed (sv_nAttach s), Floats F_vAttachStiff (sv_nAttach s), Rows F_vAttachLambda (sv_nAttach s)]"
definition grads_tri :: "'a solver_scheme \<Rightarrow> grad list" where
  "grads_tri s = [Floats F_vTriStiff (sv_nTri s), Rows F_vTriL0 (sv_nTri s), Rows F_vTriL1 (sv_nTri s)]"
definition grads_bend :: "'a solver_scheme \<Rightarrow> grad list" where
  "grads_bend s = [Floats F_vBendN (sv_nBend s), Floats F_vBendStiff (sv_nBend s), Rows F_vBendLambda (sv_nBend s)]"

primrec read_grads :: "'w aenv \<Rightarrow> grad list \<Rightarrow> ('w, u32 list list) arun" where
  "read_grads E [] = ret []"
| "read_grads E (g # gs) = bindR (read_grad E g) (\<lambda>v. bindR (read_grads E gs) (\<lambda>vs. ret (v # vs)))"

section \<open>Self-collision scan\<close>

definition rd_uploadSelfCollisionRadii :: "'w aenv \<Rightarrow> u32 list \<Rightarrow> u32 \<Rightarrow> ('w, unit) arun" where
  "rd_uploadSelfCollisionRadii E radii maxNeighbors =
     bindR askA (\<lambda>s.
     if \<not> sv_meshReady s \<or> maxNeighbors = 0 then ret ()
     else let nV = sv_nVerts s in steps
       [wait_pending E,
        updA (\<lambda>s. s\<lparr>sv_selfK := maxNeighbors\<rparr>),
        free_all E [F_radii, F_neighbors], free_par E U_self,
        make_at F_radii (make_f32 E (take (unat nV) radii)),
        zero_at E F_neighbors (4 * ucast nV * ucast maxNeighbors),
        make_par E U_self [nV, maxNeighbors, 0, 0],
        invalidate_sets E])"

definition scan_cmd :: "'a solver_scheme \<Rightarrow> cmd" where
  "scan_cmd s = Dispatch ''self_collision_scan'' (- 1) (sv_nVerts s)
     [(''positions'', F_positions), (''radii'', F_radii), (''neighbors'', F_neighbors)]"

definition rd_submitSelfCollisionScan :: "'w aenv \<Rightarrow> ('w, int) arun" where
  "rd_submitSelfCollisionScan E =
     bindR askA (\<lambda>s.
     if \<not> gb_valid (av_buf s F_radii) \<or> sv_selfK s = 0 then ret (- 1)
     else bindR (prologue E) (\<lambda>ok. if \<not> ok then ret (- 1)
       else thenR (steps [void (dv (list_begin (ae_host E))), bindR askA (\<lambda>s. perform E (scan_cmd s)),
         end_record_and_submit E]) run_result))"

definition rd_collectSelfCollisions :: "'w aenv \<Rightarrow> ('w, int \<times> (u32 \<times> u32) list) arun" where
  "rd_collectSelfCollisions E =
     bindR askA (\<lambda>s.
     if \<not> sv_meshReady s \<or> \<not> gb_valid (av_buf s F_neighbors) \<or> sv_selfK s = 0 then ret (- 1, [])
     else bindR (buffer_bytes E (av_buf s F_neighbors)) (\<lambda>b.
       ret (if length b < 4 * unat (sv_nVerts s) * unat (sv_selfK s) then (- 1, [])
            else (0, all_pairs (word_at b) (sv_nVerts s) (sv_selfK s)))))"

section \<open>Hooks of the tests, and the end\<close>

definition rd_setPadFillForTest :: "u32 \<Rightarrow> ('w, unit) arun" where
  "rd_setPadFillForTest fill = updA (\<lambda>s. s\<lparr>av_padOverride := True, av_padFill := fill\<rparr>)"

definition rd_setLambdaSnapshotForTest :: "'w aenv \<Rightarrow> bool \<Rightarrow> ('w, unit) arun" where
  "rd_setLambdaSnapshotForTest E use = thenR (updA (\<lambda>s. s\<lparr>sv_useLambdaSnapshot := use\<rparr>)) (invalidate_sets E)"

definition rd_setDebugStopForTest :: "int \<Rightarrow> int \<Rightarrow> ('w, unit) arun" where
  "rd_setDebugStopForTest color stage = updA (\<lambda>s. s\<lparr>sv_dbgColor := color, sv_dbgStage := stage\<rparr>)"

definition debug_grads :: "'a solver_scheme \<Rightarrow> string \<Rightarrow> grad option" where
  "debug_grads s name =
     map_of [(''positions'', Rows F_positions (sv_nVerts s)), (''gScratch'', Rows F_gScratch (sv_nVerts s)),
       (''hScratch'', Floats F_hScratch (6 * sv_nVerts s)), (''attachGradV'', Rows F_at_gradV (sv_nAttach s)),
       (''attachHess'', Floats F_at_hess (sv_nAttach s)), (''triGrad'', Rows F_tri_grad (3 * sv_nTri s)),
       (''triHess'', Floats F_tri_hess (3 * sv_nTri s)), (''bendGrad'', Rows F_bd_grad (4 * sv_nBend s)),
       (''bendHess'', Floats F_bd_hess (4 * sv_nBend s))] name"

definition rd_readDebugForTest :: "'w aenv \<Rightarrow> string \<Rightarrow> ('w, u32 list) arun" where
  "rd_readDebugForTest E name =
     bindR askA (\<lambda>s. case debug_grads s name of None \<Rightarrow> ret [] | Some g \<Rightarrow> read_grad E g)"

definition all_fields :: "field list" where
  "all_fields =
     [F_positions, F_predicted, F_mass, F_gScratch, F_hScratch, F_vertPerm,
      F_sp_p1, F_sp_p2, F_sp_rest, F_sp_k, F_sp_gradA, F_sp_hess, F_sp_off, F_sp_idx, F_sp_role,
      F_at_vert, F_at_fixed, F_at_k, F_at_lambda, F_at_gamma, F_at_gradV, F_at_hess, F_at_off, F_at_idx,
      F_tri_idx, F_tri_k, F_tri_l0, F_tri_l1, F_tri_gamma, F_tri_grad, F_tri_hess, F_tri_invuv, F_tri_off,
      F_tri_idxc, F_tri_role, F_bd_idx, F_bd_w, F_bd_n, F_bd_k, F_bd_lambda, F_bd_gamma, F_bd_grad, F_bd_hess,
      F_bd_off, F_bd_idxc, F_bd_role]"

definition all_back_fields :: "field list" where
  "all_back_fields =
     [F_positionsPre, F_tri_l0Pre, F_tri_l1Pre, F_bd_lambdaPre,
      F_vOut, F_vG, F_vH, F_deltaX, F_vPosGrad, F_vPosInit, F_vPred, F_vMass, F_hJunk, F_vPosSum, F_vPosGradOut,
      F_vSpringGradA, F_vSpringHess, F_vSpringPd, F_vSpringRest, F_vSpringStiff,
      F_vAttachGradV, F_vAttachHess, F_vAttachFixed, F_vAttachStiff, F_vAttachLambda,
      F_vTriGrad, F_vTriHess, F_vTriP, F_vTriStiff, F_vTriL0, F_vTriL1,
      F_vBendGrad, F_vBendHess, F_vBendP, F_vBendN, F_vBendStiff, F_vBendLambda]"

text \<open>\<open>~AvbdRd\<close>: the sets, the buffers in the order of the array \<open>all\<close>, the colours' params, the kernels.\<close>

definition destroy :: "'w aenv \<Rightarrow> ('w, unit) arun" where
  "destroy E =
     bindR askA (\<lambda>s. steps
       ([wait_pending E, invalidate_sets E] @ map (free_buf E) all_fields @
        [free_par E U_dualAttach, free_par E U_dualTri, free_par E U_dualBend] @ map (free_buf E) all_back_fields @
        map (free_par E) [U_scatter, U_initBwd, U_sxDelta, U_sxSum, U_sxOut] @
        [free_buf E F_radii, free_buf E F_neighbors, free_par E U_self] @
        map (free_gbuf E) (av_initParams s) @ map (free_gbuf E) (av_colorParams s) @
        map (\<lambda>kv. steps [dv (free_rid (ae_host E) (rk_pipeline (snd kv))), dv (free_rid (ae_host E) (rk_shader (snd kv)))])
          (av_kernels s)))"

end
