(* ===== verification/AvbdSchedule.thy ===== *)
theory AvbdSchedule
  imports AvbdRd
begin

text \<open>
  What the lists \<open>AvbdRd\<close> records compute: a colour's commands are the kernels \<open>AvbdCpu\<close> runs,
  and recording a run does one list of acts in order, from any state.
\<close>

section \<open>What a recorded list computes\<close>

definition has_params :: "string \<Rightarrow> bool" where
  "has_params kn = (case table_find kn of None \<Rightarrow> False | Some k \<Rightarrow> 0 \<le> kd_paramsBinding k)"

text \<open>The words in the params block a kernel gets for a colour (\<open>params_for\<close>, as it was filled).\<close>

definition cmd_params :: "'a solver_scheme \<Rightarrow> string \<Rightarrow> int \<Rightarrow> u32 list" where
  "cmd_params s kn color =
     (if \<not> has_params kn then []
      else if kn = ''vbd_init'' then init_words s (nat color)
      else if kn = ''attachment_dual_update'' then dual_words s (sv_nAttach s)
      else if kn = ''triangle_membrane_dual_update'' then dual_words s (sv_nTri s)
      else if kn = ''triangle_bending_dual_update'' then dual_words s (sv_nBend s)
      else if kn = ''self_collision_scan'' then [sv_nVerts s, sv_selfK s, 0, 0]
      else if kn = ''vbd_init_backward'' then [sv_invHSq s, 0, 0, 0]
      else if kn = ''saxpby'' then [4 * sv_nVerts s, f_one, if color = kSaxDelta then f_minus_one else f_one, 0]
      else if color = kScatterColor then [0, sv_nVerts s, 0, 0]
      else colour_words s (nat color))"

fun exec_cmd :: "kernels \<Rightarrow> 'a solver_scheme \<Rightarrow> cmd \<Rightarrow> mem \<Rightarrow> mem" where
  "exec_cmd K s (Dispatch kn color threads bs) m = run_kernel K kn threads (cmd_params s kn color) bs m"
| "exec_cmd K s Barrier m = m"

abbreviation exec :: "kernels \<Rightarrow> 'a solver_scheme \<Rightarrow> cmd list \<Rightarrow> mem \<Rightarrow> mem" where
  "exec K s cs m \<equiv> fold (exec_cmd K s) cs m"

lemma run_kernel_pad:
  "run_kernel K kn n [a, b, c, 0] bs m = run_kernel K kn n [a, b, c] bs m"
  "run_kernel K kn n [a, b, 0] bs m = run_kernel K kn n [a, b] bs m"
proof -
  have "params_word [a, b, c, 0] = params_word [a, b, c]" "params_word [a, b, 0] = params_word [a, b]"
    by (auto simp: params_word_def fun_eq_iff nth_Cons split: nat.splits)
  then have "run_lane K kn [a, b, c, 0] bs = run_lane K kn [a, b, c] bs" "run_lane K kn [a, b, 0] bs = run_lane K kn [a, b] bs"
    by (intro ext, simp only: run_lane_def)+
  then show "run_kernel K kn n [a, b, c, 0] bs m = run_kernel K kn n [a, b, c] bs m"
    "run_kernel K kn n [a, b, 0] bs m = run_kernel K kn n [a, b] bs m"
    by (simp_all add: run_kernel_def)
qed

lemma have_params:
  "has_params ''vbd_init''" "has_params ''vbd_gather_spring''" "has_params ''vbd_gather_attachment''"
  "has_params ''vbd_gather_triangle''" "has_params ''vbd_gather_bending''" "has_params ''vbd_solve_apply''"
  "has_params ''attachment_dual_update''" "has_params ''triangle_membrane_dual_update''"
  "has_params ''triangle_bending_dual_update''"
  "\<not> has_params ''spring_force''" "\<not> has_params ''attachment_force_al''"
  "\<not> has_params ''triangle_membrane_force_al''" "\<not> has_params ''triangle_bending_force_al''"
  by (simp_all add: has_params_def table_find_def kAvbdKernels_def)

lemmas exec_simps = cmd_params_def init_words_def colour_words_def dual_words_def have_params run_kernel_pad when_some_def word_gt_0

lemma exec_forces: "exec K s (force_cmds s k) m = cpu_forces K s k m"
  by (simp add: force_cmds_def cpu_forces_def exec_simps Let_def)

lemma exec_gathers:
  "exec K s (gather_spring_cmds s k) m = cpu_gather_spring K s k m"
  "exec K s (gather_attachment_cmds s k) m = cpu_gather_attachment K s k m"
  "exec K s (gather_triangle_cmds s k) m = cpu_gather_triangle K s k m"
  "exec K s (gather_bending_cmds s k) m = cpu_gather_bending K s k m"
  "exec K s (solve_cmds s k) m = cpu_solve K s k m"
  by (simp_all add: gather_spring_cmds_def gather_attachment_cmds_def gather_triangle_cmds_def gather_bending_cmds_def
      solve_cmds_def cpu_gather_spring_def cpu_gather_attachment_def cpu_gather_triangle_def cpu_gather_bending_def
      cpu_solve_def exec_simps)

lemma exec_colour: "exec K s (colour_cmds s k upTo) m = cpu_colour K s k upTo m"
  by (simp add: colour_cmds_def cpu_colour_def exec_forces exec_gathers Let_def)

lemma exec_colours:
  "exec K s (colours_cmds s dbg ks) m =
   cpu_colours K s (if dbg then sv_dbgColor s else - 1) (if dbg then sv_dbgStage s else 5) ks m" if "dbg \<Longrightarrow> 0 \<le> sv_dbgColor s"
  using that by (cases dbg; induction ks arbitrary: m) (auto simp: exec_colour Let_def)

section \<open>The lists of a run\<close>

text \<open>What \<open>record_run\<close> does in order, spelled out: the copies and the list calls beside the commands.\<close>

datatype (plugins only: code size) act = Cmd cmd | List_begin | List_end | Dirty | Copy field field | Snapped

fun do_act :: "'w aenv \<Rightarrow> act \<Rightarrow> ('w, unit) arun" where
  "do_act E (Cmd c) = perform E c"
| "do_act E List_begin = void (dv (list_begin (ae_host E)))"
| "do_act E List_end = dv (list_end (ae_host E))"
| "do_act E Dirty = mark_lambdas_dirty"
| "do_act E (Copy f g) = copy_buf E f g"
| "do_act E Snapped = updA (\<lambda>s. s\<lparr>av_lambdasDirty := False, av_hasStep := True\<rparr>)"

definition do_acts :: "'w aenv \<Rightarrow> act list \<Rightarrow> ('w, unit) arun" where
  "do_acts E as = steps (map (do_act E) as)"

fun exec_act :: "kernels \<Rightarrow> 'a solver_scheme \<Rightarrow> act \<Rightarrow> mem \<Rightarrow> mem" where
  "exec_act K s (Cmd c) m = exec_cmd K s c m"
| "exec_act K s (Copy f g) m = m(g := m f)"
| "exec_act K s a m = m"

definition duals_acts :: "'a solver_scheme \<Rightarrow> act list" where
  "duals_acts s = Dirty # map Cmd (duals_cmds s)"

definition turn_acts :: "'a solver_scheme \<Rightarrow> bool \<Rightarrow> act list" where
  "turn_acts s duals = map Cmd (iteration_cmds s False) @ (if duals then duals_acts s else [])"

definition early_acts :: "'a solver_scheme \<Rightarrow> int \<Rightarrow> bool \<Rightarrow> act list" where
  "early_acts s iters duals =
     (if 1 < iters then List_begin # concat (replicate (nat (iters - 1)) (turn_acts s duals)) @ [List_end] else [])"

definition copy_acts :: "'a solver_scheme \<Rightarrow> bool \<Rightarrow> act list" where
  "copy_acts s dirty =
     Copy F_positions F_positionsPre #
     (if dirty
      then (if sv_nTri s \<noteq> 0 then [Copy F_tri_l0 F_tri_l0Pre, Copy F_tri_l1 F_tri_l1Pre] else []) @
           (if sv_nBend s \<noteq> 0 then [Copy F_bd_lambda F_bd_lambdaPre] else [])
      else [])"

definition last_acts :: "'a solver_scheme \<Rightarrow> bool \<Rightarrow> act list" where
  "last_acts s duals =
     List_begin # map Cmd (iteration_cmds s True) @ (if duals \<and> sv_dbgColor s < 0 then duals_acts s else [])"

definition run_acts :: "avbd \<Rightarrow> int \<Rightarrow> bool \<Rightarrow> act list" where
  "run_acts s iters duals =
     early_acts s iters duals @ copy_acts s (av_lambdasDirty s \<or> 1 < iters \<and> duals) @ [Snapped] @ last_acts s duals"

subsection \<open>Recording is doing these in order\<close>

lemma steps_append: "steps (xs @ ys) s = thenR (steps xs) (steps ys) s"
  by (induction xs arbitrary: s) (auto simp: steps_def thenR_def bindR_def ret_def split: prod.splits option.splits)

lemma steps_Cons: "steps (x # xs) = thenR x (steps xs)"
  by (simp add: steps_def)

lemma steps_Nil: "steps [] = ret ()"
  by (simp add: steps_def)

lemma thenR_ret: "thenR m (ret ()) s = m s"
  by (auto simp: thenR_def bindR_def ret_def split: prod.splits option.splits)

lemma steps_single: "steps [m] = m"
  by (rule ext) (simp add: steps_Cons steps_Nil thenR_ret)

lemma thenR_cong: "m s = m' s \<Longrightarrow> (\<And>x s'. m' s = (Some x, s') \<Longrightarrow> n s' = n' s') \<Longrightarrow> thenR m n s = thenR m' n' s"
  by (auto simp: thenR_def bindR_def split: prod.splits option.splits)

text \<open>What recording looks at: the members both solvers have, and whether the duals are dirty.\<close>

definition plan_of :: "avbd \<Rightarrow> solver \<times> bool" where
  "plan_of s = (solver.truncate s, av_lambdasDirty s)"

lemma cmds_truncate:
  "iteration_cmds (solver.truncate s) fin = iteration_cmds s fin"
  "duals_cmds (solver.truncate s) = duals_cmds s"
  "copy_acts (solver.truncate s) d = copy_acts s d"
  "sv_dbgColor (solver.truncate s) = sv_dbgColor s"
proof -
  have force: "force_cmds (solver.truncate s) k = force_cmds s k" for k
    by (simp add: force_cmds_def solver.truncate_def colour_count_def)
  have colour: "colour_cmds (solver.truncate s) k u = colour_cmds s k u" for k u
    unfolding colour_cmds_def force
    by (simp add: gather_spring_cmds_def gather_attachment_cmds_def gather_triangle_cmds_def gather_bending_cmds_def
        solve_cmds_def solver.truncate_def colour_count_def)
  have count: "colour_count (solver.truncate s) k = colour_count s k" for k
    by (simp add: colour_count_def solver.truncate_def)
  have dbg: "sv_dbgColor (solver.truncate s) = sv_dbgColor s" "sv_dbgStage (solver.truncate s) = sv_dbgStage s"
    by (simp_all add: solver.truncate_def)
  have "colours_cmds (solver.truncate s) d ks = colours_cmds s d ks" for d ks
    by (cases d; induction ks) (auto simp: colour count dbg Let_def)
  then show "iteration_cmds (solver.truncate s) fin = iteration_cmds s fin"
    by (simp add: iteration_cmds_def dbg numColors_def solver.truncate_def)
  show "duals_cmds (solver.truncate s) = duals_cmds s" "copy_acts (solver.truncate s) d = copy_acts s d"
    by (simp_all add: duals_cmds_def dual_attachment_cmd_def dual_membrane_cmd_def dual_bending_cmd_def copy_acts_def solver.truncate_def)
  show "sv_dbgColor (solver.truncate s) = sv_dbgColor s" by (rule dbg)
qed

text \<open>A program does \<open>as\<close> from every state with plan \<open>p\<close>.\<close>

definition does :: "'w aenv \<Rightarrow> solver \<times> bool \<Rightarrow> ('w, unit) arun \<Rightarrow> act list \<Rightarrow> bool" where
  "does E p m as \<longleftrightarrow> (\<forall>s. plan_of (fst s) = p \<longrightarrow> m s = do_acts E as s)"

definition leads :: "'w aenv \<Rightarrow> solver \<times> bool \<Rightarrow> act list \<Rightarrow> solver \<times> bool \<Rightarrow> bool" where
  "leads E p as q \<longleftrightarrow> (\<forall>s x s'. plan_of (fst s) = p \<longrightarrow> do_acts E as s = (Some x, s') \<longrightarrow> plan_of (fst s') = q)"

lemma does_then: "does E p m as \<Longrightarrow> leads E p as q \<Longrightarrow> does E q n bs \<Longrightarrow> does E p (thenR m n) (as @ bs)"
  unfolding does_def leads_def do_acts_def map_append steps_append
  by (intro allI impI thenR_cong) (drule spec, erule (1) mp, blast)

lemma does_ret: "does E p (ret ()) []"
  by (simp add: does_def do_acts_def steps_def)

lemma does_ask: "(\<And>s. plan_of s = p \<Longrightarrow> does E p (f s) as) \<Longrightarrow> does E p (bindR askA f) as"
  by (auto simp: does_def bindR_def askA_def)

lemma does_act: "does E p (do_act E a) [a]"
  by (simp add: does_def do_acts_def steps_def thenR_ret)

lemma does_cmds: "does E p (performs E cs) (map Cmd cs)"
  by (simp add: does_def do_acts_def performs_def o_def)

fun plan_after :: "act \<Rightarrow> solver \<times> bool \<Rightarrow> solver \<times> bool" where
  "plan_after Dirty p = (fst p, True)"
| "plan_after Snapped p = (fst p, False)"
| "plan_after a p = p"

abbreviation planned :: "solver \<times> bool \<Rightarrow> avbd \<times> 'w \<Rightarrow> bool" where
  "planned p s \<equiv> plan_of (fst s) = p"

lemma planned_dv: "safe (\<lambda>s. True) (planned p) (dv m) (planned p)"
  by (auto simp: safe_def dv_def plan_of_def solver.truncate_def split: prod.splits option.splits)

lemma planned_upd:
  "safe (\<lambda>s. True) (planned p) (updA (\<lambda>s. s\<lparr>av_sets := f s\<rparr>)) (planned p)"
  "safe (\<lambda>s. True) (planned p) (set_err e) (planned p)"
  by (auto simp: safe_def updA_def set_err_def plan_of_def solver.truncate_def)

lemma same_askA: "(\<And>s. safe K P (f s) P) \<Longrightarrow> safe K P (bindR askA f) P"
  by (simp add: safe_def bindR_def askA_def)

lemma same_steps: "\<forall>m\<in>set ms. safe K P m P \<Longrightarrow> safe K P (steps ms) P"
  by (induction ms) (simp_all add: steps_def safe_ret same_then)

lemma same_sum: "(\<And>e. safe K P (f e) P) \<Longrightarrow> (\<And>r. safe K P (g r) P) \<Longrightarrow> safe K P (case v of Inl e \<Rightarrow> f e | Inr r \<Rightarrow> g r) P"
  by (cases v) simp_all

lemma same_never: "safe (\<lambda>s. True) P never P"
  by (simp add: safe_def never_def)

lemmas planned_rules = same_askA same_bind same_then same_if same_option same_sum safe_ret same_never planned_dv planned_upd

lemma planned_set_for: "safe (\<lambda>s. True) (planned p) (set_for E kn c bs) (planned p)"
  unfolding set_for_def Let_def by (intro planned_rules)

lemma planned_dispatch: "safe (\<lambda>s. True) (planned p) (av_dispatch E kn c n bs) (planned p)"
  unfolding av_dispatch_def by (intro planned_rules planned_set_for same_steps) (simp add: planned_dv)

lemma planned_cmd: "safe (\<lambda>s. True) (planned p) (perform E c) (planned p)"
  by (cases c) (simp_all add: void_def same_bind safe_ret planned_dispatch planned_dv)

lemma planned_copy: "safe (\<lambda>s. True) (planned p) (copy_buf E f g) (planned p)"
  unfolding copy_buf_def void_def by (intro planned_rules)

lemma leads_act: "leads E p [a] (plan_after a p)"
proof -
  have "safe (\<lambda>s. True) (planned p) (do_act E a) (planned (plan_after a p))"
    by (cases a) (simp_all add: planned_cmd planned_copy planned_dv void_def same_bind safe_ret,
        auto simp: safe_def updA_def mark_lambdas_dirty_def plan_of_def solver.truncate_def)
  then show ?thesis
    unfolding leads_def do_acts_def by (auto simp: steps_def thenR_ret safe_def split: prod.splits option.splits)
qed

lemma leads_append:
  assumes "leads E p as q" "leads E q bs r"
  shows "leads E p (as @ bs) r"
  unfolding leads_def
proof (intro allI impI)
  fix s x s'
  assume p: "planned p s" and run: "do_acts E (as @ bs) s = (Some x, s')"
  obtain y s1 where s1: "do_acts E as s = (Some y, s1)" "do_acts E bs s1 = (Some x, s')"
    using run unfolding do_acts_def map_append steps_append thenR_def bindR_def by (auto split: prod.splits option.splits)
  then have "planned q s1" using assms(1) p unfolding leads_def by blast
  then show "planned r s'" using assms(2) s1(2) unfolding leads_def by blast
qed

lemma leads_fold: "leads E p as (fold plan_after as p)"
proof (induction as arbitrary: p)
  case Nil
  then show ?case by (simp add: leads_def do_acts_def steps_def ret_def)
next
  case (Cons a as)
  have "leads E p ([a] @ as) (fold plan_after as (plan_after a p))" by (rule leads_append [OF leads_act Cons.IH])
  then show ?case by simp
qed

lemma does_seq: "does E p m as \<Longrightarrow> does E (fold plan_after as p) n bs \<Longrightarrow> does E p (thenR m n) (as @ bs)"
  by (rule does_then [OF _ leads_fold])

lemma plan_cmds: "fold plan_after (map Cmd cs) p = p"
  by (induction cs) simp_all

lemma plan_dirty:
  assumes "plan_of t = (fst (plan_of s), d)"
  shows "iteration_cmds t fin = iteration_cmds s fin" "duals_cmds t = duals_cmds s" "copy_acts t e = copy_acts s e"
    "sv_dbgColor t = sv_dbgColor s" "av_lambdasDirty t = d"
proof -
  have tr: "solver.truncate t = solver.truncate s" and d: "av_lambdasDirty t = d" using assms by (simp_all add: plan_of_def)
  show "av_lambdasDirty t = d" by (rule d)
  show "iteration_cmds t fin = iteration_cmds s fin" by (subst (1 2) cmds_truncate(1) [symmetric]) (simp only: tr)
  show "duals_cmds t = duals_cmds s" by (subst (1 2) cmds_truncate(2) [symmetric]) (simp only: tr)
  show "copy_acts t e = copy_acts s e" by (subst (1 2) cmds_truncate(3) [symmetric]) (simp only: tr)
  show "sv_dbgColor t = sv_dbgColor s" by (subst (1 2) cmds_truncate(4) [symmetric]) (simp only: tr)
qed

text \<open>The parts of \<open>record_run\<close>, from a state with the plan of \<open>s\<close> whose duals may have become dirty.\<close>

lemma does_iteration: "does E (fst (plan_of s), d) (record_iteration E fin) (map Cmd (iteration_cmds s fin))"
  unfolding record_iteration_def by (intro does_ask) (simp add: plan_dirty does_cmds)

lemma does_duals: "does E (fst (plan_of s), d) (record_duals E) (duals_acts s)"
proof -
  have "does E (fst (plan_of s), True) (bindR askA (\<lambda>t. performs E (duals_cmds t))) (map Cmd (duals_cmds s))"
    by (intro does_ask) (simp add: plan_dirty does_cmds)
  then have "does E (fst (plan_of s), d) (thenR (do_act E Dirty) (bindR askA (\<lambda>t. performs E (duals_cmds t))))
      ([Dirty] @ map Cmd (duals_cmds s))"
    by (intro does_seq does_act) simp
  then show ?thesis by (simp add: record_duals_def duals_acts_def)
qed

lemma does_turn:
  "does E (fst (plan_of s), d) (thenR (record_iteration E False) (if duals then record_duals E else ret ())) (turn_acts s duals)"
  unfolding turn_acts_def
  by (intro does_seq does_iteration) (simp add: plan_cmds does_duals does_ret)

lemma turn_plan: "fold plan_after (turn_acts s duals) p = (fst p, snd p \<or> duals)"
  by (cases p) (simp add: turn_acts_def duals_acts_def plan_cmds)

lemma turns_plan: "fold plan_after (concat (replicate n (turn_acts s duals))) p = (fst p, snd p \<or> 0 < n \<and> duals)"
  by (induction n arbitrary: p) (auto simp: turn_plan)

lemma does_turns:
  assumes "length its = n"
  shows "does E (fst (plan_of s), d)
    (steps (map (\<lambda>it. thenR (record_iteration E False) (if duals then record_duals E else ret ())) its))
    (concat (replicate n (turn_acts s duals)))"
  using assms
proof (induction its arbitrary: n d)
  case Nil
  then show ?case by (simp add: steps_def does_ret)
next
  case (Cons it its)
  then obtain m where m: "n = Suc m" "length its = m" by (cases n) simp_all
  have "does E (fst (plan_of s), d)
     (thenR (thenR (record_iteration E False) (if duals then record_duals E else ret ()))
        (steps (map (\<lambda>it. thenR (record_iteration E False) (if duals then record_duals E else ret ())) its)))
     (turn_acts s duals @ concat (replicate m (turn_acts s duals)))"
    using Cons.IH [OF m(2), of "d \<or> duals"] by (intro does_seq does_turn) (simp add: turn_plan)
  then show ?case using m by (simp add: steps_Cons)
qed

lemma does_early:
  "does E (fst (plan_of s), d)
    (if 1 < iters
     then steps [void (dv (list_begin (ae_host E))),
            steps (map (\<lambda>it. thenR (record_iteration E False) (if duals then record_duals E else ret ())) [0..<nat (iters - 1)]),
            dv (list_end (ae_host E))]
     else ret ()) (early_acts s iters duals)"
proof (cases "1 < iters")
  case True
  let ?turns = "steps (map (\<lambda>it. thenR (record_iteration E False) (if duals then record_duals E else ret ())) [0..<nat (iters - 1)])"
  have "does E (fst (plan_of s), d) ?turns (concat (replicate (nat (iters - 1)) (turn_acts s duals)))" for d
    by (intro does_turns) simp
  moreover have "does E p (steps [dv (list_end (ae_host E))]) [List_end]" for p
    using does_act [of E p List_end] by (simp add: does_def steps_def thenR_ret)
  ultimately have "does E (fst (plan_of s), d) (steps [?turns, dv (list_end (ae_host E))])
      (concat (replicate (nat (iters - 1)) (turn_acts s duals)) @ [List_end])" for d
    unfolding steps_Cons [of ?turns] by (intro does_seq) simp_all
  then have "does E (fst (plan_of s), d) (thenR (do_act E List_begin) (steps [?turns, dv (list_end (ae_host E))]))
      ([List_begin] @ concat (replicate (nat (iters - 1)) (turn_acts s duals)) @ [List_end])"
    by (intro does_seq does_act) simp
  then show ?thesis using True by (simp add: early_acts_def steps_Cons)
qed (simp add: does_ret early_acts_def)

lemma early_plan: "fold plan_after (early_acts s iters duals) p = (fst p, snd p \<or> 1 < iters \<and> duals)"
  by (cases p) (auto simp: early_acts_def turns_plan)

lemma does_map: "does E p (steps (map (do_act E) as)) as"
  by (simp add: does_def do_acts_def)

lemma does_snapshot: "does E (fst (plan_of s), d) (snapshot_pre_step E) (copy_acts s d @ [Snapped])"
proof -
  have copies: "map (\<lambda>(f, g). copy_buf E f g) (snapshot_copies t) = map (do_act E) (copy_acts t (av_lambdasDirty t))" for t
    by (simp add: snapshot_copies_def copy_acts_def)
  have "does E (fst (plan_of s), d)
      (steps (map (\<lambda>(f, g). copy_buf E f g) (snapshot_copies t) @ [updA (\<lambda>s. s\<lparr>av_lambdasDirty := False, av_hasStep := True\<rparr>)]))
      (copy_acts s d @ [Snapped])" if "plan_of t = (fst (plan_of s), d)" for t
    using does_map [of E "(fst (plan_of s), d)" "copy_acts s d @ [Snapped]"] that by (simp add: copies plan_dirty)
  then show ?thesis unfolding snapshot_pre_step_def by (intro does_ask) simp
qed

lemma copy_plan: "fold plan_after (copy_acts s d) p = p"
  by (simp add: copy_acts_def)

lemma does_last:
  "does E (fst (plan_of s), d)
     (steps [void (dv (list_begin (ae_host E))), record_iteration E True,
        bindR askA (\<lambda>t. if duals \<and> sv_dbgColor t < 0 then record_duals E else ret ())]) (last_acts s duals)"
proof -
  have "does E (fst (plan_of s), d) (bindR askA (\<lambda>t. if duals \<and> sv_dbgColor t < 0 then record_duals E else ret ()))
      (if duals \<and> sv_dbgColor s < 0 then duals_acts s else [])"
    by (intro does_ask) (auto simp: plan_dirty does_duals does_ret)
  then have "does E (fst (plan_of s), d)
      (thenR (do_act E List_begin) (thenR (record_iteration E True)
        (bindR askA (\<lambda>t. if duals \<and> sv_dbgColor t < 0 then record_duals E else ret ()))))
      ([List_begin] @ map Cmd (iteration_cmds s True) @ (if duals \<and> sv_dbgColor s < 0 then duals_acts s else []))"
    by (intro does_seq does_act does_iteration) (simp_all add: plan_cmds does_iteration)
  then show ?thesis by (simp add: last_acts_def steps_Cons [of _ "_ # _"] steps_single)
qed

theorem record_run_acts: "record_run E iters duals s = do_acts E (run_acts (fst s) iters duals) s"
proof -
  let ?p = "plan_of (fst s)" and ?d = "av_lambdasDirty (fst s) \<or> 1 < iters \<and> duals"
  have p: "?p = (fst ?p, av_lambdasDirty (fst s))" by (simp add: plan_of_def)
  have "does E ?p (record_run E iters duals) (run_acts (fst s) iters duals)"
    unfolding record_run_def run_acts_def steps_Cons [of _ "[_, _, _, _]"]
  proof (rule does_seq)
    show "does E ?p (if 1 < iters
      then steps [void (dv (list_begin (ae_host E))),
             steps (map (\<lambda>it. thenR (record_iteration E False) (if duals then record_duals E else ret ())) [0..<nat (iters - 1)]),
             dv (list_end (ae_host E))]
      else ret ()) (early_acts (fst s) iters duals)"
      by (subst p) (rule does_early)
    have "does E (fst ?p, ?d)
       (thenR (snapshot_pre_step E) (steps [void (dv (list_begin (ae_host E))), record_iteration E True,
          bindR askA (\<lambda>s. if duals \<and> sv_dbgColor s < 0 then record_duals E else ret ())]))
       ((copy_acts (fst s) ?d @ [Snapped]) @ last_acts (fst s) duals)"
      by (intro does_seq does_snapshot) (simp add: copy_plan does_last)
    then show "does E (fold plan_after (early_acts (fst s) iters duals) ?p)
       (steps [snapshot_pre_step E, void (dv (list_begin (ae_host E))), record_iteration E True,
          bindR askA (\<lambda>s. if duals \<and> sv_dbgColor s < 0 then record_duals E else ret ())])
       (copy_acts (fst s) ?d @ [Snapped] @ last_acts (fst s) duals)"
      by (simp add: early_plan steps_Cons [of "snapshot_pre_step E"] plan_of_def)
  qed
  then show ?thesis unfolding does_def by blast
qed

end
