(* ===== verification/AvbdRace.thy ===== *)
theory AvbdRace
  imports AvbdSchedule
begin

text \<open>
  What the dispatches of \<open>AvbdRd\<close> touch, and that threads of dispatches which write nothing
  the other touches may run in any order.
\<close>

section \<open>The buffers a dispatch touches\<close>

definition touched :: "binds \<Rightarrow> field set" where
  "touched bs = snd ` set bs"

definition written :: "string \<Rightarrow> binds \<Rightarrow> field set" where
  "written kn bs = {f. \<exists>name. (name, f) \<in> set bs \<and> writable kn name}"

lemma written_touched: "written kn bs \<subseteq> touched bs"
  by (force simp: written_def touched_def)

lemma written_simps:
  "written kn [] = {}"
  "written kn ((name, f) # bs) = (if writable kn name then insert f (written kn bs) else written kn bs)"
  by (auto simp: written_def)

lemma write_back_other:
  "f \<notin> written kn bs \<Longrightarrow> fold (\<lambda>(name, f) m. if writable kn name then m(f := after name) else m) bs m f = m f"
  by (induction bs arbitrary: m) (auto simp: written_simps split: if_splits)

lemma write_back_cong:
  assumes "f \<in> written kn bs \<or> m f = m' f"
  shows "fold (\<lambda>(name, f) m. if writable kn name then m(f := after name) else m) bs m f =
    fold (\<lambda>(name, f) m. if writable kn name then m(f := after name) else m) bs m' f"
  using assms
proof (induction bs arbitrary: m m')
  case (Cons nf bs)
  obtain name g where nf: "nf = (name, g)" by (rule prod.exhaust)
  show ?case
  proof (cases "writable kn name")
    case True
    then show ?thesis using Cons.prems unfolding nf by (simp add: written_simps) (intro Cons.IH, auto)
  next
    case False
    then show ?thesis using Cons.prems unfolding nf by (simp add: written_simps Cons.IH)
  qed
qed (simp add: written_simps)

lemma run_lane_other: "f \<notin> written kn bs \<Longrightarrow> run_lane K kn ps bs lane m f = m f"
  unfolding run_lane_def Let_def by (rule write_back_other)

lemma bound_cong: "\<forall>f\<in>touched bs. m f = m' f \<Longrightarrow> bound bs m = bound bs m'"
  by (auto simp: bound_def fun_eq_iff touched_def split: option.splits dest!: map_of_SomeD)

lemma run_lane_cong:
  assumes "\<forall>f\<in>touched bs. m f = m' f" "f \<in> touched bs"
  shows "run_lane K kn ps bs lane m f = run_lane K kn ps bs lane m' f"
proof -
  have "m f = m' f" using assms by blast
  then show ?thesis unfolding run_lane_def Let_def bound_cong [OF assms(1)] by (intro write_back_cong disjI2)
qed

text \<open>Neither writes what the other touches.\<close>

definition apart :: "string \<times> binds \<Rightarrow> string \<times> binds \<Rightarrow> bool" where
  "apart d e \<longleftrightarrow> written (fst d) (snd d) \<inter> touched (snd e) = {} \<and> written (fst e) (snd e) \<inter> touched (snd d) = {}"

lemma run_lane_commute:
  assumes "apart (kn, bs) (kn', bs')"
  shows "run_lane K kn ps bs i (run_lane K kn' ps' bs' j m) = run_lane K kn' ps' bs' j (run_lane K kn ps bs i m)"
proof (rule ext)
  fix f
  have w: "g \<notin> written kn' bs'" if "g \<in> touched bs" for g using assms that by (auto simp: apart_def)
  have w': "g \<notin> written kn bs" if "g \<in> touched bs'" for g using assms that by (auto simp: apart_def)
  have eq: "\<forall>g\<in>touched bs. run_lane K kn' ps' bs' j m g = m g" "\<forall>g\<in>touched bs'. run_lane K kn ps bs i m g = m g"
    using run_lane_other w w' by blast+
  show "run_lane K kn ps bs i (run_lane K kn' ps' bs' j m) f = run_lane K kn' ps' bs' j (run_lane K kn ps bs i m) f"
  proof (cases "f \<in> touched bs")
    case True
    show ?thesis unfolding run_lane_cong [OF eq(1) True] run_lane_other [OF w [OF True]] ..
  next
    case False
    then have nf: "f \<notin> written kn bs" using written_touched by blast
    show ?thesis
    proof (cases "f \<in> touched bs'")
      case True
      show ?thesis unfolding run_lane_other [OF nf] run_lane_cong [OF eq(2) True] ..
    next
      case False
      then have nf': "f \<notin> written kn' bs'" using written_touched by blast
      show ?thesis by (simp only: run_lane_other [OF nf] run_lane_other [OF nf'])
    qed
  qed
qed

section \<open>Any order of the threads\<close>

text \<open>
  Steps of different keys commute, so a run in which the keys are mixed is the run of one key
  after the other.
\<close>

lemma fold_swap:
  assumes "\<forall>y\<in>set ys. \<forall>s. f x (f y s) = f y (f x s)"
  shows "fold f ys (f x s) = f x (fold f ys s)"
  using assms
proof (induction ys arbitrary: s)
  case (Cons y ys)
  have "f y (f x s) = f x (f y s)" using Cons.prems by (metis list.set_intros(1))
  moreover have "fold f ys (f x (f y s)) = f x (fold f ys (f y s))" using Cons.prems by (intro Cons.IH) simp
  ultimately show ?case by (simp only: fold_simps)
qed simp

lemma fold_partition:
  assumes "\<forall>x\<in>set xs. \<forall>y\<in>set xs. P x \<noteq> P y \<longrightarrow> (\<forall>s. f x (f y s) = f y (f x s))"
  shows "fold f xs s = fold f (filter P xs @ filter (\<lambda>x. \<not> P x) xs) s"
  using assms
proof (induction xs arbitrary: s)
  case (Cons x xs)
  have "\<forall>x\<in>set xs. \<forall>y\<in>set xs. P x \<noteq> P y \<longrightarrow> (\<forall>s. f x (f y s) = f y (f x s))"
    using Cons.prems by (metis list.set_intros(2))
  then have IH: "fold f xs s = fold f (filter P xs @ filter (\<lambda>x. \<not> P x) xs) s" for s by (rule Cons.IH)
  show ?case
  proof (cases "P x")
    case True
    then show ?thesis using IH by (simp only: filter.simps if_True if_False not_True_eq_False fold_simps append_Cons)
  next
    case False
    have "\<forall>y\<in>set (filter P xs). \<forall>s. f x (f y s) = f y (f x s)"
      using Cons.prems False by (metis filter_is_subset list.set_intros(1) list.set_intros(2) mem_Collect_eq set_filter subsetD)
    then have "fold f (filter P xs) (f x s) = f x (fold f (filter P xs) s)" by (rule fold_swap)
    then show ?thesis using IH False by (simp only: filter.simps if_False if_True not_False_eq_True fold_simps fold_append o_apply)
  qed
qed simp

lemma fold_by_key:
  assumes "\<forall>x\<in>set xs. \<forall>y\<in>set xs. key x \<noteq> key y \<longrightarrow> (\<forall>s. f x (f y s) = f y (f x s))"
    and "key ` set xs \<subseteq> set ks" "distinct ks"
  shows "fold f xs s = fold f (concat (map (\<lambda>k. filter (\<lambda>x. key x = k) xs) ks)) s"
  using assms
proof (induction ks arbitrary: xs s)
  case (Cons k ks)
  let ?rest = "filter (\<lambda>x. key x \<noteq> k) xs"
  have "\<forall>x\<in>set xs. \<forall>y\<in>set xs. (key x = k) \<noteq> (key y = k) \<longrightarrow> (\<forall>s. f x (f y s) = f y (f x s))"
    using Cons.prems(1) by metis
  from fold_partition [OF this] have "fold f xs s = fold f ?rest (fold f (filter (\<lambda>x. key x = k) xs) s)"
    by (simp only: fold_append o_apply)
  also have "fold f ?rest t = fold f (concat (map (\<lambda>k. filter (\<lambda>x. key x = k) ?rest) ks)) t" for t
  proof (rule Cons.IH)
    show "\<forall>x\<in>set ?rest. \<forall>y\<in>set ?rest. key x \<noteq> key y \<longrightarrow> (\<forall>s. f x (f y s) = f y (f x s))"
      using Cons.prems(1) by (metis filter_is_subset subsetD)
  qed (use Cons.prems in auto)
  also have "map (\<lambda>j. filter (\<lambda>x. key x = j) ?rest) ks = map (\<lambda>j. filter (\<lambda>x. key x = j) xs) ks"
    using Cons.prems(3) by (intro map_cong refl) (auto intro!: filter_cong)
  finally show ?case by (simp only: list.map concat.simps fold_append o_apply)
qed simp

end
