(* ===== verification/AvbdEquiv.thy ===== *)
theory AvbdEquiv
  imports AvbdRace
begin

text \<open>
  A run of \<open>AvbdRd\<close> leaves in its buffers what \<open>AvbdCpu\<close> computes, whatever order the GPU runs
  the threads between two barriers in.
\<close>

section \<open>The memory after a run\<close>

fun cmd_touched :: "cmd \<Rightarrow> field set" where
  "cmd_touched (Dispatch kn color threads bs) = touched bs"
| "cmd_touched Barrier = {}"

fun cmd_written :: "cmd \<Rightarrow> field set" where
  "cmd_written (Dispatch kn color threads bs) = written kn bs"
| "cmd_written Barrier = {}"

lemma fold_lanes_other: "f \<notin> written kn bs \<Longrightarrow> fold (run_lane K kn ps bs) ls m f = m f"
  by (induction ls arbitrary: m) (simp_all add: run_lane_other)

lemma exec_cmd_other: "f \<notin> cmd_written c \<Longrightarrow> exec_cmd K s c m f = m f"
  by (cases c) (simp_all add: run_kernel_def fold_lanes_other)

lemma exec_other: "\<forall>c\<in>set cs. f \<notin> cmd_written c \<Longrightarrow> exec K s cs m f = m f"
  by (induction cs arbitrary: m) (simp_all add: exec_cmd_other)

text \<open>Memories that differ on \<open>F\<close> only stay so, when nothing run touches \<open>F\<close>.\<close>

definition agree :: "field set \<Rightarrow> mem \<Rightarrow> mem \<Rightarrow> bool" where
  "agree F m m' \<longleftrightarrow> (\<forall>f. f \<notin> F \<longrightarrow> m f = m' f)"

lemma agree_lane:
  assumes "agree F m m'" "touched bs \<inter> F = {}"
  shows "agree F (run_lane K kn ps bs l m) (run_lane K kn ps bs l m')"
  unfolding agree_def
proof (intro allI impI)
  fix f
  assume f: "f \<notin> F"
  have eq: "\<forall>g\<in>touched bs. m g = m' g" using assms by (auto simp: agree_def)
  show "run_lane K kn ps bs l m f = run_lane K kn ps bs l m' f"
  proof (cases "f \<in> touched bs")
    case True
    then show ?thesis by (rule run_lane_cong [OF eq])
  next
    case False
    then have "f \<notin> written kn bs" using written_touched by blast
    then show ?thesis using assms(1) f by (simp add: run_lane_other agree_def)
  qed
qed

lemma agree_cmd: "agree F m m' \<Longrightarrow> cmd_touched c \<inter> F = {} \<Longrightarrow> agree F (exec_cmd K s c m) (exec_cmd K s c m')"
proof (cases c)
  case (Dispatch kn color threads bs)
  assume "agree F m m'" "cmd_touched c \<inter> F = {}"
  then have "agree F (fold (run_lane K kn ps bs) ls m) (fold (run_lane K kn ps bs) ls m')" for ps ls
    using Dispatch by (induction ls arbitrary: m m') (simp_all add: agree_lane)
  then show ?thesis by (simp add: Dispatch run_kernel_def)
qed simp

lemma agree_exec: "\<forall>c\<in>set cs. cmd_touched c \<inter> F = {} \<Longrightarrow> agree F m m' \<Longrightarrow> agree F (exec K s cs m) (exec K s cs m')"
  by (induction cs arbitrary: m m') (simp_all add: agree_cmd)

definition pre_fields :: "field set" where
  "pre_fields = {F_positionsPre, F_tri_l0Pre, F_tri_l1Pre, F_bd_lambdaPre}"

text \<open>What the commands of an iteration and of the duals touch and write.\<close>

lemma table_kernels:
  "table_find ''vbd_init'' = Some (Kernel_desc ''vbd_init'' 64 kBindings_vbd_init 0)"
  "table_find ''spring_force'' = Some (Kernel_desc ''spring_force'' 64 kBindings_spring_force (- 1))"
  "table_find ''attachment_force_al'' = Some (Kernel_desc ''attachment_force_al'' 64 kBindings_attachment_force_al (- 1))"
  "table_find ''triangle_membrane_force_al'' = Some (Kernel_desc ''triangle_membrane_force_al'' 64 kBindings_triangle_membrane_force_al (- 1))"
  "table_find ''triangle_bending_force_al'' = Some (Kernel_desc ''triangle_bending_force_al'' 64 kBindings_triangle_bending_force_al (- 1))"
  "table_find ''vbd_gather_spring'' = Some (Kernel_desc ''vbd_gather_spring'' 64 kBindings_vbd_gather_spring 8)"
  "table_find ''vbd_gather_attachment'' = Some (Kernel_desc ''vbd_gather_attachment'' 64 kBindings_vbd_gather_attachment 7)"
  "table_find ''vbd_gather_triangle'' = Some (Kernel_desc ''vbd_gather_triangle'' 64 kBindings_vbd_gather_triangle 8)"
  "table_find ''vbd_gather_bending'' = Some (Kernel_desc ''vbd_gather_bending'' 64 kBindings_vbd_gather_bending 8)"
  "table_find ''vbd_solve_apply'' = Some (Kernel_desc ''vbd_solve_apply'' 64 kBindings_vbd_solve_apply 4)"
  "table_find ''attachment_dual_update'' = Some (Kernel_desc ''attachment_dual_update'' 64 kBindings_attachment_dual_update 5)"
  "table_find ''triangle_membrane_dual_update'' = Some (Kernel_desc ''triangle_membrane_dual_update'' 64 kBindings_triangle_membrane_dual_update 6)"
  "table_find ''triangle_bending_dual_update'' = Some (Kernel_desc ''triangle_bending_dual_update'' 64 kBindings_triangle_bending_dual_update 6)"
  by (simp_all add: table_find_def kAvbdKernels_def)

lemma writable_table: "table_find kn = Some k \<Longrightarrow> writable kn name = list_ex (\<lambda>b. bd_name b = name \<and> \<not> bd_readonly b) (kd_bindings k)"
  by (simp add: writable_def)

lemmas written_table = written_simps table_kernels [THEN writable_table]

lemma touched_simps: "touched [] = {}" "touched ((name, f) # bs) = insert f (touched bs)"
  by (auto simp: touched_def)

lemma force_cmds_fields:
  "c \<in> set (force_cmds s k) \<Longrightarrow> cmd_touched c \<inter> pre_fields = {}"
  "c \<in> set (force_cmds s k) \<Longrightarrow> cmd_written c \<inter> {F_tri_l0, F_tri_l1, F_bd_lambda} = {}"
  by (auto simp: force_cmds_def when_some_def touched_simps pre_fields_def written_table kBindings_defs split: if_splits)

lemma gather_cmds_fields:
  assumes "c \<in> set (gather_spring_cmds s k) \<or> c \<in> set (gather_attachment_cmds s k) \<or> c \<in> set (gather_triangle_cmds s k) \<or>
    c \<in> set (gather_bending_cmds s k) \<or> c \<in> set (solve_cmds s k)"
  shows "cmd_touched c \<inter> pre_fields = {}" "cmd_written c \<inter> {F_tri_l0, F_tri_l1, F_bd_lambda} = {}"
  using assms
  by (auto simp: gather_spring_cmds_def gather_attachment_cmds_def gather_triangle_cmds_def gather_bending_cmds_def
      solve_cmds_def when_some_def touched_simps pre_fields_def written_table kBindings_defs split: if_splits)

lemma iteration_fields:
  assumes "c \<in> set (iteration_cmds s fin)"
  shows "cmd_touched c \<inter> pre_fields = {}" "cmd_written c \<inter> {F_tri_l0, F_tri_l1, F_bd_lambda} = {}"
proof -
  have colour: "cmd_touched c \<inter> pre_fields = {} \<and> cmd_written c \<inter> {F_tri_l0, F_tri_l1, F_bd_lambda} = {}"
    if "c \<in> set (colour_cmds s k u)" for k u
    using that force_cmds_fields [of c s k] gather_cmds_fields [of c s k] by (fastforce simp: colour_cmds_def split: if_splits)
  have "c \<in> set (colours_cmds s dbg ks) \<Longrightarrow> \<exists>k u. c \<in> set (colour_cmds s k u)" for dbg ks
    by (induction ks) (auto simp: Let_def split: if_splits)
  from this [OF assms [unfolded iteration_cmds_def]] obtain k u where "c \<in> set (colour_cmds s k u)" by blast
  with colour show "cmd_touched c \<inter> pre_fields = {}" "cmd_written c \<inter> {F_tri_l0, F_tri_l1, F_bd_lambda} = {}" by simp_all
qed

lemma duals_fields:
  assumes "c \<in> set (duals_cmds s)"
  shows "cmd_touched c \<inter> pre_fields = {}"
    "sv_nTri s = 0 \<Longrightarrow> cmd_written c \<inter> {F_tri_l0, F_tri_l1} = {}" "sv_nBend s = 0 \<Longrightarrow> F_bd_lambda \<notin> cmd_written c"
  using assms
  by (auto simp: duals_cmds_def dual_attachment_cmd_def dual_membrane_cmd_def dual_bending_cmd_def when_some_def touched_simps
      pre_fields_def written_table kBindings_defs split: if_splits)

subsection \<open>Turns\<close>

abbreviation exec_acts :: "kernels \<Rightarrow> 'a solver_scheme \<Rightarrow> act list \<Rightarrow> mem \<Rightarrow> mem" where
  "exec_acts K s as m \<equiv> fold (exec_act K s) as m"

lemma exec_map_cmds: "exec_acts K s (map Cmd cs) m = exec K s cs m"
  by (induction cs arbitrary: m) simp_all

text \<open>The memory after one turn, on either side.\<close>

definition turn :: "kernels \<Rightarrow> 'a solver_scheme \<Rightarrow> bool \<Rightarrow> mem \<Rightarrow> mem" where
  "turn K s duals m = (let m = exec K s (iteration_cmds s False) m in if duals then exec K s (duals_cmds s) m else m)"

lemma exec_turn: "exec_acts K s (turn_acts s duals) m = turn K s duals m"
  by (simp add: turn_acts_def duals_acts_def turn_def exec_map_cmds)

lemma exec_turns: "exec_acts K s (concat (replicate n (turn_acts s duals))) m = (turn K s duals ^^ n) m"
  by (induction n arbitrary: m) (simp_all add: exec_turn funpow_swap1)

lemma exec_early: "exec_acts K s (early_acts s iters duals) m = (turn K s duals ^^ nat (iters - 1)) m"
  by (simp add: early_acts_def exec_turns)

lemma exec_iteration:
  "exec K s (iteration_cmds s fin) m =
   cpu_colours K s (if fin \<and> 0 \<le> sv_dbgColor s then sv_dbgColor s else - 1) (if fin \<and> 0 \<le> sv_dbgColor s then sv_dbgStage s else 5)
     [0..<numColors s] m"
  unfolding iteration_cmds_def by (rule exec_colours) simp

lemma cpu_step_exec:
  assumes "sv_meshReady c"
  shows "cpu_step_impl K (if fin \<and> 0 \<le> sv_dbgColor c then sv_dbgColor c else - 1)
      (if fin \<and> 0 \<le> sv_dbgColor c then sv_dbgStage c else 5) c =
    (0, c\<lparr>cp_mem := exec K c (iteration_cmds c fin) (keep_pre (cp_mem c))\<rparr>)"
  using assms by (simp add: cpu_step_impl_def exec_iteration)

lemma exec_dual_cmd:
  "sv_nAttach s \<noteq> 0 \<Longrightarrow> exec_cmd K s (dual_attachment_cmd s) m =
     run_kernel K ''attachment_dual_update'' (sv_nAttach s) [sv_beta s, sv_penaltyMax s, sv_nAttach s]
       [(''positions'', F_positions), (''vertIdx'', F_at_vert), (''fixedPos'', F_at_fixed), (''gamma'', F_at_gamma), (''lambda'', F_at_lambda)] m"
  by (simp add: dual_attachment_cmd_def exec_simps)

lemma cpu_duals_exec:
  assumes "sv_meshReady c"
  shows "(let (r, c) = cpu_stepDualAttachments K c; (r, c) = cpu_stepDualMembrane K c; (r, c) = cpu_stepDualBending K c in f c) =
    f (c\<lparr>cp_mem := exec K c (duals_cmds c) (cp_mem c)\<rparr>)"
  using assms
  by (simp add: cpu_stepDualAttachments_def cpu_stepDualMembrane_def cpu_stepDualBending_def duals_cmds_def
      dual_attachment_cmd_def dual_membrane_cmd_def dual_bending_cmd_def exec_simps)

text \<open>What the two sides read of a solver is in its common members.\<close>

lemma exec_truncate: "exec_cmd K (solver.truncate s) c = exec_cmd K s c"
proof
  fix m
  have "cmd_params (solver.truncate s) kn color = cmd_params s kn color" for kn color
    by (simp add: cmd_params_def init_words_def dual_words_def colour_words_def colour_offset_def colour_count_def solver.truncate_def)
  then show "exec_cmd K (solver.truncate s) c m = exec_cmd K s c m" by (cases c) simp_all
qed

lemma same_plan:
  assumes "solver.truncate s = solver.truncate t"
  shows "exec_cmd K s = exec_cmd K t" "iteration_cmds s fin = iteration_cmds t fin" "duals_cmds s = duals_cmds t"
    "copy_acts s d = copy_acts t d" "sv_dbgColor s = sv_dbgColor t" "turn K s duals = turn K t duals"
proof -
  show 1: "exec_cmd K s = exec_cmd K t" using exec_truncate [of K s] exec_truncate [of K t] assms by (metis ext)
  show 2: "iteration_cmds s fin = iteration_cmds t fin" for fin using cmds_truncate(1) [of s] cmds_truncate(1) [of t] assms by metis
  show 3: "duals_cmds s = duals_cmds t" using cmds_truncate(2) [of s] cmds_truncate(2) [of t] assms by metis
  show "copy_acts s d = copy_acts t d" using cmds_truncate(3) [of s] cmds_truncate(3) [of t] assms by metis
  show "sv_dbgColor s = sv_dbgColor t" using cmds_truncate(4) [of s] cmds_truncate(4) [of t] assms by metis
  show "turn K s duals = turn K t duals" by (simp only: turn_def [abs_def] 1 2 3)
qed

lemma exec_act_plan:
  assumes "solver.truncate s = solver.truncate t"
  shows "exec_act K s = exec_act K t"
proof (rule ext, rule ext)
  fix a m
  have "exec_cmd K s = exec_cmd K t" by (rule same_plan [OF assms])
  then show "exec_act K s a m = exec_act K t a m" by (cases a) simp_all
qed

lemma truncate_mem: "solver.truncate (c\<lparr>cp_mem := m\<rparr>) = solver.truncate c"
  by (simp add: solver.truncate_def)

text \<open>All turns of \<open>run\<close> but the last are whole ones.\<close>

lemma cpu_run_turns:
  assumes "sv_meshReady c"
  shows "cpu_run_from K duals (Suc n) c =
    cpu_run_from K duals 1 (c\<lparr>cp_mem := ((\<lambda>m. turn K c duals (keep_pre m)) ^^ n) (cp_mem c)\<rparr>)"
  using assms
proof (induction n arbitrary: c)
  case (Suc n)
  let ?c = "c\<lparr>cp_mem := turn K c duals (keep_pre (cp_mem c))\<rparr>"
  let ?d = "c\<lparr>cp_mem := exec K c (iteration_cmds c False) (keep_pre (cp_mem c))\<rparr>"
  have d: "exec_cmd K ?d = exec_cmd K c" "duals_cmds ?d = duals_cmds c"
    by (rule same_plan [OF truncate_mem])+
  have "cpu_run_from K duals (Suc (Suc n)) c = cpu_run_from K duals (Suc n) ?c"
  proof (cases duals)
    case True
    have "cpu_run_from K duals (Suc (Suc n)) c =
      (let (r, s) = cpu_stepDualAttachments K ?d; (r, s) = cpu_stepDualMembrane K s; (r, s) = cpu_stepDualBending K s
       in cpu_run_from K duals (Suc n) s)"
      using cpu_step_exec [OF Suc.prems, of K False] True by (simp del: cpu_run_from.simps(2) add: cpu_run_from.simps(2) [of K True "Suc n" c])
    also have "\<dots> = cpu_run_from K duals (Suc n) (?d\<lparr>cp_mem := exec K ?d (duals_cmds ?d) (cp_mem ?d)\<rparr>)"
      using Suc.prems by (intro cpu_duals_exec) simp
    also have "?d\<lparr>cp_mem := exec K ?d (duals_cmds ?d) (cp_mem ?d)\<rparr> = ?c"
      using True by (simp add: d turn_def)
    finally show ?thesis .
  next
    case False
    then show ?thesis
      using cpu_step_exec [OF Suc.prems, of K False] by (simp add: turn_def)
  qed
  also have "\<dots> = cpu_run_from K duals 1 (?c\<lparr>cp_mem := ((\<lambda>m. turn K ?c duals (keep_pre m)) ^^ n) (cp_mem ?c)\<rparr>)"
    using Suc.prems by (intro Suc.IH) simp
  also have "turn K ?c duals = turn K c duals" by (rule same_plan [OF truncate_mem])
  finally show ?case by (simp del: cpu_run_from.simps funpow.simps add: funpow_Suc_right)
qed simp

subsection \<open>The last turn\<close>

lemma agree_refl: "agree F m m"
  by (simp add: agree_def)

lemma turn_agree: "agree pre_fields m m' \<Longrightarrow> agree pre_fields (turn K s duals m) (turn K s duals m')"
proof -
  assume m: "agree pre_fields m m'"
  have it: "\<forall>c\<in>set (iteration_cmds s False). cmd_touched c \<inter> pre_fields = {}" using iteration_fields(1) by blast
  have du: "\<forall>c\<in>set (duals_cmds s). cmd_touched c \<inter> pre_fields = {}" using duals_fields(1) by blast
  show ?thesis unfolding turn_def Let_def using agree_exec [OF du agree_exec [OF it m], of K s K s] agree_exec [OF it m, of K s] by simp
qed

lemma keep_pre_agree: "agree pre_fields m (keep_pre m)"
  by (simp add: agree_def keep_pre_def pre_fields_def)

lemma agree_trans: "agree F m m' \<Longrightarrow> agree F m' m'' \<Longrightarrow> agree F m m''"
  by (simp add: agree_def)

lemma turns_agree: "agree pre_fields m m' \<Longrightarrow> agree pre_fields ((turn K s duals ^^ n) m) (((\<lambda>m. turn K s duals (keep_pre m)) ^^ n) m')"
proof (induction n)
  case (Suc n)
  then show ?case using turn_agree agree_trans keep_pre_agree by simp blast
qed simp

lemma touched_not_written: "cmd_touched c \<inter> F = {} \<Longrightarrow> f \<in> F \<Longrightarrow> f \<notin> cmd_written c"
  by (cases c) (use written_touched in auto)

lemma turn_pre: "f \<in> pre_fields \<Longrightarrow> turn K s duals m f = m f"
  unfolding turn_def Let_def
  by (auto simp: exec_other touched_not_written [OF iteration_fields(1)] touched_not_written [OF duals_fields(1)])

lemma turns_other:
  assumes "\<And>m. turn K s duals m f = m f"
  shows "(turn K s duals ^^ n) m f = m f"
  by (induction n) (simp_all add: assms)

lemma turn_lambdas:
  "\<not> duals \<or> sv_nTri s = 0 \<Longrightarrow> turn K s duals m F_tri_l0 = m F_tri_l0"
  "\<not> duals \<or> sv_nTri s = 0 \<Longrightarrow> turn K s duals m F_tri_l1 = m F_tri_l1"
  "\<not> duals \<or> sv_nBend s = 0 \<Longrightarrow> turn K s duals m F_bd_lambda = m F_bd_lambda"
proof -
  have it: "exec K s (iteration_cmds s False) m f = m f" if "f \<in> {F_tri_l0, F_tri_l1, F_bd_lambda}" for f m
    using that iteration_fields(2) by (intro exec_other) blast
  have tri: "exec K s (duals_cmds s) m f = m f" if "sv_nTri s = 0" "f \<in> {F_tri_l0, F_tri_l1}" for f m
    using that duals_fields(2) by (intro exec_other) blast
  have bd: "exec K s (duals_cmds s) m F_bd_lambda = m F_bd_lambda" if "sv_nBend s = 0" for m
    using that duals_fields(3) by (intro exec_other) blast
  show "\<not> duals \<or> sv_nTri s = 0 \<Longrightarrow> turn K s duals m F_tri_l0 = m F_tri_l0"
    "\<not> duals \<or> sv_nTri s = 0 \<Longrightarrow> turn K s duals m F_tri_l1 = m F_tri_l1"
    "\<not> duals \<or> sv_nBend s = 0 \<Longrightarrow> turn K s duals m F_bd_lambda = m F_bd_lambda"
    by (auto simp: turn_def Let_def it tri bd)
qed

text \<open>
  The copies of the duals are those of the duals, unless a dual update ran since they were made
  (or there is nothing to copy).
\<close>

definition lambdas_kept :: "bool \<Rightarrow> 'a solver_scheme \<Rightarrow> mem \<Rightarrow> bool" where
  "lambdas_kept dirty s m \<longleftrightarrow>
     (\<not> dirty \<or> sv_nTri s = 0 \<longrightarrow> m F_tri_l0Pre = m F_tri_l0 \<and> m F_tri_l1Pre = m F_tri_l1) \<and>
     (\<not> dirty \<or> sv_nBend s = 0 \<longrightarrow> m F_bd_lambdaPre = m F_bd_lambda)"

text \<open>The copies \<open>AvbdRd\<close> makes before the last turn are what \<open>AvbdCpu\<close> keeps at its start.\<close>

lemma copies_keep:
  assumes "lambdas_kept dirty s m" "agree pre_fields g h" "\<And>f. f \<in> pre_fields \<Longrightarrow> g f = m f"
    and "\<not> d \<or> sv_nTri s = 0 \<Longrightarrow> g F_tri_l0 = m F_tri_l0 \<and> g F_tri_l1 = m F_tri_l1"
    and "\<not> d \<or> sv_nBend s = 0 \<Longrightarrow> g F_bd_lambda = m F_bd_lambda"
    and "dirty \<Longrightarrow> d"
  shows "exec_acts K t (copy_acts s d) g = keep_pre h"
proof
  fix f
  have out: "g f = h f" if "f \<notin> pre_fields" for f using assms(2) that by (simp add: agree_def)
  note same = out [of F_positions] out [of F_tri_l0] out [of F_tri_l1] out [of F_bd_lambda]
    assms(3) [of F_tri_l0Pre] assms(3) [of F_tri_l1Pre] assms(3) [of F_bd_lambdaPre]
  have kept: "\<not> d \<or> sv_nTri s = 0 \<Longrightarrow> g F_tri_l0Pre = g F_tri_l0 \<and> g F_tri_l1Pre = g F_tri_l1"
    "\<not> d \<or> sv_nBend s = 0 \<Longrightarrow> g F_bd_lambdaPre = g F_bd_lambda"
    using assms(1,4,5,6) assms(3) by (auto simp: lambdas_kept_def pre_fields_def)
  show "exec_acts K t (copy_acts s d) g f = keep_pre h f"
  proof (cases "f \<in> pre_fields")
    case True
    then show ?thesis using same kept by (auto simp: copy_acts_def keep_pre_def pre_fields_def)
  next
    case False
    then show ?thesis using out [OF False] by (auto simp: copy_acts_def keep_pre_def pre_fields_def)
  qed
qed

lemma exec_last:
  "exec_acts K s (last_acts s duals) m =
   (let m = exec K s (iteration_cmds s True) m in if duals \<and> sv_dbgColor s < 0 then exec K s (duals_cmds s) m else m)"
  by (simp add: last_acts_def duals_acts_def exec_map_cmds Let_def)

lemma cpu_run_last:
  assumes "sv_meshReady c"
  shows "cp_mem (snd (cpu_run_from K duals 1 c)) = exec_acts K c (last_acts c duals) (keep_pre (cp_mem c))"
proof -
  let ?d = "c\<lparr>cp_mem := exec K c (iteration_cmds c True) (keep_pre (cp_mem c))\<rparr>"
  have d: "exec_cmd K ?d = exec_cmd K c" "duals_cmds ?d = duals_cmds c" by (rule same_plan [OF truncate_mem])+
  have "cpu_run_from K duals 1 c =
     (if 0 \<le> sv_dbgColor c then (0, ?d)
      else if duals then let (r, s) = cpu_stepDualAttachments K ?d; (r, s) = cpu_stepDualMembrane K s; (r, s) = cpu_stepDualBending K s in (0, s)
      else (0, ?d))"
    using cpu_step_exec [OF assms, of K True] by (simp split: if_splits prod.split)
  also have "(let (r, s) = cpu_stepDualAttachments K ?d; (r, s) = cpu_stepDualMembrane K s; (r, s) = cpu_stepDualBending K s in (0 :: int, s)) =
      (0, ?d\<lparr>cp_mem := exec K ?d (duals_cmds ?d) (cp_mem ?d)\<rparr>)"
    using assms by (intro cpu_duals_exec) simp
  finally show ?thesis by (simp add: exec_last d not_le [symmetric])
qed

text \<open>The acts of a run, one after the other, on the memory of a CPU solver in the same state.\<close>

theorem run_acts_exec:
  assumes "1 \<le> iters" "sv_meshReady c" "solver.truncate s = solver.truncate c" "lambdas_kept (av_lambdasDirty s) c (cp_mem c)"
  shows "exec_acts K c (run_acts s iters duals) (cp_mem c) = cp_mem (snd (cpu_solver_run K iters duals c))"
proof -
  let ?n = "nat (iters - 1)" and ?m = "cp_mem c" and ?d = "av_lambdasDirty s \<or> 1 < iters \<and> duals"
  let ?g = "(turn K c duals ^^ ?n) ?m" and ?h = "((\<lambda>m. turn K c duals (keep_pre m)) ^^ ?n) ?m"
  let ?c = "c\<lparr>cp_mem := ?h\<rparr>"
  have acts: "early_acts s iters duals = early_acts c iters duals" "copy_acts s ?d = copy_acts c ?d" "last_acts s duals = last_acts c duals"
    by (simp_all only: early_acts_def turn_acts_def duals_acts_def last_acts_def same_plan [OF assms(3)])
  have none: "?n = 0" if "\<not> 1 < iters" using that by simp
  have tri: "?g F_tri_l0 = ?m F_tri_l0 \<and> ?g F_tri_l1 = ?m F_tri_l1" if "\<not> ?d \<or> sv_nTri c = 0"
  proof (cases "\<not> duals \<or> sv_nTri c = 0")
    case True
    then show ?thesis by (simp add: turns_other turn_lambdas)
  qed (use that none in simp)
  have bd: "?g F_bd_lambda = ?m F_bd_lambda" if "\<not> ?d \<or> sv_nBend c = 0"
  proof (cases "\<not> duals \<or> sv_nBend c = 0")
    case True
    then show ?thesis by (simp add: turns_other turn_lambdas)
  qed (use that none in simp)
  have copies: "exec_acts K c (copy_acts c ?d) ?g = keep_pre ?h"
    by (rule copies_keep [OF assms(4) turns_agree [OF agree_refl]]) (simp_all only: turns_other [OF turn_pre] tri bd, simp)
  have "exec_acts K c (run_acts s iters duals) ?m = exec_acts K c (last_acts c duals) (keep_pre ?h)"
    by (simp add: run_acts_def acts exec_early copies)
  also have "\<dots> = exec_acts K ?c (last_acts ?c duals) (keep_pre (cp_mem ?c))"
  proof -
    have "exec_act K ?c = exec_act K c" "last_acts ?c duals = last_acts c duals"
      by (simp_all only: last_acts_def duals_acts_def same_plan [OF truncate_mem] exec_act_plan [OF truncate_mem])
    then show ?thesis by simp
  qed
  also have "\<dots> = cp_mem (snd (cpu_run_from K duals 1 ?c))" using assms(2) by (intro cpu_run_last [symmetric]) simp
  also have "\<dots> = cp_mem (snd (cpu_run_from K duals (Suc ?n) c))" by (simp only: cpu_run_turns [OF assms(2)])
  also have "Suc ?n = nat iters" using assms(1) by simp
  finally show ?thesis by (simp only: cpu_solver_run_def)
qed

section \<open>Any order between two barriers\<close>

fun is_dispatch :: "act \<Rightarrow> bool" where
  "is_dispatch (Cmd (Dispatch kn color threads bs)) = True"
| "is_dispatch a = False"

fun lanes_of :: "act \<Rightarrow> nat" where
  "lanes_of (Cmd (Dispatch kn color threads bs)) = unat threads"
| "lanes_of a = 0"

fun lane_step :: "kernels \<Rightarrow> 'a solver_scheme \<Rightarrow> act \<Rightarrow> nat \<Rightarrow> mem \<Rightarrow> mem" where
  "lane_step K s (Cmd (Dispatch kn color threads bs)) l m = run_lane K kn (cmd_params s kn color) bs l m"
| "lane_step K s a l m = m"

text \<open>
  The GPU may mix the threads of dispatches that no barrier, copy or end of a list separates:
  thread \<open>l\<close> of dispatch \<open>i\<close> is \<open>(i, l)\<close>, and only the order of one dispatch's own threads is kept.
\<close>

definition mixed :: "act list \<Rightarrow> (nat \<times> nat) list \<Rightarrow> bool" where
  "mixed ds xs \<longleftrightarrow> fst ` set xs \<subseteq> {..<length ds} \<and>
     (\<forall>i<length ds. filter (\<lambda>x. fst x = i) xs = map (Pair i) [0..<lanes_of (ds ! i)])"

inductive gpu_runs :: "kernels \<Rightarrow> 'a solver_scheme \<Rightarrow> act list \<Rightarrow> mem \<Rightarrow> mem \<Rightarrow> bool"
  for K :: kernels and s :: "'a solver_scheme" where
  ended: "gpu_runs K s [] m m"
| ordered: "\<not> is_dispatch a \<Longrightarrow> gpu_runs K s as (exec_act K s a m) m' \<Longrightarrow> gpu_runs K s (a # as) m m'"
| mixed: "list_all is_dispatch ds \<Longrightarrow> mixed ds xs \<Longrightarrow>
    gpu_runs K s as (fold (\<lambda>x. lane_step K s (ds ! fst x) (snd x)) xs m) m' \<Longrightarrow> gpu_runs K s (ds @ as) m m'"

text \<open>No two dispatches with nothing between them that orders them are in conflict; \<open>g\<close> are those before.\<close>

fun race_free :: "(string \<times> binds) list \<Rightarrow> act list \<Rightarrow> bool" where
  "race_free g [] = True"
| "race_free g (Cmd (Dispatch kn color threads bs) # as) = (list_all (apart (kn, bs)) g \<and> race_free ((kn, bs) # g) as)"
| "race_free g (a # as) = race_free [] as"

lemma race_free_ordered: "\<not> is_dispatch a \<Longrightarrow> race_free g (a # as) = race_free [] as"
  by (cases a rule: is_dispatch.cases) simp_all

fun disp_of :: "act \<Rightarrow> string \<times> binds" where
  "disp_of (Cmd (Dispatch kn color threads bs)) = (kn, bs)"
| "disp_of a = ([], [])"

lemma race_free_less: "race_free g as \<Longrightarrow> set h \<subseteq> set g \<Longrightarrow> race_free h as"
proof (induction as arbitrary: g h)
  case (Cons a as)
  show ?case
  proof (cases a rule: is_dispatch.cases)
    case (1 kn color threads bs)
    have g: "list_all (apart (kn, bs)) g" "race_free ((kn, bs) # g) as" using Cons.prems(1) 1 by simp_all
    have "race_free ((kn, bs) # h) as" using Cons.prems(2) by (intro Cons.IH [OF g(2)]) auto
    moreover have "list_all (apart (kn, bs)) h" using g(1) Cons.prems(2) unfolding list_all_iff by blast
    ultimately show ?thesis using 1 by simp
  qed (use Cons.prems(1) in simp_all)
qed simp

lemma race_free_group:
  assumes "list_all is_dispatch ds" "race_free g (ds @ as)"
  shows "(\<forall>i<length ds. list_all (apart (disp_of (ds ! i))) g) \<and> (\<forall>i<length ds. \<forall>j<i. apart (disp_of (ds ! i)) (disp_of (ds ! j))) \<and>
    race_free [] as"
  using assms
proof (induction ds arbitrary: g)
  case Nil
  then show ?case using race_free_less [of g as "[]"] by simp
next
  case (Cons d ds)
  then obtain kn color threads bs where d: "d = Cmd (Dispatch kn color threads bs)"
    by (cases d rule: is_dispatch.cases) simp_all
  have IH: "(\<forall>i<length ds. list_all (apart (disp_of (ds ! i))) ((kn, bs) # g)) \<and>
     (\<forall>i<length ds. \<forall>j<i. apart (disp_of (ds ! i)) (disp_of (ds ! j))) \<and> race_free [] as"
    using Cons.prems d by (intro Cons.IH) simp_all
  show ?case
  proof (intro conjI allI impI)
    show "list_all (apart (disp_of ((d # ds) ! i))) g" if "i < length (d # ds)" for i
      using that IH Cons.prems(2) d by (cases i) simp_all
    show "apart (disp_of ((d # ds) ! i)) (disp_of ((d # ds) ! j))" if "i < length (d # ds)" "j < i" for i j
      using that IH d by (cases i; cases j) simp_all
  qed (use IH in blast)
qed

lemma apart_sym: "apart d e \<Longrightarrow> apart e d"
  by (simp add: apart_def)

lemma lane_step_commute:
  assumes "is_dispatch d" "is_dispatch e" "apart (disp_of d) (disp_of e)"
  shows "lane_step K s d i (lane_step K s e j m) = lane_step K s e j (lane_step K s d i m)"
  using assms by (cases d rule: is_dispatch.cases; cases e rule: is_dispatch.cases) (auto intro: run_lane_commute)

lemma fold_lanes: "is_dispatch d \<Longrightarrow> fold (lane_step K s d) [0..<lanes_of d] m = exec_act K s d m"
proof (cases d rule: is_dispatch.cases)
  case (1 kn color threads bs)
  have "lane_step K s d = run_lane K kn (cmd_params s kn color) bs" using 1 by (intro ext) simp
  then show ?thesis using 1 by (simp add: run_kernel_def)
qed simp_all

lemma fold_concat_map: "fold f (concat (map g xs)) s = fold (\<lambda>x. fold f (g x)) xs s"
  by (induction xs arbitrary: s) simp_all

lemma mixed_exec:
  assumes "list_all is_dispatch ds" "mixed ds xs" "\<forall>i<length ds. \<forall>j<i. apart (disp_of (ds ! i)) (disp_of (ds ! j))"
  shows "fold (\<lambda>x. lane_step K s (ds ! fst x) (snd x)) xs m = exec_acts K s ds m"
proof -
  let ?f = "\<lambda>x. lane_step K s (ds ! fst x) (snd x)"
  have "\<forall>x\<in>set xs. \<forall>y\<in>set xs. fst x \<noteq> fst y \<longrightarrow> (\<forall>m. ?f x (?f y m) = ?f y (?f x m))"
  proof (intro ballI impI allI)
    fix x y m
    assume xy: "x \<in> set xs" "y \<in> set xs" "fst x \<noteq> fst y"
    then have "fst x < length ds" "fst y < length ds" using assms(2) by (auto simp: mixed_def)
    moreover from this have "apart (disp_of (ds ! fst x)) (disp_of (ds ! fst y))"
      using assms(3) xy(3) by (metis apart_sym nat_neq_iff)
    ultimately show "?f x (?f y m) = ?f y (?f x m)" using assms(1) by (intro lane_step_commute) (simp_all add: list_all_length)
  qed
  then have "fold ?f xs m = fold ?f (concat (map (\<lambda>i. filter (\<lambda>x. fst x = i) xs) [0..<length ds])) m"
    using assms(2) by (intro fold_by_key) (auto simp: mixed_def)
  also have "map (\<lambda>i. filter (\<lambda>x. fst x = i) xs) [0..<length ds] = map (\<lambda>i. map (Pair i) [0..<lanes_of (ds ! i)]) [0..<length ds]"
    using assms(2) by (intro map_cong refl) (simp add: mixed_def)
  also have "fold ?f (concat (map (\<lambda>i. map (Pair i) [0..<lanes_of (ds ! i)]) [0..<length ds])) m =
      fold (\<lambda>i. exec_act K s (ds ! i)) [0..<length ds] m"
    unfolding fold_concat_map using assms(1)
    by (intro fold_cong refl ext) (simp add: fold_map o_def fold_lanes list_all_length)
  also have "\<dots> = exec_acts K s (map ((!) ds) [0..<length ds]) m" by (simp add: fold_map o_def)
  finally show ?thesis by (simp add: map_nth)
qed

lemma gpu_runs_exec:
  assumes "gpu_runs K s as m m'" "race_free g as"
  shows "m' = exec_acts K s as m"
  using assms
proof (induction arbitrary: g)
  case (ordered a as m m')
  then show ?case by (simp add: race_free_ordered)
next
  case (mixed ds xs as m m')
  have "race_free [] as" "\<forall>i<length ds. \<forall>j<i. apart (disp_of (ds ! i)) (disp_of (ds ! j))"
    using race_free_group [OF mixed(1) mixed.prems] by blast+
  then show ?case using mixed.IH mixed_exec [OF mixed(1,2), of K s m] by simp
qed simp

text \<open>There is such a run: the threads one after the other.\<close>

lemma gpu_runs_in_order: "gpu_runs K s as m (exec_acts K s as m)"
proof (induction as arbitrary: m)
  case (Cons a as)
  show ?case
  proof (cases "is_dispatch a")
    case True
    let ?xs = "map (Pair (0 :: nat)) [0..<lanes_of a]"
    have "mixed [a] ?xs" by (auto simp: mixed_def)
    moreover have "fold (\<lambda>x. lane_step K s ([a] ! fst x) (snd x)) ?xs m = exec_act K s a m"
      using fold_lanes [OF True, of K s m] by (simp add: fold_map o_def)
    ultimately have "gpu_runs K s ([a] @ as) m (exec_acts K s as (exec_act K s a m))"
      using True Cons.IH [of "exec_act K s a m"] by (intro gpu_runs.mixed [where xs = ?xs]) simp_all
    then show ?thesis by simp
  next
    case False
    then show ?thesis using Cons.IH by (simp add: gpu_runs.ordered)
  qed
qed (simp add: gpu_runs.ended)

section \<open>The lists of a run have no race\<close>

text \<open>Lists that end with something that orders can be put one after the other.\<close>

lemma race_free_sealed: "race_free g as \<Longrightarrow> as \<noteq> [] \<Longrightarrow> \<not> is_dispatch (last as) \<Longrightarrow> race_free [] bs \<Longrightarrow> race_free g (as @ bs)"
proof (induction as arbitrary: g)
  case (Cons a as)
  show ?case
  proof (cases "as = []")
    case True
    then show ?thesis using Cons.prems by (simp add: race_free_ordered)
  next
    case False
    then show ?thesis using Cons.prems Cons.IH by (cases a rule: is_dispatch.cases) simp_all
  qed
qed simp

definition clean :: "act list \<Rightarrow> bool" where
  "clean as \<longleftrightarrow> as = [] \<or> race_free [] as \<and> \<not> is_dispatch (last as)"

lemma clean_append: "clean as \<Longrightarrow> clean bs \<Longrightarrow> clean (as @ bs)"
  by (cases "as = []"; cases "bs = []") (simp_all add: clean_def race_free_sealed)

lemma clean_Nil: "clean []"
  by (simp add: clean_def)

lemma clean_ordered: "\<not> is_dispatch a \<Longrightarrow> clean [a]"
  by (simp add: clean_def race_free_ordered)

lemma clean_Cons: "\<not> is_dispatch a \<Longrightarrow> clean as \<Longrightarrow> clean (a # as)"
  using clean_append [OF clean_ordered] by (metis append_Cons append_Nil)

lemma clean_force: "clean (map Cmd (force_cmds s k))"
  by (simp add: force_cmds_def when_some_def clean_def apart_def touched_simps written_table kBindings_defs)

lemma clean_gathers:
  "clean (map Cmd (gather_spring_cmds s k))" "clean (map Cmd (gather_attachment_cmds s k))"
  "clean (map Cmd (gather_triangle_cmds s k))" "clean (map Cmd (gather_bending_cmds s k))" "clean (map Cmd (solve_cmds s k))"
  by (simp_all add: gather_spring_cmds_def gather_attachment_cmds_def gather_triangle_cmds_def gather_bending_cmds_def
      solve_cmds_def when_some_def clean_def)

lemma clean_duals: "clean (map Cmd (duals_cmds s))"
  by (simp add: duals_cmds_def dual_attachment_cmd_def dual_membrane_cmd_def dual_bending_cmd_def when_some_def clean_def apart_def
      touched_simps written_table kBindings_defs)

lemma clean_iteration: "clean (map Cmd (iteration_cmds s fin))"
proof -
  have colour: "clean (map Cmd (colour_cmds s k u))" for k u
    by (simp add: colour_cmds_def clean_append clean_force clean_gathers clean_Nil)
  have "clean (map Cmd (colours_cmds s dbg ks))" for dbg ks
    by (induction ks) (simp_all add: Let_def clean_append colour clean_Nil)
  then show ?thesis by (simp add: iteration_cmds_def)
qed

lemma clean_replicate: "clean as \<Longrightarrow> clean (concat (replicate n as))"
  by (induction n) (simp_all add: clean_append clean_Nil)

lemma clean_run: "clean (run_acts s iters duals)"
proof -
  have dirty: "clean (duals_acts s)" by (simp add: duals_acts_def clean_Cons clean_duals)
  have turn: "clean (turn_acts s duals)" by (simp add: turn_acts_def clean_append clean_iteration dirty clean_Nil)
  have early: "clean (early_acts s iters duals)"
    by (simp add: early_acts_def clean_Cons clean_append clean_replicate turn clean_ordered clean_Nil)
  have copies: "clean (copy_acts s d)" for d by (simp add: copy_acts_def clean_def)
  have last: "clean (last_acts s duals)"
    by (simp add: last_acts_def clean_Cons clean_append clean_iteration dirty clean_Nil)
  show ?thesis by (simp add: run_acts_def clean_append early copies clean_Cons last)
qed

text \<open>One vertex that is a triangle's own, one colour, and kernels that count what they move.\<close>

definition demo_kernels :: kernels where
  "demo_kernels kn ps lane b name =
     (if kn = ''vbd_solve_apply'' \<and> name = ''positions'' then map (\<lambda>x. x + 1) (b name)
      else if kn = ''triangle_membrane_dual_update'' \<and> name = ''lambda0'' then map (\<lambda>x. x + 10) (b name)
      else b name)"

definition demo_solver :: solver where
  "demo_solver = new_solver\<lparr>sv_meshReady := True, sv_nVerts := 1, sv_nTri := 1, sv_colorOffsets := [0, 1]\<rparr>"

definition demo_cpu :: cpu where
  "demo_cpu = solver.extend demo_solver \<lparr>cp_mem = (\<lambda>f. [5])\<rparr>"

definition demo_avbd :: "device \<Rightarrow> avbd" where
  "demo_avbd d = solver.extend demo_solver (avbd.fields False [] [] [] False False False 0 [] [] [] [] [] [] [] [] (\<lambda>f. no_buf)
     (\<lambda>p. no_buf) [] [] False False d)"

lemma recorded_run:
  assumes "1 \<le> iters" "sv_meshReady c" "solver.truncate (fst s) = solver.truncate c"
    and "lambdas_kept (av_lambdasDirty (fst s)) c (cp_mem c)"
  shows "\<exists>as. record_run E iters duals s = do_acts E as s \<and>
    (\<forall>m. gpu_runs K (fst s) as (cp_mem c) m \<longleftrightarrow> m = cp_mem (snd (cpu_solver_run K iters duals c)))"
proof (intro exI conjI allI)
  let ?as = "run_acts (fst s) iters duals"
  show "record_run E iters duals s = do_acts E ?as s" by (rule record_run_acts)
  fix m
  have exec: "exec_acts K (fst s) ?as (cp_mem c) = cp_mem (snd (cpu_solver_run K iters duals c))"
    using run_acts_exec [OF assms] by (simp only: exec_act_plan [OF assms(3)])
  have "race_free [] ?as" using clean_run [of "fst s" iters duals] by (auto simp: clean_def)
  then show "gpu_runs K (fst s) ?as (cp_mem c) m \<longleftrightarrow> m = cp_mem (snd (cpu_solver_run K iters duals c))"
    using gpu_runs_exec gpu_runs_in_order [of K "fst s" ?as "cp_mem c"] exec by metis
qed



end
