(* ===== verification/AvbdBack.thy ===== *)
theory AvbdBack
  imports AvbdRdBack AvbdEquiv
begin

text \<open>
  The reverse pass of \<open>AvbdRd\<close>: its list has no race, it writes cotangents only, and between its
  first sum and its scatter it runs what \<open>AvbdCpu\<close> runs.
\<close>

section \<open>No race\<close>

lemma back_kernels:
  "table_find ''saxpby'' = Some (Kernel_desc ''saxpby'' 256 kBindings_saxpby 0)"
  "table_find ''vbd_solve_apply_backward'' = Some (Kernel_desc ''vbd_solve_apply_backward'' 64 kBindings_vbd_solve_apply_backward (- 1))"
  "table_find ''vbd_gather_spring_backward'' = Some (Kernel_desc ''vbd_gather_spring_backward'' 64 kBindings_vbd_gather_spring_backward (- 1))"
  "table_find ''vbd_gather_attachment_backward'' =
     Some (Kernel_desc ''vbd_gather_attachment_backward'' 64 kBindings_vbd_gather_attachment_backward (- 1))"
  "table_find ''vbd_gather_triangle_backward'' =
     Some (Kernel_desc ''vbd_gather_triangle_backward'' 64 kBindings_vbd_gather_triangle_backward (- 1))"
  "table_find ''vbd_gather_bending_backward'' = Some (Kernel_desc ''vbd_gather_bending_backward'' 64 kBindings_vbd_gather_bending_backward (- 1))"
  "table_find ''attachment_force_al_backward'' =
     Some (Kernel_desc ''attachment_force_al_backward'' 64 kBindings_attachment_force_al_backward (- 1))"
  "table_find ''spring_force_backward'' = Some (Kernel_desc ''spring_force_backward'' 64 kBindings_spring_force_backward (- 1))"
  "table_find ''triangle_membrane_force_al_backward'' =
     Some (Kernel_desc ''triangle_membrane_force_al_backward'' 64 kBindings_triangle_membrane_force_al_backward (- 1))"
  "table_find ''triangle_bending_force_al_backward'' =
     Some (Kernel_desc ''triangle_bending_force_al_backward'' 64 kBindings_triangle_bending_force_al_backward (- 1))"
  "table_find ''vbd_init_backward'' = Some (Kernel_desc ''vbd_init_backward'' 64 kBindings_vbd_init_backward 8)"
  by (simp_all add: table_find_def kAvbdKernels_def)

lemmas back_written = written_table back_kernels [THEN writable_table]
lemmas back_simps = clean_def apart_def touched_simps back_written kBindings_defs

text \<open>A dispatch that may be left out.\<close>

lemma race_free_when:
  assumes "list_all (apart (kn, bs)) g" "race_free ((kn, bs) # g) as"
  shows "race_free g (map Cmd (when_some n [Dispatch kn c threads bs]) @ as)"
  using assms race_free_less [OF assms(2), of g] by (auto simp: when_some_def)

lemma race_free_end: "race_free g [Cmd Barrier]"
  by simp

lemma clean_sealed: "race_free [] (as @ [Cmd Barrier]) \<Longrightarrow> clean (as @ [Cmd Barrier])"
  by (simp add: clean_def)

lemma clean_back_gather: "clean (map Cmd (back_gather_cmds s))"
  unfolding back_gather_cmds_def map_append append_assoc list.map
  by (rule clean_sealed [of "a @ b @ c @ d" for a b c d, unfolded append_assoc],
      intro race_free_when race_free_end; simp add: back_simps)

lemma clean_back_force: "clean (map Cmd (back_force_cmds s))"
proof -
  have seal: "race_free [] (a @ b @ c @ d @ [e, Cmd Barrier]) \<Longrightarrow> clean (a @ b @ c @ d @ [e, Cmd Barrier])" for a b c d e
    using clean_sealed [of "a @ b @ c @ d @ [e]"] by simp
  have last: "list_all (apart (kn, bs)) g \<Longrightarrow> race_free g [Cmd (Dispatch kn c threads bs), Cmd Barrier]" for kn bs g c threads
    by simp
  show ?thesis
    unfolding back_force_cmds_def map_append append_assoc list.map
    by (rule seal, intro race_free_when last; simp add: back_simps)
qed

lemma clean_scatter:
  "clean (map Cmd (Dispatch ''saxpby'' c n [(''x'', F_vPosInit), (''y'', F_vOut), (''dst'', F_vPosSum)] # scatter_cmds s))"
  by (simp add: scatter_cmds_def when_some_def back_simps)

lemma race_free_backward: "race_free [] (map Cmd (backward_cmds s))"
proof -
  let ?head = "[Dispatch ''saxpby'' kSaxDelta (4 * sv_nVerts s) [(''x'', F_positions), (''y'', F_positionsPre), (''dst'', F_deltaX)], Barrier,
      Dispatch ''vbd_solve_apply_backward'' (- 1) (sv_nVerts s)
        [(''v_out'', F_vOut), (''hScratch'', F_hScratch), (''deltaX'', F_deltaX), (''v_g'', F_vG), (''v_H'', F_vH)], Barrier]"
  let ?sum = "Dispatch ''saxpby'' kSaxSum (4 * sv_nVerts s) [(''x'', F_vPosInit), (''y'', F_vOut), (''dst'', F_vPosSum)]"
  let ?out = "Dispatch ''saxpby'' kSaxOut (4 * sv_nVerts s) [(''x'', F_vPosGrad), (''y'', F_vPosSum), (''dst'', F_vPosGradOut)]"
  have "clean (map Cmd ?head)" by (simp add: clean_def)
  then have c: "clean (map Cmd ?head @ map Cmd (back_gather_cmds s) @ map Cmd (back_force_cmds s) @ map Cmd (?sum # scatter_cmds s))"
    by (intro clean_append clean_back_gather clean_back_force clean_scatter)
  moreover have seal: "clean as \<Longrightarrow> as \<noteq> [] \<Longrightarrow> race_free [] (as @ [Cmd ?out])" for as
    by (rule race_free_sealed) (auto simp: clean_def)
  ultimately have "race_free [] ((map Cmd ?head @ map Cmd (back_gather_cmds s) @ map Cmd (back_force_cmds s) @ map Cmd (?sum # scatter_cmds s)) @
      [Cmd ?out])"
    by (intro seal) simp_all
  then show ?thesis by (simp add: backward_cmds_def)
qed

section \<open>What it writes\<close>

fun cotangent :: "field \<Rightarrow> bool" where
  "cotangent (Back f) = True"
| "cotangent (BackCon f) = True"
| "cotangent (BackFace f) = True"
| "cotangent f = False"

lemma backward_writes: "c \<in> set (backward_cmds s) \<Longrightarrow> \<forall>f\<in>cmd_written c. cotangent f"
proof -
  have head: "c \<in> set (back_gather_cmds s) \<Longrightarrow> \<forall>f\<in>cmd_written c. cotangent f" for c
    by (auto simp: back_gather_cmds_def when_some_def back_simps split: if_splits)
  have force: "c \<in> set (back_force_cmds s) \<Longrightarrow> \<forall>f\<in>cmd_written c. cotangent f" for c
    by (auto simp: back_force_cmds_def when_some_def back_simps split: if_splits)
  have scatter: "c \<in> set (scatter_cmds s) \<Longrightarrow> \<forall>f\<in>cmd_written c. cotangent f" for c
    by (auto simp: scatter_cmds_def when_some_def back_simps split: if_splits)
  show "c \<in> set (backward_cmds s) \<Longrightarrow> \<forall>f\<in>cmd_written c. cotangent f"
    unfolding backward_cmds_def using head [of c] force [of c] scatter [of c] by (auto simp: back_simps split: if_splits)
qed

lemma backward_keeps: "\<not> cotangent f \<Longrightarrow> exec K s (backward_cmds s) m f = m f"
  by (rule exec_other) (use backward_writes in blast)


section \<open>The list of a run and its reverse pass\<close>

lemma backward_truncate: "backward_cmds (solver.truncate s) = backward_cmds s"
  by (simp add: backward_cmds_def back_gather_cmds_def back_force_cmds_def scatter_cmds_def solver.truncate_def)

lemma does_backward: "does E (fst (plan_of s), d) (record_backward E) (map Cmd (backward_cmds s))"
proof -
  have "backward_cmds t = backward_cmds s" if "plan_of t = (fst (plan_of s), d)" for t
    using that backward_truncate [of s] backward_truncate [of t] by (simp add: plan_of_def)
  then show ?thesis unfolding record_backward_def by (intro does_ask) (simp add: does_cmds)
qed

lemma record_run_backward_acts:
  "thenR (record_run E iters duals) (record_backward E) s =
   do_acts E (run_acts (fst s) iters duals @ map Cmd (backward_cmds (fst s))) s"
proof -
  have plan: "fst (fold plan_after as p) = fst p" for as p
  proof (induction as arbitrary: p)
    case (Cons a as)
    then show ?case by (cases a) simp_all
  qed simp
  let ?p = "plan_of (fst s)"
  let ?q = "fold plan_after (run_acts (fst s) iters duals) ?p"
  have q: "?q = (fst ?p, snd ?q)" using plan by (simp add: prod_eq_iff)
  have run: "does E ?p (record_run E iters duals) (run_acts (fst s) iters duals)"
    unfolding does_def
  proof (intro allI impI)
    fix t :: "avbd \<times> 'a"
    assume "plan_of (fst t) = ?p"
    then have tr: "solver.truncate (fst t) = solver.truncate (fst s)" and dirty: "av_lambdasDirty (fst t) = av_lambdasDirty (fst s)"
      by (simp_all add: plan_of_def)
    have "run_acts (fst t) iters duals = run_acts (fst s) iters duals"
      unfolding run_acts_def early_acts_def turn_acts_def duals_acts_def last_acts_def dirty
      by (simp only: same_plan [OF tr])
    then show "record_run E iters duals t = do_acts E (run_acts (fst s) iters duals) t"
      using record_run_acts [of E iters duals t] by simp
  qed
  have "does E ?p (thenR (record_run E iters duals) (record_backward E)) (run_acts (fst s) iters duals @ map Cmd (backward_cmds (fst s)))"
    by (rule does_seq [OF run]) (subst q, rule does_backward)
  then show ?thesis unfolding does_def by blast
qed

lemma race_free_clean: "clean as \<Longrightarrow> race_free [] bs \<Longrightarrow> race_free [] (as @ bs)"
  by (cases "as = []") (auto simp: clean_def intro: race_free_sealed)

text \<open>
  C10: \<open>runWithBackward\<close> records the run and the reverse pass as one list without a race between
  two dispatches: whatever order the GPU mixes their threads in, the reverse pass starts from
  what \<open>AvbdCpu::run\<close> computes, runs as if its dispatches came one after the other, and leaves
  the positions, the duals and every other buffer that is no cotangent as the run left them.
\<close>

theorem run_with_backward_ordered:
  assumes "1 \<le> iters" "sv_meshReady c" "solver.truncate (fst s) = solver.truncate c"
    and "lambdas_kept (av_lambdasDirty (fst s)) c (cp_mem c)"
  shows "\<exists>as. thenR (record_run E iters duals) (record_backward E) s = do_acts E as s \<and>
    (\<forall>m. gpu_runs K (fst s) as (cp_mem c) m \<longleftrightarrow>
      m = exec K c (backward_cmds c) (cp_mem (snd (cpu_solver_run K iters duals c)))) \<and>
    (\<forall>m f. gpu_runs K (fst s) as (cp_mem c) m \<and> \<not> cotangent f \<longrightarrow> m f = cp_mem (snd (cpu_solver_run K iters duals c)) f)"
proof (intro exI conjI)
  let ?run = "run_acts (fst s) iters duals" and ?rev = "map Cmd (backward_cmds (fst s))"
  show "thenR (record_run E iters duals) (record_backward E) s = do_acts E (?run @ ?rev) s"
    by (rule record_run_backward_acts)
  have same: "backward_cmds (fst s) = backward_cmds c"
    using backward_truncate [of "fst s"] backward_truncate [of c] assms(3) by simp
  have exec: "exec_acts K (fst s) (?run @ ?rev) (cp_mem c) = exec K c (backward_cmds c) (cp_mem (snd (cpu_solver_run K iters duals c)))"
    using run_acts_exec [OF assms] by (simp add: exec_act_plan [OF assms(3)] exec_map_cmds same)
  have free: "race_free [] (?run @ ?rev)" by (intro race_free_clean clean_run race_free_backward)
  show all: "\<forall>m. gpu_runs K (fst s) (?run @ ?rev) (cp_mem c) m \<longleftrightarrow>
      m = exec K c (backward_cmds c) (cp_mem (snd (cpu_solver_run K iters duals c)))"
    using gpu_runs_exec [OF _ free] gpu_runs_in_order [of K "fst s" "?run @ ?rev" "cp_mem c"] exec by metis
  show "\<forall>m f. gpu_runs K (fst s) (?run @ ?rev) (cp_mem c) m \<and> \<not> cotangent f \<longrightarrow>
      m f = cp_mem (snd (cpu_solver_run K iters duals c)) f"
    using all by (simp add: backward_keeps)
qed

lemma run_with_backward_ordered_witness:
  "(\<forall>E d w. \<exists>as. thenR (record_run E 2 True) (record_backward E) (demo_avbd d, w) = do_acts E as (demo_avbd d, w) \<and>
      (\<forall>m. gpu_runs demo_kernels (demo_avbd d) as (cp_mem demo_cpu) m \<longleftrightarrow>
        m = exec demo_kernels demo_cpu (backward_cmds demo_cpu) (cp_mem (snd (cpu_solver_run demo_kernels 2 True demo_cpu)))))"
proof (intro allI)
  fix E :: "'a aenv" and d :: device and w :: 'a
  have eq: "solver.truncate (fst (demo_avbd d, w)) = solver.truncate demo_cpu"
    by (simp add: demo_avbd_def demo_cpu_def solver.defs avbd.defs)
  have kept: "lambdas_kept (av_lambdasDirty (fst (demo_avbd d, w))) demo_cpu (cp_mem demo_cpu)"
    by (simp add: lambdas_kept_def demo_cpu_def solver.defs)
  have ready: "sv_meshReady demo_cpu" by (simp add: demo_cpu_def demo_solver_def new_solver_def solver.defs)
  show "\<exists>as. thenR (record_run E 2 True) (record_backward E) (demo_avbd d, w) = do_acts E as (demo_avbd d, w) \<and>
      (\<forall>m. gpu_runs demo_kernels (demo_avbd d) as (cp_mem demo_cpu) m \<longleftrightarrow>
        m = exec demo_kernels demo_cpu (backward_cmds demo_cpu) (cp_mem (snd (cpu_solver_run demo_kernels 2 True demo_cpu))))"
    using run_with_backward_ordered [OF _ ready eq kept, of 2 E True demo_kernels] by auto
qed

section \<open>The kernels of both reverse passes\<close>

lemma have_back_params:
  "has_params ''vbd_init_backward''" "\<not> has_params ''vbd_solve_apply_backward''" "\<not> has_params ''vbd_gather_spring_backward''"
  "\<not> has_params ''vbd_gather_attachment_backward''" "\<not> has_params ''vbd_gather_triangle_backward''"
  "\<not> has_params ''vbd_gather_bending_backward''" "\<not> has_params ''attachment_force_al_backward''"
  "\<not> has_params ''spring_force_backward''" "\<not> has_params ''triangle_membrane_force_al_backward''"
  "\<not> has_params ''triangle_bending_force_al_backward''"
  by (simp_all add: has_params_def back_kernels)

lemma run_kernel_pad3: "run_kernel K kn n [a, 0, 0, 0] bs m = run_kernel K kn n [a] bs m"
proof -
  have "params_word [a, 0, 0, 0] = params_word [a]"
    by (auto simp: params_word_def fun_eq_iff nth_Cons split: nat.splits)
  then have "run_lane K kn [a, 0, 0, 0] bs = run_lane K kn [a] bs" by (intro ext, simp only: run_lane_def)
  then show ?thesis by (simp add: run_kernel_def)
qed

lemma exec_back_gather: "exec K s (back_gather_cmds s) m = cpu_back_gathers K s m"
  by (simp add: back_gather_cmds_def cpu_back_gathers_def when_some_def cmd_params_def have_back_params Let_def)

lemma exec_back_force: "exec K s (back_force_cmds s) m = cpu_back_forces K s m"
  by (simp add: back_force_cmds_def cpu_back_forces_def when_some_def cmd_params_def have_back_params run_kernel_pad3 Let_def)

text \<open>
  C21: between its first sum and its scatter, the list of \<open>AvbdRd\<close>'s reverse pass runs the kernels
  that \<open>AvbdCpu::stepBackward\<close> runs there, in its order, on its buffers and with its params; so
  from the same cotangents and the same move of the positions both compute the same gradients of
  the masses, the predictions and every constraint.
\<close>

theorem backward_kernels_agree:
  "\<exists>pre mid post. backward_cmds s = pre @ mid @ post \<and> length pre = 2 \<and>
     list_all (\<lambda>c. cmd_written c \<subseteq> {F_deltaX, F_vPosSum, F_vPosGrad, F_hJunk, F_vPosGradOut}) (pre @ post) \<and>
     (\<forall>K m. exec K s mid m = cpu_back_forces K s (cpu_back_gathers K s (cpu_back_solve K s m)))"
proof -
  let ?pre = "[Dispatch ''saxpby'' kSaxDelta (4 * sv_nVerts s) [(''x'', F_positions), (''y'', F_positionsPre), (''dst'', F_deltaX)], Barrier]"
  let ?solve = "Dispatch ''vbd_solve_apply_backward'' (- 1) (sv_nVerts s)
        [(''v_out'', F_vOut), (''hScratch'', F_hScratch), (''deltaX'', F_deltaX), (''v_g'', F_vG), (''v_H'', F_vH)]"
  let ?mid = "[?solve, Barrier] @ back_gather_cmds s @ back_force_cmds s"
  let ?post = "[Dispatch ''saxpby'' kSaxSum (4 * sv_nVerts s) [(''x'', F_vPosInit), (''y'', F_vOut), (''dst'', F_vPosSum)]] @
      scatter_cmds s @ [Dispatch ''saxpby'' kSaxOut (4 * sv_nVerts s) [(''x'', F_vPosGrad), (''y'', F_vPosSum), (''dst'', F_vPosGradOut)]]"
  have "backward_cmds s = ?pre @ ?mid @ ?post" by (simp add: backward_cmds_def)
  moreover have "exec K s ?mid m = cpu_back_forces K s (cpu_back_gathers K s (cpu_back_solve K s m))" for K m
    by (simp add: exec_back_gather exec_back_force cpu_back_solve_def cmd_params_def have_back_params)
  moreover have "list_all (\<lambda>c. cmd_written c \<subseteq> {F_deltaX, F_vPosSum, F_vPosGrad, F_hJunk, F_vPosGradOut}) (?pre @ ?post)"
    by (auto simp: scatter_cmds_def when_some_def back_simps split: if_splits)
  ultimately show ?thesis by (intro exI [of _ ?pre] exI [of _ ?mid] exI [of _ ?post]) simp
qed

end
