(* ===== verification/AvbdBinds.thy ===== *)
theory AvbdBinds
  imports AvbdRdBack AvbdEquiv
begin

text \<open>
  What \<open>AvbdRd\<close> binds for a kernel and a colour, read off the recording functions, and that the
  keys of the uniform-set cache tell two kernels or colours apart.
\<close>

section \<open>Keys\<close>

definition dec_value :: "string \<Rightarrow> nat" where
  "dec_value s = foldl (\<lambda>n c. 10 * n + (of_char c - 48)) 0 s"

lemma dec_value_digits: "dec_value (dec_digits n) = n"
proof (induction n rule: dec_digits.induct)
  case (1 n)
  have d: "of_char (digit_char k) - 48 = k" if "k < 10" for k
    using that by (simp add: digit_char_def of_char_of)
  show ?case
  proof (cases "n < 10")
    case True
    then show ?thesis by (subst dec_digits.simps) (simp add: dec_value_def d)
  next
    case False
    then show ?thesis using 1 by (subst dec_digits.simps) (simp add: dec_value_def d)
  qed
qed

lemma digits_no_minus: "CHR ''-'' \<notin> set (dec_digits n)"
proof (induction n rule: dec_digits.induct)
  case (1 n)
  have d: "digit_char k \<noteq> CHR ''-''" if "k < 10" for k
  proof
    assume "digit_char k = CHR ''-''"
    then have "of_char (digit_char k) = (45 :: nat)" by simp
    with that show False by (simp add: digit_char_def of_char_of)
  qed
  show ?case using 1 d by (subst dec_digits.simps) (auto dest: sym)
qed

lemma dec_digits_inj: "dec_digits m = dec_digits n \<longleftrightarrow> m = n"
  by (metis dec_value_digits)

lemma minus_digits: "CHR ''-'' # dec_digits m \<noteq> dec_digits n" "dec_digits n \<noteq> CHR ''-'' # dec_digits m"
  by (metis digits_no_minus list.set_intros(1))+

lemma to_string_inj: "to_string i = to_string j \<Longrightarrow> i = j"
  by (simp add: to_string_def minus_digits dec_digits_inj split: if_splits)

lemma set_key_inj:
  assumes "CHR ''#'' \<notin> set kn" "CHR ''#'' \<notin> set kn'" "set_key_of kn color = set_key_of kn' color'"
  shows "kn = kn' \<and> color = color'"
proof -
  have cut: "takeWhile (\<lambda>c. c \<noteq> CHR ''#'') (set_key_of k c) = k" if "CHR ''#'' \<notin> set k" for k c
    using that by (auto simp: set_key_of_def takeWhile_tail)
  have "kn = kn'" using cut assms by metis
  then show ?thesis using assms(3) to_string_inj by (simp add: set_key_of_def)
qed

section \<open>What each kernel binds\<close>

text \<open>Every dispatch of the recording functions for colour \<open>k\<close>, with each family present.\<close>

definition all_families :: "'a solver_scheme \<Rightarrow> 'a solver_scheme" where
  "all_families s = s\<lparr>sv_nSprings := 1, sv_nAttach := 1, sv_nTri := 1, sv_nBend := 1\<rparr>"

definition all_cmds :: "'a solver_scheme \<Rightarrow> nat \<Rightarrow> cmd list" where
  "all_cmds s k = colour_cmds s k 5 @ duals_cmds s @ backward_cmds s @ [scan_cmd s]"

fun bind_entry :: "cmd \<Rightarrow> ((string \<times> int) \<times> binds) list" where
  "bind_entry (Dispatch kn color threads bs) = [((kn, color), bs)]"
| "bind_entry Barrier = []"

definition bind_table :: "'a solver_scheme \<Rightarrow> nat \<Rightarrow> ((string \<times> int) \<times> binds) list" where
  "bind_table s k = concat (map bind_entry (all_cmds (all_families s) k))"

definition binds_for :: "'a solver_scheme \<Rightarrow> string \<Rightarrow> int \<Rightarrow> binds option" where
  "binds_for s kn color = map_of (bind_table s (nat color)) (kn, color)"

definition planned_cmd_ok :: "'a solver_scheme \<Rightarrow> cmd \<Rightarrow> bool" where
  "planned_cmd_ok s c \<longleftrightarrow> (case c of Dispatch kn color threads bs \<Rightarrow> binds_for s kn color = Some bs | Barrier \<Rightarrow> True)"

lemma all_families_simps:
  "sv_nSprings (all_families s) = 1" "sv_nAttach (all_families s) = 1" "sv_nTri (all_families s) = 1" "sv_nBend (all_families s) = 1"
  "sv_useLambdaSnapshot (all_families s) = sv_useLambdaSnapshot s"
  by (simp_all add: all_families_def)

lemmas cmds_defs = force_cmds_def gather_spring_cmds_def gather_attachment_cmds_def gather_triangle_cmds_def
  gather_bending_cmds_def solve_cmds_def when_some_def duals_cmds_def dual_attachment_cmd_def dual_membrane_cmd_def
  dual_bending_cmd_def backward_cmds_def back_gather_cmds_def back_force_cmds_def scatter_cmds_def scan_cmd_def

lemma bind_table_simps:
  "bind_table s k = concat (map bind_entry (colour_cmds (all_families s) k 5)) @ concat (map bind_entry (duals_cmds (all_families s))) @
     concat (map bind_entry (backward_cmds (all_families s))) @ bind_entry (scan_cmd (all_families s))"
  by (simp add: bind_table_def all_cmds_def)


lemmas table_simps = planned_cmd_ok_def binds_for_def bind_table_simps colour_cmds_def cmds_defs all_families_simps

lemma planned_force: "c \<in> set (force_cmds s k) \<Longrightarrow> planned_cmd_ok s c"
  by (auto simp: table_simps split: if_splits)

lemma planned_gathers:
  "c \<in> set (gather_spring_cmds s k) \<Longrightarrow> planned_cmd_ok s c"
  "c \<in> set (gather_attachment_cmds s k) \<Longrightarrow> planned_cmd_ok s c"
  "c \<in> set (gather_triangle_cmds s k) \<Longrightarrow> planned_cmd_ok s c"
  "c \<in> set (gather_bending_cmds s k) \<Longrightarrow> planned_cmd_ok s c"
  "c \<in> set (solve_cmds s k) \<Longrightarrow> planned_cmd_ok s c"
  by (auto simp: table_simps split: if_splits)

lemma planned_duals:
  "planned_cmd_ok s (dual_attachment_cmd s)" "planned_cmd_ok s (dual_membrane_cmd s)" "planned_cmd_ok s (dual_bending_cmd s)"
  "planned_cmd_ok s (scan_cmd s)"
  by (simp_all add: table_simps)

lemma list_all_when: "list_all P (when_some n cs) \<longleftrightarrow> (n \<noteq> 0 \<longrightarrow> list_all P cs)"
  by (simp add: when_some_def)

lemma planned_back_gather: "list_all (planned_cmd_ok s) (back_gather_cmds s)"
  by (subst back_gather_cmds_def) (simp add: list_all_when, simp add: table_simps)

lemma planned_back_force: "list_all (planned_cmd_ok s) (back_force_cmds s)"
  by (subst back_force_cmds_def) (simp add: list_all_when, simp add: table_simps)

lemma planned_scatter: "list_all (planned_cmd_ok s) (scatter_cmds s)"
  by (subst scatter_cmds_def) (simp add: list_all_when, simp add: table_simps)

lemma planned_backward: "c \<in> set (backward_cmds s) \<Longrightarrow> planned_cmd_ok s c"
proof -
  have "list_all (planned_cmd_ok s) (backward_cmds s)"
    by (subst backward_cmds_def) (simp add: planned_back_gather planned_back_force planned_scatter, simp add: table_simps)
  then show "c \<in> set (backward_cmds s) \<Longrightarrow> planned_cmd_ok s c" by (simp add: list_all_iff)
qed


lemma planned_colour: "c \<in> set (colour_cmds s k u) \<Longrightarrow> planned_cmd_ok s c"
  using planned_force [of c s k] planned_gathers [of c s k] by (fastforce simp: colour_cmds_def split: if_splits)

lemma planned_iteration: "c \<in> set (iteration_cmds s fin) \<Longrightarrow> planned_cmd_ok s c"
proof -
  have "c \<in> set (colours_cmds s dbg ks) \<Longrightarrow> planned_cmd_ok s c" for dbg ks
    by (induction ks) (auto simp: Let_def planned_colour split: if_splits)
  then show "c \<in> set (iteration_cmds s fin) \<Longrightarrow> planned_cmd_ok s c" by (simp add: iteration_cmds_def)
qed

lemma planned_duals_cmds: "c \<in> set (duals_cmds s) \<Longrightarrow> planned_cmd_ok s c"
  using planned_duals by (auto simp: duals_cmds_def when_some_def planned_cmd_ok_def split: if_splits)

text \<open>Only the choice of the duals' copies decides between bindings, and no kernel's name has a \<open>#\<close>.\<close>

lemma binds_for_cong: "sv_useLambdaSnapshot s = sv_useLambdaSnapshot t \<Longrightarrow> binds_for s kn color = binds_for t kn color"
  by (simp add: table_simps)

lemma binds_for_name: "binds_for s kn color = Some bs \<Longrightarrow> CHR ''#'' \<notin> set kn"
proof -
  have "list_all (\<lambda>x. CHR ''#'' \<notin> set (fst (fst x))) (bind_table s k)" for k
    by (simp add: table_simps)
  then show "binds_for s kn color = Some bs \<Longrightarrow> CHR ''#'' \<notin> set kn"
    by (fastforce simp: binds_for_def list_all_iff dest: map_of_SomeD)
qed

end
