(* ===== verification/AvbdSets.thy ===== *)
theory AvbdSets
  imports AvbdBinds
begin

text \<open>
  The uniform-set cache of \<open>AvbdRd\<close>: over any calls of its public surface that return, a cached
  set was made of the very buffers the members name now, so a dispatch that takes it from the
  cache binds what a set made on the spot would bind.
\<close>

section \<open>The invariant\<close>

definition current_bindings :: "avbd \<Rightarrow> string \<Rightarrow> int \<Rightarrow> binds \<Rightarrow> (string + (u32 \<times> int \<times> int) list) option" where
  "current_bindings s kn color bs =
     map_option (\<lambda>k. set_bindings s kn color bs (kd_paramsBinding (rk_desc k)) (kd_bindings (rk_desc k))) (map_of (av_kernels s) kn)"

definition set_ok :: "avbd \<Rightarrow> string \<times> set_entry \<Rightarrow> bool" where
  "set_ok s kv \<longleftrightarrow>
     (\<exists>kn color bs. fst kv = set_key_of kn color \<and> binds_for s kn color = Some bs \<and>
        current_bindings s kn color bs = Some (Inr (se_made (snd kv))) \<and> se_rid (snd kv) \<noteq> 0)"

definition sets_ok :: "avbd \<Rightarrow> bool" where
  "sets_ok s \<longleftrightarrow> (\<forall>kv\<in>set (av_sets s). set_ok s kv)"

text \<open>What a dispatch finds in the cache is made of the buffers of now.\<close>

lemma sets_ok_lookup:
  assumes "sets_ok s" "binds_for s kn color = Some bs" "map_of (av_sets s) (set_key_of kn color) = Some e"
  shows "current_bindings s kn color bs = Some (Inr (se_made e)) \<and> se_rid e \<noteq> 0"
proof -
  have "set_ok s (set_key_of kn color, e)" using assms(1) map_of_SomeD [OF assms(3)] unfolding sets_ok_def by blast
  then obtain kn' color' bs' where k: "set_key_of kn color = set_key_of kn' color'" "binds_for s kn' color' = Some bs'"
    "current_bindings s kn' color' bs' = Some (Inr (se_made e))" "se_rid e \<noteq> 0"
    by (auto simp: set_ok_def)
  have "kn = kn' \<and> color = color'"
    using set_key_inj [OF binds_for_name [OF assms(2)] binds_for_name [OF k(2)] k(1)] .
  then show ?thesis using k assms(2) by simp
qed

text \<open>The members the invariant reads.\<close>

definition view :: "avbd \<Rightarrow> _" where
  "view s = (av_sets s, av_kernels s, av_buf s, av_par s, av_initParams s, av_colorParams s, sv_useLambdaSnapshot s)"

lemma set_bindings_view:
  assumes "av_buf s = av_buf t" "av_par s = av_par t" "av_initParams s = av_initParams t" "av_colorParams s = av_colorParams t"
  shows "set_bindings s kn color bs pb bds = set_bindings t kn color bs pb bds"
proof -
  have "binding_rid s kn color bs pb bd = binding_rid t kn color bs pb bd" for bd
    by (simp add: binding_rid_def params_for_def assms split: option.split)
  then show ?thesis by (induction bds) (simp_all add: Let_def cong: if_cong)
qed

lemma set_ok_cong:
  assumes "av_kernels s = av_kernels t" "av_buf s = av_buf t" "av_par s = av_par t" "av_initParams s = av_initParams t"
    "av_colorParams s = av_colorParams t" "sv_useLambdaSnapshot s = sv_useLambdaSnapshot t"
  shows "set_ok s = set_ok t"
proof
  fix kv
  have "current_bindings s = current_bindings t"
    by (intro ext) (simp only: current_bindings_def set_bindings_view [OF assms(2-5)] assms(1))
  moreover have "binds_for s = binds_for t" by (intro ext) (rule binds_for_cong [OF assms(6)])
  ultimately show "set_ok s kv = set_ok t kv" by (simp add: set_ok_def)
qed

lemma sets_ok_view: "view s = view t \<Longrightarrow> sets_ok s = sets_ok t"
  using set_ok_cong [of s t] by (simp add: sets_ok_def view_def)


section \<open>The operations keep it\<close>

text \<open>A call that does not return says nothing: only calls that return are followed.\<close>

abbreviation kept :: "bool \<Rightarrow> avbd \<times> 'w \<Rightarrow> bool" where
  "kept u s \<equiv> sets_ok (fst s) \<and> sv_useLambdaSnapshot (fst s) = u"

abbreviation flag :: "bool \<Rightarrow> avbd \<times> 'w \<Rightarrow> bool" where
  "flag u s \<equiv> sv_useLambdaSnapshot (fst s) = u"

abbreviation any_end :: "'s \<Rightarrow> bool" where
  "any_end \<equiv> (\<lambda>s. True)"

lemma kept_dv: "safe any_end (kept u) (dv m) (kept u)"
proof -
  have "view (s\<lparr>av_dev := d\<rparr>) = view s" for s d by (simp add: view_def)
  then have "sets_ok (s\<lparr>av_dev := d\<rparr>) = sets_ok s" for s d by (rule sets_ok_view)
  then show ?thesis by (auto simp: safe_def dv_def split: prod.splits option.splits)
qed

lemma kept_upd: "(\<And>s. view (g s) = view s) \<Longrightarrow> safe any_end (kept u) (updA g) (kept u)"
proof -
  assume v: "\<And>s. view (g s) = view s"
  then have "sets_ok (g s) = sets_ok s" "sv_useLambdaSnapshot (g s) = sv_useLambdaSnapshot s" for s
    using sets_ok_view [OF v] v [of s] by (simp_all add: view_def)
  then show ?thesis by (simp add: safe_def updA_def)
qed

lemma kept_err: "safe any_end (kept u) (set_err e) (kept u)"
  unfolding set_err_def by (rule kept_upd) (simp add: view_def)

lemma kept_ask: "(\<And>s. sv_useLambdaSnapshot s = u \<Longrightarrow> safe any_end (kept u) (f s) (kept u)) \<Longrightarrow> safe any_end (kept u) (bindR askA f) (kept u)"
  by (simp add: safe_def bindR_def askA_def)

lemmas kept_rules = kept_ask same_bind same_then same_if same_option same_sum safe_ret same_never kept_dv kept_err

lemma flag_dv: "safe any_end (flag u) (dv m) (flag u)"
  by (auto simp: safe_def dv_def split: prod.splits option.splits)

lemma flag_upd: "(\<And>s. sv_useLambdaSnapshot (g s) = sv_useLambdaSnapshot s) \<Longrightarrow> safe any_end (flag u) (updA g) (flag u)"
  by (simp add: safe_def updA_def)

lemmas flag_rules = same_askA same_bind same_then same_if same_option same_sum safe_ret same_never flag_dv

lemma map_put_set: "set (map_put k v m) \<subseteq> insert (k, v) (set m)"
  by (induction m) (auto split: if_splits)

text \<open>\<open>set_for\<close> on bindings of the plan.\<close>

abbreviation seen :: "bool \<Rightarrow> avbd \<Rightarrow> avbd \<times> 'w \<Rightarrow> bool" where
  "seen u s t \<equiv> kept u t \<and> view (fst t) = view s"

lemma seen_ask:
  "(\<And>s. sets_ok s \<Longrightarrow> sv_useLambdaSnapshot s = u \<Longrightarrow> safe any_end (seen u s) (f s) (kept u)) \<Longrightarrow>
   safe any_end (kept u) (bindR askA f) (kept u)"
  by (simp add: safe_def bindR_def askA_def)

lemma seen_dv: "safe any_end (seen u s) (dv m) (seen u s)"
proof -
  have v: "view (t\<lparr>av_dev := d\<rparr>) = view t" for t d by (simp add: view_def)
  then have "sets_ok (t\<lparr>av_dev := d\<rparr>) = sets_ok t" for t d by (rule sets_ok_view)
  then show ?thesis using v by (auto simp: safe_def dv_def split: prod.splits option.splits)
qed

lemma seen_kept: "safe any_end (kept u) m Q \<Longrightarrow> safe any_end (seen u s) m Q"
  by (erule safe_weaken) simp_all

lemma add_set_ok:
  assumes "sets_ok s" "binds_for s kn color = Some bs" "r \<noteq> 0" "current_bindings s kn color bs = Some (Inr rb)"
  shows "sets_ok (s\<lparr>av_sets := map_put (set_key_of kn color) (Set_entry r rb) (av_sets s)\<rparr>)"
proof -
  let ?s = "s\<lparr>av_sets := map_put (set_key_of kn color) (Set_entry r rb) (av_sets s)\<rparr>"
  have eq: "set_ok ?s = set_ok s" by (rule set_ok_cong) simp_all
  have "set_ok s (set_key_of kn color, Set_entry r rb)" using assms(2-4) by (auto simp: set_ok_def)
  then show ?thesis using assms(1) map_put_set [of "set_key_of kn color" "Set_entry r rb" "av_sets s"]
    unfolding sets_ok_def eq by (auto dest!: subsetD)
qed

lemma kept_add:
  assumes "binds_for s kn color = Some bs" "r \<noteq> 0" "current_bindings s kn color bs = Some (Inr rb)"
  shows "safe any_end (seen u s) (updA (\<lambda>s. s\<lparr>av_sets := map_put (set_key_of kn color) (Set_entry r rb) (av_sets s)\<rparr>)) (kept u)"
  unfolding safe_def
proof (intro allI impI)
  fix t :: "avbd \<times> 'a"
  assume t: "seen u s t"
  then have "view (fst t) = view s" by simp
  then have eq: "sv_useLambdaSnapshot (fst t) = sv_useLambdaSnapshot s" "av_kernels (fst t) = av_kernels s"
    "current_bindings (fst t) kn color bs = current_bindings s kn color bs"
    using set_bindings_view [of "fst t" s kn color bs] by (simp_all add: view_def current_bindings_def)
  then have "sets_ok ((fst t)\<lparr>av_sets := map_put (set_key_of kn color) (Set_entry r rb) (av_sets (fst t))\<rparr>)"
    using t assms binds_for_cong [OF eq(1)] by (intro add_set_ok [where bs = bs]) simp_all
  then show "case updA (\<lambda>s. s\<lparr>av_sets := map_put (set_key_of kn color) (Set_entry r rb) (av_sets s)\<rparr>) t of
      (None, s') \<Rightarrow> any_end s' | (Some x, s') \<Rightarrow> kept u s'"
    using t by (simp add: updA_def)
qed

lemma kept_set_for:
  assumes "binds_for t kn color = Some bs" "sv_useLambdaSnapshot t = u"
  shows "safe any_end (kept u) (set_for E kn color bs) (kept u)"
  unfolding set_for_def Let_def
proof (rule seen_ask)
  fix s :: avbd
  assume s: "sets_ok s" "sv_useLambdaSnapshot s = u"
  then have b: "binds_for s kn color = Some bs" using binds_for_cong [of s t] assms by simp
  have new: "safe any_end (seen u s) (case set_bindings s kn color bs (kd_paramsBinding (rk_desc k)) (kd_bindings (rk_desc k)) of
      Inl name \<Rightarrow> thenR (set_err (kn @ '': unbound '' @ [CHR 0x27] @ name @ [CHR 0x27])) (ret 0)
    | Inr rb \<Rightarrow> bindR (dv (uniform_set (ae_host E) (rk_shader k) rb 0)) (\<lambda>r.
        if r = 0 then bindR askA (\<lambda>s. thenR (set_err (kn @ '': '' @ dv_err (av_dev s))) (ret r))
        else thenR (updA (\<lambda>s. s\<lparr>av_sets := map_put (set_key_of kn color) (Set_entry r rb) (av_sets s)\<rparr>)) (ret r))) (kept u)"
    if k: "map_of (av_kernels s) kn = Some k" for k
  proof (cases "set_bindings s kn color bs (kd_paramsBinding (rk_desc k)) (kd_bindings (rk_desc k))")
    case (Inl e)
    show ?thesis unfolding Inl sum.case by (intro seen_kept kept_rules)
  next
    case (Inr rb)
    then have c: "current_bindings s kn color bs = Some (Inr rb)" using k by (simp add: current_bindings_def)
    show ?thesis unfolding Inr sum.case
    proof (intro safe_bind [OF seen_dv])
      fix r
      show "safe any_end (seen u s)
         (if r = 0 then bindR askA (\<lambda>s. thenR (set_err (kn @ '': '' @ dv_err (av_dev s))) (ret r))
          else thenR (updA (\<lambda>s. s\<lparr>av_sets := map_put (set_key_of kn color) (Set_entry r rb) (av_sets s)\<rparr>)) (ret r)) (kept u)"
      proof (cases "r = 0")
        case True
        show ?thesis unfolding if_P [OF True] by (intro seen_kept kept_rules)
      next
        case False
        show ?thesis unfolding if_not_P [OF False] by (intro safe_then [OF kept_add [OF b False c]] safe_ret)
      qed
    qed
  qed
  show "safe any_end (seen u s)
     (case map_of (av_sets s) (set_key_of kn color) of
        None \<Rightarrow> (case map_of (av_kernels s) kn of
            None \<Rightarrow> never
          | Some k \<Rightarrow> (case set_bindings s kn color bs (kd_paramsBinding (rk_desc k)) (kd_bindings (rk_desc k)) of
               Inl name \<Rightarrow> thenR (set_err (kn @ '': unbound '' @ [CHR 0x27] @ name @ [CHR 0x27])) (ret 0)
             | Inr rb \<Rightarrow> bindR (dv (uniform_set (ae_host E) (rk_shader k) rb 0)) (\<lambda>r.
                 if r = 0 then bindR askA (\<lambda>s. thenR (set_err (kn @ '': '' @ dv_err (av_dev s))) (ret r))
                 else thenR (updA (\<lambda>s. s\<lparr>av_sets := map_put (set_key_of kn color) (Set_entry r rb) (av_sets s)\<rparr>)) (ret r))))
      | Some e \<Rightarrow> ret (se_rid e)) (kept u)"
    using new by (cases "map_of (av_sets s) (set_key_of kn color)"; cases "map_of (av_kernels s) kn")
      (auto intro: seen_kept safe_ret simp: safe_def never_def ret_def)
qed


subsection \<open>Recording\<close>

abbreviation fine :: "avbd \<times> 'w \<Rightarrow> bool" where
  "fine s \<equiv> sets_ok (fst s)"

lemma fine_kept: "(\<And>u. safe any_end (kept u) m (kept u)) \<Longrightarrow> safe any_end fine m fine"
  by (fastforce simp: safe_def split: prod.splits option.splits)

lemma steps_rules:
  "safe K P (steps []) P"
  "safe K P m P \<Longrightarrow> safe K P (steps ms) P \<Longrightarrow> safe K P (steps (m # ms)) P"
  "(\<And>x. x \<in> set xs \<Longrightarrow> safe K P (f x) P) \<Longrightarrow> safe K P (steps (map f xs)) P"
  "safe K P (steps ms) P \<Longrightarrow> safe K P (steps ns) P \<Longrightarrow> safe K P (steps (ms @ ns)) P"
proof -
  show cons: "safe K P m P \<Longrightarrow> safe K P (steps ms) P \<Longrightarrow> safe K P (steps (m # ms)) P" for m ms
    unfolding steps_Cons by (rule safe_then)
  show nil: "safe K P (steps []) P" unfolding steps_Nil by (rule safe_ret)
  show "(\<And>x. x \<in> set xs \<Longrightarrow> safe K P (f x) P) \<Longrightarrow> safe K P (steps (map f xs)) P"
    by (induction xs) (simp_all add: nil cons)
  show "safe K P (steps ms) P \<Longrightarrow> safe K P (steps ns) P \<Longrightarrow> safe K P (steps (ms @ ns)) P"
    using safe_then [of K P "steps ms" P "steps ns" P] by (simp add: safe_def steps_append)
qed

lemma kept_perform: "planned_cmd_ok t c \<Longrightarrow> sv_useLambdaSnapshot t = u \<Longrightarrow> safe any_end (kept u) (perform E c) (kept u)"
proof (cases c)
  case (Dispatch kn color threads bs)
  assume c: "planned_cmd_ok t c" "sv_useLambdaSnapshot t = u"
  then have b: "binds_for t kn color = Some bs" using Dispatch by (simp add: planned_cmd_ok_def)
  show ?thesis unfolding Dispatch perform.simps void_def av_dispatch_def
    by (intro kept_rules steps_rules kept_set_for [OF b c(2)])
qed (simp add: kept_dv)

lemma fine_performs: "(\<And>s c. c \<in> set (cs s) \<Longrightarrow> planned_cmd_ok s c) \<Longrightarrow> safe any_end fine (bindR askA (\<lambda>s. performs E (cs s))) fine"
  unfolding performs_def by (intro fine_kept kept_ask steps_rules) (blast intro: kept_perform)

lemma fine_perform: "(\<And>s. planned_cmd_ok s (c s)) \<Longrightarrow> safe any_end fine (bindR askA (\<lambda>s. perform E (c s))) fine"
  by (intro fine_kept kept_ask) (blast intro: kept_perform)

lemma fine_dv: "safe any_end fine (dv m) fine"
  by (intro fine_kept kept_dv)

lemma fine_upd: "(\<And>s. view (g s) = view s) \<Longrightarrow> safe any_end fine (updA g) fine"
  by (intro fine_kept kept_upd)

lemma fine_err: "safe any_end fine (set_err e) fine"
  by (intro fine_kept kept_err)

lemma same_prod: "(\<And>x y. safe K P (f x y) P) \<Longrightarrow> safe K P (case v of (x, y) \<Rightarrow> f x y) P"
  by (cases v) simp

lemmas fine_rules = same_askA same_bind same_then same_if same_option same_prod safe_ret fine_dv fine_err steps_rules

subsection \<open>Clearing the cache\<close>

definition clears :: "(avbd \<times> 'w, 'a) prog \<Rightarrow> bool" where
  "clears m \<longleftrightarrow> safe any_end any_end m (\<lambda>s. av_sets (fst s) = [])"

lemma any_safe: "safe any_end any_end m any_end"
  by (simp add: safe_def split: prod.splits option.splits)

lemma clears_invalidate: "clears (invalidate_sets E)"
  unfolding clears_def invalidate_sets_def
  by (intro safe_bind [OF any_safe] safe_then [OF any_safe]) (simp add: safe_def updA_def)

lemma clears_then: "clears n \<Longrightarrow> clears (thenR m n)"
  unfolding clears_def by (rule safe_then [OF any_safe])

lemma clears_bind: "(\<And>x. clears (f x)) \<Longrightarrow> clears (bindR m f)"
  unfolding clears_def by (rule safe_bind [OF any_safe])

lemma clears_if: "clears m \<Longrightarrow> clears n \<Longrightarrow> clears (if b then m else n)"
  by simp

lemma clears_single: "clears m \<Longrightarrow> clears (steps [m])"
  by (simp add: steps_single)

lemma clears_Cons: "clears (steps ms) \<Longrightarrow> clears (steps (m # ms))"
  unfolding steps_Cons by (rule clears_then)

lemma clears_append: "clears (steps ns) \<Longrightarrow> clears (steps (ms @ ns))"
  by (induction ms) (simp_all add: clears_Cons)

lemmas clears_rules = clears_single clears_Cons clears_append clears_then clears_bind clears_if

lemma fine_clears: fixes m :: "(avbd \<times> 'w, 'a) prog" shows "clears m \<Longrightarrow> safe any_end fine m fine"
proof -
  have none: "av_sets (fst s) = [] \<Longrightarrow> fine s" for s :: "avbd \<times> 'w" by (simp add: sets_ok_def)
  show "clears m \<Longrightarrow> safe any_end fine m fine"
    using none unfolding clears_def safe_def by (fastforce split: prod.splits option.splits)
qed


text \<open>The calls that make or free buffers end by clearing it.\<close>

lemma clears_setupMesh: "clears (rd_setupMesh E nVerts positions predicted mass invHSq)"
  unfolding rd_setupMesh_def Let_def by (intro clears_rules clears_invalidate)

lemma clears_uploads:
  "clears (rd_uploadSprings E n p1Idx p2Idx restLen stiffness)"
  "clears (rd_uploadAttachments E n vertIdx fixedPos stiffness)"
  "clears (rd_uploadTriangles E n triIdx invUV stiffness)"
  "clears (rd_uploadBendings E n bendIdx weight nTarget stiffness)"
  unfolding rd_uploadSprings_def rd_uploadAttachments_def rd_uploadTriangles_def rd_uploadBendings_def Let_def
  by (intro clears_rules clears_invalidate)+

lemma fine_ensure_params: "safe any_end fine (ensure_params E) fine"
  unfolding ensure_params_def Let_def
  by (intro same_askA same_if safe_ret fine_clears clears_rules clears_invalidate)


lemma fine_sync: "safe any_end fine (avbd_sync E) fine" "safe any_end fine (wait_pending E) fine"
  unfolding wait_pending_def avbd_sync_def by (intro fine_rules fine_upd; simp add: view_def)+

lemma fine_updates: "safe any_end fine (update_v3 E f xyz n) fine" "safe any_end fine (update_f32 E f v) fine"
  unfolding update_v3_def update_f32_def Let_def void_def by (intro fine_rules fine_sync)+

lemma fine_prologue: "safe any_end fine (prologue E) fine" "safe any_end fine (begin_record E) fine"
proof -
  show p: "safe any_end fine (prologue E) fine"
    unfolding prologue_def by (intro fine_rules fine_sync fine_ensure_params)
  show "safe any_end fine (begin_record E) fine"
    unfolding begin_record_def by (intro fine_rules p)
qed

lemma fine_records:
  "safe any_end fine (record_iteration E fin) fine" "safe any_end fine (record_duals E) fine"
  "safe any_end fine (record_backward E) fine"
  unfolding record_iteration_def record_duals_def record_backward_def mark_lambdas_dirty_def
  by (intro fine_rules fine_performs planned_iteration planned_duals_cmds planned_backward fine_upd; simp add: view_def)+

lemma fine_snapshot: "safe any_end fine (snapshot_pre_step E) fine"
proof -
  have copy: "safe any_end fine (copy_buf E f g) fine" for f g
    unfolding copy_buf_def void_def by (intro fine_rules)
  show ?thesis unfolding snapshot_pre_step_def
    by (intro fine_rules copy fine_upd) (simp_all add: view_def)
qed

lemma fine_submit: "safe any_end fine (end_record_and_submit E) fine" "safe any_end fine run_result fine"
  unfolding end_record_and_submit_def run_result_def by (intro fine_rules fine_upd; simp add: view_def)+

lemma fine_record_run: "safe any_end fine (record_run E iters duals) fine"
  unfolding record_run_def void_def by (intro fine_rules fine_records fine_snapshot)

lemma fine_runs:
  "safe any_end fine (avbd_step E) fine" "safe any_end fine (avbd_run E iters duals) fine"
  unfolding avbd_step_def avbd_run_def by (intro fine_rules fine_prologue fine_record_run fine_submit)+

lemma fine_step_dual:
  assumes "\<And>s. planned_cmd_ok s (c s)"
  shows "safe any_end fine (step_dual E cnt marks c) fine"
  unfolding step_dual_def mark_lambdas_dirty_def
  by (intro fine_rules fine_prologue fine_submit fine_perform assms fine_upd; simp add: view_def)

lemma fine_duals:
  "safe any_end fine (avbd_stepDualAttachments E) fine" "safe any_end fine (avbd_stepDualMembrane E) fine"
  "safe any_end fine (avbd_stepDualBending E) fine"
  unfolding avbd_stepDualAttachments_def avbd_stepDualMembrane_def avbd_stepDualBending_def
  by (intro fine_step_dual planned_duals)+

lemma fine_prepare: "safe any_end fine (prepare_backward E loss) fine"
proof -
  have "safe any_end fine (ensure_backward_buffers E) fine"
    unfolding ensure_backward_buffers_def Let_def
    by (intro same_askA same_if safe_ret same_then fine_clears clears_rules clears_invalidate fine_err)
  moreover have "safe any_end fine (clear_buf E f) fine" for f
    unfolding clear_buf_def void_def by (intro fine_rules)
  ultimately show ?thesis unfolding prepare_backward_def by (intro fine_rules fine_updates)
qed

lemma fine_backward:
  "safe any_end fine (avbd_stepBackward E loss) fine" "safe any_end fine (avbd_runWithBackward E iters duals loss) fine"
  unfolding avbd_stepBackward_def avbd_runWithBackward_def void_def
  by (intro fine_rules fine_prologue fine_prepare fine_records fine_record_run fine_submit fine_upd; simp add: view_def)+

lemma fine_reads:
  "safe any_end fine (avbd_readPositions E) fine" "safe any_end fine (read_grads E gs) fine"
  "safe any_end fine (rd_readDebugForTest E name) fine" "safe any_end fine (rd_collectSelfCollisions E) fine"
proof -
  have bytes: "safe any_end fine (buffer_bytes E b) fine" for b
    unfolding buffer_bytes_def by (intro fine_rules fine_sync)
  have grad: "safe any_end fine (read_grad E g) fine" for g
    by (cases g) (simp_all add: read_v3_def read_f32_def Let_def, (intro fine_rules bytes)+)
  then have grads: "safe any_end fine (read_grads E gs) fine" for gs
    by (induction gs) (simp_all, (intro fine_rules)+)
  show "safe any_end fine (read_grads E gs) fine" by (rule grads)
  show "safe any_end fine (avbd_readPositions E) fine" "safe any_end fine (rd_readDebugForTest E name) fine"
    "safe any_end fine (rd_collectSelfCollisions E) fine"
    unfolding avbd_readPositions_def rd_readDebugForTest_def rd_collectSelfCollisions_def
    by (intro fine_rules bytes grad)+
qed

lemma fine_self:
  "safe any_end fine (rd_uploadSelfCollisionRadii E radii k) fine" "safe any_end fine (rd_submitSelfCollisionScan E) fine"
  unfolding rd_uploadSelfCollisionRadii_def rd_submitSelfCollisionScan_def Let_def void_def
  by (intro same_askA same_if safe_ret fine_clears clears_rules clears_invalidate,
      intro fine_rules fine_prologue fine_perform planned_duals fine_submit)

lemma fine_settings:
  "safe any_end fine (rd_setGammaScale E c) fine" "safe any_end fine (rd_setPenaltyRamp b p) fine"
  "safe any_end fine (rd_setPadFillForTest fill) fine" "safe any_end fine (rd_setDebugStopForTest col stage) fine"
  "safe any_end fine (rd_setLambdaSnapshotForTest E use) fine"
  unfolding rd_setGammaScale_def rd_setPenaltyRamp_def rd_setPadFillForTest_def rd_setDebugStopForTest_def
    rd_setLambdaSnapshotForTest_def Let_def
  by (intro fine_rules fine_updates fine_upd; simp add: view_def)+ (intro fine_clears clears_rules clears_invalidate)

lemma fine_rest:
  "safe any_end fine (rd_updateState E positions predicted) fine"
  "safe any_end fine (rd_updateAttachmentFixedPos E fixedPos) fine"
  "safe any_end fine (rd_updateTriangleRest E invUV stiffness) fine"
  "safe any_end fine (rd_updateBendingRest E weight nTarget stiffness) fine"
  "safe any_end fine (rd_updateAttachmentStiffness E stiffness) fine"
  "safe any_end fine (rd_updateSelfCollisionRadii E radii) fine"
  unfolding rd_updateState_def rd_updateAttachmentFixedPos_def rd_updateTriangleRest_def rd_updateBendingRest_def
    rd_updateAttachmentStiffness_def rd_updateSelfCollisionRadii_def Let_def
  by (intro fine_rules fine_updates fine_upd; simp add: view_def)+

lemma fine_buildColoring: "safe any_end fine (rd_buildColoring E) fine"
  unfolding rd_buildColoring_def Let_def
  by (intro same_askA same_if same_prod safe_ret fine_clears clears_rules clears_invalidate)


section \<open>Histories of calls\<close>

text \<open>The public surface of \<open>AvbdRd\<close>, the test hooks included.\<close>

datatype (plugins only: code size) avbd_op =
    A_setupMesh u32 "u32 list" "u32 list" "u32 list" u32
  | A_uploadSprings u32 "u32 list" "u32 list" "u32 list" "u32 list"
  | A_uploadAttachments u32 "u32 list" "u32 list" "u32 list"
  | A_uploadTriangles u32 "u32 list" "u32 list" "u32 list"
  | A_uploadBendings u32 "u32 list" "u32 list" "u32 list" "u32 list"
  | A_buildColoring | A_setGammaScale u32 | A_setPenaltyRamp u32 u32
  | A_updateState "u32 list" "u32 list" | A_updateAttachmentFixedPos "u32 list"
  | A_updateTriangleRest "u32 list" "u32 list" | A_updateBendingRest "u32 list" "u32 list" "u32 list"
  | A_updateAttachmentStiffness "u32 list" | A_updateSelfCollisionRadii "u32 list"
  | A_step | A_stepDualAttachments | A_stepDualMembrane | A_stepDualBending | A_run int bool | A_sync
  | A_readPositions | A_stepBackward "u32 list" | A_runWithBackward int bool "u32 list" | A_readGrads "solver \<Rightarrow> grad list"
  | A_uploadSelfCollisionRadii "u32 list" u32 | A_submitSelfCollisionScan | A_collectSelfCollisions
  | A_setPadFill u32 | A_setLambdaSnapshot bool | A_setDebugStop int int | A_readDebug string

fun do_avbd_op :: "'w aenv \<Rightarrow> avbd_op \<Rightarrow> ('w, unit) arun" where
  "do_avbd_op E (A_setupMesh n p q m i) = rd_setupMesh E n p q m i"
| "do_avbd_op E (A_uploadSprings n p q l k) = rd_uploadSprings E n p q l k"
| "do_avbd_op E (A_uploadAttachments n v f k) = rd_uploadAttachments E n v f k"
| "do_avbd_op E (A_uploadTriangles n t u k) = rd_uploadTriangles E n t u k"
| "do_avbd_op E (A_uploadBendings n b w t k) = rd_uploadBendings E n b w t k"
| "do_avbd_op E A_buildColoring = rd_buildColoring E"
| "do_avbd_op E (A_setGammaScale c) = rd_setGammaScale E c"
| "do_avbd_op E (A_setPenaltyRamp b p) = rd_setPenaltyRamp b p"
| "do_avbd_op E (A_updateState p q) = rd_updateState E p q"
| "do_avbd_op E (A_updateAttachmentFixedPos f) = rd_updateAttachmentFixedPos E f"
| "do_avbd_op E (A_updateTriangleRest u k) = rd_updateTriangleRest E u k"
| "do_avbd_op E (A_updateBendingRest w t k) = rd_updateBendingRest E w t k"
| "do_avbd_op E (A_updateAttachmentStiffness k) = rd_updateAttachmentStiffness E k"
| "do_avbd_op E (A_updateSelfCollisionRadii r) = rd_updateSelfCollisionRadii E r"
| "do_avbd_op E A_step = void (avbd_step E)"
| "do_avbd_op E A_stepDualAttachments = void (avbd_stepDualAttachments E)"
| "do_avbd_op E A_stepDualMembrane = void (avbd_stepDualMembrane E)"
| "do_avbd_op E A_stepDualBending = void (avbd_stepDualBending E)"
| "do_avbd_op E (A_run iters duals) = void (avbd_run E iters duals)"
| "do_avbd_op E A_sync = avbd_sync E"
| "do_avbd_op E A_readPositions = void (avbd_readPositions E)"
| "do_avbd_op E (A_stepBackward loss) = void (avbd_stepBackward E loss)"
| "do_avbd_op E (A_runWithBackward iters duals loss) = void (avbd_runWithBackward E iters duals loss)"
| "do_avbd_op E (A_readGrads gs) = bindR askA (\<lambda>s. void (read_grads E (gs (solver.truncate s))))"
| "do_avbd_op E (A_uploadSelfCollisionRadii r k) = rd_uploadSelfCollisionRadii E r k"
| "do_avbd_op E A_submitSelfCollisionScan = void (rd_submitSelfCollisionScan E)"
| "do_avbd_op E A_collectSelfCollisions = void (rd_collectSelfCollisions E)"
| "do_avbd_op E (A_setPadFill fill) = rd_setPadFillForTest fill"
| "do_avbd_op E (A_setLambdaSnapshot use) = rd_setLambdaSnapshotForTest E use"
| "do_avbd_op E (A_setDebugStop col stage) = rd_setDebugStopForTest col stage"
| "do_avbd_op E (A_readDebug name) = void (rd_readDebugForTest E name)"

lemma fine_op: "safe any_end fine (do_avbd_op E op1) fine"
  by (cases op1)
    (simp_all add: fine_clears [OF clears_setupMesh] fine_clears [OF clears_uploads(1)] fine_clears [OF clears_uploads(2)]
      fine_clears [OF clears_uploads(3)] fine_clears [OF clears_uploads(4)] void_def same_bind same_askA safe_ret
      fine_buildColoring fine_settings fine_rest fine_runs fine_duals fine_sync fine_reads fine_backward fine_self)

text \<open>Calls that return, whatever they return.\<close>

inductive avbd_calls :: "'w aenv \<Rightarrow> avbd \<times> 'w \<Rightarrow> avbd \<times> 'w \<Rightarrow> bool" for E :: "'w aenv" where
  none: "avbd_calls E s s"
| call: "do_avbd_op E op1 s = (Some (), t) \<Longrightarrow> avbd_calls E t s' \<Longrightarrow> avbd_calls E s s'"

lemma calls_fine: "avbd_calls E s s' \<Longrightarrow> fine s \<Longrightarrow> fine s'"
proof (induction rule: avbd_calls.induct)
  case (call op1 s t s')
  from safeD [OF fine_op call.prems, of E op1] show ?case using call.hyps(1) call.IH by simp
qed

text \<open>A solver just constructed has no sets.\<close>

lemma construct_no_sets: "construct E (new_avbd d, w) = (Some (), s) \<Longrightarrow> av_sets (fst s) = []"
proof -
  let ?P = "\<lambda>s :: avbd \<times> 'a. av_sets (fst s) = []"
  have dv: "safe any_end ?P (dv m) ?P" for m
    by (auto simp: safe_def dv_def split: prod.splits option.splits)
  have upd: "(\<And>s. av_sets (g s) = av_sets s) \<Longrightarrow> safe any_end ?P (updA g) ?P" for g
    by (simp add: safe_def updA_def)
  note rules = same_askA same_bind same_then same_if same_option same_prod safe_ret dv
  have err: "safe any_end ?P (set_err e) ?P" for e unfolding set_err_def by (rule upd) simp
  have load: "safe any_end ?P (load_kernel E name) ?P" for name
  proof -
    have "safe any_end ?P (bindR (dv (shader_from_spirv (ae_host E) bytes)) (\<lambda>sh.
          if sh = 0 then fail_kernel name
          else bindR (dv (compute_pipeline (ae_host E) sh)) (\<lambda>p.
            if p = 0 then fail_kernel name
            else thenR (updA (\<lambda>s. s\<lparr>av_kernels := map_put name (Rd_kernel sh p desc) (av_kernels s)\<rparr>)) (ret True)))) ?P"
      for bytes desc
      unfolding fail_kernel_def by (intro rules err upd) simp
    then show ?thesis unfolding load_kernel_def
      by (auto intro!: same_then err safe_ret split: option.splits)
  qed
  have "safe any_end ?P (load_from E names) ?P" for names
    by (induction names) (simp_all add: safe_ret, intro rules load)
  then have "safe any_end ?P (construct E) ?P"
    unfolding construct_def load_kernels_def by (intro rules err upd) simp_all
  from safeD [OF this, of "(new_avbd d, w)"]
  show "construct E (new_avbd d, w) = (Some (), s) \<Longrightarrow> av_sets (fst s) = []"
    by (simp add: new_avbd_def avbd.defs solver.defs)
qed

text \<open>What the recording functions may dispatch.\<close>

definition recorded_cmds :: "'a solver_scheme \<Rightarrow> bool \<Rightarrow> cmd list" where
  "recorded_cmds s fin = iteration_cmds s fin @ duals_cmds s @ backward_cmds s @ [scan_cmd s]"

lemma recorded_planned: "Dispatch kn color threads bs \<in> set (recorded_cmds s fin) \<Longrightarrow> binds_for s kn color = Some bs"
proof -
  have "c \<in> set (recorded_cmds s fin) \<Longrightarrow> planned_cmd_ok s c" for c
    using planned_duals(4) [of s] by (auto simp: recorded_cmds_def planned_iteration planned_duals_cmds planned_backward)
  then show "Dispatch kn color threads bs \<in> set (recorded_cmds s fin) \<Longrightarrow> binds_for s kn color = Some bs"
    by (fastforce simp: planned_cmd_ok_def)
qed

text \<open>A solver with one attachment and the one kernel that updates its dual.\<close>

definition demo_aenv :: "nat aenv" where
  "demo_aenv = \<lparr>ae_host = counting_godot, ae_embedded = (\<lambda>n. Some []), ae_mul = (\<lambda>a b. a)\<rparr>"

definition demo_attached :: avbd where
  "demo_attached = (new_avbd (new_device\<lparr>dv_rd := 1\<rparr>))\<lparr>sv_nVerts := 1, sv_nAttach := 1, sv_meshReady := True, av_ok := True,
     av_paramsReady := True, av_buf := (\<lambda>f. Gbuf 7 4), av_par := (\<lambda>p. Gbuf 9 16),
     av_kernels := [(''attachment_dual_update'', Rd_kernel 3 4 (Kernel_desc ''attachment_dual_update'' 64 kBindings_attachment_dual_update 5))]\<rparr>"

text \<open>
  C7: whatever calls of the public surface return on a solver, in whatever order, a uniform set
  found in the cache for a dispatch of the solver's recordings was made of the buffers the
  solver's members hold now, one per binding of the kernel's table and its params block; so
  \<open>set_for\<close> hands it out as it is, and no freed or replaced buffer is ever bound.
\<close>

theorem cached_sets_current:
  assumes "sets_ok (fst s)" "avbd_calls E s s'" "Dispatch kn color threads bs \<in> set (recorded_cmds (fst s') fin)"
    and "map_of (av_sets (fst s')) (set_key_of kn color) = Some e"
  shows "set_for E kn color bs s' = (Some (se_rid e), s') \<and> se_rid e \<noteq> 0 \<and>
    current_bindings (fst s') kn color bs = Some (Inr (se_made e))"
proof -
  have "sets_ok (fst s')" using calls_fine [OF assms(2)] assms(1) by simp
  from sets_ok_lookup [OF this recorded_planned [OF assms(3)] assms(4)] show ?thesis
    using assms(4) by (simp add: set_for_def bindR_def askA_def ret_def)
qed

lemma cached_sets_current_witness:
  "\<exists>e. set_for demo_aenv ''attachment_dual_update'' (- 1)
         [(''positions'', F_positions), (''vertIdx'', F_at_vert), (''fixedPos'', F_at_fixed), (''gamma'', F_at_gamma), (''lambda'', F_at_lambda)]
         (snd (do_avbd_op demo_aenv A_stepDualAttachments (demo_attached, 0))) =
       (Some (se_rid e), snd (do_avbd_op demo_aenv A_stepDualAttachments (demo_attached, 0))) \<and>
     map (\<lambda>b. snd (snd b)) (se_made e) = [7, 7, 7, 7, 7, 9]"
proof -
  let ?s = "(demo_attached, 0 :: nat)" and ?key = "set_key_of ''attachment_dual_update'' (- 1)"
  let ?t = "snd (do_avbd_op demo_aenv A_stepDualAttachments ?s)"
  have ret: "fst (do_avbd_op demo_aenv A_stepDualAttachments ?s) = Some ()" by code_simp
  have found: "map_option (\<lambda>e. map (\<lambda>b. snd (snd b)) (se_made e)) (map_of (av_sets (fst ?t)) ?key) = Some [7, 7, 7, 7, 7, 9]"
    by code_simp
  then obtain e where e: "map_of (av_sets (fst ?t)) ?key = Some e" "map (\<lambda>b. snd (snd b)) (se_made e) = [7, 7, 7, 7, 7, 9]" by auto
  have calls: "avbd_calls demo_aenv ?s ?t"
    using avbd_calls.call [OF _ avbd_calls.none, of demo_aenv A_stepDualAttachments ?s ?t] by (simp add: prod_eq_iff ret del: do_avbd_op.simps)
  have "sv_nAttach (fst ?t) = 1" by code_simp
  then have "dual_attachment_cmd (fst ?t) \<in> set (recorded_cmds (fst ?t) False)"
    by (simp add: recorded_cmds_def duals_cmds_def when_some_def)
  from cached_sets_current [OF _ calls this [unfolded dual_attachment_cmd_def] e(1)]
  show ?thesis using e(2) by (auto simp: sets_ok_def demo_attached_def new_avbd_def avbd.defs solver.defs)
qed

end
