(* ===== verification/AvbdBounds.thy ===== *)
theory AvbdBounds
  imports AvbdRd
begin

text \<open>
  The ragged tails of \<open>AvbdRd\<close>'s dispatches: a dispatch runs whole groups of 64 threads, and
  the padding of the buffers gives every thread past the last constraint a place of its own.
\<close>

lemma unat_cap_for:
  assumes "unat n + 64 < 2 ^ 32"
  shows "unat (cap_for n) = (unat n + 64) div 64 * 64"
proof -
  define q where "q = (n + 1 + 63) div 64"
  have "n + 1 + 63 = n + 64" by simp
  moreover have "unat (n + 64) = unat n + 64" using assms by (subst unat_add_no_wrap) simp_all
  ultimately have q: "unat q = (unat n + 64) div 64" unfolding q_def by (simp only: unat_div) simp
  have "(unat n + 64) div 64 * 64 \<le> unat n + 64" by simp
  then have "unat q * unat (64 :: u32) < 2 ^ LENGTH(32)" using assms unfolding q by simp
  then have "unat (q * 64) = unat q * unat (64 :: u32)" by (rule unat_mult_no_wrap)
  then show ?thesis unfolding cap_for_def q_def [symmetric] by (simp add: q)
qed

lemma unat_groups_for:
  assumes "unat n + 64 < 2 ^ 32"
  shows "unat (groups_for n 64) = (unat n + 63) div 64"
proof -
  have "n + 64 - 1 = n + 63" by simp
  moreover have "unat (n + 63) = unat n + 63" using assms by (subst unat_add_no_wrap) simp_all
  ultimately show ?thesis by (simp only: groups_for_def unat_div) simp
qed

lemma length_padded: "length (padded v n cap fill) = unat cap"
  by (simp add: padded_def)

lemma nth_padded: "i < unat cap \<Longrightarrow> padded v n cap fill ! i = (if i < unat n then v ! i else fill)"
  by (simp add: padded_def)




end
