(* ===== verification/AvbdCalls.thy ===== *)
theory AvbdCalls
  imports AvbdSets
begin

text \<open>
  What each call of \<open>AvbdRd\<close>'s public surface does to the members that decide what the next run
  records, and to the mark on the duals.
\<close>

section \<open>The members that decide\<close>

text \<open>The marks of the reverse pass and the self-collision row are of no effect on a run.\<close>

definition plan_members :: "'a solver_scheme \<Rightarrow> solver" where
  "plan_members s = (solver.truncate s)\<lparr>sv_meshReady := True, sv_backwardReady := False, sv_selfK := 0\<rparr>"

definition hv :: "avbd \<Rightarrow> (solver \<times> u32 list \<times> u32 list \<times> u32 list \<times> u32 list \<times> bool) \<times> bool" where
  "hv s = ((plan_members s, av_springP1 s, av_springP2 s, av_triIdx s, av_bendIdx s, av_ok s), av_lambdasDirty s)"

lemmas plan_simps = plan_members_def solver.truncate_def

section \<open>What the calls do to the members of \<open>AvbdRd\<close>\<close>

abbreviation hs :: "(solver \<times> u32 list \<times> u32 list \<times> u32 list \<times> u32 list \<times> bool) \<times> bool \<Rightarrow> avbd \<times> 'w \<Rightarrow> bool" where
  "hs h s \<equiv> hv (fst s) = h"

lemma keep_dv: "safe any_end (hs h) (dv m) (hs h)"
  by (auto simp: safe_def dv_def hv_def plan_simps split: prod.splits option.splits)

lemma keep_upd: "(\<And>s. hv (g s) = hv s) \<Longrightarrow> safe any_end (hs h) (updA g) (hs h)"
  by (simp add: safe_def updA_def)

lemma keep_err: "safe any_end (hs h) (set_err e) (hs h)"
  unfolding set_err_def by (rule keep_upd) (simp add: hv_def plan_simps)

lemma keep_put: "safe any_end (hs h) (put_buf f b) (hs h)" "safe any_end (hs h) (put_par p b) (hs h)"
  unfolding put_buf_def put_par_def by (rule keep_upd, simp add: hv_def plan_simps)+

lemmas keep_rules = same_askA same_bind same_then same_if same_option same_prod same_sum safe_ret same_never steps_rules
  keep_dv keep_err keep_put

lemma keep_basics:
  "safe any_end (hs h) (avbd_sync E) (hs h)" "safe any_end (hs h) (free_gbuf E b) (hs h)"
  "safe any_end (hs h) (make_f32 E v) (hs h)" "safe any_end (hs h) (make_u32 E v) (hs h)"
  "safe any_end (hs h) (make_zero E n) (hs h)" "safe any_end (hs h) (make_uniform E v) (hs h)"
  unfolding avbd_sync_def free_gbuf_def make_f32_def make_u32_def make_zero_def make_uniform_def
  by (intro keep_rules keep_upd; simp add: hv_def plan_simps)+

lemma keep_makes:
  "safe any_end (hs h) (wait_pending E) (hs h)" "safe any_end (hs h) (free_buf E f) (hs h)"
  "safe any_end (hs h) (free_par E p) (hs h)" "safe any_end (hs h) (free_all E fs) (hs h)"
  "safe any_end (hs h) (make_f32_cap E v n cap) (hs h)" "safe any_end (hs h) (make_u32_cap E v n cap fill) (hs h)"
  "safe any_end (hs h) (make_v3_cap E v n cap) (hs h)" "safe any_end (hs h) (make_par E p v) (hs h)"
  unfolding wait_pending_def free_buf_def free_par_def free_all_def make_f32_cap_def make_u32_cap_def make_v3_cap_def make_par_def
  by (intro keep_rules keep_basics)+

lemma keep_make_at: "safe any_end (hs h) m (hs h) \<Longrightarrow> safe any_end (hs h) (make_at f m) (hs h)"
  unfolding make_at_def by (intro keep_rules)

lemma keep_csr: "safe any_end (hs h) (make_csr E n k idx f1 f2 fr) (hs h)"
  unfolding make_csr_def by (intro keep_rules keep_make_at keep_basics)

lemma keep_updates:
  "safe any_end (hs h) (update_v3 E f xyz n) (hs h)" "safe any_end (hs h) (update_f32 E f v) (hs h)"
  unfolding update_v3_def update_f32_def Let_def void_def by (intro keep_rules keep_makes)+

lemma keep_invalidate: "safe any_end (hs h) (invalidate_sets E) (hs h)"
  unfolding invalidate_sets_def drop_set_def by (intro keep_rules keep_upd) (simp add: hv_def plan_simps)

lemmas keep_calls = keep_rules keep_basics keep_makes keep_make_at keep_csr keep_updates keep_invalidate


subsection \<open>Calls that set members\<close>

definition effect :: "('w, 'a) arun \<Rightarrow> _ \<Rightarrow> bool" where
  "effect m G \<longleftrightarrow> (\<forall>s x s'. m s = (Some x, s') \<longrightarrow> hv (fst s') = G (hv (fst s)))"

lemma effect_keep: "(\<And>h. safe any_end (hs h) m (hs h)) \<Longrightarrow> effect m (\<lambda>h. h)"
  unfolding effect_def
proof (intro allI impI)
  fix s x s'
  assume m: "\<And>h. safe any_end (hs h) m (hs h)" and r: "m s = (Some x, s')"
  show "hv (fst s') = hv (fst s)" using safeD [OF m [of "hv (fst s)"], of s] r by simp
qed

lemma effect_upd: "(\<And>s. hv (g s) = F (hv s)) \<Longrightarrow> effect (updA g) F"
  by (simp add: effect_def updA_def)

lemma effect_then: "effect m F \<Longrightarrow> effect n G \<Longrightarrow> effect (thenR m n) (\<lambda>h. G (F h))"
  unfolding effect_def thenR_def bindR_def by (clarsimp split: prod.splits option.splits) (metis fst_conv)

lemma effect_Cons: "effect m F \<Longrightarrow> effect (steps ms) G \<Longrightarrow> effect (steps (m # ms)) (\<lambda>h. G (F h))"
  unfolding steps_Cons by (rule effect_then)

lemma effect_second:
  assumes "\<And>h. safe any_end (hs h) m (hs h)" "\<And>s. hv (g s) = F (hv s)" "\<And>h. safe any_end (hs h) (steps ms) (hs h)"
  shows "effect (steps (m # updA g # ms)) F"
proof -
  have "effect (updA g) F" by (rule effect_upd) (rule assms(2))
  from effect_Cons [OF effect_keep [OF assms(1)] effect_Cons [OF this effect_keep [OF assms(3)]]] show ?thesis .
qed

definition on_plan :: "(solver \<Rightarrow> solver) \<Rightarrow> _ \<Rightarrow> (solver \<times> u32 list \<times> u32 list \<times> u32 list \<times> u32 list \<times> bool) \<times> bool" where
  "on_plan f h = (case h of ((p, r), d) \<Rightarrow> ((f p, r), d))"

lemmas hv_simps = hv_def plan_simps on_plan_def

lemma effect_springs:
  "effect (rd_uploadSprings E n p1 p2 l k)
     (\<lambda>((p, a, b, r), d). ((p\<lparr>sv_nSprings := n\<rparr>, take (unat n) p1, take (unat n) p2, r), d))"
  unfolding rd_uploadSprings_def Let_def
  by (rule effect_second) (intro keep_calls, simp add: hv_simps, intro keep_calls)

lemma effect_attachments: "effect (rd_uploadAttachments E n v f k) (on_plan (\<lambda>p. p\<lparr>sv_nAttach := n\<rparr>))"
  unfolding rd_uploadAttachments_def Let_def
  by (rule effect_second) ((intro keep_calls)[1], (simp add: hv_simps)[1], (intro keep_calls keep_upd; simp add: hv_simps))

lemma effect_triangles:
  "effect (rd_uploadTriangles E n t u k)
     (\<lambda>((p, a, b, c, r), d). ((p\<lparr>sv_nTri := n\<rparr>, a, b, take (unat (3 * n)) t, r), d))"
  unfolding rd_uploadTriangles_def Let_def
  by (rule effect_second) ((intro keep_calls)[1], (simp add: hv_simps)[1], (intro keep_calls keep_upd; simp add: hv_simps))

lemma effect_bendings:
  "effect (rd_uploadBendings E n t w tg k)
     (\<lambda>((p, a, b, c, e, r), d). ((p\<lparr>sv_nBend := n\<rparr>, a, b, c, take (unat (4 * n)) t, r), d))"
  unfolding rd_uploadBendings_def Let_def
  by (rule effect_second) ((intro keep_calls)[1], (simp add: hv_simps)[1], (intro keep_calls keep_upd; simp add: hv_simps))

lemma effect_setupMesh:
  "effect (rd_setupMesh E n p q m i) (on_plan (\<lambda>p. p\<lparr>sv_nVerts := n, sv_invHSq := i, sv_colorOffsets := [0, n]\<rparr>))"
proof -
  let ?F = "on_plan (\<lambda>p. p\<lparr>sv_nVerts := n, sv_invHSq := i\<rparr>)" and ?G = "on_plan (\<lambda>p. p\<lparr>sv_colorOffsets := [0, n]\<rparr>)"
  have cut: "effect (steps (ms @ ns)) (\<lambda>h. G (F h))" if "effect (steps ms) F" "effect (steps ns) G" for ms ns :: "('a, unit) arun list" and F G
    using effect_then [OF that] by (simp add: effect_def steps_append)
  let ?first = "[wait_pending E, updA (\<lambda>s. s\<lparr>sv_nVerts := n, sv_invHSq := i\<rparr>),
        free_all E [F_positions, F_predicted, F_mass, F_gScratch, F_hScratch, F_vertPerm],
        make_at F_positions (make_v3_cap E p n (cap_for n)), make_at F_predicted (make_v3_cap E q n (cap_for n)),
        make_at F_mass (make_f32_cap E m n (cap_for n)), make_at F_gScratch (make_zero E (16 * ucast (cap_for n))),
        make_at F_hScratch (make_f32 E (h_rows n (cap_for n))), updA (\<lambda>s. s\<lparr>av_vertPerm := map word_of_nat [0..<unat n]\<rparr>),
        make_at F_vertPerm (make_u32 E (map word_of_nat [0..<unat n])), free_buf E F_positionsPre,
        make_at F_positionsPre (make_v3_cap E p n (cap_for n)), updA (\<lambda>s. s\<lparr>sv_backwardReady := False, av_hasStep := False\<rparr>),
        free_all E [F_radii, F_neighbors]]"
  let ?second = "[free_par E U_self, updA (\<lambda>s. s\<lparr>sv_selfK := 0, sv_colorOffsets := [0, n],
          sv_meshReady := list_all (\<lambda>f. gb_valid (av_buf s f)) [F_positions, F_predicted, F_mass, F_gScratch, F_hScratch, F_vertPerm],
          av_paramsReady := False\<rparr>), invalidate_sets E]"
  have "effect (steps ?first) ?F"
    by (rule effect_second) ((intro keep_calls)[1], (simp add: hv_simps)[1], (intro keep_calls keep_upd; simp add: hv_simps))
  moreover have "effect (steps ?second) ?G"
    by (rule effect_second) (intro keep_calls, simp add: hv_simps, intro keep_calls)
  ultimately have "effect (steps (?first @ ?second)) (\<lambda>h. ?G (?F h))" by (rule cut)
  moreover have "(\<lambda>h. ?G (?F h)) = on_plan (\<lambda>p. p\<lparr>sv_nVerts := n, sv_invHSq := i, sv_colorOffsets := [0, n]\<rparr>)"
    by (auto simp: on_plan_def split: prod.splits)
  ultimately show ?thesis unfolding rd_setupMesh_def Let_def by (simp only: append.simps)
qed

lemma effect_cong: "effect m F \<Longrightarrow> (\<And>h. F h = G h) \<Longrightarrow> effect m G"
  by (simp add: effect_def)

lemma effect_gamma:
  "effect (rd_setGammaScale E c) (on_plan (\<lambda>p. p\<lparr>sv_gammaScale := ae_mul E (sv_gammaScale p) c\<rparr>))" (is "effect _ ?F")
proof -
  let ?g = "\<lambda>s. s\<lparr>sv_gammaScale := ae_mul E (sv_gammaScale s) c, av_attachGamma := map (\<lambda>g. ae_mul E g c) (av_attachGamma s),
      av_triGamma := map (\<lambda>g. ae_mul E g c) (av_triGamma s), av_bendGamma := map (\<lambda>g. ae_mul E g c) (av_bendGamma s)\<rparr>"
  have "effect (updA ?g) ?F" by (rule effect_upd) (simp add: hv_simps)
  moreover have "effect (steps [bindR askA (\<lambda>s. steps [update_f32 E F_at_gamma (av_attachGamma s), update_f32 E F_tri_gamma (av_triGamma s),
          update_f32 E F_bd_gamma (av_bendGamma s)])]) (\<lambda>h. h)"
    by (rule effect_keep) (intro keep_calls)
  ultimately show ?thesis unfolding rd_setGammaScale_def Let_def by (rule effect_Cons)
qed

lemma effect_settings:
  "effect (rd_setPenaltyRamp b pmax) (on_plan (\<lambda>p. p\<lparr>sv_beta := b, sv_penaltyMax := pmax\<rparr>))"
  "effect (rd_setDebugStopForTest col stage) (on_plan (\<lambda>p. p\<lparr>sv_dbgColor := col, sv_dbgStage := stage\<rparr>))"
  "effect (rd_setLambdaSnapshotForTest E use) (on_plan (\<lambda>p. p\<lparr>sv_useLambdaSnapshot := use\<rparr>))"
proof -
  have "effect (updA (\<lambda>s. s\<lparr>sv_useLambdaSnapshot := use\<rparr>)) (on_plan (\<lambda>p. p\<lparr>sv_useLambdaSnapshot := use\<rparr>))"
    by (rule effect_upd) (simp add: hv_simps)
  then show "effect (rd_setLambdaSnapshotForTest E use) (on_plan (\<lambda>p. p\<lparr>sv_useLambdaSnapshot := use\<rparr>))"
    unfolding rd_setLambdaSnapshotForTest_def by (rule effect_then [OF _ effect_keep [OF keep_invalidate]])
qed (simp_all add: rd_setPenaltyRamp_def rd_setDebugStopForTest_def effect_upd hv_simps)


subsection \<open>Calls that record\<close>

lemma keep_set_for: "safe any_end (hs h) (set_for E kn c bs) (hs h)"
  unfolding set_for_def Let_def by (intro keep_rules keep_upd) (simp add: hv_simps)

lemma keep_perform: "safe any_end (hs h) (perform E c) (hs h)"
proof (cases c)
  case (Dispatch kn color threads bs)
  show ?thesis unfolding Dispatch perform.simps void_def av_dispatch_def by (intro keep_rules keep_set_for)
next
  case Barrier
  show ?thesis unfolding Barrier perform.simps by (rule keep_dv)
qed

lemma keep_performs: "safe any_end (hs h) (performs E cs) (hs h)"
  unfolding performs_def by (intro keep_rules keep_perform)

lemma keep_copy: "safe any_end (hs h) (copy_buf E f g) (hs h)"
  unfolding copy_buf_def void_def by (intro keep_rules)

lemma keep_ensure: "safe any_end (hs h) (ensure_params E) (hs h)"
  unfolding ensure_params_def colour_params_def Let_def
  by (intro keep_calls keep_upd; simp add: hv_simps)

lemma keep_prologue: "safe any_end (hs h) (prologue E) (hs h)" "safe any_end (hs h) (begin_record E) (hs h)"
proof -
  show p: "safe any_end (hs h) (prologue E) (hs h)"
    unfolding prologue_def by (intro keep_calls keep_ensure)
  show "safe any_end (hs h) (begin_record E) (hs h)" unfolding begin_record_def by (intro keep_rules p)
qed

lemma keep_submit: "safe any_end (hs h) (end_record_and_submit E) (hs h)" "safe any_end (hs h) run_result (hs h)"
  unfolding end_record_and_submit_def run_result_def by (intro keep_rules keep_upd; simp add: hv_simps)+

fun dirty_after :: "act \<Rightarrow> bool \<Rightarrow> bool" where
  "dirty_after Dirty d = True"
| "dirty_after Snapped d = False"
| "dirty_after a d = d"

lemma effect_act: "effect (do_act E a) (\<lambda>(h, d). (h, dirty_after a d))"
proof (cases a)
  case (Cmd c)
  then show ?thesis using effect_cong [OF effect_keep [OF keep_perform, of E c]] by auto
next
  case List_begin
  have "effect (void (dv (list_begin (ae_host E)))) (\<lambda>h. h)" unfolding void_def by (intro effect_keep keep_rules)
  from effect_cong [OF this] show ?thesis using List_begin by auto
next
  case List_end
  then show ?thesis using effect_cong [OF effect_keep [OF keep_dv, of "list_end (ae_host E)"]] by auto
next
  case Dirty
  have "effect mark_lambdas_dirty (\<lambda>(h, d). (h, True))"
    unfolding mark_lambdas_dirty_def by (rule effect_upd) (simp add: hv_simps)
  then show ?thesis using Dirty by simp
next
  case (Copy f g)
  then show ?thesis using effect_cong [OF effect_keep [OF keep_copy, of E f g]] by auto
next
  case Snapped
  have "effect (updA (\<lambda>s. s\<lparr>av_lambdasDirty := False, av_hasStep := True\<rparr>)) (\<lambda>(h, d). (h, False))"
    by (rule effect_upd) (simp add: hv_simps)
  then show ?thesis using Snapped by simp
qed

lemma effect_acts: "effect (do_acts E as) (\<lambda>(h, d). (h, fold dirty_after as d))"
proof (induction as)
  case Nil
  then show ?case by (simp add: do_acts_def steps_Nil effect_def ret_def)
next
  case (Cons a as)
  have "effect (steps (do_act E a # map (do_act E) as)) (\<lambda>h. (\<lambda>(h, d). (h, fold dirty_after as d)) ((\<lambda>(h, d). (h, dirty_after a d)) h))"
    by (rule effect_Cons [OF effect_act Cons.IH [unfolded do_acts_def]])
  then show ?case by (simp add: do_acts_def case_prod_unfold)
qed

lemma dirty_cmds: "fold dirty_after (map Cmd cs) d = d"
  by (induction cs) simp_all

lemma dirty_run: "fold dirty_after (run_acts s iters duals) d \<longleftrightarrow> duals \<and> sv_dbgColor s < 0"
  by (simp add: run_acts_def last_acts_def duals_acts_def dirty_cmds)

text \<open>A call on a solver that is set up records.\<close>

lemma prologue_ok: "prologue E s = (Some ok, t) \<Longrightarrow> ok \<longleftrightarrow> av_ok (fst s) \<and> sv_meshReady (fst s)"
  by (auto simp: prologue_def bindR_def askA_def ret_def thenR_def split: if_splits prod.splits option.splits)

lemma recorded_hv:
  assumes "bindR (prologue E) (\<lambda>ok. if \<not> ok then ret (- 1) else thenR (steps [record_run E iters duals, end_record_and_submit E]) run_result) s =
      (Some r, s')" "av_ok (fst s)" "sv_meshReady (fst s)"
  shows "hv (fst s') = (fst (hv (fst s)), duals \<and> sv_dbgColor (fst s) < 0)"
proof -
  obtain ok t where t: "prologue E s = (Some ok, t)"
    "(if \<not> ok then ret (- 1) else thenR (steps [record_run E iters duals, end_record_and_submit E]) run_result) t = (Some r, s')"
    using assms(1) unfolding bindR_def by (auto split: prod.splits option.splits)
  have ok: "ok" using prologue_ok [OF t(1)] assms(2,3) by simp
  have ht: "hv (fst t) = hv (fst s)" using effect_keep [OF keep_prologue(1), of E] t(1) unfolding effect_def by blast
  have run: "thenR (steps [record_run E iters duals, end_record_and_submit E]) run_result t = (Some r, s')" using t(2) ok by simp
  then obtain u y where u: "record_run E iters duals t = (Some u, y)"
    "thenR (steps [end_record_and_submit E]) run_result y = (Some r, s')"
    unfolding steps_Cons [of "record_run E iters duals"] thenR_def bindR_def by (auto split: prod.splits option.splits)
  have "effect (thenR (steps [end_record_and_submit E]) run_result) (\<lambda>h. h)"
    by (intro effect_keep keep_rules keep_submit)
  then have "hv (fst s') = hv (fst y)" using u(2) unfolding effect_def by blast
  also have "hv (fst y) = (fst (hv (fst t)), duals \<and> sv_dbgColor (fst t) < 0)"
  proof -
    have "do_acts E (run_acts (fst t) iters duals) t = (Some u, y)" using u(1) record_run_acts [of E iters duals t] by simp
    then have "hv (fst y) = (\<lambda>(h, d). (h, fold dirty_after (run_acts (fst t) iters duals) d)) (hv (fst t))"
      using effect_acts [of E "run_acts (fst t) iters duals"] unfolding effect_def by blast
    then show ?thesis by (simp add: dirty_run case_prod_unfold)
  qed
  also have "sv_dbgColor (fst t) = sv_dbgColor (fst s)" using ht by (simp add: hv_simps)
  finally show ?thesis by (simp only: ht)
qed

lemma dual_hv:
  assumes "step_dual E cnt marks c s = (Some r, s')" "av_ok (fst s)" "sv_meshReady (fst s)"
  shows "hv (fst s') = (fst (hv (fst s)), snd (hv (fst s)) \<or> marks \<and> cnt (fst s) \<noteq> 0)"
proof (cases "cnt (fst s) = 0")
  case True
  then show ?thesis using assms(1) by (simp add: step_dual_def bindR_def askA_def ret_def)
next
  case False
  then obtain ok t where t: "begin_record E s = (Some ok, t)"
    "(if \<not> ok then ret (- 1) else thenR (steps [if marks then mark_lambdas_dirty else ret (), bindR askA (\<lambda>s. perform E (c s)),
        end_record_and_submit E]) run_result) t = (Some r, s')"
    using assms(1) unfolding step_dual_def bindR_def askA_def by (auto split: prod.splits option.splits)
  have ok: "ok" using t(1) assms(2,3) prologue_ok [of E s]
    unfolding begin_record_def thenR_def bindR_def ret_def by (auto split: prod.splits option.splits if_splits)
  have ht: "hv (fst t) = hv (fst s)" using effect_keep [OF keep_prologue(2), of E] t(1) unfolding effect_def by blast
  have mark: "effect (if marks then mark_lambdas_dirty else ret ()) (\<lambda>(h, d). (h, d \<or> marks))"
    by (simp add: effect_def mark_lambdas_dirty_def updA_def ret_def hv_simps)
  have rest: "effect (steps [bindR askA (\<lambda>s. perform E (c s)), end_record_and_submit E]) (\<lambda>h. h)"
    by (intro effect_keep keep_rules keep_perform keep_submit)
  have "effect (thenR (steps [if marks then mark_lambdas_dirty else ret (), bindR askA (\<lambda>s. perform E (c s)),
      end_record_and_submit E]) run_result) (\<lambda>h. (\<lambda>h. h) ((\<lambda>(h, d). (h, d \<or> marks)) h))"
    by (rule effect_then [OF effect_Cons [OF mark rest] effect_keep [OF keep_submit(2)]])
  then have "hv (fst s') = (\<lambda>(h, d). (h, d \<or> marks)) (hv (fst t))" using t(2) ok unfolding effect_def by (simp only: simp_thms if_False)
  then show ?thesis using False by (simp add: ht case_prod_unfold)
qed


subsection \<open>Every call\<close>

lemma keep_rest:
  "safe any_end (hs h) (rd_updateState E p q) (hs h)" "safe any_end (hs h) (rd_updateAttachmentFixedPos E fp) (hs h)"
  "safe any_end (hs h) (rd_updateTriangleRest E u k) (hs h)" "safe any_end (hs h) (rd_updateBendingRest E w t k) (hs h)"
  "safe any_end (hs h) (rd_updateAttachmentStiffness E k) (hs h)" "safe any_end (hs h) (rd_updateSelfCollisionRadii E r) (hs h)"
  unfolding rd_updateState_def rd_updateAttachmentFixedPos_def rd_updateTriangleRest_def rd_updateBendingRest_def
    rd_updateAttachmentStiffness_def rd_updateSelfCollisionRadii_def Let_def
  by (intro keep_calls keep_upd; simp add: hv_simps)+

lemma keep_zero: "safe any_end (hs h) (zero_at E f n) (hs h)"
  unfolding zero_at_def by (intro keep_calls)

lemma keep_ensure_backward: "safe any_end (hs h) (ensure_backward_buffers E) (hs h)"
proof -
  have family: "safe any_end (hs h) (back_springs E n) (hs h)" "safe any_end (hs h) (back_attachments E n) (hs h)"
    "safe any_end (hs h) (back_triangles E n) (hs h)" "safe any_end (hs h) (back_bendings E n) (hs h)" for n
    unfolding back_springs_def back_attachments_def back_triangles_def back_bendings_def Let_def
    by (intro keep_calls keep_zero)+
  show ?thesis
    unfolding ensure_backward_buffers_def renew_par_def back_vertex_fields_def list.map append.simps Let_def
    by (intro keep_calls keep_zero family keep_upd; simp add: hv_simps)
qed

lemma keep_prepare: "safe any_end (hs h) (prepare_backward E loss) (hs h)"
  unfolding prepare_backward_def clear_buf_def void_def by (intro keep_calls keep_ensure_backward)

lemma keep_step_backward: "safe any_end (hs h) (avbd_stepBackward E loss) (hs h)"
proof -
  have rec: "safe any_end (hs h) (record_backward E) (hs h)"
    unfolding record_backward_def by (intro keep_rules keep_performs)
  show ?thesis
    unfolding avbd_stepBackward_def void_def by (intro keep_calls keep_prologue keep_prepare rec keep_submit)
qed

lemma keep_reads:
  "safe any_end (hs h) (avbd_readPositions E) (hs h)" "safe any_end (hs h) (read_grads E gs) (hs h)"
  "safe any_end (hs h) (rd_readDebugForTest E name) (hs h)"
proof -
  have bytes: "safe any_end (hs h) (buffer_bytes E b) (hs h)" for b
    unfolding buffer_bytes_def by (intro keep_calls)
  have grad: "safe any_end (hs h) (read_grad E g) (hs h)" for g
    by (cases g) (simp_all add: read_v3_def read_f32_def Let_def, (intro keep_rules bytes)+)
  show "safe any_end (hs h) (avbd_readPositions E) (hs h)"
    unfolding avbd_readPositions_def by (intro keep_rules bytes)
  show "safe any_end (hs h) (read_grads E gs) (hs h)"
    by (induction gs) (simp_all add: safe_ret, intro keep_rules grad)
  show "safe any_end (hs h) (rd_readDebugForTest E name) (hs h)"
    unfolding rd_readDebugForTest_def by (intro keep_rules grad)
qed

lemma keep_self:
  "safe any_end (hs h) (rd_uploadSelfCollisionRadii E r k) (hs h)" "safe any_end (hs h) (rd_submitSelfCollisionScan E) (hs h)"
  "safe any_end (hs h) (rd_collectSelfCollisions E) (hs h)"
  unfolding rd_uploadSelfCollisionRadii_def rd_submitSelfCollisionScan_def rd_collectSelfCollisions_def buffer_bytes_def void_def Let_def
  by (intro keep_calls keep_zero keep_prologue keep_perform keep_submit keep_upd; simp add: hv_simps)+


text \<open>
  What a call does to the members that decide, and to the mark on the duals. A run with its
  reverse pass is left out: it may be refused before the run when the reverse pass lacks buffers.
\<close>

fun op_effect :: "(u32 \<Rightarrow> u32 \<Rightarrow> u32) \<Rightarrow> avbd_op \<Rightarrow>
    (solver \<times> u32 list \<times> u32 list \<times> u32 list \<times> u32 list \<times> bool) \<times> bool \<Rightarrow>
    (solver \<times> u32 list \<times> u32 list \<times> u32 list \<times> u32 list \<times> bool) \<times> bool" where
  "op_effect mul (A_setupMesh n p q m i) h = on_plan (\<lambda>p. p\<lparr>sv_nVerts := n, sv_invHSq := i, sv_colorOffsets := [0, n]\<rparr>) h"
| "op_effect mul (A_uploadSprings n p1 p2 l k) h =
     (case h of ((p, a, b, r), d) \<Rightarrow> ((p\<lparr>sv_nSprings := n\<rparr>, take (unat n) p1, take (unat n) p2, r), d))"
| "op_effect mul (A_uploadAttachments n v f k) h = on_plan (\<lambda>p. p\<lparr>sv_nAttach := n\<rparr>) h"
| "op_effect mul (A_uploadTriangles n t u k) h =
     (case h of ((p, a, b, c, r), d) \<Rightarrow> ((p\<lparr>sv_nTri := n\<rparr>, a, b, take (unat (3 * n)) t, r), d))"
| "op_effect mul (A_uploadBendings n t w tg k) h =
     (case h of ((p, a, b, c, e, r), d) \<Rightarrow> ((p\<lparr>sv_nBend := n\<rparr>, a, b, c, take (unat (4 * n)) t, r), d))"
| "op_effect mul A_buildColoring h =
     (case h of ((p, a, b, c, e, r), d) \<Rightarrow> ((p\<lparr>sv_colorOffsets := map word_of_nat (snd (greedy_coloring (unat (sv_nVerts p))
        (unat (sv_nSprings p)) (map unat a) (map unat b) (unat (sv_nTri p)) (map unat c) (unat (sv_nBend p)) (map unat e)))\<rparr>,
        a, b, c, e, r), d))"
| "op_effect mul (A_setGammaScale g) h = on_plan (\<lambda>p. p\<lparr>sv_gammaScale := mul (sv_gammaScale p) g\<rparr>) h"
| "op_effect mul (A_setPenaltyRamp b pmax) h = on_plan (\<lambda>p. p\<lparr>sv_beta := b, sv_penaltyMax := pmax\<rparr>) h"
| "op_effect mul A_stepDualMembrane h = (fst h, snd h \<or> sv_nTri (fst (fst h)) \<noteq> 0)"
| "op_effect mul A_stepDualBending h = (fst h, snd h \<or> sv_nBend (fst (fst h)) \<noteq> 0)"
| "op_effect mul A_step h = (fst h, False)"
| "op_effect mul (A_run iters duals) h = (if iters < 1 then h else (fst h, duals \<and> sv_dbgColor (fst (fst h)) < 0))"
| "op_effect mul (A_setLambdaSnapshot use) h = on_plan (\<lambda>p. p\<lparr>sv_useLambdaSnapshot := use\<rparr>) h"
| "op_effect mul (A_setDebugStop col stage) h = on_plan (\<lambda>p. p\<lparr>sv_dbgColor := col, sv_dbgStage := stage\<rparr>) h"
| "op_effect mul op1 h = h"

fun runs_backward :: "avbd_op \<Rightarrow> bool" where
  "runs_backward (A_runWithBackward iters duals loss) = True"
| "runs_backward op1 = False"

lemma voidD: "void m s = (Some (), t) \<Longrightarrow> \<exists>r. m s = (Some r, t)"
  by (auto simp: void_def thenR_def bindR_def ret_def split: prod.splits option.splits)

lemma kept_hv: "(\<And>h. safe any_end (hs h) m (hs h)) \<Longrightarrow> m s = (Some x, t) \<Longrightarrow> hv (fst t) = hv (fst s)"
  using effect_keep [of m] unfolding effect_def by blast

lemma effect_hv: "effect m F \<Longrightarrow> m s = (Some x, t) \<Longrightarrow> hv (fst t) = F (hv (fst s))"
  unfolding effect_def by blast

lemma coloring_hv:
  assumes "rd_buildColoring E s = (Some (), t)" "sv_meshReady (fst s)"
  shows "hv (fst t) = op_effect mul A_buildColoring (hv (fst s))"
proof -
  let ?col = "greedy_coloring (unat (sv_nVerts (fst s))) (unat (sv_nSprings (fst s))) (map unat (av_springP1 (fst s)))
    (map unat (av_springP2 (fst s))) (unat (sv_nTri (fst s))) (map unat (av_triIdx (fst s))) (unat (sv_nBend (fst s))) (map unat (av_bendIdx (fst s)))"
  let ?perm = "map word_of_nat (fst ?col)" and ?off = "map word_of_nat (snd ?col)"
  have "effect (steps [wait_pending E, updA (\<lambda>s. s\<lparr>av_vertPerm := ?perm, sv_colorOffsets := ?off\<rparr>),
        void (dv (buffer_update (ae_host E) (gb_rid (av_buf (fst s) F_vertPerm)) 0 (byte_count ?perm) (word_bytes ?perm))),
        updA (\<lambda>s. s\<lparr>av_paramsReady := False\<rparr>), invalidate_sets E]) (on_plan (\<lambda>p. p\<lparr>sv_colorOffsets := ?off\<rparr>))"
    by (rule effect_second)
      ((intro keep_calls)[1], (simp add: hv_simps)[1], (unfold void_def, intro keep_calls keep_upd; simp add: hv_simps))
  from effect_hv [OF this, of s] have "hv (fst t) = on_plan (\<lambda>p. p\<lparr>sv_colorOffsets := ?off\<rparr>) (hv (fst s))"
    using assms by (simp add: rd_buildColoring_def bindR_def askA_def case_prod_unfold Let_def)
  then show ?thesis by (simp add: hv_simps)
qed

lemma rd_op_hv:
  assumes "do_avbd_op E op1 s = (Some (), t)" "\<not> runs_backward op1" "av_ok (fst s)"
    and "(\<exists>n p q m i. op1 = A_setupMesh n p q m i) \<or> sv_meshReady (fst s)"
  shows "hv (fst t) = op_effect (ae_mul E) op1 (hv (fst s))"
proof (cases op1)
  case (A_run iters duals)
  then obtain r where r: "avbd_run E iters duals s = (Some r, t)" using assms(1) voidD by fastforce
  show ?thesis
  proof (cases "iters < 1")
    case True
    then show ?thesis using r A_run by (simp add: avbd_run_def bindR_def askA_def ret_def)
  next
    case False
    then show ?thesis using recorded_hv [of E iters duals s r t] r A_run assms(3,4) by (simp add: avbd_run_def hv_simps)
  qed
next
  case A_step
  then obtain r where "avbd_step E s = (Some r, t)" using assms(1) voidD by fastforce
  then show ?thesis using recorded_hv [of E 1 False s r t] A_step assms(3,4) by (simp add: avbd_step_def)
next
  case A_stepDualAttachments
  then obtain r where "avbd_stepDualAttachments E s = (Some r, t)" using assms(1) voidD by fastforce
  then show ?thesis
    using dual_hv [of E sv_nAttach False _ s r t] A_stepDualAttachments assms(3,4) by (simp add: avbd_stepDualAttachments_def)
next
  case A_stepDualMembrane
  then obtain r where "avbd_stepDualMembrane E s = (Some r, t)" using assms(1) voidD by fastforce
  then show ?thesis
    using dual_hv [of E sv_nTri True _ s r t] A_stepDualMembrane assms(3,4) by (simp add: avbd_stepDualMembrane_def hv_simps)
next
  case A_stepDualBending
  then obtain r where "avbd_stepDualBending E s = (Some r, t)" using assms(1) voidD by fastforce
  then show ?thesis
    using dual_hv [of E sv_nBend True _ s r t] A_stepDualBending assms(3,4) by (simp add: avbd_stepDualBending_def hv_simps)
next
  case A_buildColoring
  then show ?thesis using coloring_hv [of E s t "ae_mul E"] assms(1,4) by simp
next
  case (A_readGrads gs)
  have "safe any_end (hs h) (bindR askA (\<lambda>s. void (read_grads E (gs (solver.truncate s))))) (hs h)" for h
    unfolding void_def by (intro keep_rules keep_reads)
  from kept_hv [OF this] show ?thesis using A_readGrads assms(1) by simp
next
  case (A_setupMesh n p q m i)
  then show ?thesis using effect_hv [OF effect_setupMesh] assms(1) by simp
next
  case (A_uploadSprings n p q l k)
  then show ?thesis using effect_hv [OF effect_springs] assms(1) by (simp add: case_prod_unfold)
next
  case (A_uploadAttachments n v f k)
  then show ?thesis using effect_hv [OF effect_attachments] assms(1) by simp
next
  case (A_uploadTriangles n t u k)
  then show ?thesis using effect_hv [OF effect_triangles] assms(1) by (simp add: case_prod_unfold)
next
  case (A_uploadBendings n b w tg k)
  then show ?thesis using effect_hv [OF effect_bendings] assms(1) by (simp add: case_prod_unfold)
next
  case (A_setGammaScale g)
  then show ?thesis using effect_hv [OF effect_gamma] assms(1) by simp
next
  case (A_setPenaltyRamp b pmax)
  then show ?thesis using effect_hv [OF effect_settings(1)] assms(1) by simp
next
  case (A_setDebugStop col stage)
  then show ?thesis using effect_hv [OF effect_settings(2)] assms(1) by simp
next
  case (A_setLambdaSnapshot use)
  then show ?thesis using effect_hv [OF effect_settings(3)] assms(1) by simp
next
  case (A_updateState p q)
  then show ?thesis using kept_hv [OF keep_rest(1)] assms(1) by simp
next
  case (A_updateAttachmentFixedPos fp)
  then show ?thesis using kept_hv [OF keep_rest(2)] assms(1) by simp
next
  case (A_updateTriangleRest u k)
  then show ?thesis using kept_hv [OF keep_rest(3)] assms(1) by simp
next
  case (A_updateBendingRest w tg k)
  then show ?thesis using kept_hv [OF keep_rest(4)] assms(1) by simp
next
  case (A_updateAttachmentStiffness k)
  then show ?thesis using kept_hv [OF keep_rest(5)] assms(1) by simp
next
  case (A_updateSelfCollisionRadii r)
  then show ?thesis using kept_hv [OF keep_rest(6)] assms(1) by simp
next
  case A_sync
  then show ?thesis using kept_hv [OF keep_basics(1)] assms(1) by simp
next
  case (A_uploadSelfCollisionRadii r k)
  then show ?thesis using kept_hv [OF keep_self(1)] assms(1) by simp
next
  case A_readPositions
  then show ?thesis using assms(1) by simp (blast dest: voidD intro: kept_hv [OF keep_reads(1)])
next
  case (A_stepBackward loss)
  then show ?thesis using assms(1) by simp (blast dest: voidD intro: kept_hv [OF keep_step_backward])
next
  case A_submitSelfCollisionScan
  then show ?thesis using assms(1) by simp (blast dest: voidD intro: kept_hv [OF keep_self(2)])
next
  case A_collectSelfCollisions
  then show ?thesis using assms(1) by simp (blast dest: voidD intro: kept_hv [OF keep_self(3)])
next
  case (A_readDebug name)
  then show ?thesis using assms(1) by simp (blast dest: voidD intro: kept_hv [OF keep_reads(3)])
next
  case (A_setPadFill fill)
  then show ?thesis using assms(1) by (auto simp: rd_setPadFillForTest_def updA_def hv_simps)
next
  case (A_runWithBackward iters duals loss)
  then show ?thesis using assms(2) by simp
qed

end
