(* ===== verification/AvbdTwins.thy ===== *)
theory AvbdTwins
  imports AvbdCalls AvbdBack
begin

text \<open>
  \<open>AvbdCpu\<close> and \<open>AvbdRd\<close> called alike: after any history of the same calls, the members that
  decide what a run does agree, so the next run of one is the next run of the other.
\<close>

section \<open>What the calls do to the members of \<open>AvbdCpu\<close>\<close>

text \<open>What the calls do to the CPU solver.\<close>

fun cpu_op :: "kernels \<Rightarrow> (u32 \<Rightarrow> u32 \<Rightarrow> u32) \<Rightarrow> avbd_op \<Rightarrow> cpu \<Rightarrow> cpu" where
  "cpu_op K mul (A_setupMesh n p q m i) c = cpu_setupMesh n p q m i c"
| "cpu_op K mul (A_uploadSprings n p q l k) c = cpu_uploadSprings n p q l k c"
| "cpu_op K mul (A_uploadAttachments n v f k) c = cpu_uploadAttachments n v f k c"
| "cpu_op K mul (A_uploadTriangles n t u k) c = cpu_uploadTriangles n t u k c"
| "cpu_op K mul (A_uploadBendings n b w t k) c = cpu_uploadBendings n b w t k c"
| "cpu_op K mul A_buildColoring c = cpu_buildColoring c"
| "cpu_op K mul (A_setGammaScale g) c = cpu_setGammaScale mul g c"
| "cpu_op K mul (A_setPenaltyRamp b p) c = cpu_setPenaltyRamp b p c"
| "cpu_op K mul (A_updateState p q) c = cpu_updateState p q c"
| "cpu_op K mul (A_updateAttachmentFixedPos f) c = cpu_updateAttachmentFixedPos f c"
| "cpu_op K mul (A_updateTriangleRest u k) c = cpu_updateTriangleRest mul u k c"
| "cpu_op K mul (A_updateBendingRest w t k) c = cpu_updateBendingRest mul w t k c"
| "cpu_op K mul (A_updateAttachmentStiffness k) c = cpu_updateAttachmentStiffness mul k c"
| "cpu_op K mul (A_updateSelfCollisionRadii r) c = cpu_updateSelfCollisionRadii r c"
| "cpu_op K mul A_step c = snd (cpu_step K c)"
| "cpu_op K mul A_stepDualAttachments c = snd (cpu_stepDualAttachments K c)"
| "cpu_op K mul A_stepDualMembrane c = snd (cpu_stepDualMembrane K c)"
| "cpu_op K mul A_stepDualBending c = snd (cpu_stepDualBending K c)"
| "cpu_op K mul (A_run iters duals) c = snd (cpu_solver_run K iters duals c)"
| "cpu_op K mul (A_stepBackward loss) c = snd (cpu_stepBackward K loss c)"
| "cpu_op K mul (A_runWithBackward iters duals loss) c = snd (cpu_runWithBackward K iters duals loss c)"
| "cpu_op K mul (A_uploadSelfCollisionRadii r k) c = cpu_uploadSelfCollisionRadii r k c"
| "cpu_op K mul A_submitSelfCollisionScan c = snd (cpu_submitSelfCollisionScan K c)"
| "cpu_op K mul (A_setLambdaSnapshot use) c = cpu_setLambdaSnapshotForTest use c"
| "cpu_op K mul (A_setDebugStop col stage) c = cpu_setDebugStopForTest col stage c"
| "cpu_op K mul op1 c = c"

definition cv :: "cpu \<Rightarrow> solver \<times> u32 list \<times> u32 list \<times> u32 list \<times> u32 list \<times> bool" where
  "cv c = (plan_members c, cp_mem c F_sp_p1, cp_mem c F_sp_p2, cp_mem c F_tri_idx, cp_mem c F_bd_idx, True)"

definition conn :: "field set" where "conn = {F_sp_p1, F_sp_p2, F_tri_idx, F_bd_idx}"
definition duals_of :: "field set" where
  "duals_of = {F_tri_l0, F_tri_l1, F_bd_lambda, F_tri_l0Pre, F_tri_l1Pre, F_bd_lambdaPre}"

text \<open>A call that only computes: what a run reads of the members stays, up to the duals.\<close>

lemma lambdas_kept_cong:
  assumes "lambdas_kept d c m" "sv_nTri c' = sv_nTri c" "sv_nBend c' = sv_nBend c" "\<forall>f\<in>duals_of. m' f = m f"
  shows "lambdas_kept d c' m'"
  using assms by (simp add: lambdas_kept_def duals_of_def)

lemma run_kernel_other: "f \<notin> written kn bs \<Longrightarrow> run_kernel K kn n ps bs m f = m f"
  unfolding run_kernel_def by (rule fold_lanes_other)

lemma iteration_conn: "c \<in> set (iteration_cmds s fin) \<Longrightarrow> cmd_written c \<inter> conn = {}"
proof -
  have force: "c \<in> set (force_cmds s k) \<Longrightarrow> cmd_written c \<inter> conn = {}" for k
    by (auto simp: force_cmds_def when_some_def conn_def written_table kBindings_defs split: if_splits)
  have gather: "cmd_written c \<inter> conn = {}"
    if "c \<in> set (gather_spring_cmds s k) \<or> c \<in> set (gather_attachment_cmds s k) \<or> c \<in> set (gather_triangle_cmds s k) \<or>
      c \<in> set (gather_bending_cmds s k) \<or> c \<in> set (solve_cmds s k)" for k
    using that
    by (auto simp: gather_spring_cmds_def gather_attachment_cmds_def gather_triangle_cmds_def gather_bending_cmds_def
        solve_cmds_def when_some_def conn_def written_table kBindings_defs split: if_splits)
  have "c \<in> set (colour_cmds s k u) \<Longrightarrow> cmd_written c \<inter> conn = {}" for k u
    using force [of k] gather [of k] by (fastforce simp: colour_cmds_def split: if_splits)
  moreover have "c \<in> set (colours_cmds s dbg ks) \<Longrightarrow> \<exists>k u. c \<in> set (colour_cmds s k u)" for dbg ks
    by (induction ks) (auto simp: Let_def split: if_splits)
  ultimately show "c \<in> set (iteration_cmds s fin) \<Longrightarrow> cmd_written c \<inter> conn = {}" unfolding iteration_cmds_def by blast
qed

lemma duals_conn: "c \<in> set (duals_cmds s) \<Longrightarrow> cmd_written c \<inter> conn = {}"
  by (auto simp: duals_cmds_def dual_attachment_cmd_def dual_membrane_cmd_def dual_bending_cmd_def when_some_def conn_def
      written_table kBindings_defs split: if_splits)

text \<open>An iteration from the copies it makes, and the dual updates after it.\<close>

lemma cpu_step_keeps:
  assumes "sv_meshReady c"
  obtains m where
    "cpu_step_impl K (if fin \<and> 0 \<le> sv_dbgColor c then sv_dbgColor c else - 1) (if fin \<and> 0 \<le> sv_dbgColor c then sv_dbgStage c else 5) c =
       (0, c\<lparr>cp_mem := m\<rparr>)"
    "\<forall>f\<in>conn. m f = cp_mem c f" "lambdas_kept False c m"
proof -
  let ?m = "exec K c (iteration_cmds c fin) (keep_pre (cp_mem c))"
  have "?m f = cp_mem c f" if "f \<in> conn" for f
  proof -
    have "?m f = keep_pre (cp_mem c) f" using that iteration_conn by (intro exec_other) blast
    then show ?thesis using that by (auto simp: keep_pre_def conn_def)
  qed
  moreover have "?m f = keep_pre (cp_mem c) f" if "f \<in> duals_of" for f
  proof (cases "f \<in> pre_fields")
    case True
    then show ?thesis using touched_not_written [OF iteration_fields(1)] by (intro exec_other) blast
  next
    case False
    then have "f \<in> {F_tri_l0, F_tri_l1, F_bd_lambda}" using that by (auto simp: duals_of_def pre_fields_def)
    then show ?thesis using iteration_fields(2) by (intro exec_other) blast
  qed
  then have "lambdas_kept False c ?m" by (simp add: lambdas_kept_def duals_of_def keep_pre_def)
  ultimately show thesis using that [of ?m] cpu_step_exec [OF assms] by blast
qed

lemma cpu_duals_keep:
  assumes "lambdas_kept d c m"
  shows "\<forall>f\<in>conn. exec K c (duals_cmds c) m f = m f" "lambdas_kept True c (exec K c (duals_cmds c) m)"
proof -
  show "\<forall>f\<in>conn. exec K c (duals_cmds c) m f = m f" using duals_conn by (intro ballI exec_other) blast
  have pre: "exec K c (duals_cmds c) m f = m f" if "f \<in> pre_fields" for f
    using that touched_not_written [OF duals_fields(1)] by (intro exec_other) blast
  have tri: "exec K c (duals_cmds c) m f = m f" if "sv_nTri c = 0" "f \<in> {F_tri_l0, F_tri_l1}" for f
    using that duals_fields(2) by (intro exec_other) blast
  have bd: "exec K c (duals_cmds c) m F_bd_lambda = m F_bd_lambda" if "sv_nBend c = 0"
    using that duals_fields(3) by (intro exec_other) blast
  show "lambdas_kept True c (exec K c (duals_cmds c) m)"
    using assms pre tri bd by (simp add: lambdas_kept_def pre_fields_def)
qed

lemma cpu_run_keeps:
  assumes "sv_meshReady c"
  shows "\<exists>m. snd (cpu_run_from K duals n c) = c\<lparr>cp_mem := m\<rparr> \<and> (\<forall>f\<in>conn. m f = cp_mem c f) \<and>
    (0 < n \<longrightarrow> lambdas_kept (duals \<and> sv_dbgColor c < 0) c m)"
  using assms
proof (induction n arbitrary: c)
  case 0
  show ?case by (rule exI [of _ "cp_mem c"]) simp
next
  case (Suc n)
  let ?last = "n = 0 \<and> 0 \<le> sv_dbgColor c"
  obtain m where m: "cpu_step_impl K (if ?last then sv_dbgColor c else - 1) (if ?last then sv_dbgStage c else 5) c =
       (0, c\<lparr>cp_mem := m\<rparr>)"
    "\<forall>f\<in>conn. m f = cp_mem c f" "lambdas_kept False c m"
    using cpu_step_keeps [OF Suc.prems, of K "n = 0"] by metis
  let ?d = "c\<lparr>cp_mem := m\<rparr>"
  let ?e = "if duals then ?d\<lparr>cp_mem := exec K ?d (duals_cmds ?d) m\<rparr> else ?d"
  have kept: "lambdas_kept False ?d m" using m(3) by (simp add: lambdas_kept_def)
  have e: "\<exists>m'. ?e = c\<lparr>cp_mem := m'\<rparr> \<and> (\<forall>f\<in>conn. m' f = cp_mem c f) \<and> lambdas_kept duals c m'"
    using m(2,3) cpu_duals_keep [OF kept, of K] by (auto simp: lambdas_kept_def)
  have turn: "cpu_run_from K duals (Suc n) c =
     (if ?last then (0, ?d)
      else if duals then let (r, s) = cpu_stepDualAttachments K ?d; (r, s) = cpu_stepDualMembrane K s; (r, s) = cpu_stepDualBending K s
        in cpu_run_from K duals n s
      else cpu_run_from K duals n ?d)"
    unfolding cpu_run_from.simps(2) [of K duals n c] Let_def m(1) prod.case by (simp only: simp_thms if_False)
  have dual: "(let (r, s) = cpu_stepDualAttachments K ?d; (r, s) = cpu_stepDualMembrane K s; (r, s) = cpu_stepDualBending K s
        in cpu_run_from K duals n s) = cpu_run_from K duals n (?d\<lparr>cp_mem := exec K ?d (duals_cmds ?d) (cp_mem ?d)\<rparr>)"
    using Suc.prems by (intro cpu_duals_exec) simp
  have mem: "cp_mem ?d = m" by simp
  show ?case
  proof (cases ?last)
    case True
    have "cpu_run_from K duals (Suc n) c = (0, ?d)" unfolding turn if_P [OF True] ..
    then show ?thesis using True m(2,3) by (intro exI [of _ m]) simp
  next
    case False
    have "cpu_run_from K duals (Suc n) c = cpu_run_from K duals n ?e"
      unfolding turn dual mem if_not_P [OF False] by (simp only: if_distrib [of "cpu_run_from K duals n"])
    then have run: "snd (cpu_run_from K duals (Suc n) c) = snd (cpu_run_from K duals n ?e)" by simp
    obtain m' where m': "?e = c\<lparr>cp_mem := m'\<rparr>" "\<forall>f\<in>conn. m' f = cp_mem c f" "lambdas_kept duals c m'" using e by blast
    show ?thesis
    proof (cases "n = 0")
      case True
      have "snd (cpu_run_from K duals (Suc n) c) = c\<lparr>cp_mem := m'\<rparr>" unfolding run m'(1) by (simp add: True)
      moreover have "lambdas_kept (duals \<and> sv_dbgColor c < 0) c m'" using m'(3) True False by (simp add: not_le)
      ultimately show ?thesis using m'(2) by blast
    next
      case pos: False
      have "sv_meshReady (c\<lparr>cp_mem := m'\<rparr>)" using Suc.prems by simp
      from Suc.IH [OF this] pos obtain m'' where "snd (cpu_run_from K duals n (c\<lparr>cp_mem := m'\<rparr>)) = c\<lparr>cp_mem := m''\<rparr>"
        "\<forall>f\<in>conn. m'' f = m' f" "lambdas_kept (duals \<and> sv_dbgColor c < 0) c m''"
        by (auto simp: lambdas_kept_def simp del: cpu_run_from.simps)
      then show ?thesis unfolding run m'(1) using m'(2) by (intro exI [of _ m'']) simp
    qed
  qed
qed


text \<open>The reverse pass and the scan write neither.\<close>

lemma zero_fields_other: "f \<notin> fst ` set zs \<Longrightarrow> zero_fields zs m f = m f"
  unfolding zero_fields_def by (induction zs arbitrary: m) (auto simp: case_prod_unfold)

lemma back_mem_other:
  assumes "\<not> cotangent f"
  shows "cpu_back_mem K s loss m f = m f"
proof -
  have out: "cotangent g \<Longrightarrow> f \<noteq> g" for g using assms by blast
  have solve: "cpu_back_solve K s m f = m f" for m
    unfolding cpu_back_solve_def by (rule run_kernel_other) (simp add: back_simps out)
  have gathers: "cpu_back_gathers K s m f = m f" for m
    unfolding cpu_back_gathers_def Let_def by (simp add: run_kernel_other back_simps out)
  have forces: "cpu_back_forces K s m f = m f" for m
    unfolding cpu_back_forces_def Let_def by (simp add: run_kernel_other back_simps out)
  have scatter: "cpu_back_scatter K s m f = m f" for m
    unfolding cpu_back_scatter_def Let_def by (simp add: run_kernel_other back_simps out)
  have sax: "cotangent g \<Longrightarrow> cpu_saxpby K g x y n a b m f = m f" for g x y n a b m
    unfolding cpu_saxpby_def by (rule run_kernel_other) (simp add: back_simps out)
  have zeros: "zero_fields (zeroed s) m f = m f" for m
    by (rule zero_fields_other) (use assms in \<open>auto simp: zeroed_def Let_def\<close>)
  show ?thesis
    unfolding cpu_back_mem_def Let_def by (simp add: sax solve gathers forces scatter zeros out)
qed

lemma cv_cong:
  assumes "plan_members c' = plan_members c" "\<forall>f\<in>conn. cp_mem c' f = cp_mem c f"
  shows "cv c' = cv c"
  using assms by (simp add: cv_def conn_def)

lemma members_kept:
  assumes "lambdas_kept d c (cp_mem c)" "plan_members c' = plan_members c" "\<forall>f\<in>conn \<union> duals_of. cp_mem c' f = cp_mem c f"
  shows "cv c' = cv c \<and> lambdas_kept d c' (cp_mem c')"
proof -
  have n: "sv_nTri c' = sv_nTri c" "sv_nBend c' = sv_nBend c" using assms(2) by (simp_all add: plan_simps)
  show ?thesis using cv_cong [OF assms(2)] lambdas_kept_cong [OF assms(1) n] assms(3) by simp
qed

lemma memory_kept:
  assumes "lambdas_kept d c (cp_mem c)" "\<forall>f\<in>conn \<union> duals_of. m f = cp_mem c f"
  shows "cv (c\<lparr>cp_mem := m\<rparr>) = cv c \<and> lambdas_kept d (c\<lparr>cp_mem := m\<rparr>) m"
  using members_kept [OF assms(1), of "c\<lparr>cp_mem := m\<rparr>"] assms(2) by (simp add: plan_simps)

lemma cpu_backward_keeps:
  assumes "lambdas_kept d c (cp_mem c)"
  shows "cv (snd (cpu_stepBackward K loss c)) = cv c \<and>
    lambdas_kept d (snd (cpu_stepBackward K loss c)) (cp_mem (snd (cpu_stepBackward K loss c)))"
  by (rule members_kept [OF assms])
    (auto simp: cpu_stepBackward_def plan_simps conn_def duals_of_def back_mem_other)

lemma cpu_scan_keeps:
  assumes "lambdas_kept d c (cp_mem c)"
  shows "cv (snd (cpu_submitSelfCollisionScan K c)) = cv c \<and>
    lambdas_kept d (snd (cpu_submitSelfCollisionScan K c)) (cp_mem (snd (cpu_submitSelfCollisionScan K c)))"
proof -
  have "written ''self_collision_scan'' [(''positions'', F_positions), (''radii'', F_radii), (''neighbors'', F_neighbors)] \<inter> (conn \<union> duals_of) = {}"
    by (auto simp: written_table kBindings_defs conn_def duals_of_def)
  then show ?thesis
    by (intro members_kept [OF assms] ballI)
      (auto simp: cpu_submitSelfCollisionScan_def plan_simps intro!: run_kernel_other)
qed

lemma cpu_duals_one:
  assumes "lambdas_kept d c (cp_mem c)" "sv_meshReady c"
  shows "cv (snd (cpu_stepDualAttachments K c)) = cv c \<and>
      lambdas_kept d (snd (cpu_stepDualAttachments K c)) (cp_mem (snd (cpu_stepDualAttachments K c)))" (is ?A)
    "cv (snd (cpu_stepDualMembrane K c)) = cv c \<and>
      lambdas_kept (d \<or> sv_nTri c \<noteq> 0) (snd (cpu_stepDualMembrane K c)) (cp_mem (snd (cpu_stepDualMembrane K c)))" (is ?M)
    "cv (snd (cpu_stepDualBending K c)) = cv c \<and>
      lambdas_kept (d \<or> sv_nBend c \<noteq> 0) (snd (cpu_stepDualBending K c)) (cp_mem (snd (cpu_stepDualBending K c)))" (is ?B)
proof -
  have w: "written ''attachment_dual_update'' [(''positions'', F_positions), (''vertIdx'', F_at_vert), (''fixedPos'', F_at_fixed),
      (''gamma'', F_at_gamma), (''lambda'', F_at_lambda)] \<subseteq> {F_at_gamma, F_at_lambda}"
    "written ''triangle_membrane_dual_update'' [(''positions'', F_positions), (''idx'', F_tri_idx), (''gamma'', F_tri_gamma),
      (''lambda0'', F_tri_l0), (''lambda1'', F_tri_l1), (''inv_deltaUV'', F_tri_invuv)] \<subseteq> {F_tri_gamma, F_tri_l0, F_tri_l1}"
    "written ''triangle_bending_dual_update'' [(''positions'', F_positions), (''idx'', F_bd_idx), (''weight'', F_bd_w), (''nTarget'', F_bd_n),
      (''gamma'', F_bd_gamma), (''lambda'', F_bd_lambda)] \<subseteq> {F_bd_gamma, F_bd_lambda}"
    by (auto simp: written_table kBindings_defs)
  note other = run_kernel_other [OF contra_subsetD [OF w(1)]] run_kernel_other [OF contra_subsetD [OF w(2)]]
    run_kernel_other [OF contra_subsetD [OF w(3)]]
  show ?A using assms by (auto simp: cpu_stepDualAttachments_def cv_def plan_simps lambdas_kept_def other)
  show ?M using assms by (auto simp: cpu_stepDualMembrane_def cv_def plan_simps lambdas_kept_def other)
  show ?B using assms by (auto simp: cpu_stepDualBending_def cv_def plan_simps lambdas_kept_def other)
qed


lemma cpu_ready: "sv_meshReady c \<Longrightarrow> sv_meshReady (cpu_op K mul op1 c)" "sv_meshReady (cpu_setupMesh n p q m i c)"
proof -
  have run: "sv_meshReady c \<Longrightarrow> sv_meshReady (snd (cpu_solver_run K iters duals c))" for iters duals c
    unfolding cpu_solver_run_def using cpu_run_keeps [of c K duals "nat iters"] by auto
  have stp: "sv_meshReady c \<Longrightarrow> sv_meshReady (snd (cpu_stepBackward K loss c))" for loss c
    by (simp add: cpu_stepBackward_def)
  show "sv_meshReady c \<Longrightarrow> sv_meshReady (cpu_op K mul op1 c)"
    by (cases op1)
      (auto simp: cpu_setupMesh_def cpu_uploadSprings_def cpu_uploadAttachments_def cpu_uploadTriangles_def cpu_uploadBendings_def
        cpu_buildColoring_def cpu_setGammaScale_def cpu_setPenaltyRamp_def cpu_updateState_def cpu_updateAttachmentFixedPos_def
        cpu_updateTriangleRest_def cpu_updateBendingRest_def cpu_updateAttachmentStiffness_def cpu_updateSelfCollisionRadii_def
        cpu_step_def cpu_step_impl_def cpu_stepDualAttachments_def cpu_stepDualMembrane_def cpu_stepDualBending_def
        cpu_uploadSelfCollisionRadii_def cpu_submitSelfCollisionScan_def cpu_setLambdaSnapshotForTest_def cpu_setDebugStopForTest_def
        cpu_runWithBackward_def scale_gamma_def assign_def zeros_def Let_def case_prod_unfold run stp)
  show "sv_meshReady (cpu_setupMesh n p q m i c)" by (simp add: cpu_setupMesh_def Let_def)
qed

lemmas upload_simps = cv_def plan_simps on_plan_def lambdas_kept_def assign_def zeros_def scale_gamma_def Let_def case_prod_unfold

lemma cpu_op_uploads:
  assumes "lambdas_kept d c (cp_mem c)" "op_effect mul op1 (cv c, d) = (h, d')"
    and "case op1 of A_setupMesh n p q m i \<Rightarrow> True | A_uploadSprings n p q l k \<Rightarrow> True | A_uploadAttachments n v f k \<Rightarrow> True
      | A_uploadTriangles n t u k \<Rightarrow> True | A_uploadBendings n t w tg k \<Rightarrow> True | A_buildColoring \<Rightarrow> True
      | A_setGammaScale g \<Rightarrow> True | _ \<Rightarrow> False"
  shows "cv (cpu_op K mul op1 c) = h \<and> lambdas_kept d' (cpu_op K mul op1 c) (cp_mem (cpu_op K mul op1 c))"
  using assms
  by (cases op1)
    (auto simp: upload_simps cpu_setupMesh_def cpu_uploadSprings_def cpu_uploadAttachments_def cpu_uploadTriangles_def
      cpu_uploadBendings_def cpu_buildColoring_def cpu_setGammaScale_def)

lemma cpu_op_updates:
  assumes "lambdas_kept d c (cp_mem c)" "op_effect mul op1 (cv c, d) = (h, d')"
    and "case op1 of A_setPenaltyRamp b pmax \<Rightarrow> True | A_updateState p q \<Rightarrow> True | A_updateAttachmentFixedPos f \<Rightarrow> True
      | A_updateTriangleRest u k \<Rightarrow> True | A_updateBendingRest w t k \<Rightarrow> True | A_updateAttachmentStiffness k \<Rightarrow> True
      | A_updateSelfCollisionRadii r \<Rightarrow> True | A_setLambdaSnapshot use \<Rightarrow> True | A_setDebugStop col stage \<Rightarrow> True
      | A_uploadSelfCollisionRadii r kk \<Rightarrow> True | A_setPadFill fill \<Rightarrow> True | A_sync \<Rightarrow> True | A_readPositions \<Rightarrow> True
      | A_readGrads gs \<Rightarrow> True | A_collectSelfCollisions \<Rightarrow> True | A_readDebug name \<Rightarrow> True | _ \<Rightarrow> False"
  shows "cv (cpu_op K mul op1 c) = h \<and> lambdas_kept d' (cpu_op K mul op1 c) (cp_mem (cpu_op K mul op1 c))"
  using assms
  by (cases op1)
    (auto simp: upload_simps cpu_setPenaltyRamp_def cpu_updateState_def cpu_updateAttachmentFixedPos_def cpu_updateTriangleRest_def
      cpu_updateBendingRest_def cpu_updateAttachmentStiffness_def cpu_updateSelfCollisionRadii_def cpu_setLambdaSnapshotForTest_def
      cpu_setDebugStopForTest_def cpu_uploadSelfCollisionRadii_def)

lemma cpu_op_runs:
  assumes "lambdas_kept d c (cp_mem c)" "sv_meshReady c"
  shows "op_effect mul A_step (cv c, d) = (h, d') \<Longrightarrow>
      cv (snd (cpu_step K c)) = h \<and> lambdas_kept d' (snd (cpu_step K c)) (cp_mem (snd (cpu_step K c)))"
    "op_effect mul (A_run iters duals) (cv c, d) = (h, d') \<Longrightarrow> cv (snd (cpu_solver_run K iters duals c)) = h \<and>
      lambdas_kept d' (snd (cpu_solver_run K iters duals c)) (cp_mem (snd (cpu_solver_run K iters duals c)))"
proof -
  have frame: "cv (c\<lparr>cp_mem := m\<rparr>) = cv c" if "\<forall>f\<in>conn. m f = cp_mem c f" for m
    using that by (intro cv_cong) (simp_all add: plan_simps)
  have kept: "lambdas_kept b (c\<lparr>cp_mem := m\<rparr>) m \<longleftrightarrow> lambdas_kept b c m" for b m by (simp add: lambdas_kept_def)
  obtain m where m: "cpu_step_impl K (- 1) 5 c = (0, c\<lparr>cp_mem := m\<rparr>)" "\<forall>f\<in>conn. m f = cp_mem c f" "lambdas_kept False c m"
    by (rule cpu_step_keeps [OF assms(2), of K False]) simp
  have "snd (cpu_step K c) = c\<lparr>cp_mem := m\<rparr>" by (simp add: cpu_step_def m(1))
  then show "op_effect mul A_step (cv c, d) = (h, d') \<Longrightarrow>
      cv (snd (cpu_step K c)) = h \<and> lambdas_kept d' (snd (cpu_step K c)) (cp_mem (snd (cpu_step K c)))"
    using m(3) by (simp add: frame [OF m(2)] kept)
  obtain m' where m': "snd (cpu_run_from K duals (nat iters) c) = c\<lparr>cp_mem := m'\<rparr>" "\<forall>f\<in>conn. m' f = cp_mem c f"
    "0 < nat iters \<longrightarrow> lambdas_kept (duals \<and> sv_dbgColor c < 0) c m'"
    using cpu_run_keeps [OF assms(2), of K duals "nat iters"] by (elim exE conjE) (rule that)
  have dbg: "sv_dbgColor (fst (cv c)) = sv_dbgColor c" by (simp add: cv_def plan_simps)
  have run: "snd (cpu_solver_run K iters duals c) = c\<lparr>cp_mem := m'\<rparr>" by (simp only: cpu_solver_run_def m'(1))
  assume op: "op_effect mul (A_run iters duals) (cv c, d) = (h, d')"
  show "cv (snd (cpu_solver_run K iters duals c)) = h \<and>
      lambdas_kept d' (snd (cpu_solver_run K iters duals c)) (cp_mem (snd (cpu_solver_run K iters duals c)))"
  proof (cases "iters < 1")
    case True
    then have "snd (cpu_solver_run K iters duals c) = c" by (simp add: cpu_solver_run_def)
    then show ?thesis using op True assms(1) by simp
  next
    case False
    then have "lambdas_kept (duals \<and> sv_dbgColor c < 0) c m'" using m'(3) by simp
    then show ?thesis using op False frame [OF m'(2)] by (simp add: run kept dbg)
  qed
qed

lemma cpu_op_hv:
  assumes "lambdas_kept d c (cp_mem c)" "op_effect mul op1 (cv c, d) = (h, d')" "\<not> runs_backward op1"
    and "(\<exists>n p q m i. op1 = A_setupMesh n p q m i) \<or> sv_meshReady c"
  shows "cv (cpu_op K mul op1 c) = h \<and> lambdas_kept d' (cpu_op K mul op1 c) (cp_mem (cpu_op K mul op1 c))"
proof -
  have tri: "sv_nTri (fst (cv c)) = sv_nTri c" "sv_nBend (fst (cv c)) = sv_nBend c" by (simp_all add: cv_def plan_simps)
  note uploads = cpu_op_uploads [OF assms(1,2)] and updates = cpu_op_updates [OF assms(1,2)]
  show ?thesis
  proof (cases op1)
    case A_step
    then show ?thesis using cpu_op_runs(1) [OF assms(1) _ assms(2) [unfolded A_step]] assms(4) by simp
  next
    case (A_run iters duals)
    then show ?thesis using cpu_op_runs(2) [OF assms(1) _ assms(2) [unfolded A_run]] assms(4) by simp
  next
    case A_stepDualAttachments
    then show ?thesis using cpu_duals_one(1) [OF assms(1)] assms(2,4) by auto
  next
    case A_stepDualMembrane
    then show ?thesis using cpu_duals_one(2) [OF assms(1)] assms(2,4) by (auto simp: tri)
  next
    case A_stepDualBending
    then show ?thesis using cpu_duals_one(3) [OF assms(1)] assms(2,4) by (auto simp: tri)
  next
    case (A_stepBackward loss)
    then show ?thesis using cpu_backward_keeps [OF assms(1)] assms(2) by simp
  next
    case A_submitSelfCollisionScan
    then show ?thesis using cpu_scan_keeps [OF assms(1)] assms(2) by simp
  next
    case (A_runWithBackward iters duals loss)
    then show ?thesis using assms(3) by simp
  qed ((rule uploads, simp; fail) | (rule updates, simp; fail))+
qed


section \<open>Two solvers called alike\<close>

text \<open>
  The members that decide what a run does are the same, and the copies of the duals are those of
  the duals on the CPU unless \<open>AvbdRd\<close> has marked them.
\<close>

definition twins :: "avbd \<Rightarrow> cpu \<Rightarrow> bool" where
  "twins s c \<longleftrightarrow> av_ok s \<and> (sv_meshReady s \<longrightarrow> sv_meshReady c) \<and> plan_members s = plan_members c \<and>
     av_springP1 s = cp_mem c F_sp_p1 \<and> av_springP2 s = cp_mem c F_sp_p2 \<and> av_triIdx s = cp_mem c F_tri_idx \<and>
     av_bendIdx s = cp_mem c F_bd_idx \<and> lambdas_kept (av_lambdasDirty s) c (cp_mem c)"

lemma twins_hv:
  "twins s c \<longleftrightarrow> fst (hv s) = cv c \<and> lambdas_kept (snd (hv s)) c (cp_mem c) \<and> (sv_meshReady s \<longrightarrow> sv_meshReady c)"
  by (auto simp: twins_def hv_def cv_def)

text \<open>
  The same calls on both: each returns on \<open>AvbdRd\<close>, and the first sets the mesh up, as none but
  \<open>setupMesh\<close> is made on a solver that is not ready.
\<close>

inductive same_calls :: "kernels \<Rightarrow> 'w aenv \<Rightarrow> avbd \<times> 'w \<Rightarrow> cpu \<Rightarrow> avbd \<times> 'w \<Rightarrow> cpu \<Rightarrow> bool" for K and E :: "'w aenv" where
  none: "same_calls K E s c s c"
| call: "do_avbd_op E oper s = (Some (), t) \<Longrightarrow> \<not> runs_backward oper \<Longrightarrow>
    (\<exists>n p q m i. oper = A_setupMesh n p q m i) \<or> sv_meshReady (fst s) \<Longrightarrow>
    same_calls K E t (cpu_op K (ae_mul E) oper c) s' c' \<Longrightarrow> same_calls K E s c s' c'"

lemma twins_call:
  assumes "twins (fst s) c" "do_avbd_op E op1 s = (Some (), t)" "\<not> runs_backward op1"
    and "(\<exists>n p q m i. op1 = A_setupMesh n p q m i) \<or> sv_meshReady (fst s)"
  shows "twins (fst t) (cpu_op K (ae_mul E) op1 c)"
proof -
  have tw: "fst (hv (fst s)) = cv c" "lambdas_kept (snd (hv (fst s))) c (cp_mem c)" "sv_meshReady (fst s) \<Longrightarrow> sv_meshReady c"
    using assms(1) by (simp_all add: twins_hv)
  have ready: "(\<exists>n p q m i. op1 = A_setupMesh n p q m i) \<or> sv_meshReady c" using assms(4) tw(3) by blast
  have "hv (fst t) = op_effect (ae_mul E) op1 (hv (fst s))"
    using assms(1) by (intro rd_op_hv [OF assms(2,3) _ assms(4)]) (simp add: twins_def)
  then have eff: "op_effect (ae_mul E) op1 (cv c, snd (hv (fst s))) = (fst (hv (fst t)), snd (hv (fst t)))"
    using tw(1) by (metis prod.collapse)
  have "sv_meshReady (cpu_op K (ae_mul E) op1 c)" using ready cpu_ready by fastforce
  then show ?thesis using cpu_op_hv [OF tw(2) eff assms(3) ready, of K] by (simp add: twins_hv)
qed

lemma twins_calls: "same_calls K E s c s' c' \<Longrightarrow> twins (fst s) c \<Longrightarrow> twins (fst s') c'"
  by (induction rule: same_calls.induct) (simp_all add: twins_call)

text \<open>Solvers just made are twins.\<close>

lemma constructed_twins:
  assumes "construct E (new_avbd d, w) = (Some (), s)" "av_ok (fst s)"
  shows "twins (fst s) new_cpu"
proof -
  let ?P = "\<lambda>s :: avbd \<times> 'a. hv ((fst s)\<lparr>av_ok := True\<rparr>) = hv ((new_avbd d)\<lparr>av_ok := True\<rparr>) \<and> \<not> sv_meshReady (fst s)"
  have dv: "safe any_end ?P (dv m) ?P" for m
    by (auto simp: safe_def dv_def hv_simps split: prod.splits option.splits)
  have upd: "(\<And>s. hv ((g s)\<lparr>av_ok := True\<rparr>) = hv (s\<lparr>av_ok := True\<rparr>) \<and> sv_meshReady (g s) = sv_meshReady s) \<Longrightarrow> safe any_end ?P (updA g) ?P" for g
    by (simp add: safe_def updA_def)
  note rules = same_askA same_bind same_then same_if same_option same_prod safe_ret dv
  have err: "safe any_end ?P (set_err e) ?P" for e unfolding set_err_def by (rule upd) (simp add: hv_simps)
  have load: "safe any_end ?P (load_kernel E name) ?P" for name
  proof -
    have "safe any_end ?P (bindR (dv (shader_from_spirv (ae_host E) bytes)) (\<lambda>sh.
          if sh = 0 then fail_kernel name
          else bindR (dv (compute_pipeline (ae_host E) sh)) (\<lambda>p.
            if p = 0 then fail_kernel name
            else thenR (updA (\<lambda>s. s\<lparr>av_kernels := map_put name (Rd_kernel sh p desc) (av_kernels s)\<rparr>)) (ret True)))) ?P"
      for bytes desc
      unfolding fail_kernel_def by (intro rules err upd) (simp add: hv_simps)
    then show ?thesis unfolding load_kernel_def
      by (auto intro!: same_then err safe_ret split: option.splits)
  qed
  have "safe any_end ?P (load_from E names) ?P" for names
    by (induction names) (simp_all add: safe_ret, intro rules load)
  then have "safe any_end ?P (construct E) ?P"
    unfolding construct_def load_kernels_def by (intro rules err upd) (simp_all add: hv_simps)
  from safeD [OF this, of "(new_avbd d, w)"] assms(1)
  have P: "hv ((fst s)\<lparr>av_ok := True\<rparr>) = hv ((new_avbd d)\<lparr>av_ok := True\<rparr>)" "\<not> sv_meshReady (fst s)"
    by (simp_all add: new_avbd_def new_solver_def avbd.defs solver.defs)
  have "hv (fst s) = hv ((fst s)\<lparr>av_ok := True\<rparr>)" using assms(2) by (simp add: hv_simps)
  with P show ?thesis
    by (simp add: twins_hv hv_simps cv_def new_avbd_def new_cpu_def new_solver_def avbd.defs cpu.defs solver.defs lambdas_kept_def)
qed


text \<open>The members the calls may set apart have no part in a run.\<close>

abbreviation apart_members :: "bool \<Rightarrow> u32 \<Rightarrow> cpu \<Rightarrow> cpu" where
  "apart_members b k c \<equiv> c\<lparr>sv_backwardReady := b, sv_selfK := k\<rparr>"

lemma colours_apart: "cpu_colours K (apart_members b k c) col stage ks m = cpu_colours K c col stage ks m"
proof -
  have count: "colour_count (apart_members b k c) = colour_count c" "colour_offset (apart_members b k c) = colour_offset c"
    by (simp_all add: colour_count_def colour_offset_def fun_eq_iff)
  have sel: "sv_nVerts (apart_members b k c) = sv_nVerts c" "sv_nSprings (apart_members b k c) = sv_nSprings c"
    "sv_nAttach (apart_members b k c) = sv_nAttach c" "sv_nTri (apart_members b k c) = sv_nTri c"
    "sv_nBend (apart_members b k c) = sv_nBend c" "sv_invHSq (apart_members b k c) = sv_invHSq c"
    by simp_all
  have colour: "cpu_colour K (apart_members b k c) = cpu_colour K c"
    by (intro ext) (unfold cpu_colour_def cpu_forces_def cpu_gather_spring_def cpu_gather_attachment_def
        cpu_gather_triangle_def cpu_gather_bending_def cpu_solve_def count sel, rule refl)
  show ?thesis by (induction ks arbitrary: m) (simp_all add: count colour Let_def)
qed

lemma step_apart: "cpu_step_impl K col stage (apart_members b k c) = map_prod id (apart_members b k) (cpu_step_impl K col stage c)"
  by (simp add: cpu_step_impl_def colours_apart numColors_def)

lemma duals_apart:
  "cpu_stepDualAttachments K (apart_members b k c) = map_prod id (apart_members b k) (cpu_stepDualAttachments K c)"
  "cpu_stepDualMembrane K (apart_members b k c) = map_prod id (apart_members b k) (cpu_stepDualMembrane K c)"
  "cpu_stepDualBending K (apart_members b k c) = map_prod id (apart_members b k) (cpu_stepDualBending K c)"
  by (simp_all add: cpu_stepDualAttachments_def cpu_stepDualMembrane_def cpu_stepDualBending_def)

lemma run_apart: "cpu_run_from K duals n (apart_members b k c) = map_prod id (apart_members b k) (cpu_run_from K duals n c)"
proof (induction n arbitrary: c)
  case (Suc n)
  have dbg: "sv_dbgColor (apart_members b k c) = sv_dbgColor c" "sv_dbgStage (apart_members b k c) = sv_dbgStage c" by simp_all
  show ?case
    unfolding cpu_run_from.simps Let_def dbg step_apart duals_apart
    using Suc.IH by (cases duals) (simp_all add: case_prod_unfold duals_apart)
qed simp

lemma run_mem_apart: "cp_mem (snd (cpu_solver_run K iters duals (apart_members b k c))) = cp_mem (snd (cpu_solver_run K iters duals c))"
  by (simp add: cpu_solver_run_def run_apart)


definition demo_twin :: "device \<Rightarrow> avbd" where
  "demo_twin d = (demo_avbd d)\<lparr>av_ok := True, av_springP1 := [5], av_springP2 := [5], av_triIdx := [5], av_bendIdx := [5]\<rparr>"


end
