(* ===== verification/Spec2Isabelle.thy ===== *)
theory Spec2Isabelle
  imports Prelude MeshWire Topology Jobs Pump GgmlTensor KernelTable RdPack RdMove RdOpsSimple RdOpsDerived Blake3
    HostNames RdDevice RdState RdKernels RdGraph RdOps RdBackend
    ClothGrid ClothBuild ClothTiles ClothCombine
    AvbdTable AvbdSolver AvbdCpu AvbdCpuBack AvbdRd AvbdRdBack AvbdSchedule AvbdRace AvbdEquiv AvbdBack AvbdBinds AvbdSets AvbdBounds
    AvbdCalls AvbdTwins
begin

text \<open>
  The guest of \<open>interactor-dress-on\<close>: the RISC-V programs Godot runs in a sandbox. A guest owns
  no thread and no clock. The host calls it once a frame; it does a bounded piece of work, asks
  for what it needs, and returns. Its only GPU is Godot's RenderingDevice, reached by host
  calls, each of which may kill the call the host is in.

  \<^bold>\<open>The parts, and how they meet.\<close>
  Work is cut into stages by \<open>guest/jobs\<close> (Jobs) or runs as a fiber that \<open>guest/pump\<close> and
  \<open>guest/fiber\<close> resume once a frame (Pump). Meshes cross the boundary in the arrays of
  \<open>guest/common/mesh_wire.h\<close> (MeshWire) and files are checked with \<open>guest/common/blake3.h\<close>
  (Blake3). Every GPU call goes through \<open>guest/rd_compute\<close> (RdDevice), whose method names are
  placed in the sandbox's table (HostNames). On top of it \<open>guest/ggml-rd\<close> is a ggml backend:
  tensors (GgmlTensor) of a graph are packed into params words and launch grids by one packer
  for each op (RdPack, RdMove, RdOpsSimple, RdOpsDerived, found through RdOps) for the kernels
  of KernelTable; pipelines and uniform sets are cached (RdKernels, on the state of RdState);
  the graph is recorded with the barriers its byte ranges need, or run on the CPU (RdGraph);
  ggml sees buffers, a device and a backend (RdBackend).

  Cloth is \<open>guest/avbd\<close>. \<open>cloth_grid\<close> makes meshes (ClothBuild) and takes them apart again: into
  connected pieces with a union-find forest (ClothGrid; its \<open>find\<close> is a partial function that
  ends on the forests the code makes), panels into tiles (ClothTiles), parts joined and parted
  (ClothCombine). The colour passes and gather rows come from \<open>avbd_topology.cpp\<close> (Topology).
  The solver exists twice over one table of kernels (AvbdTable) and one set of members
  (AvbdSolver): \<open>AvbdCpu\<close> runs each kernel's threads one after the other (AvbdCpu,
  AvbdCpuBack); \<open>AvbdRd\<close> keeps buffers, params blocks and uniform sets on the device and records
  dispatches and barriers into compute lists (AvbdRd, AvbdRdBack). AvbdSchedule turns a
  recording into its list of acts, AvbdRace says which threads commute, AvbdEquiv and AvbdBack
  compare the two solvers, AvbdCalls and AvbdTwins do so over any history of the same calls,
  AvbdBinds and AvbdSets follow the cached sets, AvbdBounds the padding.

  \<^bold>\<open>How code is modelled.\<close>
  Machine integers are words of their width (\<open>u8\<close>, \<open>u32\<close>, \<open>u64\<close>; the guest is rv64), wrapping
  as the code does. A struct is a record, an enum a datatype, \<open>std::map\<close> a list of pairs in
  the order of its keys. Guest code with host calls is a \<open>prog\<close>: it gives a result, or \<open>None\<close>
  when the call was killed, and in both cases the state it left. The host itself, float
  arithmetic, the environment, the embedded shaders and the generated CPU kernels are
  parameters. Theorems about any host hold for a killed call as well.

  \<^bold>\<open>What the lemmas show.\<close>
  MeshWire: what is accepted, and round trips. Topology: the rows hold each constraint slot
  once, no colour pass touches a vertex twice. Jobs, Pump: order, bounds and progress of work
  over frames; an invariant over any calls of the host. Blake3: streaming equals hashing at
  once. RdPack to RdOps: every address a packed grid visits is in range, every op's packer
  accepts what its test accepts. RdDevice: no call reaches a device with an open list,
  read-back is exact. RdKernels: no cached set outlives what it binds. RdGraph: the recorded
  list runs the graph in order, with a barrier at each conflict and nowhere else. RdBackend:
  supported nodes are packed, tensor bytes round trip, the live buffers are accounted and
  their address ranges are apart. Cloth: islands are the connected components, tiles cover a
  panel, partitioning undoes combining. Avbd: what \<open>AvbdRd\<close> records leaves what \<open>AvbdCpu\<close>
  computes, in whatever order the GPU mixes threads between barriers, forward and reverse and
  after any history of the same calls; no
  cached set binds a freed buffer; the threads past the end of a dispatch stay in bounds.

  \<^bold>\<open>Interfaces.\<close>
  \<open>machine\<close> (Prelude) is a component driven from outside by a list of calls, with an invariant:
  interpreted for the stage queue, a job, the pump, the set cache and the buffers. \<open>packer\<close>
  (RdPack) is what an op registers: interpreted for every op. \<open>lasting\<close> (RdGraph) is a fact
  about the caches that preparing later dispatches cannot undo.

  \<^bold>\<open>Bounds and fuel.\<close>
  Loops whose turns each take at least a byte (\<open>get_from\<close>, \<open>fill_from\<close>) have as much fuel as
  bytes. The params table doubles until it fits and would never end above 2^31 slots; that it
  returns below is proved, with its fuel, in RdKernels.

  \<^bold>\<open>Not modelled.\<close>
  The host-clock profile and the printed statistics; ggml's structs of function pointers; the
  kernels, which are generated from Lean and are float arithmetic (the cloth solvers take as a
  parameter what a thread of one does to the buffers it binds); the float programs of
  \<open>guest/drape\<close> and \<open>guest/fit\<close>; \<open>guest/usd\<close> and \<open>guest/curvenet\<close>, which are glue
  over libraries; vendored code (except the ggml tensor functions the backend calls), gates,
  probes and tests. Of \<open>AvbdRd\<close> the cached sets are followed through calls that return: an
  upload killed between freeing a buffer and dropping the sets leaves them as they were.
\<close>

end
